(* ===== verification/Net_Prelude.thy ===== *)
theory Net_Prelude
  imports Main "HOL-Library.Word" "HOL-Library.AList"
begin

text \<open>
  Shared vocabulary of the development: machine integers with the checked and saturating
  arithmetic of Rust's standard library, big-endian byte strings, UTF-8 text as bytes, the
  result type of fallible operations, and the generic facts on lists that the components
  use.  The collection \<open>wire\<close> gathers the inversion rules of the byte-level encoders.
\<close>

named_theorems wire \<open>inversion rules of the byte-level encoders and decoders\<close>

text \<open>Lookups in association lists stay lookups: membership in the underlying list is not the normal form.\<close>

declare map_of_eq_Some_iff [simp del] Some_eq_map_of_iff [simp del]

type_synonym u8 = "8 word"
type_synonym u16 = "16 word"
type_synonym u32 = "32 word"
type_synonym u64 = "64 word"
type_synonym byte = "8 word"

text \<open>
  Clock readings and durations are counted in nanoseconds from an arbitrary origin.  Sizes
  (\<open>usize\<close>) are natural numbers: every one of them counts elements held in memory.
\<close>

type_synonym instant = nat
type_synonym duration = nat

text \<open>The version every frame and every command carries.\<close>

definition NETWORK_PROTOCOL_VERSION :: u32 where "NETWORK_PROTOCOL_VERSION = 2"

section \<open>Checked and saturating arithmetic\<close>

definition checked_add :: "'a::len word \<Rightarrow> 'a word \<Rightarrow> 'a word option" where
  "checked_add a b = (if unat a + unat b < 2 ^ LENGTH('a) then Some (a + b) else None)"

definition saturating_add :: "'a::len word \<Rightarrow> 'a word \<Rightarrow> 'a word" where
  "saturating_add a b = (case checked_add a b of Some c \<Rightarrow> c | None \<Rightarrow> - 1)"

definition saturating_sub :: "'a::len word \<Rightarrow> 'a word \<Rightarrow> 'a word" where
  "saturating_sub a b = (if b \<le> a then a - b else 0)"

lemma unat_bound: "unat (a :: 'a::len word) < 2 ^ LENGTH('a)"
  by simp

lemma unat_max_word: "unat (- 1 :: 'a::len word) = 2 ^ LENGTH('a) - 1"
  by (simp add: unsigned_minus_1_eq_mask mask_eq_exp_minus_1)

lemma checked_add_Some:
  "checked_add a (b :: 'a::len word) = Some c \<longleftrightarrow> unat c = unat a + unat b"
proof -
  have sum: "unat (a + b) = unat a + unat b" if "unat a + unat b < 2 ^ LENGTH('a)"
    using that by (simp add: unat_word_ariths)
  have "unat a + unat b < 2 ^ LENGTH('a)" if "unat c = unat a + unat b"
    by (metis that unat_bound)
  with sum show ?thesis
    by (auto simp: checked_add_def word_unat_eq_iff)
qed

lemma checked_add_None:
  "checked_add a (b :: 'a::len word) = None \<longleftrightarrow> 2 ^ LENGTH('a) \<le> unat a + unat b"
  by (auto simp: checked_add_def)

lemma unat_saturating_add:
  "unat (saturating_add a (b :: 'a::len word)) = min (unat a + unat b) (2 ^ LENGTH('a) - 1)"
proof (cases "checked_add a b")
  case None
  then have "2 ^ LENGTH('a) \<le> unat a + unat b"
    by (simp add: checked_add_None)
  with None show ?thesis
    by (simp add: saturating_add_def unat_max_word)
next
  case (Some c)
  then have c: "unat c = unat a + unat b"
    by (simp add: checked_add_Some)
  moreover have "unat c \<le> 2 ^ LENGTH('a) - 1"
    using unat_bound [of c] by linarith
  ultimately show ?thesis
    by (simp add: saturating_add_def Some)
qed

lemma unat_saturating_sub: "unat (saturating_sub a b) = unat a - unat b"
  by (simp add: saturating_sub_def unat_sub word_le_nat_alt)

lemma unat_less_max: "a \<noteq> - 1 \<Longrightarrow> unat (a :: 'a::len word) < 2 ^ LENGTH('a) - 1"
proof -
  assume "a \<noteq> - 1"
  then have "unat a \<noteq> unat (- 1 :: 'a word)"
    by (simp add: word_unat_eq_iff)
  then show ?thesis
    using unat_bound [of a] unat_max_word [where 'a = 'a] by linarith
qed

lemma unat_saturating_add_1:
  "a \<noteq> - 1 \<Longrightarrow> unat (saturating_add a (1 :: 'a::len word)) = unat a + 1"
  using unat_less_max [of a] by (simp add: unat_saturating_add)

lemma saturating_add_1_max: "saturating_add (- 1) (1 :: 'a::len word) = - 1"
  by (simp add: word_unat_eq_iff unat_saturating_add unat_max_word)

lemma saturating_add_ge: "a \<le> saturating_add a b"
  using less_imp_le_nat [OF unat_bound [of a]]
  by (simp add: word_le_nat_alt unat_saturating_add) (use unat_bound [of a] in linarith)

section \<open>Big-endian byte strings\<close>

text \<open>
  \<open>to_be n v\<close> is the \<open>n\<close>-byte big-endian representation produced by \<open>to_be_bytes\<close>, and
  \<open>from_be\<close> the value read by \<open>from_be_bytes\<close>.
\<close>

fun to_be :: "nat \<Rightarrow> nat \<Rightarrow> byte list" where
  "to_be 0 v = []"
| "to_be (Suc n) v = to_be n (v div 256) @ [of_nat v]"

definition from_be :: "byte list \<Rightarrow> nat" where
  "from_be bs = foldl (\<lambda>acc b. acc * 256 + unat b) 0 bs"

lemma length_to_be [simp]: "length (to_be n v) = n"
  by (induction n arbitrary: v) auto

lemma from_be_Nil [simp]: "from_be [] = 0"
  by (simp add: from_be_def)

lemma from_be_snoc [simp]: "from_be (bs @ [b]) = from_be bs * 256 + unat b"
  by (simp add: from_be_def)

lemma from_be_to_be_mod: "from_be (to_be n v) = v mod 256 ^ n"
proof (induction n arbitrary: v)
  case 0
  then show ?case by simp
next
  case (Suc n)
  have "unat (of_nat v :: byte) = v mod 256"
    by (simp add: unat_of_nat)
  then have "from_be (to_be (Suc n) v) = (v div 256 mod 256 ^ n) * 256 + v mod 256"
    by (simp add: Suc)
  also have "\<dots> = v mod (256 * 256 ^ n)"
    by (simp add: mod_mult2_eq)
  finally show ?case by simp
qed

lemma from_be_to_be [wire]: "v < 256 ^ n \<Longrightarrow> from_be (to_be n v) = v"
  by (simp add: from_be_to_be_mod)

lemma from_be_bound: "from_be bs < 256 ^ length bs"
proof (induction bs rule: rev_induct)
  case Nil
  then show ?case by simp
next
  case (snoc b bs)
  have "unat b < 256" using unat_bound [of b] by simp
  with snoc show ?case by simp
qed

lemma to_be_from_be [wire]: "length bs = n \<Longrightarrow> to_be n (from_be bs) = bs"
proof (induction bs arbitrary: n rule: rev_induct)
  case Nil
  then show ?case by simp
next
  case (snoc b bs)
  have b: "unat b < 256" using unat_bound [of b] by simp
  then have "(from_be bs * 256 + unat b) div 256 = from_be bs"
    by simp
  moreover have "unat (of_nat (from_be bs * 256 + unat b) :: byte) = unat b"
    using b by (simp only: unat_of_nat) simp
  then have "(of_nat (from_be bs * 256 + unat b) :: byte) = b"
    by (simp only: word_unat_eq_iff)
  ultimately show ?case
    using snoc by (cases n) auto
qed

lemma to_be_inject: "v < 256 ^ n \<Longrightarrow> w < 256 ^ n \<Longrightarrow> to_be n v = to_be n w \<longleftrightarrow> v = w"
  by (metis from_be_to_be)

text \<open>The fixed widths the wire formats use.\<close>

definition u16_be :: "u16 \<Rightarrow> byte list" where "u16_be w = to_be 2 (unat w)"
definition u32_be :: "u32 \<Rightarrow> byte list" where "u32_be w = to_be 4 (unat w)"
definition u64_be :: "u64 \<Rightarrow> byte list" where "u64_be w = to_be 8 (unat w)"

definition u16_from_be :: "byte list \<Rightarrow> u16" where "u16_from_be bs = of_nat (from_be bs)"
definition u32_from_be :: "byte list \<Rightarrow> u32" where "u32_from_be bs = of_nat (from_be bs)"
definition u64_from_be :: "byte list \<Rightarrow> u64" where "u64_from_be bs = of_nat (from_be bs)"

text \<open>Evaluation of the encoders on literals.\<close>

lemma to_be_2: "to_be 2 v = [of_nat (v div 256), of_nat v]"
proof -
  have "to_be (Suc (Suc 0)) v = [of_nat (v div 256), of_nat v]" by simp
  then show ?thesis by (simp only: numeral_2_eq_2)
qed

lemma to_be_4: "to_be 4 v = to_be 2 (v div 256 div 256) @ to_be 2 v"
proof -
  have "(4::nat) = Suc (Suc 2)" by simp
  then show ?thesis by (simp only: to_be.simps) (simp add: to_be_2)
qed

lemma to_be_8: "to_be 8 v = to_be 4 (v div 256 div 256 div 256 div 256) @ to_be 4 v"
proof -
  have "(8::nat) = Suc (Suc (Suc (Suc 4)))" by simp
  then show ?thesis by (simp only: to_be.simps) (simp add: to_be_2 to_be_4)
qed

lemmas to_be_eval = to_be_2 to_be_4 to_be_8

lemma length_u_be [simp]:
  "length (u16_be a) = 2" "length (u32_be b) = 4" "length (u64_be c) = 8"
  by (simp_all add: u16_be_def u32_be_def u64_be_def)

lemma u16_be_inverse [simp, wire]: "u16_from_be (u16_be w) = w"
  using unat_bound [of w] by (simp add: u16_be_def u16_from_be_def from_be_to_be)

lemma u32_be_inverse [simp, wire]: "u32_from_be (u32_be w) = w"
  using unat_bound [of w] by (simp add: u32_be_def u32_from_be_def from_be_to_be)

lemma u64_be_inverse [simp, wire]: "u64_from_be (u64_be w) = w"
  using unat_bound [of w] by (simp add: u64_be_def u64_from_be_def from_be_to_be)

lemma u16_from_be_inverse [wire]: "length bs = 2 \<Longrightarrow> u16_be (u16_from_be bs) = bs"
  using from_be_bound [of bs]
  by (simp add: u16_be_def u16_from_be_def unat_of_nat to_be_from_be)

lemma u32_from_be_inverse [wire]: "length bs = 4 \<Longrightarrow> u32_be (u32_from_be bs) = bs"
  using from_be_bound [of bs]
  by (simp add: u32_be_def u32_from_be_def unat_of_nat to_be_from_be)

lemma u64_from_be_inverse [wire]: "length bs = 8 \<Longrightarrow> u64_be (u64_from_be bs) = bs"
  using from_be_bound [of bs]
  by (simp add: u64_be_def u64_from_be_def unat_of_nat to_be_from_be)

lemma u64_be_inject [simp]: "u64_be a = u64_be b \<longleftrightarrow> a = b"
  by (metis u64_be_inverse)

lemma u16_be_inject [simp]: "u16_be a = u16_be b \<longleftrightarrow> a = b"
  by (metis u16_be_inverse)

lemma u32_be_inject [simp]: "u32_be a = u32_be b \<longleftrightarrow> a = b"
  by (metis u32_be_inverse)

section \<open>Text\<close>

text \<open>
  A Rust string is a sequence of bytes that is well-formed UTF-8; a HOL \<open>string\<close> is a
  sequence of byte-sized characters, so identifiers are modelled by \<open>string\<close> and
  \<open>str_bytes\<close> is \<open>as_bytes\<close>.  \<open>utf8_valid\<close> is the well-formedness check of
  \<open>std::str::from_utf8\<close> (shortest form, no surrogates, at most U+10FFFF).
\<close>

definition str_bytes :: "string \<Rightarrow> byte list" where
  "str_bytes s = map of_char s"

definition bytes_str :: "byte list \<Rightarrow> string" where
  "bytes_str bs = map (\<lambda>b. char_of (unat b)) bs"

lemma length_str_bytes [simp]: "length (str_bytes s) = length s"
  by (simp add: str_bytes_def)

lemma length_bytes_str [simp]: "length (bytes_str bs) = length bs"
  by (simp add: bytes_str_def)

lemma unat_of_char: "unat (of_char c :: byte) = of_char c"
proof -
  have "(of_char c :: nat) < 256" by simp
  moreover have "(of_char c :: byte) = of_nat (of_char c)"
    by (simp add: of_nat_of_char)
  ultimately show ?thesis
    by (simp add: unat_of_nat)
qed

lemma bytes_str_str_bytes [simp, wire]: "bytes_str (str_bytes s) = s"
  by (induction s) (simp_all add: bytes_str_def str_bytes_def unat_of_char)

lemma str_bytes_bytes_str [simp, wire]: "str_bytes (bytes_str bs) = bs"
proof (induction bs)
  case Nil
  then show ?case by (simp add: bytes_str_def str_bytes_def)
next
  case (Cons b bs)
  have "(of_char (char_of (unat b)) :: nat) = unat b"
    using unat_bound [of b] by simp
  then have "(of_char (char_of (unat b)) :: byte) = b"
    by (metis unat_of_char word_unat_eq_iff)
  with Cons show ?case by (simp add: bytes_str_def str_bytes_def)
qed

lemma str_bytes_inject [simp]: "str_bytes s = str_bytes t \<longleftrightarrow> s = t"
  by (metis bytes_str_str_bytes)

lemma str_bytes_eq_Nil [simp]: "str_bytes s = [] \<longleftrightarrow> s = []"
  by (simp add: str_bytes_def)

definition utf8_cont :: "byte \<Rightarrow> bool" where
  "utf8_cont b \<longleftrightarrow> 0x80 \<le> b \<and> b \<le> 0xBF"

fun utf8_valid :: "byte list \<Rightarrow> bool" where
  "utf8_valid [] = True"
| "utf8_valid (b # bs) =
     (if b \<le> 0x7F then utf8_valid bs
      else if 0xC2 \<le> b \<and> b \<le> 0xDF then
        (case bs of c # r \<Rightarrow> utf8_cont c \<and> utf8_valid r | _ \<Rightarrow> False)
      else if 0xE0 \<le> b \<and> b \<le> 0xEF then
        (case bs of c # d # r \<Rightarrow>
           (if b = 0xE0 then 0xA0 \<le> c \<and> c \<le> 0xBF
            else if b = 0xED then 0x80 \<le> c \<and> c \<le> 0x9F else utf8_cont c)
           \<and> utf8_cont d \<and> utf8_valid r
         | _ \<Rightarrow> False)
      else if 0xF0 \<le> b \<and> b \<le> 0xF4 then
        (case bs of c # d # e # r \<Rightarrow>
           (if b = 0xF0 then 0x90 \<le> c \<and> c \<le> 0xBF
            else if b = 0xF4 then 0x80 \<le> c \<and> c \<le> 0x8F else utf8_cont c)
           \<and> utf8_cont d \<and> utf8_cont e \<and> utf8_valid r
         | _ \<Rightarrow> False)
      else False)"

definition from_utf8 :: "byte list \<Rightarrow> string option" where
  "from_utf8 bs = (if utf8_valid bs then Some (bytes_str bs) else None)"

abbreviation is_str :: "string \<Rightarrow> bool" where
  "is_str s \<equiv> utf8_valid (str_bytes s)"

lemma from_utf8_iff: "from_utf8 bs = Some s \<longleftrightarrow> is_str s \<and> bs = str_bytes s"
  by (auto simp: from_utf8_def)

lemma from_utf8_str_bytes: "is_str s \<Longrightarrow> from_utf8 (str_bytes s) = Some s"
  by (simp add: from_utf8_iff)

section \<open>Results\<close>

text \<open>The \<^verbatim>\<open>?\<close> operator of Rust on results, and \<^verbatim>\<open>map_err\<close>.\<close>

definition try_bind :: "('e + 'a) \<Rightarrow> ('a \<Rightarrow> 'e + 'b) \<Rightarrow> 'e + 'b" where
  "try_bind m f = (case m of Inl e \<Rightarrow> Inl e | Inr x \<Rightarrow> f x)"

definition map_err :: "('e \<Rightarrow> 'g) \<Rightarrow> ('e + 'a) \<Rightarrow> 'g + 'a" where
  "map_err f = map_sum f id"

lemma try_bind_simps [simp]: "try_bind (Inl e) f = Inl e" "try_bind (Inr x) f = f x"
  by (simp_all add: try_bind_def)

lemma try_bind_Inr: "try_bind m f = Inr y \<longleftrightarrow> (\<exists>x. m = Inr x \<and> f x = Inr y)"
  by (cases m) auto

lemma map_err_simps [simp]:
  "map_err f (Inl e) = Inl (f e)" "map_err f (Inr x) = Inr x" "map_err f m = Inr x \<longleftrightarrow> m = Inr x"
  by (cases m; simp add: map_err_def)+

text \<open>The same for operations that also change a state, which an early return keeps.\<close>

definition and_then :: "('e + 'a) \<times> 's \<Rightarrow> ('a \<Rightarrow> 's \<Rightarrow> ('e + 'b) \<times> 's) \<Rightarrow> ('e + 'b) \<times> 's" where
  "and_then x k = (case x of (Inl e, s) \<Rightarrow> (Inl e, s) | (Inr a, s) \<Rightarrow> k a s)"

lemma and_then_simps [simp]:
  "and_then (Inl e, s) k = (Inl e, s)" "and_then (Inr a, s) k = k a s"
  by (simp_all add: and_then_def)

lemma snd_and_then: "snd (and_then x k) = (case fst x of Inl _ \<Rightarrow> snd x | Inr a \<Rightarrow> snd (k a (snd x)))"
  by (auto simp: and_then_def split: prod.split sum.split)

lemma if_Inl_Inr: "(if b then Inl e else m) = Inr y \<longleftrightarrow> \<not> b \<and> m = Inr y"
  by simp

section \<open>Codecs\<close>

text \<open>
  The contract of a wire codec: on values of the Rust type (\<open>typed\<close>: well-formed text,
  lengths that fit their field) decoding inverts encoding, and a decoder accepts only the
  bytes that the encoder writes.
\<close>

locale wire_codec =
  fixes enc :: "'a \<Rightarrow> 'e + byte list"
    and dec :: "byte list \<Rightarrow> 'e + 'a"
    and typed :: "'a \<Rightarrow> bool"
  assumes dec_enc: "typed x \<Longrightarrow> enc x = Inr b \<Longrightarrow> dec b = Inr x"
    and enc_dec: "dec b = Inr x \<Longrightarrow> typed x \<and> enc x = Inr b"
begin

lemma accepts_iff: "dec b = Inr x \<longleftrightarrow> typed x \<and> enc x = Inr b"
  using dec_enc enc_dec by blast

lemma enc_inject: "typed x \<Longrightarrow> typed y \<Longrightarrow> enc x = Inr b \<Longrightarrow> enc y = Inr b \<Longrightarrow> x = y"
  using dec_enc [of x b] dec_enc [of y b] by simp

end

section \<open>Lists\<close>

lemma map_upt_split: "map f [0..<m + n] = map f [0..<m] @ map (\<lambda>i. f (m + i)) [0..<n]"
  by (induction n) auto

lemma sum_list_filter_le: "sum_list (map f (filter P xs)) \<le> sum_list (map (f :: _ \<Rightarrow> nat) xs)"
  by (induction xs) auto

lemma append_eq_by_length:
  "length xs = length us \<Longrightarrow> xs @ ys = us @ vs \<longleftrightarrow> xs = us \<and> ys = vs"
  by simp

end
