(* ===== verification/Containers.thy ===== *)
theory Containers
  imports Net_Prelude
begin

text \<open>
  Containers of the Rust standard library that the components keep their state in, and the
  interfaces their proofs rest on.  A \<open>HashMap\<close> is an association list with distinct keys;
  its size is the length of the list.  Where the source depends on the iteration order of
  a hash map, the operation takes that order as an argument.  Three interfaces are stated
  as locales: finite maps, first-in-first-out windows of bounded size, and event-driven
  systems with an invariant.
\<close>

section \<open>Finite maps\<close>

type_synonym ('k, 'v) hmap = "('k \<times> 'v) list"

definition hm_insert :: "'k \<Rightarrow> 'v \<Rightarrow> ('k, 'v) hmap \<Rightarrow> ('k, 'v) hmap" where
  "hm_insert k v m = AList.update k v m"

definition hm_remove :: "'k \<Rightarrow> ('k, 'v) hmap \<Rightarrow> ('k, 'v) hmap" where
  "hm_remove k m = AList.delete k m"

definition hm_retain :: "('k \<Rightarrow> 'v \<Rightarrow> bool) \<Rightarrow> ('k, 'v) hmap \<Rightarrow> ('k, 'v) hmap" where
  "hm_retain P m = filter (\<lambda>(k, v). P k v) m"

text \<open>In-place update of the values, as done through \<open>get_mut\<close> and \<open>values_mut\<close>.\<close>

definition hm_modify :: "'k \<Rightarrow> ('v \<Rightarrow> 'v) \<Rightarrow> ('k, 'v) hmap \<Rightarrow> ('k, 'v) hmap" where
  "hm_modify k f m = map (\<lambda>(k', v). (k', if k' = k then f v else v)) m"

definition hm_map :: "('k \<Rightarrow> 'v \<Rightarrow> 'v) \<Rightarrow> ('k, 'v) hmap \<Rightarrow> ('k, 'v) hmap" where
  "hm_map f m = map (\<lambda>(k, v). (k, f k v)) m"

abbreviation hm_get :: "('k, 'v) hmap \<Rightarrow> 'k \<Rightarrow> 'v option" where
  "hm_get \<equiv> map_of"

abbreviation hm_contains :: "('k, 'v) hmap \<Rightarrow> 'k \<Rightarrow> bool" where
  "hm_contains m k \<equiv> map_of m k \<noteq> None"

abbreviation hm_wf :: "('k, 'v) hmap \<Rightarrow> bool" where
  "hm_wf m \<equiv> distinct (map fst m)"

lemma hm_get_insert [simp]: "hm_get (hm_insert k v m) = (hm_get m)(k \<mapsto> v)"
  by (simp add: hm_insert_def update_conv')

lemma hm_get_remove [simp]: "hm_get (hm_remove k m) = (hm_get m)(k := None)"
  by (simp add: hm_remove_def delete_conv')

lemma hm_wf_insert [simp]: "hm_wf m \<Longrightarrow> hm_wf (hm_insert k v m)"
  by (simp add: hm_insert_def distinct_update)

lemma hm_wf_remove [simp]: "hm_wf m \<Longrightarrow> hm_wf (hm_remove k m)"
  by (simp add: hm_remove_def distinct_delete)

lemma hm_wf_retain [simp]: "hm_wf m \<Longrightarrow> hm_wf (hm_retain P m)"
  by (simp add: hm_retain_def distinct_map_filter)

lemma map_fst_hm_modify [simp]: "map fst (hm_modify k f m) = map fst m"
  by (induction m) (auto simp: hm_modify_def)

lemma map_fst_hm_map [simp]: "map fst (hm_map f m) = map fst m"
  by (induction m) (auto simp: hm_map_def)

lemma hm_get_modify [simp]:
  "hm_get (hm_modify k f m) k' = (if k' = k then map_option f (hm_get m k) else hm_get m k')"
  by (induction m) (auto simp: hm_modify_def)

lemma hm_get_map [simp]: "hm_get (hm_map f m) k = map_option (f k) (hm_get m k)"
  by (induction m) (auto simp: hm_map_def)

lemma length_hm_modify [simp]: "length (hm_modify k f m) = length m"
  by (simp add: hm_modify_def)

lemma length_hm_map [simp]: "length (hm_map f m) = length m"
  by (simp add: hm_map_def)

lemma hm_get_retain:
  "hm_wf m \<Longrightarrow> hm_get (hm_retain P m) k =
     (case hm_get m k of Some v \<Rightarrow> if P k v then Some v else None | None \<Rightarrow> None)"
  by (induction m) (auto simp: hm_retain_def map_of_eq_None_iff image_iff split: option.splits)

lemma hm_get_retain_SomeD: "hm_wf m \<Longrightarrow> hm_get (hm_retain P m) k = Some v \<Longrightarrow>
    hm_get m k = Some v \<and> P k v"
  by (auto simp: hm_get_retain split: option.splits if_splits)

lemma length_hm_retain: "length (hm_retain P m) \<le> length m"
  by (simp add: hm_retain_def)

lemma length_hm_insert:
  "length (hm_insert k v m) = (if hm_contains m k then length m else Suc (length m))"
  by (induction m) (auto simp: hm_insert_def)

lemma length_hm_remove:
  "hm_wf m \<Longrightarrow> length (hm_remove k m) = (if hm_contains m k then length m - 1 else length m)"
proof (induction m)
  case Nil
  then show ?case by (simp add: hm_remove_def)
next
  case (Cons p m)
  have "AList.delete (fst p) m = m"
    using Cons.prems by (simp add: delete_id)
  moreover have "m \<noteq> []" if "hm_get m k = Some v" for v
    using that by auto
  ultimately show ?case
    using Cons by (cases p) (auto simp: hm_remove_def neq_Nil_conv)
qed

lemma hm_insert_new: "hm_get m k = None \<Longrightarrow> hm_insert k v m = m @ [(k, v)]"
  by (induction m) (auto simp: hm_insert_def split: if_splits)

lemma hm_remove_absent: "hm_get m k = None \<Longrightarrow> hm_remove k m = m"
  by (simp add: hm_remove_def map_of_eq_None_iff delete_id)

lemma hm_get_Some_in: "hm_get m k = Some v \<Longrightarrow> (k, v) \<in> set m"
  by (rule map_of_SomeD)

lemma hm_in_get: "hm_wf m \<Longrightarrow> (k, v) \<in> set m \<Longrightarrow> hm_get m k = Some v"
  by simp

text \<open>A numeric measure summed over the entries, as kept by the byte counters.\<close>

definition hm_sum :: "('v \<Rightarrow> nat) \<Rightarrow> ('k, 'v) hmap \<Rightarrow> nat" where
  "hm_sum f m = sum_list (map (\<lambda>(k, v). f v) m)"

lemma hm_sum_Nil [simp]: "hm_sum f [] = 0"
  by (simp add: hm_sum_def)

lemma hm_sum_insert_new: "hm_get m k = None \<Longrightarrow> hm_sum f (hm_insert k v m) = hm_sum f m + f v"
  by (simp add: hm_insert_new hm_sum_def)

lemma hm_sum_remove:
  "hm_wf m \<Longrightarrow> hm_get m k = Some v \<Longrightarrow> hm_sum f m = hm_sum f (hm_remove k m) + f v"
proof (induction m)
  case Nil
  then show ?case by simp
next
  case (Cons p m)
  have "AList.delete (fst p) m = m"
    using Cons.prems by (simp add: delete_id)
  then show ?case
    using Cons by (cases p) (auto simp: hm_remove_def hm_sum_def split: if_splits)
qed

lemma hm_sum_modify_same:
  "(\<And>v. f (g v) = f v) \<Longrightarrow> hm_sum f (hm_modify k g m) = hm_sum f m"
  by (induction m) (auto simp: hm_modify_def hm_sum_def)

lemma hm_sum_map_same:
  "(\<And>k v. f (g k v) = f v) \<Longrightarrow> hm_sum f (hm_map g m) = hm_sum f m"
  by (induction m) (auto simp: hm_map_def hm_sum_def)

text \<open>The interface: what an insertion and a removal promise to a client.\<close>

locale finite_map =
  fixes empty :: 'm
    and get :: "'m \<Rightarrow> 'k \<Rightarrow> 'v option"
    and ins :: "'k \<Rightarrow> 'v \<Rightarrow> 'm \<Rightarrow> 'm"
    and del :: "'k \<Rightarrow> 'm \<Rightarrow> 'm"
    and count :: "'m \<Rightarrow> nat"
    and wf :: "'m \<Rightarrow> bool"
  assumes get_empty: "get empty k = None"
    and get_ins: "wf m \<Longrightarrow> get (ins k v m) = (get m)(k \<mapsto> v)"
    and get_del: "wf m \<Longrightarrow> get (del k m) = (get m)(k := None)"
    and wf_empty: "wf empty"
    and wf_ins: "wf m \<Longrightarrow> wf (ins k v m)"
    and wf_del: "wf m \<Longrightarrow> wf (del k m)"
    and count_empty: "count empty = 0"
    and count_ins: "wf m \<Longrightarrow>
          count (ins k v m) = (if get m k = None then Suc (count m) else count m)"
    and count_del: "wf m \<Longrightarrow> count (del k m) = (if get m k = None then count m else count m - 1)"
begin

lemma guarded_ins_bound:
  assumes "wf m" "count m \<le> cap" "get m k \<noteq> None \<or> count m < cap"
  shows "count (ins k v m) \<le> cap"
  using assms by (auto simp: count_ins)

lemma del_bound: "wf m \<Longrightarrow> count m \<le> cap \<Longrightarrow> count (del k m) \<le> cap"
  by (auto simp: count_del)

lemma evict_then_ins_bound:
  assumes "wf m" "get m victim \<noteq> None" "count m \<le> cap" "0 < cap"
  shows "count (ins k v (del victim m)) \<le> cap"
  using assms by (auto simp: count_ins count_del wf_del get_del)

lemma ins_del_absent: "wf m \<Longrightarrow> get (del k (ins k v m)) = (get m)(k := None)"
  by (simp add: get_ins get_del wf_ins)

end

interpretation hm: finite_map "[]" hm_get hm_insert hm_remove length hm_wf
  by unfold_locales (auto simp: length_hm_insert length_hm_remove)

section \<open>Bounded first-in-first-out windows\<close>

text \<open>
  A window remembers the most recent elements it was given, oldest first, and forgets the
  oldest ones beyond its capacity.  The replay windows of the crypto context and the
  completed-command history of the command ledger are such windows.
\<close>

locale fifo_window =
  fixes items :: "'w \<Rightarrow> 'a list"
    and mem :: "'w \<Rightarrow> 'a \<Rightarrow> bool"
    and push :: "'a \<Rightarrow> 'w \<Rightarrow> 'w"
    and cap :: "'w \<Rightarrow> nat"
    and wf :: "'w \<Rightarrow> bool"
  assumes mem_items: "wf w \<Longrightarrow> mem w x \<longleftrightarrow> x \<in> set (items w)"
    and items_push: "wf w \<Longrightarrow> \<not> mem w x \<Longrightarrow>
          items (push x w) = drop (length (items w) + 1 - cap w) (items w @ [x])"
    and cap_push: "cap (push x w) = cap w"
    and wf_push: "wf w \<Longrightarrow> \<not> mem w x \<Longrightarrow> wf (push x w)"
    and wf_distinct: "wf w \<Longrightarrow> distinct (items w)"
    and wf_length: "wf w \<Longrightarrow> length (items w) \<le> cap w"
    and wf_cap: "wf w \<Longrightarrow> 0 < cap w"
begin

lemma push_mem: "wf w \<Longrightarrow> \<not> mem w x \<Longrightarrow> mem (push x w) x"
  using wf_cap [of w] by (simp add: mem_items items_push wf_push)

lemma fold_push:
  "wf w \<Longrightarrow> distinct (items w @ xs) \<Longrightarrow>
     wf (fold push xs w) \<and> cap (fold push xs w) = cap w \<and>
     items (fold push xs w) =
       drop (length (items w) + length xs - cap w) (items w @ xs)"
proof (induction xs arbitrary: w)
  case Nil
  then show ?case using wf_length [of w] by simp
next
  case (Cons x xs)
  let ?d = "length (items w) + 1 - cap w"
  have fresh: "\<not> mem w x"
    using Cons.prems by (simp add: mem_items)
  have it: "items (push x w) = drop ?d (items w @ [x])"
    using Cons.prems fresh by (simp add: items_push)
  have dle: "?d \<le> Suc 0" using wf_length [of w] Cons.prems by simp
  then have "drop ?d (items w @ [x]) @ xs = drop ?d ((items w @ [x]) @ xs)"
    by (simp only: drop_append) simp
  then have eq: "items (push x w) @ xs = drop ?d (items w @ x # xs)"
    by (simp add: it)
  then have "distinct (items (push x w) @ xs)"
    using Cons.prems by (metis distinct_drop)
  then have ih: "wf (fold push xs (push x w)) \<and> cap (fold push xs (push x w)) = cap (push x w) \<and>
     items (fold push xs (push x w)) =
       drop (length (items (push x w)) + length xs - cap (push x w)) (items (push x w) @ xs)"
    using Cons.prems fresh by (intro Cons.IH) (simp_all add: wf_push)
  then have "items (fold push (x # xs) w) =
      drop (length (items (push x w)) + length xs - cap w + ?d) (items w @ x # xs)"
    unfolding eq cap_push fold_simps drop_drop by blast
  moreover have "length (items (push x w)) + length xs - cap w + ?d =
      length (items w) + length (x # xs) - cap w"
    using dle wf_length [of w] Cons.prems by (simp add: it)
  ultimately show ?case
    using ih by (simp only: cap_push fold_simps)
qed

lemma push_recent:
  assumes "wf w" "\<not> mem w y" "items w = xs @ x # ys" "length ys + 1 < cap w"
  shows "\<exists>xs'. items (push y w) = xs' @ x # ys @ [y]"
proof -
  let ?d = "length (items w) + 1 - cap w"
  have "?d \<le> length xs" using assms(3,4) by simp
  then have "drop ?d (items w @ [y]) = drop ?d xs @ x # ys @ [y]"
    unfolding assms(3) by simp
  then show ?thesis using items_push [OF assms(1,2)] by metis
qed

text \<open>An element survives fewer than \<open>cap\<close> further distinct insertions, and no more.\<close>

lemma push_retained:
  assumes "wf w" "\<not> mem w x" "distinct (items (push x w) @ xs)" "length xs < cap w"
  shows "mem (fold push xs (push x w)) x"
proof -
  let ?w = "push x w"
  have w': "wf ?w" using assms by (simp add: wf_push)
  have f: "wf (fold push xs ?w)"
      "items (fold push xs ?w) = drop (length (items ?w) + length xs - cap w) (items ?w @ xs)"
    using fold_push [OF w' assms(3)] by (simp_all add: cap_push)
  obtain ys where ys: "items ?w = ys @ [x]"
    using assms wf_cap [of w] by (simp add: items_push)
  have "length (items ?w) + length xs - cap w \<le> length ys"
    using ys assms(4) wf_length [OF w'] by (simp add: cap_push)
  then show ?thesis
    using f by (simp add: mem_items ys)
qed

lemma push_forgotten:
  assumes "wf w" "\<not> mem w x" "distinct (items (push x w) @ xs)" "cap w \<le> length xs"
  shows "\<not> mem (fold push xs (push x w)) x"
proof -
  let ?w = "push x w"
  have w': "wf ?w" using assms by (simp add: wf_push)
  have f: "wf (fold push xs ?w)"
      "items (fold push xs ?w) = drop (length (items ?w) + length xs - cap w) (items ?w @ xs)"
    using fold_push [OF w' assms(3)] by (simp_all add: cap_push)
  have "x \<in> set (items ?w)"
    using push_mem [OF assms(1,2)] w' by (simp add: mem_items)
  then have "x \<notin> set xs" using assms(3) by auto
  moreover have "set (items (fold push xs ?w)) \<subseteq> set xs"
    using f(2) assms(4) by (auto dest: in_set_dropD)
  ultimately show ?thesis using f(1) by (auto simp: mem_items)
qed

end

section \<open>Event-driven systems\<close>

text \<open>
  A component is a step function over events.  An invariant of every single step holds
  after every finite sequence of steps; a predicate on states that every step keeps once it
  holds (a terminal phase, a tombstone) holds for ever after.
\<close>

locale invariant_system =
  fixes step :: "'e \<Rightarrow> 's \<Rightarrow> 's"
    and inv :: "'s \<Rightarrow> bool"
  assumes step_inv: "inv s \<Longrightarrow> inv (step e s)"
begin

lemma run_inv: "inv s \<Longrightarrow> inv (fold step es s)"
  by (induction es arbitrary: s) (simp_all add: step_inv)

end

locale absorbing_system = invariant_system +
  fixes final :: "'s \<Rightarrow> bool"
  assumes step_final: "inv s \<Longrightarrow> final s \<Longrightarrow> final (step e s)"
begin

lemma run_final: "inv s \<Longrightarrow> final s \<Longrightarrow> final (fold step es s)"
  by (induction es arbitrary: s) (simp_all add: step_inv step_final)

end

end
