(* ===== verification/Session_Admission.thy ===== *)
theory Session_Admission
  imports Containers
begin

text \<open>
  \<^verbatim>\<open>network-core/src/session.rs\<close>: the store of connection identities.  Every transport
  connection gets a fresh \<open>SessionId\<close>; the store decides which of several racing
  authenticated candidates may install its crypto root.  The operations are modelled over
  the map of admissions, and shown to implement an abstract machine with one slot per peer.
  The identity drawn by \<open>SessionId::new\<close> is an argument \<open>fresh\<close>.
\<close>

section \<open>Data\<close>

type_synonym session_id = "byte list"

datatype session_crypto_decision = Initialize | ReplaceWithNew

record connection_admission =
  session_id :: session_id
  decision :: session_crypto_decision
  replaced_session_id :: "session_id option"

datatype connection_admission_error = StaleSession | InvalidRemoteBinding

datatype admission_phase = Reserved | Claimed | Authenticated

record session_admission =
  adm_id :: session_id
  remote_session_binding :: "string option"
  phase :: admission_phase

type_synonym session_store = "(string, session_admission) hmap"

section \<open>Operations\<close>

definition register_pending_session ::
  "string \<Rightarrow> session_id \<Rightarrow> session_store \<Rightarrow> (connection_admission_error + unit) \<times> session_store" where
  "register_pending_session peer sid st =
     (if hm_contains st peer then (Inl StaleSession, st)
      else (Inr (), hm_insert peer
              \<lparr>adm_id = sid, remote_session_binding = None, phase = Reserved\<rparr> st))"

definition current_session_id :: "string \<Rightarrow> session_store \<Rightarrow> session_id option" where
  "current_session_id peer st = map_option adm_id (hm_get st peer)"

definition current_remote_session_binding :: "string \<Rightarrow> session_store \<Rightarrow> string option" where
  "current_remote_session_binding peer st = Option.bind (hm_get st peer) remote_session_binding"

definition is_current_session :: "string \<Rightarrow> session_id \<Rightarrow> session_store \<Rightarrow> bool" where
  "is_current_session peer sid st =
     (case hm_get st peer of None \<Rightarrow> False | Some s \<Rightarrow> adm_id s = sid)"

definition admit_authenticated_session ::
  "session_id \<Rightarrow> string \<Rightarrow> session_id option \<Rightarrow> string \<Rightarrow> session_store \<Rightarrow>
     (connection_admission_error + connection_admission) \<times> session_store" where
  "admit_authenticated_session fresh peer expected binding st =
     (if binding = [] then (Inl InvalidRemoteBinding, st)
      else case hm_get st peer of
        None \<Rightarrow>
          (if expected \<noteq> None then (Inl StaleSession, st)
           else (Inr \<lparr>session_id = fresh, decision = Initialize, replaced_session_id = None\<rparr>,
                 hm_insert peer \<lparr>adm_id = fresh, remote_session_binding = Some binding,
                                 phase = Claimed\<rparr> st))
      | Some current \<Rightarrow>
          (if expected \<noteq> None \<and> expected \<noteq> Some (adm_id current) then (Inl StaleSession, st)
           else if remote_session_binding current = Some binding then (Inl StaleSession, st)
           else if expected \<noteq> None \<and> phase current = Claimed then (Inl StaleSession, st)
           else if (if expected \<noteq> None then phase current = Authenticated
                    else phase current \<noteq> Reserved \<or> remote_session_binding current \<noteq> None)
           then (Inr \<lparr>session_id = fresh, decision = ReplaceWithNew,
                      replaced_session_id = Some (adm_id current)\<rparr>,
                 hm_insert peer \<lparr>adm_id = fresh, remote_session_binding = Some binding,
                                 phase = Claimed\<rparr> st)
           else (Inr \<lparr>session_id = adm_id current, decision = Initialize,
                      replaced_session_id = None\<rparr>,
                 hm_insert peer (current\<lparr>remote_session_binding := Some binding,
                                         phase := Claimed\<rparr>) st)))"

definition finalize_authenticated_session ::
  "string \<Rightarrow> session_id \<Rightarrow> string \<Rightarrow> session_store \<Rightarrow>
     (connection_admission_error + unit) \<times> session_store" where
  "finalize_authenticated_session peer expected binding st =
     (if binding = [] then (Inl InvalidRemoteBinding, st)
      else case hm_get st peer of
        None \<Rightarrow> (Inl StaleSession, st)
      | Some s \<Rightarrow>
          (if adm_id s \<noteq> expected then (Inl StaleSession, st)
           else if (case remote_session_binding s of None \<Rightarrow> False
                    | Some existing \<Rightarrow> existing \<noteq> binding) then (Inl StaleSession, st)
           else if phase s = Reserved then (Inl StaleSession, st)
           else (Inr (), hm_insert peer (s\<lparr>remote_session_binding := Some binding,
                                           phase := Authenticated\<rparr>) st)))"

definition release_authenticated_session ::
  "string \<Rightarrow> session_id \<Rightarrow> string \<Rightarrow> session_store \<Rightarrow> bool \<times> session_store" where
  "release_authenticated_session peer expected binding st =
     (case hm_get st peer of
        None \<Rightarrow> (False, st)
      | Some s \<Rightarrow>
          (if adm_id s \<noteq> expected \<or> phase s \<noteq> Claimed
              \<or> remote_session_binding s \<noteq> Some binding then (False, st)
           else (True, hm_insert peer (s\<lparr>remote_session_binding := None,
                                         phase := Reserved\<rparr>) st)))"

definition retire_session :: "string \<Rightarrow> session_id \<Rightarrow> session_store \<Rightarrow> bool \<times> session_store" where
  "retire_session peer expected st =
     (if is_current_session peer expected st then (True, hm_remove peer st) else (False, st))"

lemmas session_defs =
  register_pending_session_def admit_authenticated_session_def
  finalize_authenticated_session_def release_authenticated_session_def
  retire_session_def is_current_session_def

section \<open>The store as an event-driven system\<close>

datatype session_event =
    Register string session_id
  | Admit session_id string "session_id option" string
  | Finalize string session_id string
  | Release string session_id string
  | Retire string session_id

fun event_peer :: "session_event \<Rightarrow> string" where
  "event_peer (Register p _) = p"
| "event_peer (Admit _ p _ _) = p"
| "event_peer (Finalize p _ _) = p"
| "event_peer (Release p _ _) = p"
| "event_peer (Retire p _) = p"

fun session_step :: "session_event \<Rightarrow> session_store \<Rightarrow> session_store" where
  "session_step (Register p i) st = snd (register_pending_session p i st)"
| "session_step (Admit f p e b) st = snd (admit_authenticated_session f p e b st)"
| "session_step (Finalize p i b) st = snd (finalize_authenticated_session p i b st)"
| "session_step (Release p i b) st = snd (release_authenticated_session p i b st)"
| "session_step (Retire p i) st = snd (retire_session p i st)"

text \<open>A reservation carries no binding; a claimed or finalized identity carries one.\<close>

definition admission_ok :: "session_admission \<Rightarrow> bool" where
  "admission_ok s \<longleftrightarrow>
     (remote_session_binding s = None \<longleftrightarrow> phase s = Reserved) \<and> remote_session_binding s \<noteq> Some []"

definition session_inv :: "session_store \<Rightarrow> bool" where
  "session_inv st \<longleftrightarrow> (\<forall>p s. hm_get st p = Some s \<longrightarrow> admission_ok s)"

lemma session_invD: "session_inv st \<Longrightarrow> hm_get st p = Some s \<Longrightarrow> admission_ok s"
  by (simp add: session_inv_def)

lemma session_inv_insert: "session_inv st \<Longrightarrow> admission_ok s \<Longrightarrow> session_inv (hm_insert p s st)"
  by (simp add: session_inv_def)

lemma session_inv_remove: "session_inv st \<Longrightarrow> session_inv (hm_remove p st)"
  by (simp add: session_inv_def)

lemma session_step_inv: "session_inv st \<Longrightarrow> session_inv (session_step e st)"
  by (cases e)
    (auto simp: session_defs admission_ok_def split: option.splits
          intro!: session_inv_insert session_inv_remove dest: session_invD)

section \<open>The abstract machine\<close>

text \<open>
  Per peer: no admission, an identity held for an attempt, an identity won by one
  authenticated candidate, or an identity bound to its remote runtime.
\<close>

datatype slot = Free | Held session_id | Won session_id string | Bound session_id string

definition slot_of :: "session_admission \<Rightarrow> slot" where
  "slot_of s = (case (phase s, remote_session_binding s) of
       (Claimed, Some b) \<Rightarrow> Won (adm_id s) b
     | (Authenticated, Some b) \<Rightarrow> Bound (adm_id s) b
     | _ \<Rightarrow> Held (adm_id s))"

definition slots :: "session_store \<Rightarrow> string \<Rightarrow> slot" where
  "slots st p = (case hm_get st p of None \<Rightarrow> Free | Some s \<Rightarrow> slot_of s)"

fun slot_step :: "session_event \<Rightarrow> slot \<Rightarrow> slot" where
  "slot_step (Register _ i) Free = Held i"
| "slot_step (Admit f _ None b) Free = (if b = [] then Free else Won f b)"
| "slot_step (Admit f _ e b) (Held i) =
     (if b \<noteq> [] \<and> (e = None \<or> e = Some i) then Won i b else Held i)"
| "slot_step (Admit f _ e b) (Won i c) =
     (if b \<noteq> [] \<and> e = None \<and> b \<noteq> c then Won f b else Won i c)"
| "slot_step (Admit f _ e b) (Bound i c) =
     (if b \<noteq> [] \<and> (e = None \<or> e = Some i) \<and> b \<noteq> c then Won f b else Bound i c)"
| "slot_step (Finalize _ j b) (Won i c) = (if j = i \<and> b = c then Bound i c else Won i c)"
| "slot_step (Release _ j b) (Won i c) = (if j = i \<and> b = c then Held i else Won i c)"
| "slot_step (Retire _ j) (Held i) = (if j = i then Free else Held i)"
| "slot_step (Retire _ j) (Won i c) = (if j = i then Free else Won i c)"
| "slot_step (Retire _ j) (Bound i c) = (if j = i then Free else Bound i c)"
| "slot_step _ s = s"

lemma slots_insert [simp]: "slots (hm_insert p s st) = (slots st)(p := slot_of s)"
  by (rule ext) (simp add: slots_def)

lemma slots_remove [simp]: "slots (hm_remove p st) = (slots st)(p := Free)"
  by (rule ext) (simp add: slots_def)

lemma slots_None: "hm_get st p = None \<Longrightarrow> slots st p = Free"
  by (simp add: slots_def)

lemma slots_cases:
  assumes "session_inv st" "hm_get st p = Some s"
  obtains (held) "phase s = Reserved" "remote_session_binding s = None"
      "slots st p = Held (adm_id s)"
    | (won) b where "phase s = Claimed" "remote_session_binding s = Some b" "b \<noteq> []"
      "slots st p = Won (adm_id s) b"
    | (bound) b where "phase s = Authenticated" "remote_session_binding s = Some b" "b \<noteq> []"
      "slots st p = Bound (adm_id s) b"
  using session_invD [OF assms] assms(2)
  by (cases "phase s"; cases "remote_session_binding s")
    (auto simp: admission_ok_def slots_def slot_of_def)

lemma session_step_refines:
  assumes inv: "session_inv st"
  shows "slots (session_step e st) =
           (slots st)(event_peer e := slot_step e (slots st (event_peer e)))"
proof (cases "hm_get st (event_peer e)")
  case None
  then show ?thesis
    by (cases e) (auto simp: session_defs slots_None slot_of_def split: option.splits)
next
  case (Some s)
  from inv Some show ?thesis
    by (cases rule: slots_cases; cases e)
      (use Some in \<open>auto simp: session_defs slot_of_def split: option.splits\<close>)
qed

interpretation sess: invariant_system session_step session_inv
  by unfold_locales (rule session_step_inv)

lemma session_inv_run: "session_inv (fold session_step es [])"
  by (rule sess.run_inv) (simp add: session_inv_def)

lemma slots_run_from:
  "session_inv st \<Longrightarrow> slots (fold session_step es st) p =
     fold slot_step (filter (\<lambda>e. event_peer e = p) es) (slots st p)"
  by (induction es arbitrary: st) (simp_all add: session_step_refines session_step_inv)

section \<open>Properties\<close>

text \<open>
  C8. The admission store implements one independent slot machine per peer: after any
  sequence of operations, what the store holds for a peer is exactly what the abstract
  machine reaches on that peer's own operations, so admissions of different peers never
  interfere.
\<close>

theorem session_store_refines_slots:
  "slots (fold session_step es []) p =
     fold slot_step (filter (\<lambda>e. event_peer e = p) es) Free"
  using slots_run_from [of "[]" es p] by (simp add: session_inv_def slots_def)



lemma slot_step_Bound:
  "slot_step e s = Bound i b \<Longrightarrow> s = Bound i b \<or> (s = Won i b \<and> (\<exists>p. e = Finalize p i b))"
  by (cases "(e, s)" rule: slot_step.cases) (auto split: if_splits)

lemma slot_step_Won:
  "slot_step e s = Won i b \<Longrightarrow> s = Won i b \<or> (\<exists>f p x. e = Admit f p x b)"
  by (cases "(e, s)" rule: slot_step.cases) (auto split: if_splits)

lemma slot_run_provenance:
  "(fold slot_step es Free = Won i b \<longrightarrow> (\<exists>f x p. Admit f p x b \<in> set es)) \<and>
   (fold slot_step es Free = Bound i b \<longrightarrow>
      (\<exists>f x p. Admit f p x b \<in> set es) \<and> (\<exists>p. Finalize p i b \<in> set es))"
proof (induction es rule: rev_induct)
  case Nil
  then show ?case by simp
next
  case (snoc e es)
  let ?s = "fold slot_step es Free"
  have "slot_step e ?s = Won i b \<Longrightarrow> \<exists>f x p. Admit f p x b \<in> insert e (set es)"
    using snoc slot_step_Won [of e ?s i b] by blast
  moreover have "slot_step e ?s = Bound i b \<Longrightarrow>
      (\<exists>f x p. Admit f p x b \<in> insert e (set es)) \<and> (\<exists>p. Finalize p i b \<in> insert e (set es))"
    using snoc slot_step_Bound [of e ?s i b] by blast
  ultimately show ?case by simp
qed

text \<open>
  Provenance: if a reachable store has an identity bound to a remote runtime, some
  authenticated candidate with exactly that remote binding was admitted for that peer and
  exactly that identity was finalized with that binding.
\<close>

theorem bound_session_provenance:
  assumes "slots (fold session_step es []) p = Bound i b"
  shows "(\<exists>f x. Admit f p x b \<in> set es) \<and> Finalize p i b \<in> set es"
proof -
  let ?es = "filter (\<lambda>e. event_peer e = p) es"
  have "fold slot_step ?es Free = Bound i b"
    using assms slots_run_from [of "[]" es p] by (simp add: session_inv_def slots_def)
  then have "(\<exists>f x q. Admit f q x b \<in> set ?es) \<and> (\<exists>q. Finalize q i b \<in> set ?es)"
    using slot_run_provenance [of ?es i b] by blast
  then show ?thesis by auto
qed

theorem bound_session_provenance_witness:
  "\<exists>f x. Admit f ''bob'' x ''rt'' \<in> set [Admit [3] ''bob'' None ''rt'', Finalize ''bob'' [3] ''rt'']"
proof -
  have "slots (fold session_step
      [Admit [3] ''bob'' None ''rt'', Finalize ''bob'' [3] ''rt''] []) ''bob'' = Bound [3] ''rt''"
    by (simp add: session_defs slots_def slot_of_def hm_insert_def)
  from bound_session_provenance [OF this] show ?thesis by blast
qed

end
