(* ===== verification/Crypto_Context.thy ===== *)
theory Crypto_Context
  imports Containers
begin

text \<open>
  \<^verbatim>\<open>network-core/src/crypto/\<close>: the application crypto context of one connection session
  (\<^verbatim>\<open>context.rs\<close>), its constants and errors (\<^verbatim>\<open>mod.rs\<close>).  HKDF-SHA256 and AES-256-GCM
  are library code outside the repository: they are the record \<open>crypto_lib\<close> that the
  operations take as an argument, and \<open>crypto_lib_ok\<close> names the documented behaviour that
  the round-trip theorem relies on.  Keys and nonces are byte lists.
\<close>

section \<open>Constants, errors and the library interface\<close>

definition ENVELOPE_MAGIC :: "byte list" where "ENVELOPE_MAGIC = str_bytes ''SME1''"
definition ENVELOPE_VERSION :: byte where "ENVELOPE_VERSION = 1"
definition GCM_NONCE_BYTES :: nat where "GCM_NONCE_BYTES = 12"
definition GCM_TAG_BYTES :: nat where "GCM_TAG_BYTES = 16"
definition ENVELOPE_HEADER_BYTES :: nat where
  "ENVELOPE_HEADER_BYTES = 4 + 1 + 1 + 8 + GCM_NONCE_BYTES"
definition REPLAY_WINDOW_CAPACITY :: nat where "REPLAY_WINDOW_CAPACITY = 4096"
definition MAX_RETAINED_KEY_EPOCHS :: u64 where "MAX_RETAINED_KEY_EPOCHS = 4"
definition MAX_MESSAGES_PER_KEY :: u64 where "MAX_MESSAGES_PER_KEY = 1048576"
definition MAX_BYTES_PER_KEY :: u64 where "MAX_BYTES_PER_KEY = 1073741824"
definition NONCE_PREFIX_BYTES :: nat where "NONCE_PREFIX_BYTES = 4"
definition INITIATOR_TO_RESPONDER_KDF_INFO :: "byte list" where
  "INITIATOR_TO_RESPONDER_KDF_INFO =
     str_bytes ''ssh-mobile/session/application/initiator-to-responder/v2''"
definition RESPONDER_TO_INITIATOR_KDF_INFO :: "byte list" where
  "RESPONDER_TO_INITIATOR_KDF_INFO =
     str_bytes ''ssh-mobile/session/application/responder-to-initiator/v2''"
definition NONCE_PREFIX_KDF_INFO :: "byte list" where
  "NONCE_PREFIX_KDF_INFO = str_bytes ''ssh-mobile/session/application/nonce-prefix/v2''"

lemmas crypto_consts =
  ENVELOPE_VERSION_def GCM_NONCE_BYTES_def GCM_TAG_BYTES_def ENVELOPE_HEADER_BYTES_def
  NONCE_PREFIX_BYTES_def

datatype crypto_error =
    InvalidEnvelope | InvalidKey | KeyDerivation | Encryption | Decryption | SequenceOverflow
  | ReplayDetected | NonceReuse | KeyEpochUnavailable | NoncePrefixMismatch | E2eeRequired
  | StateUnavailable

datatype crypto_suite = HkdfSha256Aes256GcmV1

fun suite_code :: "crypto_suite \<Rightarrow> byte" where
  "suite_code HkdfSha256Aes256GcmV1 = 1"

definition suite_from_code :: "byte \<Rightarrow> crypto_suite option" where
  "suite_from_code value = (if value = 1 then Some HkdfSha256Aes256GcmV1 else None)"

text \<open>
  \<open>hkdf salt ikm info\<close> is extract-then-expand to 32 bytes; \<open>seal key nonce aad msg\<close> and
  \<open>unseal key nonce aad ciphertext\<close> are AEAD encryption and decryption.
\<close>

record crypto_lib =
  hkdf :: "byte list \<Rightarrow> byte list \<Rightarrow> byte list \<Rightarrow> byte list option"
  cipher_key_ok :: "byte list \<Rightarrow> bool"
  seal :: "byte list \<Rightarrow> byte list \<Rightarrow> byte list \<Rightarrow> byte list \<Rightarrow> byte list option"
  unseal :: "byte list \<Rightarrow> byte list \<Rightarrow> byte list \<Rightarrow> byte list \<Rightarrow> byte list option"

definition crypto_lib_ok :: "crypto_lib \<Rightarrow> bool" where
  "crypto_lib_ok L \<longleftrightarrow>
     (\<forall>salt ikm info k. hkdf L salt ikm info = Some k \<longrightarrow> length k = 32) \<and>
     (\<forall>k n a m c. seal L k n a m = Some c \<longrightarrow>
        length c = length m + GCM_TAG_BYTES \<and> unseal L k n a c = Some m)"

definition derive_material ::
  "crypto_lib \<Rightarrow> byte list \<Rightarrow> byte list \<Rightarrow> byte list \<Rightarrow> crypto_error + byte list" where
  "derive_material L ikm salt info =
     (case hkdf L salt ikm info of None \<Rightarrow> Inl KeyDerivation | Some key \<Rightarrow> Inr key)"

definition is_application_envelope :: "byte list \<Rightarrow> bool" where
  "is_application_envelope bytes \<longleftrightarrow>
     length bytes \<ge> length ENVELOPE_MAGIC \<and> take (length ENVELOPE_MAGIC) bytes = ENVELOPE_MAGIC"

section \<open>Replay window\<close>

record replay_window =
  capacity :: nat
  seen :: "byte list set"
  order :: "byte list list"

definition replay_window_new :: "nat \<Rightarrow> replay_window" where
  "replay_window_new c = \<lparr>capacity = max c 1, seen = {}, order = []\<rparr>"

fun trim :: "nat \<Rightarrow> byte list set \<Rightarrow> byte list list \<Rightarrow> byte list set \<times> byte list list" where
  "trim c sn [] = (sn, [])"
| "trim c sn (evicted # rest) =
     (if length (evicted # rest) > c then trim c (sn - {evicted}) rest
      else (sn, evicted # rest))"

definition reserve :: "byte list \<Rightarrow> replay_window \<Rightarrow> (crypto_error + unit) \<times> replay_window" where
  "reserve nonce w =
     (if nonce \<in> seen w then (Inl NonceReuse, w)
      else let (sn, od) = trim (capacity w) (insert nonce (seen w)) (order w @ [nonce])
           in (Inr (), w\<lparr>seen := sn, order := od\<rparr>))"

definition accept_received ::
  "byte list \<Rightarrow> replay_window \<Rightarrow> (crypto_error + unit) \<times> replay_window" where
  "accept_received nonce w =
     (if nonce \<in> seen w then (Inl ReplayDetected, w)
      else case reserve nonce w of
        (Inl _, w') \<Rightarrow> (Inl ReplayDetected, w') | (Inr _, w') \<Rightarrow> (Inr (), w'))"

definition window_ok :: "replay_window \<Rightarrow> bool" where
  "window_ok w \<longleftrightarrow> 0 < capacity w \<and> seen w = set (order w) \<and> distinct (order w)
     \<and> length (order w) \<le> capacity w"

lemma trim_spec:
  "distinct od \<Longrightarrow> trim c (set od) od = (set (drop (length od - c) od), drop (length od - c) od)"
proof (induction od)
  case Nil
  then show ?case by simp
next
  case (Cons x xs)
  then have "set (x # xs) - {x} = set xs" by auto
  with Cons show ?case
    by (cases "length (x # xs) > c") (auto simp: Suc_diff_le)
qed

lemma reserve_fresh:
  assumes "window_ok w" "nonce \<notin> seen w"
  shows "reserve nonce w =
    (Inr (), w\<lparr>seen := set (drop (length (order w) + 1 - capacity w) (order w @ [nonce])),
               order := drop (length (order w) + 1 - capacity w) (order w @ [nonce])\<rparr>)"
proof -
  have d: "distinct (order w @ [nonce])" and s: "insert nonce (seen w) = set (order w @ [nonce])"
    using assms by (auto simp: window_ok_def)
  show ?thesis
    using assms(2) trim_spec [OF d, of "capacity w"] unfolding reserve_def s by simp
qed

lemma window_ok_reserve:
  assumes "window_ok w" shows "window_ok (snd (reserve nonce w))"
proof (cases "nonce \<in> seen w")
  case True
  with assms show ?thesis by (simp add: reserve_def)
next
  case False
  let ?od = "order w @ [nonce]" and ?n = "length (order w) + 1 - capacity w"
  have "distinct (drop ?n ?od)"
    using assms False by (intro distinct_drop) (simp add: window_ok_def)
  moreover have "length (drop ?n ?od) \<le> capacity w" by simp
  ultimately show ?thesis
    using assms False reserve_fresh [OF assms False] by (simp add: window_ok_def del: drop_append)
qed

interpretation replay: fifo_window order "\<lambda>w x. x \<in> seen w" "\<lambda>x w. snd (reserve x w)"
    capacity window_ok
proof unfold_locales
  fix w :: replay_window and x
  show "capacity (snd (reserve x w)) = capacity w"
    by (simp add: reserve_def split: prod.splits)
qed (auto simp: window_ok_reserve reserve_fresh, auto simp: window_ok_def dest: in_set_dropD)

lemma window_ok_new: "window_ok (replay_window_new c)"
  by (simp add: window_ok_def replay_window_new_def)

section \<open>The context and its operations\<close>

text \<open>
  The \<^verbatim>\<open>&'static [u8]\<close> labels \<open>tx_info\<close> and \<open>rx_info\<close> are the two direction strings.  Every
  operation returns its \<^verbatim>\<open>Result\<close> with the context as the code leaves it, also on an early
  return with \<^verbatim>\<open>?\<close>.
\<close>

record crypto_context =
  suite :: crypto_suite
  root_key :: "byte list"
  tx_info :: "byte list"
  rx_info :: "byte list"
  send_epoch :: u64
  receive_epoch :: u64
  send_counter :: u64
  messages_in_epoch :: u64
  bytes_in_epoch :: u64
  send_window :: replay_window
  receive_window :: replay_window

definition from_session_root :: "byte list \<Rightarrow> bool \<Rightarrow> crypto_context" where
  "from_session_root root initiator =
     (let (tx, rx) =
        (if initiator then (INITIATOR_TO_RESPONDER_KDF_INFO, RESPONDER_TO_INITIATOR_KDF_INFO)
         else (RESPONDER_TO_INITIATOR_KDF_INFO, INITIATOR_TO_RESPONDER_KDF_INFO))
      in \<lparr>suite = HkdfSha256Aes256GcmV1, root_key = root, tx_info = tx, rx_info = rx,
          send_epoch = 0, receive_epoch = 0, send_counter = 0, messages_in_epoch = 0,
          bytes_in_epoch = 0, send_window = replay_window_new REPLAY_WINDOW_CAPACITY,
          receive_window = replay_window_new REPLAY_WINDOW_CAPACITY\<rparr>)"

definition current_epoch :: "crypto_context \<Rightarrow> u64" where
  "current_epoch c = max (send_epoch c) (receive_epoch c)"

definition epoch_key ::
  "crypto_lib \<Rightarrow> crypto_context \<Rightarrow> byte list \<Rightarrow> u64 \<Rightarrow> crypto_error + byte list" where
  "epoch_key L c info epoch = derive_material L (root_key c) [] (info @ u64_be epoch)"

definition nonce_prefix ::
  "crypto_lib \<Rightarrow> crypto_context \<Rightarrow> byte list \<Rightarrow> u64 \<Rightarrow> crypto_error + byte list" where
  "nonce_prefix L c info epoch =
     (case epoch_key L c info epoch of
        Inl e \<Rightarrow> Inl e | Inr key \<Rightarrow> derive_material L key [] NONCE_PREFIX_KDF_INFO)"

definition rotate_key :: "crypto_context \<Rightarrow> (crypto_error + u64) \<times> crypto_context" where
  "rotate_key c =
     (case checked_add (send_epoch c) 1 of
        None \<Rightarrow> (Inl SequenceOverflow, c)
      | Some next \<Rightarrow>
          (Inr next, c\<lparr>send_epoch := next, send_counter := 0, messages_in_epoch := 0,
                       bytes_in_epoch := 0\<rparr>))"

definition next_nonce ::
  "crypto_lib \<Rightarrow> crypto_context \<Rightarrow> (crypto_error + byte list) \<times> crypto_context" where
  "next_nonce L c =
     (let counter = send_counter c in
      case checked_add (send_counter c) 1 of
        None \<Rightarrow> (Inl SequenceOverflow, c)
      | Some n \<Rightarrow>
          let c = c\<lparr>send_counter := n\<rparr> in
          case nonce_prefix L c (tx_info c) (send_epoch c) of
            Inl e \<Rightarrow> (Inl e, c)
          | Inr prefix \<Rightarrow> (Inr (take NONCE_PREFIX_BYTES prefix @ u64_be counter), c))"

definition encrypt_with_nonce ::
  "crypto_lib \<Rightarrow> byte list \<Rightarrow> byte list \<Rightarrow> byte list \<Rightarrow> crypto_context
     \<Rightarrow> (crypto_error + byte list) \<times> crypto_context" where
  "encrypt_with_nonce L aad plaintext nonce c =
     (case reserve nonce (send_window c) of
        (Inl e, w) \<Rightarrow> (Inl e, c\<lparr>send_window := w\<rparr>)
      | (Inr _, w) \<Rightarrow>
          let c = c\<lparr>send_window := w\<rparr> in
          case epoch_key L c (tx_info c) (send_epoch c) of
            Inl e \<Rightarrow> (Inl e, c)
          | Inr key \<Rightarrow>
              if \<not> cipher_key_ok L key then (Inl InvalidKey, c)
              else case seal L key nonce aad plaintext of
                None \<Rightarrow> (Inl Encryption, c)
              | Some ciphertext \<Rightarrow>
                  (Inr (ENVELOPE_MAGIC @ [ENVELOPE_VERSION] @ [suite_code (suite c)]
                        @ u64_be (send_epoch c) @ nonce @ ciphertext), c))"

definition encrypt ::
  "crypto_lib \<Rightarrow> byte list \<Rightarrow> byte list \<Rightarrow> crypto_context
     \<Rightarrow> (crypto_error + byte list) \<times> crypto_context" where
  "encrypt L aad plaintext c =
     (if length plaintext \<ge> 2 ^ 64 then (Inl SequenceOverflow, c)
      else
        let plaintext_bytes = (of_nat (length plaintext) :: u64) in
        case (if messages_in_epoch c \<ge> MAX_MESSAGES_PER_KEY
                 \<or> bytes_in_epoch c > saturating_sub MAX_BYTES_PER_KEY plaintext_bytes
              then rotate_key c else (Inr (send_epoch c), c)) of
          (Inl e, c) \<Rightarrow> (Inl e, c)
        | (Inr _, c) \<Rightarrow>
        (case next_nonce L c of
          (Inl e, c) \<Rightarrow> (Inl e, c)
        | (Inr nonce, c) \<Rightarrow>
        (case encrypt_with_nonce L aad plaintext nonce c of
          (Inl e, c) \<Rightarrow> (Inl e, c)
        | (Inr envelope, c) \<Rightarrow>
        (case checked_add (messages_in_epoch c) 1 of
          None \<Rightarrow> (Inl SequenceOverflow, c)
        | Some m \<Rightarrow>
            let c = c\<lparr>messages_in_epoch := m\<rparr> in
            case checked_add (bytes_in_epoch c) plaintext_bytes of
              None \<Rightarrow> (Inl SequenceOverflow, c)
            | Some b \<Rightarrow> (Inr envelope, c\<lparr>bytes_in_epoch := b\<rparr>)))))"

text \<open>
  The slices of the envelope.  \<^verbatim>\<open>decrypt_internal\<close> reads them after its length guard, so no
  slice is out of range.
\<close>

definition env_epoch :: "byte list \<Rightarrow> u64" where
  "env_epoch envelope = u64_from_be (take 8 (drop 6 envelope))"

definition env_nonce :: "byte list \<Rightarrow> byte list" where
  "env_nonce envelope = take 12 (drop 14 envelope)"

definition decrypt_internal ::
  "crypto_lib \<Rightarrow> byte list \<Rightarrow> byte list \<Rightarrow> bool \<Rightarrow> crypto_context
     \<Rightarrow> (crypto_error + byte list) \<times> crypto_context" where
  "decrypt_internal L aad envelope allow_authenticated_replay c =
     (if length envelope < ENVELOPE_HEADER_BYTES + GCM_TAG_BYTES
         \<or> take (length ENVELOPE_MAGIC) envelope \<noteq> ENVELOPE_MAGIC
         \<or> envelope ! length ENVELOPE_MAGIC \<noteq> ENVELOPE_VERSION
      then (Inl InvalidEnvelope, c)
      else case suite_from_code (envelope ! 5) of
        None \<Rightarrow> (Inl InvalidEnvelope, c)
      | Some s \<Rightarrow>
      if s \<noteq> suite c then (Inl InvalidEnvelope, c)
      else let epoch = env_epoch envelope in
      if epoch > saturating_add (receive_epoch c) 1
         \<or> saturating_sub (receive_epoch c) epoch \<ge> MAX_RETAINED_KEY_EPOCHS
      then (Inl KeyEpochUnavailable, c)
      else let nonce = env_nonce envelope in
      case nonce_prefix L c (rx_info c) epoch of
        Inl e \<Rightarrow> (Inl e, c)
      | Inr prefix \<Rightarrow>
      if take NONCE_PREFIX_BYTES nonce \<noteq> take NONCE_PREFIX_BYTES prefix
      then (Inl NoncePrefixMismatch, c)
      else case epoch_key L c (rx_info c) epoch of
        Inl e \<Rightarrow> (Inl e, c)
      | Inr key \<Rightarrow>
      if \<not> cipher_key_ok L key then (Inl InvalidKey, c)
      else case unseal L key nonce aad (drop ENVELOPE_HEADER_BYTES envelope) of
        None \<Rightarrow> (Inl Decryption, c)
      | Some clear \<Rightarrow>
      if nonce \<in> seen (receive_window c) then
        (if \<not> allow_authenticated_replay then (Inl ReplayDetected, c)
         else (Inr clear,
               if epoch > receive_epoch c then c\<lparr>receive_epoch := epoch\<rparr> else c))
      else case accept_received nonce (receive_window c) of
        (Inl e, w) \<Rightarrow> (Inl e, c\<lparr>receive_window := w\<rparr>)
      | (Inr _, w) \<Rightarrow>
          let c = c\<lparr>receive_window := w\<rparr> in
          (Inr clear, if epoch > receive_epoch c then c\<lparr>receive_epoch := epoch\<rparr> else c))"

definition decrypt where "decrypt L aad envelope c = decrypt_internal L aad envelope False c"

definition decrypt_for_delivery where
  "decrypt_for_delivery L aad envelope c = decrypt_internal L aad envelope True c"

section \<open>What the send side produces\<close>

text \<open>
  A sending history is a sequence of encryptions and key rotations; \<open>sender_run\<close> lists the
  envelopes it emits with their plaintexts.
\<close>

datatype send_op = Send_Msg "byte list" "byte list" | Send_Rotate

fun sender_run ::
  "crypto_lib \<Rightarrow> send_op list \<Rightarrow> crypto_context \<Rightarrow> (byte list \<times> byte list) list" where
  "sender_run L [] c = []"
| "sender_run L (Send_Msg aad plaintext # ops) c =
     (case encrypt L aad plaintext c of
        (Inl _, c') \<Rightarrow> sender_run L ops c'
      | (Inr envelope, c') \<Rightarrow> (envelope, plaintext) # sender_run L ops c')"
| "sender_run L (Send_Rotate # ops) c = sender_run L ops (snd (rotate_key c))"

definition send_pos :: "crypto_context \<Rightarrow> nat" where
  "send_pos c = unat (send_epoch c) * 2 ^ 64 + unat (send_counter c)"

definition env_pos :: "byte list \<Rightarrow> nat" where
  "env_pos envelope =
     unat (env_epoch envelope) * 2 ^ 64 + unat (u64_from_be (drop 4 (env_nonce envelope)))"

definition rotated :: "crypto_context \<Rightarrow> crypto_context" where
  "rotated c = c\<lparr>send_epoch := send_epoch c + 1, send_counter := 0, messages_in_epoch := 0,
     bytes_in_epoch := 0\<rparr>"

lemma rotate_key_cases:
  "rotate_key c = (Inl SequenceOverflow, c) \<or>
   rotate_key c = (Inr (send_epoch c + 1), rotated c)
     \<and> unat (send_epoch c + 1) = unat (send_epoch c) + 1"
proof (cases "checked_add (send_epoch c) 1")
  case (Some n)
  then have "n = send_epoch c + 1" "unat n = unat (send_epoch c) + 1"
    using checked_add_Some [of "send_epoch c" 1 n] by (simp_all add: checked_add_def split: if_splits)
  with Some show ?thesis
    by (simp add: rotate_key_def rotated_def)
qed (simp add: rotate_key_def)

lemma next_nonce_cases:
  "next_nonce L c = (Inl SequenceOverflow, c) \<or>
   unat (send_counter c + 1) = unat (send_counter c) + 1 \<and>
   next_nonce L c =
     (case nonce_prefix L c (tx_info c) (send_epoch c) of
        Inl e \<Rightarrow> Inl e | Inr prefix \<Rightarrow> Inr (take 4 prefix @ u64_be (send_counter c)),
      c\<lparr>send_counter := send_counter c + 1\<rparr>)"
proof (cases "checked_add (send_counter c) 1")
  case None
  then show ?thesis by (simp add: next_nonce_def)
next
  case (Some n)
  then have n: "n = send_counter c + 1" "unat n = unat (send_counter c) + 1"
    using checked_add_Some [of "send_counter c" 1 n]
    by (simp_all add: checked_add_def split: if_splits)
  have np: "nonce_prefix L (c\<lparr>send_counter := m\<rparr>) = nonce_prefix L c" for m
    by (simp add: nonce_prefix_def epoch_key_def fun_eq_iff)
  show ?thesis
    using Some n
    by (simp add: next_nonce_def Let_def np NONCE_PREFIX_BYTES_def split: sum.split)
qed

definition sealed_envelope :: "crypto_context \<Rightarrow> byte list \<Rightarrow> byte list \<Rightarrow> byte list" where
  "sealed_envelope c nonce ciphertext =
     ENVELOPE_MAGIC @ [ENVELOPE_VERSION, suite_code (suite c)] @ u64_be (send_epoch c) @ nonce
       @ ciphertext"

lemma encrypt_with_nonce_cases:
  "(\<exists>e. encrypt_with_nonce L aad plaintext nonce c =
        (Inl e, c\<lparr>send_window := snd (reserve nonce (send_window c))\<rparr>)) \<or>
   nonce \<notin> seen (send_window c) \<and>
   (\<exists>key ciphertext. encrypt_with_nonce L aad plaintext nonce c =
        (Inr (sealed_envelope c nonce ciphertext),
         c\<lparr>send_window := snd (reserve nonce (send_window c))\<rparr>)
      \<and> epoch_key L c (tx_info c) (send_epoch c) = Inr key \<and> cipher_key_ok L key
      \<and> seal L key nonce aad plaintext = Some ciphertext)"
proof -
  have ek: "epoch_key L (c\<lparr>send_window := w\<rparr>) = epoch_key L c" for w
    by (simp add: epoch_key_def fun_eq_iff)
  obtain r w where r: "reserve nonce (send_window c) = (r, w)" by force
  have seen: "r = Inr u \<Longrightarrow> nonce \<notin> seen (send_window c)" for u
    using r by (auto simp: reserve_def)
  show ?thesis
    by (cases r; cases "epoch_key L c (tx_info c) (send_epoch c)")
      (simp_all add: encrypt_with_nonce_def r seen sealed_envelope_def ek Let_def
        split: option.split)
qed

text \<open>
  The context that \<^verbatim>\<open>encrypt\<close> seals under: the current one while its key has room for the
  message, otherwise the rotated one.
\<close>

definition sealing_context :: "crypto_context \<Rightarrow> nat \<Rightarrow> crypto_context \<Rightarrow> bool" where
  "sealing_context c n c1 \<longleftrightarrow>
     c1 = c \<and> unat (messages_in_epoch c) < 2 ^ 20 \<and> unat (bytes_in_epoch c) \<le> 2 ^ 30 - n \<or>
     c1 = rotated c \<and> unat (send_epoch c + 1) = unat (send_epoch c) + 1"

definition counted :: "nat \<Rightarrow> replay_window \<Rightarrow> crypto_context \<Rightarrow> crypto_context" where
  "counted n w c = c\<lparr>send_counter := send_counter c + 1, send_window := w,
     messages_in_epoch := messages_in_epoch c + 1, bytes_in_epoch := bytes_in_epoch c + of_nat n\<rparr>"

lemma unat_usage_limits: "unat MAX_MESSAGES_PER_KEY = 2 ^ 20" "unat MAX_BYTES_PER_KEY = 2 ^ 30"
  by (simp_all add: MAX_MESSAGES_PER_KEY_def MAX_BYTES_PER_KEY_def)

lemma sealing_context_guard:
  assumes "n < 2 ^ 64"
  shows "(if messages_in_epoch c \<ge> MAX_MESSAGES_PER_KEY
             \<or> bytes_in_epoch c > saturating_sub MAX_BYTES_PER_KEY (of_nat n)
          then rotate_key c else (Inr (send_epoch c), c)) = (Inl SequenceOverflow, c) \<or>
    (\<exists>c1. (if messages_in_epoch c \<ge> MAX_MESSAGES_PER_KEY
             \<or> bytes_in_epoch c > saturating_sub MAX_BYTES_PER_KEY (of_nat n)
          then rotate_key c else (Inr (send_epoch c), c)) = (Inr (send_epoch c1), c1)
        \<and> sealing_context c n c1)"
  using rotate_key_cases [of c] assms
  by (auto simp: sealing_context_def word_le_nat_alt word_less_nat_alt unat_usage_limits
      unat_saturating_sub unat_of_nat rotated_def)

lemma sealing_context_usage:
  assumes "sealing_context c n c1" "n < 2 ^ 64"
  shows "checked_add (messages_in_epoch c1) 1 = Some (messages_in_epoch c1 + 1)"
    and "unat (messages_in_epoch c1 + 1) = unat (messages_in_epoch c1) + 1"
    and "checked_add (bytes_in_epoch c1) (of_nat n) = Some (bytes_in_epoch c1 + of_nat n)"
    and "unat (bytes_in_epoch c1 + of_nat n) = unat (bytes_in_epoch c1) + n"
proof -
  have m: "unat (messages_in_epoch c1) + 1 < 2 ^ 64"
    and b: "unat (bytes_in_epoch c1) + n < 2 ^ 64"
    using assms by (auto simp: sealing_context_def rotated_def)
  have n: "unat (of_nat n :: u64) = n"
    using assms(2) by (simp add: unat_of_nat)
  show "checked_add (messages_in_epoch c1) 1 = Some (messages_in_epoch c1 + 1)"
    and "checked_add (bytes_in_epoch c1) (of_nat n) = Some (bytes_in_epoch c1 + of_nat n)"
    using m b n by (simp_all add: checked_add_def)
  then show "unat (messages_in_epoch c1 + 1) = unat (messages_in_epoch c1) + 1"
    and "unat (bytes_in_epoch c1 + of_nat n) = unat (bytes_in_epoch c1) + n"
    using n checked_add_Some [of "messages_in_epoch c1" 1 "messages_in_epoch c1 + 1"]
      checked_add_Some [of "bytes_in_epoch c1" "of_nat n" "bytes_in_epoch c1 + of_nat n"]
    by simp_all
qed

definition seal_next ::
  "crypto_lib \<Rightarrow> byte list \<Rightarrow> byte list \<Rightarrow> crypto_context
     \<Rightarrow> (crypto_error + byte list) \<times> crypto_context" where
  "seal_next L aad plaintext c =
     (case next_nonce L c of
        (Inl e, c) \<Rightarrow> (Inl e, c)
      | (Inr nonce, c) \<Rightarrow> encrypt_with_nonce L aad plaintext nonce c)"

lemma seal_next_cases:
  obtains (refused) e w k where
      "seal_next L aad plaintext c = (Inl e, c\<lparr>send_counter := k, send_window := w\<rparr>)"
      "unat (send_counter c) \<le> unat k"
  | (made) w prefix key ciphertext where
      "seal_next L aad plaintext c =
         (Inr (sealed_envelope c (take 4 prefix @ u64_be (send_counter c)) ciphertext),
          c\<lparr>send_counter := send_counter c + 1, send_window := w\<rparr>)"
      "unat (send_counter c + 1) = unat (send_counter c) + 1"
      "nonce_prefix L c (tx_info c) (send_epoch c) = Inr prefix"
      "epoch_key L c (tx_info c) (send_epoch c) = Inr key" "cipher_key_ok L key"
      "seal L key (take 4 prefix @ u64_be (send_counter c)) aad plaintext = Some ciphertext"
      "take 4 prefix @ u64_be (send_counter c) \<notin> seen (send_window c)"
      "w = snd (reserve (take 4 prefix @ u64_be (send_counter c)) (send_window c))"
  using next_nonce_cases [of L c]
proof (elim disjE conjE)
  assume "next_nonce L c = (Inl SequenceOverflow, c)"
  then show ?thesis
    by (intro refused [where k = "send_counter c" and w = "send_window c"])
      (simp_all add: seal_next_def)
next
  let ?c2 = "c\<lparr>send_counter := send_counter c + 1\<rparr>"
  assume nn: "unat (send_counter c + 1) = unat (send_counter c) + 1"
    "next_nonce L c =
       (case nonce_prefix L c (tx_info c) (send_epoch c) of
          Inl e \<Rightarrow> Inl e | Inr prefix \<Rightarrow> Inr (take 4 prefix @ u64_be (send_counter c)), ?c2)"
  show ?thesis
  proof (cases "nonce_prefix L c (tx_info c) (send_epoch c)")
    case (Inl e)
    with nn show ?thesis
      by (intro refused [where k = "send_counter c + 1" and w = "send_window c" and e = e])
        (simp_all add: seal_next_def)
  next
    case (Inr prefix)
    let ?nonce = "take 4 prefix @ u64_be (send_counter c)"
    have ek: "epoch_key L ?c2 = epoch_key L c"
      and se: "sealed_envelope ?c2 = sealed_envelope c"
      and sn: "seal_next L aad plaintext c = encrypt_with_nonce L aad plaintext ?nonce ?c2"
      using nn Inr by (simp_all add: epoch_key_def sealed_envelope_def fun_eq_iff seal_next_def)
    show ?thesis
      using encrypt_with_nonce_cases [of L aad plaintext ?nonce ?c2] nn(1) Inr
      unfolding sn [symmetric] ek se
    proof (elim exE disjE conjE, goal_cases)
      case (1 e)
      then show ?thesis
        by (intro refused [where k = "send_counter c + 1" and e = e
              and w = "snd (reserve ?nonce (send_window c))"]) simp_all
    next
      case (2 key ciphertext)
      then show ?thesis
        by (intro made [where w = "snd (reserve ?nonce (send_window c))" and prefix = prefix and key = key
              and ciphertext = ciphertext]) simp_all
    qed
  qed
qed

lemma encrypt_guard:
  assumes "length plaintext < 2 ^ 64"
  obtains (overflow) "encrypt L aad plaintext c = (Inl SequenceOverflow, c)"
  | (go) c1 where "sealing_context c (length plaintext) c1"
      "encrypt L aad plaintext c =
        (case seal_next L aad plaintext c1 of
          (Inl e, c) \<Rightarrow> (Inl e, c)
        | (Inr envelope, c) \<Rightarrow>
        (case checked_add (messages_in_epoch c) 1 of
          None \<Rightarrow> (Inl SequenceOverflow, c)
        | Some m \<Rightarrow>
            let c = c\<lparr>messages_in_epoch := m\<rparr> in
            case checked_add (bytes_in_epoch c) (of_nat (length plaintext)) of
              None \<Rightarrow> (Inl SequenceOverflow, c)
            | Some b \<Rightarrow> (Inr envelope, c\<lparr>bytes_in_epoch := b\<rparr>)))"
proof -
  have "\<not> 2 ^ 64 \<le> length plaintext" using assms by simp
  then show ?thesis
    using sealing_context_guard [OF assms, of c]
  proof (elim disjE exE conjE, goal_cases)
    case 1
    then show ?thesis
      by (intro overflow) (simp only: encrypt_def Let_def if_False prod.case sum.case)
  next
    case (2 c1)
    then have "encrypt L aad plaintext c =
        (case next_nonce L c1 of
          (Inl e, c) \<Rightarrow> (Inl e, c)
        | (Inr nonce, c) \<Rightarrow>
        (case encrypt_with_nonce L aad plaintext nonce c of
          (Inl e, c) \<Rightarrow> (Inl e, c)
        | (Inr envelope, c) \<Rightarrow>
        (case checked_add (messages_in_epoch c) 1 of
          None \<Rightarrow> (Inl SequenceOverflow, c)
        | Some m \<Rightarrow>
            let c = c\<lparr>messages_in_epoch := m\<rparr> in
            case checked_add (bytes_in_epoch c) (of_nat (length plaintext)) of
              None \<Rightarrow> (Inl SequenceOverflow, c)
            | Some b \<Rightarrow> (Inr envelope, c\<lparr>bytes_in_epoch := b\<rparr>))))"
      by (simp only: encrypt_def Let_def if_False prod.case sum.case)
    with 2 show ?thesis
      by (intro go [of c1]) (simp_all add: seal_next_def split: prod.splits sum.splits)
  qed
qed

lemma encrypt_cases:
  obtains (unchanged) e where "encrypt L aad plaintext c = (Inl e, c)"
  | (failed) e d w k where "encrypt L aad plaintext c = (Inl e, d\<lparr>send_counter := k, send_window := w\<rparr>)"
      "sealing_context c (length plaintext) d" "unat (send_counter d) \<le> unat k"
  | (sealed) d w prefix key ciphertext where
      "encrypt L aad plaintext c =
         (Inr (sealed_envelope d (take 4 prefix @ u64_be (send_counter d)) ciphertext),
          counted (length plaintext) w d)"
      "length plaintext < 2 ^ 64" "sealing_context c (length plaintext) d"
      "unat (send_counter d + 1) = unat (send_counter d) + 1"
      "nonce_prefix L d (tx_info d) (send_epoch d) = Inr prefix"
      "epoch_key L d (tx_info d) (send_epoch d) = Inr key" "cipher_key_ok L key"
      "seal L key (take 4 prefix @ u64_be (send_counter d)) aad plaintext = Some ciphertext"
      "take 4 prefix @ u64_be (send_counter d) \<notin> seen (send_window d)"
      "w = snd (reserve (take 4 prefix @ u64_be (send_counter d)) (send_window d))"
proof (cases "length plaintext < 2 ^ 64")
  case False
  then show ?thesis by (intro unchanged) (simp add: encrypt_def)
next
  case True
  then show ?thesis
  proof (cases rule: encrypt_guard [of plaintext L aad c])
    case overflow
    then show ?thesis by (rule unchanged)
  next
    case (go d)
    note usage = sealing_context_usage [OF go(1) True]
    show ?thesis
    proof (cases rule: seal_next_cases [of L aad plaintext d])
      case (refused e w k)
      then show ?thesis
        using go by (intro failed [where e = e and d = d and k = k and w = w]) simp_all
    next
      case (made w prefix key ciphertext)
      then show ?thesis
        using go usage True
        by (intro sealed [where d = d and prefix = prefix and ciphertext = ciphertext
              and w = w and key = key]) (simp_all add: counted_def)
    qed
  qed
qed

lemma length_ENVELOPE_MAGIC [simp]: "length ENVELOPE_MAGIC = 4"
  by (simp add: ENVELOPE_MAGIC_def)

lemma sealed_envelope_fields:
  assumes "length nonce = 12"
  shows "env_epoch (sealed_envelope c nonce ct) = send_epoch c"
    and "env_nonce (sealed_envelope c nonce ct) = nonce"
    and "drop 26 (sealed_envelope c nonce ct) = ct"
    and "length (sealed_envelope c nonce ct) = 26 + length ct"
    and "take 4 (sealed_envelope c nonce ct) = ENVELOPE_MAGIC"
    and "sealed_envelope c nonce ct ! 4 = ENVELOPE_VERSION"
    and "sealed_envelope c nonce ct ! 5 = suite_code (suite c)"
  using assms
  by (simp_all add: sealed_envelope_def env_epoch_def env_nonce_def nth_append drop_Cons')

lemma nonce_prefix_length:
  "crypto_lib_ok L \<Longrightarrow> nonce_prefix L c info epoch = Inr prefix \<Longrightarrow> length prefix = 32"
  by (auto simp: nonce_prefix_def epoch_key_def derive_material_def crypto_lib_ok_def
      split: sum.splits option.splits)

lemma sealing_context_pos: "sealing_context c n d \<Longrightarrow> send_pos c \<le> send_pos d"
  using unat_bound [of "send_counter c"]
  by (auto simp: sealing_context_def send_pos_def rotated_def simp del: unsigned_less)

lemma encrypt_pos:
  assumes "crypto_lib_ok L"
  shows "send_pos c \<le> send_pos (snd (encrypt L aad plaintext c)) \<and>
    (\<forall>envelope. fst (encrypt L aad plaintext c) = Inr envelope \<longrightarrow>
       send_pos c \<le> env_pos envelope
       \<and> env_pos envelope < send_pos (snd (encrypt L aad plaintext c)))"
proof (cases rule: encrypt_cases [of L aad plaintext c])
  case (unchanged e)
  then show ?thesis by simp
next
  case (failed e d w k)
  then show ?thesis
    using sealing_context_pos [OF failed(2)] by (auto simp: send_pos_def)
next
  case (sealed d w prefix key ct)
  have "length prefix = 32" by (rule nonce_prefix_length [OF assms sealed(5)])
  then have "env_pos (sealed_envelope d (take 4 prefix @ u64_be (send_counter d)) ct) = send_pos d"
    by (simp add: env_pos_def sealed_envelope_fields send_pos_def)
  moreover have "send_pos (counted (length plaintext) w d) = send_pos d + 1"
    using sealed(4) by (simp add: send_pos_def counted_def)
  ultimately show ?thesis
    using sealed(1) sealing_context_pos [OF sealed(3)] by simp
qed

lemma rotate_pos: "send_pos c \<le> send_pos (snd (rotate_key c))"
  using rotate_key_cases [of c] unat_bound [of "send_counter c"]
  by (auto simp: send_pos_def rotated_def simp del: unsigned_less)

lemma sender_run_pos:
  assumes "crypto_lib_ok L"
  shows "sorted_wrt (<) (map (env_pos \<circ> fst) (sender_run L ops c))
    \<and> (\<forall>x\<in>set (sender_run L ops c). send_pos c \<le> env_pos (fst x))"
proof (induction ops arbitrary: c)
  case (Cons op ops)
  show ?case
  proof (cases op)
    case (Send_Msg aad plaintext)
    obtain r c' where r: "encrypt L aad plaintext c = (r, c')" by force
    note pos = encrypt_pos [OF assms, of c aad plaintext, unfolded r, simplified]
    show ?thesis
    proof (cases r)
      case (Inl e)
      with Cons [of c'] pos r Send_Msg show ?thesis by (auto intro: order_trans)
    next
      case (Inr envelope)
      with Cons [of c'] pos r Send_Msg show ?thesis
        by (auto intro: order_trans less_le_trans)
    qed
  next
    case Send_Rotate
    with Cons [of "snd (rotate_key c)"] rotate_pos [of c] show ?thesis by (auto intro: order_trans)
  qed
qed simp

text \<open>
  Accounting per key: the messages and plaintext bytes that a continuation \<open>xs\<close> adds under
  an epoch, on top of what the context has already counted for it, stay within the limits.
\<close>

definition sealed_under :: "u64 \<Rightarrow> (byte list \<times> byte list) list \<Rightarrow> byte list list" where
  "sealed_under epoch xs = map snd (filter (\<lambda>x. env_epoch (fst x) = epoch) xs)"

definition usage_within :: "(byte list \<times> byte list) list \<Rightarrow> crypto_context \<Rightarrow> bool" where
  "usage_within xs c \<longleftrightarrow> (\<forall>e.
     length (sealed_under e xs) + (if e = send_epoch c then unat (messages_in_epoch c) else 0)
       \<le> 2 ^ 20 \<and>
     sum_list (map length (sealed_under e xs))
       + (if e = send_epoch c then unat (bytes_in_epoch c) else 0) \<le> 2 ^ 30)"

definition usage_ok :: "crypto_context \<Rightarrow> bool" where
  "usage_ok c \<longleftrightarrow> unat (messages_in_epoch c) \<le> 2 ^ 20 \<and> unat (bytes_in_epoch c) \<le> 2 ^ 30"

lemma sender_run_epoch:
  assumes "crypto_lib_ok L" "x \<in> set (sender_run L ops c)"
  shows "unat (send_epoch c) \<le> unat (env_epoch (fst x))"
proof -
  have "send_pos c \<le> env_pos (fst x)" using sender_run_pos [OF assms(1)] assms(2) by blast
  then have "send_pos c div 2 ^ 64 \<le> env_pos (fst x) div 2 ^ 64" by (rule div_le_mono)
  then show ?thesis
    using unat_bound [of "send_counter c"] unat_bound [of "u64_from_be (drop 4 (env_nonce (fst x)))"]
    by (simp add: send_pos_def env_pos_def)
qed

lemma usage_within_rotated:
  assumes "usage_within xs d" "usage_ok c" "unat (send_epoch d) = unat (send_epoch c) + 1"
    and "\<And>x. x \<in> set xs \<Longrightarrow> unat (send_epoch d) \<le> unat (env_epoch (fst x))"
  shows "usage_within xs c"
proof -
  have "sealed_under (send_epoch c) xs = []"
    using assms(3,4) by (fastforce simp: sealed_under_def filter_empty_conv)
  moreover have "length (sealed_under e xs) \<le> 2 ^ 20 \<and>
      sum_list (map length (sealed_under e xs)) \<le> 2 ^ 30" for e
    using assms(1) by (meson add_leE usage_within_def)
  ultimately show ?thesis
    using assms(2) by (simp add: usage_within_def usage_ok_def)
qed

lemma usage_within_counted:
  assumes "usage_within xs (counted n w d)" "env_epoch envelope = send_epoch d"
    and "n = length plaintext" "unat (messages_in_epoch d + 1) = unat (messages_in_epoch d) + 1"
    and "unat (bytes_in_epoch d + of_nat n) = unat (bytes_in_epoch d) + n"
  shows "usage_within ((envelope, plaintext) # xs) d"
  unfolding usage_within_def
proof
  fix e
  show "length (sealed_under e ((envelope, plaintext) # xs))
      + (if e = send_epoch d then unat (messages_in_epoch d) else 0) \<le> 2 ^ 20 \<and>
    sum_list (map length (sealed_under e ((envelope, plaintext) # xs)))
      + (if e = send_epoch d then unat (bytes_in_epoch d) else 0) \<le> 2 ^ 30"
    using assms(2-) spec [OF assms(1) [unfolded usage_within_def], of e]
    by (cases "e = send_epoch d") (auto simp: sealed_under_def counted_def)
qed

lemma usage_within_sealing:
  assumes "crypto_lib_ok L" "sealing_context c n d" "usage_ok c"
    and "usage_within xs d" "\<And>x. x \<in> set xs \<Longrightarrow> unat (send_epoch d) \<le> unat (env_epoch (fst x))"
  shows "usage_within xs c"
  using assms usage_within_rotated [of xs d c] by (auto simp: sealing_context_def rotated_def)

lemma usage_ok_sealing:
  assumes "sealing_context c n d" "usage_ok c"
  shows "usage_ok d"
  using assms by (auto simp: sealing_context_def usage_ok_def rotated_def)

lemma usage_ok_counted:
  assumes "sealing_context c n d" "n \<le> 2 ^ 30"
  shows "usage_ok (counted n w d)"
  using assms sealing_context_usage [OF assms(1)]
  by (auto simp: sealing_context_def usage_ok_def rotated_def counted_def)

lemma usage_within_frame:
  "usage_within xs (d\<lparr>send_counter := k, send_window := w\<rparr>) = usage_within xs d"
  by (simp add: usage_within_def)

lemma sender_run_usage:
  assumes "crypto_lib_ok L"
  shows "usage_ok c \<Longrightarrow> (\<And>aad m. Send_Msg aad m \<in> set ops \<Longrightarrow> length m \<le> 2 ^ 30)
    \<Longrightarrow> usage_within (sender_run L ops c) c"
proof (induction ops arbitrary: c)
  case Nil
  then show ?case by (simp add: usage_within_def usage_ok_def sealed_under_def)
next
  case (Cons op ops)
  note epochs = sender_run_epoch [OF assms]
  have IH: "usage_ok c' \<Longrightarrow> usage_within (sender_run L ops c') c'" for c'
    using Cons.IH [of c'] Cons.prems(2) by (meson list.set_intros(2))
  show ?case
  proof (cases op)
    case (Send_Msg aad m)
    then have len: "length m \<le> 2 ^ 30" using Cons.prems(2) by (meson list.set_intros(1))
    show ?thesis
    proof (cases rule: encrypt_cases [of L aad m c])
      case (unchanged e)
      with IH Cons.prems(1) Send_Msg show ?thesis by simp
    next
      case (failed e d w k)
      let ?c' = "d\<lparr>send_counter := k, send_window := w\<rparr>"
      have "usage_ok ?c'"
        using usage_ok_sealing [OF failed(2) Cons.prems(1)] by (simp add: usage_ok_def)
      from IH [OF this] have "usage_within (sender_run L ops ?c') d"
        by (simp add: usage_within_frame)
      from usage_within_sealing [OF assms failed(2) Cons.prems(1) this] epochs [of _ ops ?c']
      show ?thesis using failed(1) Send_Msg by simp
    next
      case (sealed d w prefix key ct)
      let ?c' = "counted (length m) w d"
      let ?env = "sealed_envelope d (take 4 prefix @ u64_be (send_counter d)) ct"
      have "length prefix = 32" by (rule nonce_prefix_length [OF assms sealed(5)])
      then have ep: "env_epoch ?env = send_epoch d" by (simp add: sealed_envelope_fields)
      have "usage_within ((?env, m) # sender_run L ops ?c') d"
        using IH [OF usage_ok_counted [OF sealed(3) len]] ep sealing_context_usage [OF sealed(3,2)]
        by (intro usage_within_counted) simp_all
      moreover have "unat (send_epoch d) \<le> unat (env_epoch (fst x))"
        if "x \<in> set ((?env, m) # sender_run L ops ?c')" for x
        using that ep epochs [of x ops ?c'] by (auto simp: counted_def)
      ultimately have "usage_within ((?env, m) # sender_run L ops ?c') c"
        by (rule usage_within_sealing [OF assms sealed(3) Cons.prems(1)])
      then show ?thesis using sealed(1) Send_Msg by simp
    qed
  next
    case Send_Rotate
    from rotate_key_cases [of c] show ?thesis
      using IH [of c] IH [of "rotated c"] Cons.prems(1) Send_Rotate epochs [of _ ops "rotated c"]
        usage_within_rotated [of "sender_run L ops (rotated c)" "rotated c" c]
      by (auto simp: usage_ok_def rotated_def)
  qed
qed

section \<open>What the receive side accepts\<close>

text \<open>
  A receiving history is a sequence of envelopes, each taken by the strict \<^verbatim>\<open>decrypt\<close> (flag
  \<open>False\<close>) or by \<^verbatim>\<open>decrypt_for_delivery\<close> (flag \<open>True\<close>); \<open>receiver_run\<close> lists the flag and nonce
  of those that were accepted.
\<close>

fun receiver_run ::
  "crypto_lib \<Rightarrow> (bool \<times> byte list \<times> byte list) list \<Rightarrow> crypto_context
     \<Rightarrow> (bool \<times> byte list) list" where
  "receiver_run L [] c = []"
| "receiver_run L ((delivery, aad, envelope) # ops) c =
     (case (if delivery then decrypt_for_delivery L aad envelope c
            else decrypt L aad envelope c) of
        (Inl _, c') \<Rightarrow> receiver_run L ops c'
      | (Inr _, c') \<Rightarrow> (delivery, env_nonce envelope) # receiver_run L ops c')"

lemmas decrypt_defs = decrypt_def decrypt_for_delivery_def

lemma decrypt_flag:
  "(if delivery then decrypt_for_delivery L aad envelope c else decrypt L aad envelope c)
     = decrypt_internal L aad envelope delivery c"
  by (simp add: decrypt_defs)

lemma decrypt_internal_Inl:
  "decrypt_internal L aad envelope allow c = (Inl e, c') \<Longrightarrow> c' = c"
  by (auto simp: decrypt_internal_def accept_received_def reserve_def Let_def
      split: if_splits option.splits sum.splits prod.splits)

definition received :: "byte list \<Rightarrow> crypto_context \<Rightarrow> crypto_context" where
  "received envelope c =
     c\<lparr>receive_epoch := max (receive_epoch c) (env_epoch envelope),
       receive_window := snd (reserve (env_nonce envelope) (receive_window c))\<rparr>"

lemma received_replay:
  "env_nonce envelope \<in> seen (receive_window c) \<Longrightarrow>
     received envelope c = c\<lparr>receive_epoch := max (receive_epoch c) (env_epoch envelope)\<rparr>"
  by (simp add: received_def reserve_def)

lemma received_fresh:
  "env_nonce envelope \<notin> seen (receive_window c) \<Longrightarrow>
     received envelope c =
       (let c = c\<lparr>receive_window := snd (reserve (env_nonce envelope) (receive_window c))\<rparr>
        in if env_epoch envelope > receive_epoch c then c\<lparr>receive_epoch := env_epoch envelope\<rparr>
           else c)"
  by (auto simp: received_def max_def Let_def)

text \<open>The conditions under which \<^verbatim>\<open>decrypt_internal\<close> returns a plaintext.\<close>

definition opens ::
  "crypto_lib \<Rightarrow> crypto_context \<Rightarrow> byte list \<Rightarrow> byte list \<Rightarrow> byte list \<Rightarrow> bool" where
  "opens L c aad envelope clear \<longleftrightarrow>
     42 \<le> length envelope \<and> take 4 envelope = ENVELOPE_MAGIC \<and> envelope ! 4 = 1 \<and>
     envelope ! 5 = suite_code (suite c) \<and>
     unat (env_epoch envelope) \<le> unat (receive_epoch c) + 1 \<and>
     unat (receive_epoch c) < unat (env_epoch envelope) + 4 \<and>
     (\<exists>prefix key. nonce_prefix L c (rx_info c) (env_epoch envelope) = Inr prefix
        \<and> take 4 (env_nonce envelope) = take 4 prefix
        \<and> epoch_key L c (rx_info c) (env_epoch envelope) = Inr key \<and> cipher_key_ok L key
        \<and> unseal L key (env_nonce envelope) aad (drop 26 envelope) = Some clear)"

lemma accept_received_unseen:
  "nonce \<notin> seen w \<Longrightarrow> accept_received nonce w = (Inr (), snd (reserve nonce w))"
  by (simp add: accept_received_def reserve_def split: prod.splits)

lemma epoch_admissible:
  "(\<not> e > saturating_add r 1 \<and> \<not> saturating_sub r e \<ge> MAX_RETAINED_KEY_EPOCHS) \<longleftrightarrow>
     unat e \<le> unat r + 1 \<and> unat r < unat e + 4" for e r :: u64
  using unat_bound [of e]
  by (auto simp: word_less_nat_alt word_le_nat_alt unat_saturating_add unat_saturating_sub
      MAX_RETAINED_KEY_EPOCHS_def)

lemma suite_from_code_iff: "suite_from_code b = Some s \<longleftrightarrow> b = suite_code s"
  by (cases s) (simp add: suite_from_code_def)

lemma decrypt_internal_Inr:
  "decrypt_internal L aad envelope allow c = (Inr clear, c') \<longleftrightarrow>
     opens L c aad envelope clear \<and> (allow \<or> env_nonce envelope \<notin> seen (receive_window c))
     \<and> c' = received envelope c"
proof -
  have upd: "c\<lparr>receive_epoch := max (receive_epoch c) e\<rparr> =
      (if receive_epoch c < e then c\<lparr>receive_epoch := e\<rparr> else c)" for e
    by (auto simp: max_def)
  let ?header = "42 \<le> length envelope \<and> take 4 envelope = ENVELOPE_MAGIC \<and> envelope ! 4 = 1
      \<and> suite_from_code (envelope ! 5) = Some (suite c)"
  let ?epoch = "unat (env_epoch envelope) \<le> unat (receive_epoch c) + 1
      \<and> unat (receive_epoch c) < unat (env_epoch envelope) + 4"
  note ok = epoch_admissible [where e = "env_epoch envelope" and r = "receive_epoch c"]
  consider "\<not> ?header" | "?header" "\<not> ?epoch" | "?header" "?epoch" by blast
  then show ?thesis
  proof cases
    case 1
    then show ?thesis
      by (auto simp: decrypt_internal_def opens_def crypto_consts suite_from_code_iff
          split: option.splits)
  next
    case 2
    then have "env_epoch envelope > saturating_add (receive_epoch c) 1
        \<or> saturating_sub (receive_epoch c) (env_epoch envelope) \<ge> MAX_RETAINED_KEY_EPOCHS"
      using ok by blast
    with 2 show ?thesis
      by (auto simp: decrypt_internal_def opens_def Let_def split: option.splits)
  next
    case 3
    then have "\<not> env_epoch envelope > saturating_add (receive_epoch c) 1"
        "\<not> saturating_sub (receive_epoch c) (env_epoch envelope) \<ge> MAX_RETAINED_KEY_EPOCHS"
      using ok by blast+
    with 3 have "decrypt_internal L aad envelope allow c = (Inr clear, c') \<longleftrightarrow>
        (\<exists>prefix key. nonce_prefix L c (rx_info c) (env_epoch envelope) = Inr prefix
          \<and> take 4 (env_nonce envelope) = take 4 prefix
          \<and> epoch_key L c (rx_info c) (env_epoch envelope) = Inr key \<and> cipher_key_ok L key
          \<and> unseal L key (env_nonce envelope) aad (drop 26 envelope) = Some clear)
        \<and> (allow \<or> env_nonce envelope \<notin> seen (receive_window c)) \<and> c' = received envelope c"
      by (cases "nonce_prefix L c (rx_info c) (env_epoch envelope)";
          cases "epoch_key L c (rx_info c) (env_epoch envelope)";
          cases "env_nonce envelope \<in> seen (receive_window c)")
        (auto simp: decrypt_internal_def Let_def crypto_consts accept_received_unseen
          received_replay received_fresh upd split: option.splits)
    with 3 show ?thesis by (simp add: opens_def suite_from_code_iff)
  qed
qed

subsection \<open>Replay\<close>

lemma window_ok_received:
  "window_ok (receive_window c) \<Longrightarrow> window_ok (receive_window (received envelope c))"
  by (simp add: received_def window_ok_reserve)

lemma received_capacity:
  "capacity (receive_window (received envelope c)) = capacity (receive_window c)"
  by (simp add: received_def replay.cap_push)

lemma receiver_run_distance:
  "window_ok (receive_window c) \<Longrightarrow> order (receive_window c) = xs @ nonce # ys \<Longrightarrow>
   j < length (receiver_run L ops c) \<Longrightarrow> receiver_run L ops c ! j = (False, nonce) \<Longrightarrow>
   capacity (receive_window c) \<le> j + length ys"
proof (induction ops arbitrary: c xs ys j)
  case (Cons op ops)
  obtain delivery aad envelope where op: "op = (delivery, aad, envelope)" by (cases op)
  obtain r c' where d: "decrypt_internal L aad envelope delivery c = (r, c')" by force
  show ?case
  proof (cases r)
    case (Inl e)
    then show ?thesis
      using Cons d decrypt_internal_Inl [of L aad envelope delivery c e c']
      by (simp add: op decrypt_flag)
  next
    case (Inr clear)
    let ?n = "env_nonce envelope" and ?w = "receive_window c"
    have acc: "delivery \<or> ?n \<notin> seen ?w" and c': "c' = received envelope c"
      using d Inr by (simp_all add: decrypt_internal_Inr)
    have run: "receiver_run L (op # ops) c = (delivery, ?n) # receiver_run L ops c'"
      using d Inr by (simp add: op decrypt_flag)
    have mem: "nonce \<in> seen ?w" using Cons.prems(1,2) by (simp add: window_ok_def)
    have j: "0 < j" using acc mem Cons.prems(4) by (cases j) (auto simp: run)
    have step: "receive_window c' = snd (reserve ?n ?w)" by (simp add: c' received_def)
    note w' = window_ok_received [OF Cons.prems(1), of envelope, folded c']
      and cap = received_capacity [of envelope c, folded c']
    have tail: "j - 1 < length (receiver_run L ops c')" "receiver_run L ops c' ! (j - 1) = (False, nonce)"
      using Cons.prems(3,4) j by (simp_all add: run)
    show ?thesis
    proof (cases "?n \<in> seen ?w \<or> capacity ?w \<le> length ys + 1")
      case True
      then show ?thesis
        using Cons.IH [OF w' _ tail, of xs ys] cap j Cons.prems(2)
        by (auto simp: step reserve_def)
    next
      case False
      then obtain xs' where "order (receive_window c') = xs' @ nonce # ys @ [?n]"
        using replay.push_recent [OF Cons.prems(1), of ?n xs nonce ys] Cons.prems(2)
        by (auto simp: step)
      from Cons.IH [OF w' this tail] show ?thesis using cap j by simp
    qed
  qed
qed simp

lemma receiver_run_replay:
  "window_ok (receive_window c) \<Longrightarrow> i < j \<Longrightarrow> j < length (receiver_run L ops c) \<Longrightarrow>
   receiver_run L ops c ! i = (False, nonce) \<Longrightarrow> receiver_run L ops c ! j = (False, nonce) \<Longrightarrow>
   capacity (receive_window c) < j - i"
proof (induction ops arbitrary: c i j)
  case (Cons op ops)
  obtain delivery aad envelope where op: "op = (delivery, aad, envelope)" by (cases op)
  obtain r c' where d: "decrypt_internal L aad envelope delivery c = (r, c')" by force
  show ?case
  proof (cases r)
    case (Inl e)
    then show ?thesis
      using Cons d decrypt_internal_Inl [of L aad envelope delivery c e c']
      by (simp add: op decrypt_flag)
  next
    case (Inr clear)
    let ?n = "env_nonce envelope" and ?w = "receive_window c"
    have acc: "delivery \<or> ?n \<notin> seen ?w" and c': "c' = received envelope c"
      using d Inr by (simp_all add: decrypt_internal_Inr)
    have run: "receiver_run L (op # ops) c = (delivery, ?n) # receiver_run L ops c'"
      using d Inr by (simp add: op decrypt_flag)
    note w' = window_ok_received [OF Cons.prems(1), of envelope, folded c']
      and cap = received_capacity [of envelope c, folded c']
    show ?thesis
    proof (cases i)
      case 0
      then have n: "?n = nonce" "?n \<notin> seen ?w" using Cons.prems(4) acc by (auto simp: run)
      obtain xs where "order (receive_window c') = xs @ nonce # []"
        using replay.items_push [OF Cons.prems(1) n(2)] n Cons.prems(1)
        by (auto simp: c' received_def window_ok_def)
      moreover obtain j' where "j = Suc j'" using Cons.prems(2) by (cases j) simp_all
      ultimately show ?thesis
        using receiver_run_distance [OF w', of xs nonce "[]" j' L ops] Cons.prems 0 cap
        by (simp add: run)
    next
      case (Suc i')
      then show ?thesis
        using Cons.IH [OF w', of i' "j - 1"] Cons.prems cap by (simp add: run)
    qed
  qed
qed simp

subsection \<open>Two linked contexts\<close>

text \<open>
  Both ends of a session derive their context from the same root with opposite roles.  As
  long as every envelope is delivered once and in order, the receiver's epoch and window
  mirror the sender's.
\<close>

definition linked :: "crypto_context \<Rightarrow> crypto_context \<Rightarrow> bool" where
  "linked s r \<longleftrightarrow> root_key r = root_key s \<and> rx_info r = tx_info s \<and> suite r = suite s
     \<and> receive_epoch r = send_epoch s \<and> receive_window r = send_window s"

fun deliver_run ::
  "crypto_lib \<Rightarrow> (byte list \<times> byte list) list \<Rightarrow> crypto_context \<Rightarrow> crypto_context
     \<Rightarrow> (byte list \<times> (crypto_error + byte list)) list" where
  "deliver_run L [] s r = []"
| "deliver_run L ((aad, m) # ms) s r =
     (case encrypt L aad m s of
        (Inl _, _) \<Rightarrow> []
      | (Inr envelope, s') \<Rightarrow>
          (case decrypt L aad envelope r of
             (res, r') \<Rightarrow> (m, res) # deliver_run L ms s' r'))"

lemma linked_step:
  assumes "crypto_lib_ok L" "linked s r" "encrypt L aad m s = (Inr envelope, s')"
  shows "decrypt L aad envelope r = (Inr m, received envelope r) \<and> linked s' (received envelope r)"
proof (cases rule: encrypt_cases [of L aad m s])
  case (sealed d w prefix key ct)
  let ?nonce = "take 4 prefix @ u64_be (send_counter d)"
  have n: "length prefix = 32" by (rule nonce_prefix_length [OF assms(1) sealed(5)])
  have ct: "length ct = length m + 16" "unseal L key ?nonce aad ct = Some m"
    using assms(1) sealed(8) by (auto simp: crypto_lib_ok_def GCM_TAG_BYTES_def)
  have env: "envelope = sealed_envelope d ?nonce ct" and s': "s' = counted (length m) w d"
    using sealed(1) assms(3) by simp_all
  have d: "root_key d = root_key s" "tx_info d = tx_info s" "suite d = suite s"
      "send_window d = send_window s"
      "unat (send_epoch d) = unat (send_epoch s) \<or> unat (send_epoch d) = unat (send_epoch s) + 1"
    using sealed(3) by (auto simp: sealing_context_def rotated_def)
  have keys: "nonce_prefix L r (rx_info r) (send_epoch d) = Inr prefix"
      "epoch_key L r (rx_info r) (send_epoch d) = Inr key"
    using sealed(5,6) d assms(2) by (simp_all add: linked_def epoch_key_def nonce_prefix_def)
  have le: "send_epoch s \<le> send_epoch d" using d(5) by (auto simp: word_le_nat_alt)
  have fields: "env_epoch envelope = send_epoch d" "env_nonce envelope = ?nonce"
      "drop 26 envelope = ct"
    using n by (simp_all add: env sealed_envelope_fields)
  have "opens L r aad envelope m"
    using assms(2) n ct d keys sealed(7) fields
    by (auto simp: opens_def env sealed_envelope_fields linked_def ENVELOPE_VERSION_def)
  then have "decrypt L aad envelope r = (Inr m, received envelope r)"
    using sealed(9) d assms(2) fields by (simp add: decrypt_def decrypt_internal_Inr linked_def)
  moreover have "linked s' (received envelope r)"
    using assms(2) d fields sealed(10) le
    by (simp add: linked_def s' counted_def received_def max_def)
  ultimately show ?thesis by simp
qed (use assms in auto)

lemma deliver_run_linked:
  "crypto_lib_ok L \<Longrightarrow> linked s r \<Longrightarrow> (m, res) \<in> set (deliver_run L ms s r) \<Longrightarrow> res = Inr m"
proof (induction ms arbitrary: s r)
  case (Cons x ms)
  obtain aad p where x: "x = (aad, p)" by (cases x)
  obtain e s' where e: "encrypt L aad p s = (e, s')" by force
  show ?case
  proof (cases e)
    case (Inl err)
    with Cons.prems e x show ?thesis by simp
  next
    case (Inr envelope)
    from linked_step [OF Cons.prems(1,2) e [unfolded Inr]] Cons e Inr x show ?thesis by auto
  qed
qed simp

lemma linked_from_session_root:
  "linked (from_session_root root i) (from_session_root root (\<not> i))"
  by (simp add: linked_def from_session_root_def)

section \<open>Properties\<close>

text \<open>
  A concrete instance of the library interface for the witnesses: derived keys and tags
  repeat a checksum byte of their inputs.
\<close>

definition sum_lib :: crypto_lib where
  "sum_lib =
     \<lparr>hkdf = (\<lambda>salt ikm info. Some (replicate 32 (last ikm + last info))),
      cipher_key_ok = (\<lambda>k. length k = 32),
      seal = (\<lambda>k n a m. Some (m @ replicate 16 (last k + last n + sum_list (a @ m)))),
      unseal = (\<lambda>k n a c.
        let m = take (length c - 16) c in
        if drop (length c - 16) c = replicate 16 (last k + last n + sum_list (a @ m)) then Some m
        else None)\<rparr>"

lemma sum_lib_ok: "crypto_lib_ok sum_lib"
  by (simp add: crypto_lib_ok_def sum_lib_def GCM_TAG_BYTES_def Let_def)

lemma message_limit_literal: "\<not> (1048576 :: u64) \<le> 1"
  by (simp add: word_le_nat_alt)

lemmas crypto_eval =
  encrypt_def next_nonce_def encrypt_with_nonce_def from_session_root_def checked_add_def
  nonce_prefix_def epoch_key_def derive_material_def sum_lib_def reserve_def
  replay_window_new_def REPLAY_WINDOW_CAPACITY_def MAX_MESSAGES_PER_KEY_def
  MAX_BYTES_PER_KEY_def saturating_sub_def rotate_key_def crypto_consts u64_be_def last_append
  to_be_eval message_limit_literal

text \<open>
  C3. Nonces are never reused under a key epoch: over any sequence of encryptions and key
  rotations, from any context state, the pairs of epoch and nonce in the emitted envelopes
  are pairwise distinct, whichever operations fail in between.
\<close>

theorem nonce_never_reused:
  assumes "crypto_lib_ok L"
  shows "distinct (map (\<lambda>x. (env_epoch (fst x), env_nonce (fst x))) (sender_run L ops c))"
proof -
  have "distinct (map (env_pos \<circ> fst) (sender_run L ops c))"
    using sender_run_pos [OF assms] strict_sorted_iff by blast
  then show ?thesis
    by (auto simp: distinct_map inj_on_def env_pos_def)
qed

theorem nonce_never_reused_witness:
  "distinct (map (\<lambda>x. (env_epoch (fst x), env_nonce (fst x)))
     (sender_run sum_lib [Send_Msg [1] [2, 3], Send_Msg [1] [2, 3], Send_Rotate, Send_Msg [] [9]]
       (from_session_root [7, 7] True))) \<and>
   length (sender_run sum_lib [Send_Msg [1] [2, 3], Send_Msg [1] [2, 3], Send_Rotate, Send_Msg [] [9]]
       (from_session_root [7, 7] True)) = 3"
  using nonce_never_reused [OF sum_lib_ok] by (rule conjI) (simp add: crypto_eval)

text \<open>
  Key usage is bounded: in any sending history of a fresh context whose messages are at
  most one GiB, no key epoch seals more than 1048576 messages or more than 2^30 plaintext
  bytes; \<^verbatim>\<open>encrypt\<close> rotates first.
\<close>

theorem key_usage_bounded:
  assumes "crypto_lib_ok L" and "\<And>aad m. Send_Msg aad m \<in> set ops \<Longrightarrow> length m \<le> 2 ^ 30"
  shows "length (sealed_under epoch (sender_run L ops (from_session_root root initiator)))
      \<le> 1048576
    \<and> sum_list (map length (sealed_under epoch
        (sender_run L ops (from_session_root root initiator)))) \<le> 1073741824"
proof -
  let ?xs = "sender_run L ops (from_session_root root initiator)"
  have "usage_ok (from_session_root root initiator)"
    by (simp add: usage_ok_def from_session_root_def)
  then have "usage_within ?xs (from_session_root root initiator)"
    using assms(2) by (rule sender_run_usage [OF assms(1)])
  then have "length (sealed_under epoch ?xs) \<le> 2 ^ 20
      \<and> sum_list (map length (sealed_under epoch ?xs)) \<le> 2 ^ 30"
    by (meson add_leE usage_within_def)
  then show ?thesis by simp
qed

theorem key_usage_bounded_witness:
  "length (sealed_under 0 (sender_run sum_lib [Send_Msg [1] [2, 3], Send_Rotate, Send_Msg [] [9]]
      (from_session_root [7, 7] True))) \<le> 1048576
   \<and> sum_list (map length (sealed_under 0 (sender_run sum_lib
       [Send_Msg [1] [2, 3], Send_Rotate, Send_Msg [] [9]] (from_session_root [7, 7] True))))
       \<le> 1073741824"
  by (rule key_usage_bounded [OF sum_lib_ok]) auto

text \<open>
  C5. End to end: with contexts derived from one root in opposite roles, every message that
  the sender encrypts and the receiver decrypts once and in order comes out as it went in,
  through any number of key rotations.
\<close>

theorem session_delivers_plaintext:
  assumes "crypto_lib_ok L"
    and "(m, res) \<in> set (deliver_run L ms (from_session_root root i) (from_session_root root (\<not> i)))"
  shows "res = Inr m"
  using assms linked_from_session_root by (intro deliver_run_linked) auto

theorem session_delivers_plaintext_witness:
  "\<exists>res. deliver_run sum_lib [([1], [2, 3])] (from_session_root [7, 7] True)
       (from_session_root [7, 7] (\<not> True)) = [([2, 3], res)] \<and> res = Inr [2, 3]"
proof -
  obtain envelope s' where "encrypt sum_lib [1] [2, 3] (from_session_root [7, 7] True)
      = (Inr envelope, s')"
    by (simp add: crypto_eval)
  moreover obtain res r' where "decrypt sum_lib [1] envelope (from_session_root [7, 7] (\<not> True))
      = (res, r')"
    by force
  ultimately have "deliver_run sum_lib [([1], [2, 3])] (from_session_root [7, 7] True)
       (from_session_root [7, 7] (\<not> True)) = [([2, 3], res)]"
    by simp
  then show ?thesis
    using session_delivers_plaintext [OF sum_lib_ok,
        of "[2, 3]" res "[([1], [2, 3])]" "[7, 7]" True] by simp
qed

text \<open>
  C7. Strict replay protection: in any mix of strict and delivery-mode decryptions on one
  context, strict acceptances at most 4096 acceptances apart have different nonces.
\<close>

theorem strict_replay_rejected:
  assumes "i < j" "j < length (receiver_run L ops (from_session_root root initiator))"
    and "j - i \<le> 4096"
    and "\<not> fst (receiver_run L ops (from_session_root root initiator) ! i)"
    and "\<not> fst (receiver_run L ops (from_session_root root initiator) ! j)"
  shows "snd (receiver_run L ops (from_session_root root initiator) ! i)
    \<noteq> snd (receiver_run L ops (from_session_root root initiator) ! j)"
proof
  let ?c = "from_session_root root initiator"
  let ?nonce = "snd (receiver_run L ops ?c ! j)"
  assume "snd (receiver_run L ops ?c ! i) = ?nonce"
  then have "receiver_run L ops ?c ! i = (False, ?nonce)" "receiver_run L ops ?c ! j = (False, ?nonce)"
    using assms(4,5) by (simp_all add: prod_eq_iff)
  moreover have "window_ok (receive_window ?c)" "capacity (receive_window ?c) = 4096"
    by (simp_all add: from_session_root_def window_ok_new)
      (simp add: REPLAY_WINDOW_CAPACITY_def replay_window_new_def)
  ultimately show False using receiver_run_replay [OF _ assms(1,2)] assms(3) by fastforce
qed

definition sum_envelope :: "byte \<Rightarrow> byte list" where
  "sum_envelope k = ENVELOPE_MAGIC @ [1, 1] @ [0, 0, 0, 0, 0, 0, 0, 0]
     @ [57, 57, 57, 57] @ [0, 0, 0, 0, 0, 0, 0, k] @ [2, 3] @ replicate 16 (13 + k)"

lemma last_prefix_info: "last NONCE_PREFIX_KDF_INFO = 50"
  by (simp add: NONCE_PREFIX_KDF_INFO_def str_bytes_def)

lemma replicate_4: "replicate 4 x = [x, x, x, x]"
  by (simp add: eval_nat_numeral)

lemmas decrypt_eval =
  decrypt_def decrypt_internal_def crypto_eval sum_envelope_def env_epoch_def env_nonce_def
  u64_from_be_def suite_from_code_def accept_received_def nth_append saturating_add_def
  MAX_RETAINED_KEY_EPOCHS_def Let_def from_be_def last_prefix_info replicate_4

lemma sum_envelope_accepted:
  "receiver_run sum_lib [(False, [1], sum_envelope 0), (False, [1], sum_envelope 1)]
     (from_session_root [7, 7] False)
   = [(False, [57, 57, 57, 57, 0, 0, 0, 0, 0, 0, 0, 0]),
      (False, [57, 57, 57, 57, 0, 0, 0, 0, 0, 0, 0, 1])]"
  by (simp add: decrypt_eval)

theorem strict_replay_rejected_witness:
  "snd (receiver_run sum_lib [(False, [1], sum_envelope 0), (False, [1], sum_envelope 1)]
     (from_session_root [7, 7] False) ! 0)
   \<noteq> snd (receiver_run sum_lib [(False, [1], sum_envelope 0), (False, [1], sum_envelope 1)]
     (from_session_root [7, 7] False) ! 1)"
  by (rule strict_replay_rejected) (simp_all only: sum_envelope_accepted, simp_all)

text \<open>
  C27. Decryption is authenticated: a failed decryption leaves the context unchanged, in both
  modes; a successful one returns a plaintext that the AEAD opened under the key of an
  epoch at most one ahead of and fewer than four behind the receive epoch, with a nonce not
  in the window in strict mode, and only moves the receive epoch forward and the window on.
\<close>

theorem decrypt_authenticated:
  "case decrypt_internal L aad envelope allow c of
     (Inl e, c') \<Rightarrow> c' = c
   | (Inr clear, c') \<Rightarrow>
       opens L c aad envelope clear
       \<and> (allow \<or> env_nonce envelope \<notin> seen (receive_window c))
       \<and> c' = received envelope c"
proof (cases "decrypt_internal L aad envelope allow c")
  case (Pair r c')
  then show ?thesis
    using decrypt_internal_Inl [of L aad envelope allow c "projl r" c']
      decrypt_internal_Inr [of L aad envelope allow c "projr r" c']
    by (cases r) simp_all
qed

theorem decrypt_authenticated_witness:
  "opens sum_lib (from_session_root [7, 7] False) [1] (sum_envelope 0) [2, 3]
   \<and> snd (decrypt_internal sum_lib [1] (sum_envelope 0) False (from_session_root [7, 7] False))
     = received (sum_envelope 0) (from_session_root [7, 7] False)"
proof -
  let ?c = "from_session_root [7, 7] False"
  obtain c' where "decrypt_internal sum_lib [1] (sum_envelope 0) False ?c = (Inr [2, 3], c')"
    by (simp add: decrypt_eval)
  then show ?thesis
    using decrypt_authenticated [where L = sum_lib and aad = "[1]" and envelope = "sum_envelope 0"
        and allow = False and c = ?c] by simp
qed

end
