(* ===== verification/Crypto_Session.thy ===== *)
theory Crypto_Session
  imports Crypto_Context
begin

text \<open>
  \<^verbatim>\<open>network-core/src/crypto/session.rs\<close>: the owner of the session contexts, the sealed
  application offer and the associated data of file chunks and data messages.  An
  \<^verbatim>\<open>Arc<Mutex<CryptoContext>>\<close> is an address into the list of allocated contexts, so that
  aliasing and \<^verbatim>\<open>Arc::ptr_eq\<close> are equality of addresses.  A poisoned lock, the only source of
  \<open>StateUnavailable\<close>, does not arise in the model: no operation panics while holding it.
\<close>

section \<open>Context owner\<close>

type_synonym context_key = "string \<times> string"

record crypto_manager =
  contexts :: "(context_key, nat) hmap"
  allocated :: "crypto_context list"

definition crypto_manager_new :: crypto_manager where
  "crypto_manager_new = \<lparr>contexts = [], allocated = []\<rparr>"

definition install_material_aliases ::
  "string \<Rightarrow> string list \<Rightarrow> byte list \<Rightarrow> bool \<Rightarrow> crypto_manager
     \<Rightarrow> (crypto_error + nat) \<times> crypto_manager" where
  "install_material_aliases peer_id session_ids root initiator m =
     (let retained = hm_retain (\<lambda>k _. fst k \<noteq> peer_id) (contexts m);
          ctx = length (allocated m)
      in (Inr ctx,
          \<lparr>contexts = fold (\<lambda>session_id cs. hm_insert (peer_id, session_id) ctx cs) session_ids retained,
           allocated = allocated m @ [from_session_root root initiator]\<rparr>))"

definition get_context :: "string \<Rightarrow> string \<Rightarrow> crypto_manager \<Rightarrow> crypto_error + nat" where
  "get_context peer_id session_id m =
     (case hm_get (contexts m) (peer_id, session_id) of
        Some ctx \<Rightarrow> Inr ctx | None \<Rightarrow> Inl E2eeRequired)"

definition remove_session :: "string \<Rightarrow> string \<Rightarrow> crypto_manager \<Rightarrow> crypto_manager" where
  "remove_session peer_id session_id m =
     (case hm_get (contexts m) (peer_id, session_id) of
        None \<Rightarrow> m
      | Some ctx \<Rightarrow>
          m\<lparr>contexts := hm_retain (\<lambda>_ current. current \<noteq> ctx)
               (hm_remove (peer_id, session_id) (contexts m))\<rparr>)"

section \<open>Sealed offers and associated data\<close>

definition OFFER_KDF_INFO :: "byte list" where
  "OFFER_KDF_INFO = str_bytes ''ssh-mobile/session/application/offer/v1''"
definition OFFER_AAD_PREFIX :: "byte list" where
  "OFFER_AAD_PREFIX = str_bytes ''ssh-mobile/session/application/offer/v1''"
definition FILE_CHUNK_AAD_PREFIX :: "byte list" where
  "FILE_CHUNK_AAD_PREFIX = str_bytes ''ssh-mobile/session/application/file-chunk/v1''"
definition X25519_PUBLIC_KEY_BYTES :: nat where "X25519_PUBLIC_KEY_BYTES = 32"

text \<open>
  X25519 as library code: \<open>public_key secret\<close> and \<open>diffie_hellman secret public\<close>, with the
  key-agreement law as the named hypothesis.  The ephemeral secret and the nonce come from
  the operating system's generator and are arguments.
\<close>

record x25519 =
  public_key :: "byte list \<Rightarrow> byte list"
  diffie_hellman :: "byte list \<Rightarrow> byte list \<Rightarrow> byte list"

definition x25519_ok :: "x25519 \<Rightarrow> bool" where
  "x25519_ok X \<longleftrightarrow> (\<forall>a. length (public_key X a) = 32) \<and>
     (\<forall>a b. diffie_hellman X a (public_key X b) = diffie_hellman X b (public_key X a))"

definition offer_aad :: "byte list \<Rightarrow> byte list" where
  "offer_aad session_id = OFFER_AAD_PREFIX @ session_id"

definition encrypt_application_offer ::
  "crypto_lib \<Rightarrow> x25519 \<Rightarrow> byte list \<Rightarrow> byte list \<Rightarrow> byte list \<Rightarrow> byte list \<Rightarrow> byte list
     \<Rightarrow> crypto_error + byte list" where
  "encrypt_application_offer L X ephemeral nonce plaintext peer_public_key session_id =
     (case derive_material L (diffie_hellman X ephemeral peer_public_key) session_id OFFER_KDF_INFO of
        Inl e \<Rightarrow> Inl e
      | Inr key \<Rightarrow>
          if \<not> cipher_key_ok L key then Inl InvalidKey
          else case seal L key nonce (offer_aad session_id) plaintext of
            None \<Rightarrow> Inl Encryption
          | Some encrypted \<Rightarrow> Inr (public_key X ephemeral @ nonce @ encrypted))"

definition decrypt_application_offer ::
  "crypto_lib \<Rightarrow> x25519 \<Rightarrow> byte list \<Rightarrow> byte list \<Rightarrow> byte list \<Rightarrow> crypto_error + byte list" where
  "decrypt_application_offer L X envelope local_secret session_id =
     (let minimum = X25519_PUBLIC_KEY_BYTES + GCM_NONCE_BYTES + GCM_TAG_BYTES in
      if length envelope < minimum then Inl InvalidEnvelope
      else
        let ephemeral_key = take X25519_PUBLIC_KEY_BYTES envelope;
            nonce = take (minimum - GCM_TAG_BYTES - X25519_PUBLIC_KEY_BYTES)
                      (drop X25519_PUBLIC_KEY_BYTES envelope)
        in case derive_material L (diffie_hellman X local_secret ephemeral_key) session_id
                  OFFER_KDF_INFO of
             Inl e \<Rightarrow> Inl e
           | Inr key \<Rightarrow>
               if \<not> cipher_key_ok L key then Inl InvalidKey
               else case unseal L key nonce (offer_aad session_id)
                           (drop (minimum - GCM_TAG_BYTES) envelope) of
                 None \<Rightarrow> Inl Decryption | Some clear \<Rightarrow> Inr clear)"

definition append_len_prefixed :: "byte list \<Rightarrow> byte list \<Rightarrow> byte list" where
  "append_len_prefixed out bytes = out @ u32_be (of_nat (length bytes)) @ bytes"

definition file_chunk_aad :: "string \<Rightarrow> string \<Rightarrow> string \<Rightarrow> u64 \<Rightarrow> byte list" where
  "file_chunk_aad session_id transfer_id manifest_hash sequence =
     (let aad = FILE_CHUNK_AAD_PREFIX;
          aad = append_len_prefixed aad (str_bytes session_id);
          aad = append_len_prefixed aad (str_bytes transfer_id);
          aad = append_len_prefixed aad (str_bytes manifest_hash)
      in aad @ u64_be sequence)"

definition next_sequence :: "u64 \<Rightarrow> crypto_error + u64" where
  "next_sequence sequence =
     (case checked_add sequence 1 of None \<Rightarrow> Inl SequenceOverflow | Some n \<Rightarrow> Inr n)"

definition data_message_aad ::
  "string \<Rightarrow> string \<Rightarrow> byte list \<Rightarrow> u64 \<Rightarrow> u64 \<Rightarrow> u32 \<Rightarrow> byte list" where
  "data_message_aad session_id channel_id message_id sequence recovery_epoch policy =
     (let aad = [];
          aad = append_len_prefixed aad (str_bytes session_id);
          aad = append_len_prefixed aad (str_bytes channel_id);
          aad = append_len_prefixed aad message_id
      in aad @ u64_be sequence @ u64_be recovery_epoch @ u32_be policy)"

section \<open>Lemmas\<close>

definition len_prefixed :: "byte list \<Rightarrow> byte list" where
  "len_prefixed bytes = u32_be (of_nat (length bytes)) @ bytes"

lemma append_len_prefixed_eq: "append_len_prefixed out bytes = out @ len_prefixed bytes"
  by (simp add: append_len_prefixed_def len_prefixed_def)

lemma len_prefixed_inject:
  assumes "length x < 2 ^ 32" "length y < 2 ^ 32"
  shows "len_prefixed x @ r = len_prefixed y @ s \<longleftrightarrow> x = y \<and> r = s"
proof
  assume "len_prefixed x @ r = len_prefixed y @ s"
  then have "(of_nat (length x) :: u32) = of_nat (length y)" and t: "x @ r = y @ s"
    by (simp_all add: len_prefixed_def)
  then have "unat (of_nat (length x) :: u32) = unat (of_nat (length y) :: u32)" by simp
  then have "length x = length y" using assms by (simp add: unat_of_nat)
  with t show "x = y \<and> r = s" by simp
qed simp

lemma len_prefixed_eq:
  "length x < 2 ^ 32 \<Longrightarrow> length y < 2 ^ 32 \<Longrightarrow> len_prefixed x = len_prefixed y \<longleftrightarrow> x = y"
  using len_prefixed_inject [of x y "[]" "[]"] by simp

lemma hm_get_fold_insert:
  "hm_get (fold (\<lambda>x cs. hm_insert (f x) v cs) xs cs) k =
     (if k \<in> f ` set xs then Some v else hm_get cs k)"
  by (induction xs arbitrary: cs) auto

lemma hm_wf_fold_insert: "hm_wf cs \<Longrightarrow> hm_wf (fold (\<lambda>x cs. hm_insert (f x) v cs) xs cs)"
  by (induction xs arbitrary: cs) auto

lemma get_after_install:
  assumes "hm_wf (contexts m)"
  shows "hm_get (contexts (snd (install_material_aliases p ids root i m))) k =
     (if fst k = p then (if snd k \<in> set ids then Some (length (allocated m)) else None)
      else hm_get (contexts m) k)"
  using assms
  by (cases k) (auto simp: install_material_aliases_def Let_def hm_get_fold_insert
      hm_get_retain split: option.splits)

lemma get_after_remove:
  assumes "hm_wf (contexts m)"
  shows "hm_get (contexts (remove_session p s m)) k =
     (case hm_get (contexts m) k of
        Some a \<Rightarrow> if hm_get (contexts m) (p, s) = Some a then None else Some a
      | None \<Rightarrow> None)"
  using assms by (auto simp: remove_session_def hm_get_retain split: option.splits)

datatype manager_event = Install string "string list" "byte list" bool | Remove string string

fun manager_step :: "manager_event \<Rightarrow> crypto_manager \<Rightarrow> crypto_manager" where
  "manager_step (Install p ids root i) m = snd (install_material_aliases p ids root i m)"
| "manager_step (Remove p s) m = remove_session p s m"

text \<open>
  Aliases name one live context per peer, contexts are never shared between peers, and
  every alias refers to an allocated context.
\<close>

definition manager_inv :: "crypto_manager \<Rightarrow> bool" where
  "manager_inv m \<longleftrightarrow> hm_wf (contexts m) \<and>
     (\<forall>p s a. hm_get (contexts m) (p, s) = Some a \<longrightarrow> a < length (allocated m)) \<and>
     (\<forall>p s p' s' a a'. hm_get (contexts m) (p, s) = Some a \<longrightarrow>
        hm_get (contexts m) (p', s') = Some a' \<longrightarrow> (p = p') = (a = a'))"

lemma manager_inv_wf: "manager_inv m \<Longrightarrow> hm_wf (contexts m)"
  by (simp add: manager_inv_def)

lemma manager_inv_install:
  assumes "manager_inv m" shows "manager_inv (snd (install_material_aliases p ids root i m))"
proof -
  let ?m = "snd (install_material_aliases p ids root i m)"
  have "hm_wf (contexts ?m)" "length (allocated ?m) = Suc (length (allocated m))"
    using assms
    by (simp_all add: install_material_aliases_def Let_def manager_inv_def hm_wf_fold_insert)
  moreover have "a < length (allocated m)" if "hm_get (contexts m) (q, s) = Some a" for q s a
    using assms that by (simp add: manager_inv_def)
  moreover note assms
  ultimately show ?thesis
    unfolding manager_inv_def get_after_install [OF manager_inv_wf [OF assms]]
    by (auto split: if_splits dest: less_imp_neq intro: less_SucI)
qed

lemma manager_inv_remove:
  assumes "manager_inv m" shows "manager_inv (remove_session p s m)"
proof -
  note wf = manager_inv_wf [OF assms]
  have sub: "hm_get (contexts (remove_session p s m)) k = Some a \<Longrightarrow> hm_get (contexts m) k = Some a"
    for k a using get_after_remove [OF wf, of p s k] by (auto split: option.splits if_splits)
  have "hm_wf (contexts (remove_session p s m))" "allocated (remove_session p s m) = allocated m"
    using wf by (simp_all add: remove_session_def split: option.splits)
  with assms sub show ?thesis unfolding manager_inv_def by metis
qed

interpretation cm: invariant_system manager_step manager_inv
proof
  show "manager_inv (manager_step e m)" if "manager_inv m" for m e
    using that by (cases e) (simp_all add: manager_inv_install manager_inv_remove)
qed

lemma manager_inv_reachable: "manager_inv (fold manager_step es crypto_manager_new)"
  by (rule cm.run_inv) (simp add: manager_inv_def crypto_manager_new_def)

section \<open>Properties\<close>

text \<open>
  One context per peer: after any history of installs and removals, two session aliases
  of one peer resolve to the same context, no context is shared between peers, and removing
  one alias leaves the peer without any usable context.
\<close>

theorem one_context_per_peer:
  assumes "m = fold manager_step es crypto_manager_new"
    and "get_context p s m = Inr a" "get_context q t m = Inr b"
  shows "(p = q) = (a = b) \<and>
    get_context q t (remove_session p s m) = (if p = q then Inl E2eeRequired else Inr b)"
proof -
  have inv: "manager_inv m" using manager_inv_reachable assms(1) by simp
  have g: "hm_get (contexts m) (p, s) = Some a" "hm_get (contexts m) (q, t) = Some b"
    using assms(2,3) by (simp_all add: get_context_def split: option.splits)
  then have "(p = q) = (a = b)" using inv unfolding manager_inv_def by blast
  then show ?thesis
    using g get_after_remove [OF manager_inv_wf [OF inv], of p s "(q, t)"]
    by (simp add: get_context_def)
qed

theorem one_context_per_peer_witness:
  "(''p'' = ''p'') = ((0::nat) = 0) \<and>
   get_context ''p'' ''b'' (remove_session ''p'' ''a''
     (fold manager_step [Install ''p'' [''a'', ''b''] [1] True] crypto_manager_new))
   = (if ''p'' = ''p'' then Inl E2eeRequired else Inr 0)"
  by (rule one_context_per_peer [where es = "[Install ''p'' [''a'', ''b''] [1] True]"])
    (simp_all add: crypto_manager_new_def install_material_aliases_def get_context_def
      hm_retain_def)

text \<open>
  A fresh root replaces every alias of the peer: after an install, exactly the given
  session ids of the peer resolve, all to the new context derived from the new root, and
  the aliases of other peers are untouched.
\<close>

theorem install_replaces_peer:
  "let m = fold manager_step es crypto_manager_new;
       (r, m') = install_material_aliases p ids root i m
   in get_context q t m' =
        (if q = p then (if t \<in> set ids then r else Inl E2eeRequired) else get_context q t m)
      \<and> allocated m' ! projr r = from_session_root root i"
proof -
  let ?m = "fold manager_step es crypto_manager_new"
  have wf: "hm_wf (contexts ?m)"
    using manager_inv_wf [OF manager_inv_reachable] by simp
  show ?thesis
    using get_after_install [OF wf, of p ids root i "(q, t)"]
    by (auto simp: get_context_def install_material_aliases_def Let_def)
qed

text \<open>
  A sealed offer opens for its recipient: whenever sealing succeeds for the public key
  of a secret, the holder of that secret reads back the plaintext under the same session.
\<close>

theorem offer_roundtrip:
  assumes "crypto_lib_ok L" "x25519_ok X" "length nonce = 12"
    and "encrypt_application_offer L X ephemeral nonce plaintext (public_key X secret) sid = Inr env"
  shows "decrypt_application_offer L X env secret sid = Inr plaintext"
proof -
  obtain key ct where k: "derive_material L (diffie_hellman X ephemeral (public_key X secret)) sid
        OFFER_KDF_INFO = Inr key" "cipher_key_ok L key"
      and s: "seal L key nonce (offer_aad sid) plaintext = Some ct"
      and env: "env = public_key X ephemeral @ nonce @ ct"
    using assms(4)
    by (auto simp: encrypt_application_offer_def split: sum.splits option.splits if_splits)
  have dh: "diffie_hellman X secret (public_key X ephemeral)
      = diffie_hellman X ephemeral (public_key X secret)"
    and "length (public_key X ephemeral) = 32"
    using assms(2) by (simp_all add: x25519_ok_def)
  moreover have "length ct = length plaintext + 16" "unseal L key nonce (offer_aad sid) ct = Some plaintext"
    using assms(1) s by (auto simp: crypto_lib_ok_def GCM_TAG_BYTES_def)
  ultimately show ?thesis
    using k assms(3)
    by (simp add: decrypt_application_offer_def env crypto_consts X25519_PUBLIC_KEY_BYTES_def dh)
qed

definition sum_x25519 :: x25519 where
  "sum_x25519 = \<lparr>public_key = (\<lambda>a. replicate 32 (last a)), diffie_hellman = (\<lambda>a b. [last a + last b])\<rparr>"

lemma sum_x25519_ok: "x25519_ok sum_x25519"
  by (simp add: x25519_ok_def sum_x25519_def add.commute)

theorem offer_roundtrip_witness:
  "\<exists>env. encrypt_application_offer sum_lib sum_x25519 [5] (replicate 12 9) [1, 2]
       (public_key sum_x25519 [3]) [4] = Inr env
     \<and> decrypt_application_offer sum_lib sum_x25519 env [3] [4] = Inr [1, 2]"
proof -
  obtain env where "encrypt_application_offer sum_lib sum_x25519 [5] (replicate 12 9) [1, 2]
       (public_key sum_x25519 [3]) [4] = Inr env"
    by (simp add: encrypt_application_offer_def sum_lib_def derive_material_def)
  with offer_roundtrip [OF sum_lib_ok sum_x25519_ok _ this] show ?thesis by simp
qed

text \<open>
  The associated data of a data message determines its metadata: two of them are equal
  exactly when session, channel, message id, sequence, recovery epoch and policy are equal.
\<close>

theorem data_message_aad_injective:
  assumes "length s < 2 ^ 32" "length ch < 2 ^ 32" "length mid < 2 ^ 32"
    and "length s' < 2 ^ 32" "length ch' < 2 ^ 32" "length mid' < 2 ^ 32"
  shows "data_message_aad s ch mid sq ep po = data_message_aad s' ch' mid' sq' ep' po' \<longleftrightarrow>
    s = s' \<and> ch = ch' \<and> mid = mid' \<and> sq = sq' \<and> ep = ep' \<and> po = po'"
  using assms
  by (simp add: data_message_aad_def append_len_prefixed_eq len_prefixed_inject len_prefixed_eq)

theorem data_message_aad_injective_witness:
  "data_message_aad ''a'' ''bc'' [1] 1 2 3 \<noteq> data_message_aad ''ab'' ''c'' [1] 1 2 3"
  by (subst data_message_aad_injective) simp_all

end
