(* ===== verification/Stream_Codec.thy ===== *)
theory Stream_Codec
  imports Net_Prelude
begin

text \<open>
  The wire formats of the reliable byte streams: \<^verbatim>\<open>stream/codec.rs\<close> (stream frames, QUIC
  preamble, relay token), the frame of the generic routes that carries them
  (\<^verbatim>\<open>connection/generic.rs\<close>) and the QUIC channel frame (\<^verbatim>\<open>network-quic/src/channel.rs\<close>).
  Slices are \<^term>\<open>take\<close> and \<^term>\<open>drop\<close> under the length guards of the code.  A stream
  that is read to its end is the list of its bytes.
\<close>

section \<open>Constants and errors\<close>

definition MAX_STREAM_FRAME_BYTES :: nat where "MAX_STREAM_FRAME_BYTES = 64 * 1024"
definition MAX_SERVICE_BYTES :: nat where "MAX_SERVICE_BYTES = 128"
definition STREAM_QUIC_PREAMBLE_MAGIC :: "byte list" where
  "STREAM_QUIC_PREAMBLE_MAGIC = str_bytes ''SMSS''"
definition STREAM_OPENER_LENGTH_BYTES :: nat where "STREAM_OPENER_LENGTH_BYTES = 1"
definition STREAM_ID_BYTES :: nat where "STREAM_ID_BYTES = 2"
definition STREAM_GENERIC_BYTES_HEADER_BYTES :: nat where
  "STREAM_GENERIC_BYTES_HEADER_BYTES = STREAM_OPENER_LENGTH_BYTES + STREAM_ID_BYTES + 8 + 4"
definition STREAM_GENERIC_OPEN_HEADER_BYTES :: nat where
  "STREAM_GENERIC_OPEN_HEADER_BYTES = STREAM_OPENER_LENGTH_BYTES + STREAM_ID_BYTES + 2"
definition STREAM_GENERIC_CLOSE_HEADER_BYTES :: nat where
  "STREAM_GENERIC_CLOSE_HEADER_BYTES = STREAM_OPENER_LENGTH_BYTES + STREAM_ID_BYTES"
definition GENERIC_FRAME_MAGIC :: "byte list" where "GENERIC_FRAME_MAGIC = str_bytes ''SMGF''"
definition GENERIC_FRAME_HEADER_BYTES :: nat where "GENERIC_FRAME_HEADER_BYTES = 4 + 4 + 1 + 4"
definition CHANNEL_MAGIC :: "byte list" where "CHANNEL_MAGIC = str_bytes ''SMCH''"
definition MAX_CHANNEL_FRAME_BYTES :: nat where "MAX_CHANNEL_FRAME_BYTES = 48 * 1024"

lemmas stream_consts =
  MAX_SERVICE_BYTES_def STREAM_OPENER_LENGTH_BYTES_def STREAM_ID_BYTES_def
  STREAM_GENERIC_BYTES_HEADER_BYTES_def STREAM_GENERIC_OPEN_HEADER_BYTES_def
  STREAM_GENERIC_CLOSE_HEADER_BYTES_def GENERIC_FRAME_HEADER_BYTES_def
  MAX_CHANNEL_FRAME_BYTES_def MAX_STREAM_FRAME_BYTES_def

datatype stream_error =
    NotFound | AlreadyOpen | Closed | InvalidFrame | InvalidArgument | CapacityExceeded
  | NotConnected | UnsupportedTransport | SendFailed string

datatype generic_frame_kind = DataMessage | DeliveryAck | StreamBytes | StreamOpen | StreamClose

fun kind_byte :: "generic_frame_kind \<Rightarrow> byte" where
  "kind_byte DataMessage = 1"
| "kind_byte DeliveryAck = 2"
| "kind_byte StreamBytes = 3"
| "kind_byte StreamOpen = 4"
| "kind_byte StreamClose = 5"

datatype connection_error = Route_Closed | Route_InvalidFrame | FrameTooLarge | Route_Transport
  | Route_Cancelled

definition kind_try_from :: "byte \<Rightarrow> connection_error + generic_frame_kind" where
  "kind_try_from value =
     (if value = 1 then Inr DataMessage else if value = 2 then Inr DeliveryAck
      else if value = 3 then Inr StreamBytes else if value = 4 then Inr StreamOpen
      else if value = 5 then Inr StreamClose else Inl Route_InvalidFrame)"

section \<open>Stream frames\<close>

definition append_stream_opener :: "byte list \<Rightarrow> string \<Rightarrow> stream_error + byte list" where
  "append_stream_opener out opener_peer_id =
     (if opener_peer_id = [] \<or> length opener_peer_id > 128 then Inl InvalidArgument
      else Inr (out @ [of_nat (length opener_peer_id)] @ str_bytes opener_peer_id))"

definition decode_stream_opener :: "byte list \<Rightarrow> nat \<Rightarrow> stream_error + (string \<times> nat)" where
  "decode_stream_opener payload cursor =
     (if length payload < cursor + STREAM_OPENER_LENGTH_BYTES then Inl InvalidFrame
      else
        let opener_len = unat (payload ! cursor);
            cursor = cursor + STREAM_OPENER_LENGTH_BYTES
        in if opener_len = 0 \<or> opener_len > 128 \<or> length payload < cursor + opener_len
           then Inl InvalidFrame
           else case from_utf8 (take opener_len (drop cursor payload)) of
             None \<Rightarrow> Inl InvalidFrame
           | Some opener \<Rightarrow> Inr (opener, cursor + opener_len))"

definition encode_stream_bytes_frame ::
  "string \<Rightarrow> u16 \<Rightarrow> u64 \<Rightarrow> byte list \<Rightarrow> stream_error + byte list" where
  "encode_stream_bytes_frame opener_peer_id stream_id seq data =
     (if data = [] then Inl InvalidArgument
      else case append_stream_opener [] opener_peer_id of
        Inl e \<Rightarrow> Inl e
      | Inr out \<Rightarrow>
          Inr (out @ u16_be stream_id @ u64_be seq @ u32_be (of_nat (length data)) @ data))"

definition decode_stream_bytes_frame ::
  "byte list \<Rightarrow> stream_error + (string \<times> u16 \<times> u64 \<times> byte list)" where
  "decode_stream_bytes_frame payload =
     (if length payload < STREAM_GENERIC_BYTES_HEADER_BYTES then Inl InvalidFrame
      else case decode_stream_opener payload 0 of
        Inl e \<Rightarrow> Inl e
      | Inr (opener, cursor) \<Rightarrow>
          if length payload < cursor + STREAM_ID_BYTES + 8 + 4 then Inl InvalidFrame
          else
            let stream_id = u16_from_be (take STREAM_ID_BYTES (drop cursor payload));
                cursor = cursor + STREAM_ID_BYTES;
                seq = u64_from_be (take 8 (drop cursor payload));
                cursor = cursor + 8;
                len = unat (u32_from_be (take 4 (drop cursor payload)));
                cursor = cursor + 4
            in if len = 0 \<or> cursor + len \<noteq> length payload then Inl InvalidFrame
               else Inr (opener, stream_id, seq, take len (drop cursor payload)))"

definition encode_stream_open_frame ::
  "string \<Rightarrow> u16 \<Rightarrow> string \<Rightarrow> stream_error + byte list" where
  "encode_stream_open_frame opener_peer_id stream_id service =
     (if service = [] \<or> length service > MAX_SERVICE_BYTES then Inl InvalidArgument
      else case append_stream_opener [] opener_peer_id of
        Inl e \<Rightarrow> Inl e
      | Inr out \<Rightarrow>
          Inr (out @ u16_be stream_id @ u16_be (of_nat (length service)) @ str_bytes service))"

definition decode_stream_open_frame ::
  "byte list \<Rightarrow> stream_error + (string \<times> u16 \<times> string)" where
  "decode_stream_open_frame payload =
     (if length payload < STREAM_GENERIC_OPEN_HEADER_BYTES then Inl InvalidFrame
      else case decode_stream_opener payload 0 of
        Inl e \<Rightarrow> Inl e
      | Inr (opener, cursor) \<Rightarrow>
          if length payload < cursor + STREAM_ID_BYTES + 2 then Inl InvalidFrame
          else
            let stream_id = u16_from_be (take STREAM_ID_BYTES (drop cursor payload));
                cursor = cursor + STREAM_ID_BYTES;
                service_len = unat (u16_from_be (take 2 (drop cursor payload)));
                cursor = cursor + 2
            in if service_len = 0 \<or> service_len > MAX_SERVICE_BYTES
                  \<or> cursor + service_len \<noteq> length payload
               then Inl InvalidFrame
               else case from_utf8 (take service_len (drop cursor payload)) of
                 None \<Rightarrow> Inl InvalidFrame
               | Some service \<Rightarrow> Inr (opener, stream_id, service))"

definition encode_stream_close_frame :: "string \<Rightarrow> u16 \<Rightarrow> stream_error + byte list" where
  "encode_stream_close_frame opener_peer_id stream_id =
     (case append_stream_opener [] opener_peer_id of
        Inl e \<Rightarrow> Inl e | Inr out \<Rightarrow> Inr (out @ u16_be stream_id))"

definition decode_stream_close_frame :: "byte list \<Rightarrow> stream_error + (string \<times> u16)" where
  "decode_stream_close_frame payload =
     (if length payload < STREAM_GENERIC_CLOSE_HEADER_BYTES then Inl InvalidFrame
      else case decode_stream_opener payload 0 of
        Inl e \<Rightarrow> Inl e
      | Inr (opener, cursor) \<Rightarrow>
          if length payload \<noteq> cursor + STREAM_ID_BYTES then Inl InvalidFrame
          else Inr (opener, u16_from_be (take STREAM_ID_BYTES (drop cursor payload))))"

definition decode_stream_frame_identity ::
  "generic_frame_kind \<Rightarrow> byte list \<Rightarrow> stream_error + (string \<times> u16)" where
  "decode_stream_frame_identity kind payload =
     (case kind of
        StreamOpen \<Rightarrow>
          (case decode_stream_open_frame payload of
             Inl e \<Rightarrow> Inl e | Inr (opener, stream_id, _) \<Rightarrow> Inr (opener, stream_id))
      | StreamBytes \<Rightarrow>
          (case decode_stream_bytes_frame payload of
             Inl e \<Rightarrow> Inl e | Inr (opener, stream_id, _, _) \<Rightarrow> Inr (opener, stream_id))
      | StreamClose \<Rightarrow> decode_stream_close_frame payload
      | _ \<Rightarrow> Inl InvalidFrame)"

text \<open>
  The asynchronous readers consume a byte stream; \<open>read_n\<close> is \<^verbatim>\<open>read_exact\<close>, which fails
  when the stream ends early.
\<close>

definition read_n :: "nat \<Rightarrow> byte list \<Rightarrow> (byte list \<times> byte list) option" where
  "read_n n bs = (if length bs < n then None else Some (take n bs, drop n bs))"

definition encode_quic_stream_preamble :: "u16 \<Rightarrow> string \<Rightarrow> stream_error + byte list" where
  "encode_quic_stream_preamble stream_id service =
     (if service = [] \<or> length service > MAX_SERVICE_BYTES then Inl InvalidArgument
      else Inr (STREAM_QUIC_PREAMBLE_MAGIC @ u16_be stream_id @ u16_be (of_nat (length service))
                @ str_bytes service))"

definition read_quic_stream_preamble_after_magic ::
  "byte list \<Rightarrow> stream_error + ((u16 \<times> string) \<times> byte list)" where
  "read_quic_stream_preamble_after_magic bs =
     (case read_n 2 bs of
        None \<Rightarrow> Inl InvalidFrame
      | Some (id_bytes, bs) \<Rightarrow>
     (case read_n 2 bs of
        None \<Rightarrow> Inl InvalidFrame
      | Some (len_bytes, bs) \<Rightarrow>
          let service_len = unat (u16_from_be len_bytes) in
          if service_len = 0 \<or> service_len > MAX_SERVICE_BYTES then Inl InvalidFrame
          else case read_n service_len bs of
            None \<Rightarrow> Inl InvalidFrame
          | Some (service, bs) \<Rightarrow>
              (case from_utf8 service of
                 None \<Rightarrow> Inl InvalidFrame
               | Some service \<Rightarrow> Inr ((u16_from_be id_bytes, service), bs))))"

text \<open>Decimal rendering of an unsigned integer by \<^verbatim>\<open>format!\<close>.\<close>

fun decimal :: "nat \<Rightarrow> string" where
  "decimal n =
     (if n < 10 then [char_of (48 + n)] else decimal (n div 10) @ [char_of (48 + n mod 10)])"

declare decimal.simps [simp del]

definition stream_relay_token :: "string \<Rightarrow> u16 \<Rightarrow> string" where
  "stream_relay_token opener_peer_id stream_id =
     ''stream:'' @ opener_peer_id @ '':'' @ decimal (unat stream_id)"

section \<open>Carrier frames\<close>

definition encode_generic_frame ::
  "generic_frame_kind \<Rightarrow> byte list \<Rightarrow> connection_error + byte list" where
  "encode_generic_frame kind payload =
     (if payload = [] \<or> length payload + GENERIC_FRAME_HEADER_BYTES > MAX_CHANNEL_FRAME_BYTES
      then Inl FrameTooLarge
      else Inr (GENERIC_FRAME_MAGIC @ u32_be NETWORK_PROTOCOL_VERSION @ [kind_byte kind]
                @ u32_be (of_nat (length payload)) @ payload))"

definition decode_generic_frame ::
  "byte list \<Rightarrow> connection_error + (generic_frame_kind \<times> byte list)" where
  "decode_generic_frame encoded =
     (if length encoded < GENERIC_FRAME_HEADER_BYTES
         \<or> take 4 encoded \<noteq> GENERIC_FRAME_MAGIC
         \<or> u32_from_be (take 4 (drop 4 encoded)) \<noteq> NETWORK_PROTOCOL_VERSION
      then Inl Route_InvalidFrame
      else case kind_try_from (encoded ! 8) of
        Inl e \<Rightarrow> Inl e
      | Inr kind \<Rightarrow>
          let payload_len = unat (u32_from_be (take 4 (drop 9 encoded))) in
          if payload_len = 0 \<or> payload_len + GENERIC_FRAME_HEADER_BYTES \<noteq> length encoded
             \<or> payload_len + GENERIC_FRAME_HEADER_BYTES > MAX_CHANNEL_FRAME_BYTES
          then Inl FrameTooLarge
          else Inr (kind, drop GENERIC_FRAME_HEADER_BYTES encoded))"

datatype channel_frame_kind = Channel_DataMessage | Channel_DeliveryAck

fun channel_kind_byte :: "channel_frame_kind \<Rightarrow> byte" where
  "channel_kind_byte Channel_DataMessage = 1"
| "channel_kind_byte Channel_DeliveryAck = 2"

definition channel_kind_try_from :: "byte \<Rightarrow> channel_frame_kind option" where
  "channel_kind_try_from value =
     (if value = 1 then Some Channel_DataMessage
      else if value = 2 then Some Channel_DeliveryAck else None)"

datatype channel_error = Outside_Bounds | Bad_Magic | Bad_Version | Bad_Kind | Unexpected_Eof

definition write_channel_frame ::
  "channel_frame_kind \<Rightarrow> byte list \<Rightarrow> channel_error + byte list" where
  "write_channel_frame kind payload =
     (if payload = [] \<or> length payload > MAX_CHANNEL_FRAME_BYTES then Inl Outside_Bounds
      else Inr (CHANNEL_MAGIC @ u32_be NETWORK_PROTOCOL_VERSION @ [channel_kind_byte kind]
                @ u32_be (of_nat (length payload)) @ payload))"

definition read_channel_frame ::
  "byte list \<Rightarrow> channel_error + ((channel_frame_kind \<times> byte list) \<times> byte list)" where
  "read_channel_frame bs =
     (case read_n 4 bs of
        None \<Rightarrow> Inl Unexpected_Eof
      | Some (magic, bs) \<Rightarrow>
      if magic \<noteq> CHANNEL_MAGIC then Inl Bad_Magic
      else case read_n 4 bs of
        None \<Rightarrow> Inl Unexpected_Eof
      | Some (version, bs) \<Rightarrow>
      if u32_from_be version \<noteq> NETWORK_PROTOCOL_VERSION then Inl Bad_Version
      else case read_n 1 bs of
        None \<Rightarrow> Inl Unexpected_Eof
      | Some (kind, bs) \<Rightarrow>
      case channel_kind_try_from (hd kind) of
        None \<Rightarrow> Inl Bad_Kind
      | Some kind \<Rightarrow>
      case read_n 4 bs of
        None \<Rightarrow> Inl Unexpected_Eof
      | Some (len, bs) \<Rightarrow>
          let payload_len = unat (u32_from_be len) in
          if payload_len = 0 \<or> payload_len > MAX_CHANNEL_FRAME_BYTES then Inl Outside_Bounds
          else case read_n payload_len bs of
            None \<Rightarrow> Inl Unexpected_Eof
          | Some (payload, bs) \<Rightarrow> Inr ((kind, payload), bs))"

section \<open>The codecs invert each other\<close>

text \<open>The opener field followed by the rest of a frame.\<close>

definition opener_field :: "string \<Rightarrow> byte list" where
  "opener_field s = of_nat (length s) # str_bytes s"

definition valid_opener :: "string \<Rightarrow> bool" where
  "valid_opener s \<longleftrightarrow> is_str s \<and> s \<noteq> [] \<and> length s \<le> 128"

lemma length_opener_field [simp]: "length (opener_field s) = 1 + length s"
  by (simp add: opener_field_def)

lemma append_stream_opener_Inr:
  "is_str s \<Longrightarrow> append_stream_opener [] s = Inr out \<longleftrightarrow> valid_opener s \<and> out = opener_field s"
  by (auto simp: append_stream_opener_def valid_opener_def opener_field_def)

lemma decode_opener_field:
  assumes "valid_opener s"
  shows "decode_stream_opener (opener_field s @ r) 0 = Inr (s, 1 + length s)"
proof -
  have "unat (of_nat (length s) :: byte) = length s"
    using assms by (simp add: valid_opener_def unat_of_nat)
  then show ?thesis
    using assms
    by (simp add: decode_stream_opener_def opener_field_def valid_opener_def stream_consts
        from_utf8_str_bytes)
qed

lemma decode_stream_opener_form:
  assumes "decode_stream_opener payload 0 = Inr (s, cursor)"
  shows "valid_opener s \<and> cursor = 1 + length s \<and> (\<exists>r. payload = opener_field s @ r)"
proof (cases payload)
  case Nil
  then show ?thesis using assms by (simp add: decode_stream_opener_def stream_consts)
next
  case (Cons b rest)
  have d: "is_str s" "take (unat b) rest = str_bytes s" "unat b \<noteq> 0" "unat b \<le> 128"
      "unat b \<le> length rest" "cursor = 1 + unat b"
    using assms Cons by (auto simp: decode_stream_opener_def stream_consts Let_def from_utf8_iff
        split: if_splits option.splits)
  then have len: "length s = unat b" by (metis length_str_bytes length_take min.absorb2)
  then have "b = of_nat (length s)" by simp
  moreover have "rest = str_bytes s @ drop (unat b) rest" by (metis append_take_drop_id d(2))
  ultimately have "payload = opener_field s @ drop (unat b) rest"
    using Cons by (simp add: opener_field_def)
  then show ?thesis using d len by (auto simp: valid_opener_def)
qed

text \<open>Cutting a byte string into fixed-width fields.\<close>

lemma split_u16: "2 \<le> length bs \<Longrightarrow> bs = u16_be (u16_from_be (take 2 bs)) @ drop 2 bs"
  by (simp add: u16_from_be_inverse)

lemma split_u32: "4 \<le> length bs \<Longrightarrow> bs = u32_be (u32_from_be (take 4 bs)) @ drop 4 bs"
  by (simp add: u32_from_be_inverse)

lemma split_u64: "8 \<le> length bs \<Longrightarrow> bs = u64_be (u64_from_be (take 8 bs)) @ drop 8 bs"
  by (simp add: u64_from_be_inverse)

interpretation bytes_codec: wire_codec
  "\<lambda>(opener, stream_id, seq, data). encode_stream_bytes_frame opener stream_id seq data"
  decode_stream_bytes_frame "\<lambda>(opener, stream_id, seq, data). is_str opener \<and> length data < 2 ^ 32"
proof unfold_locales
  fix x b
  assume "case x of (opener, stream_id, seq, data) \<Rightarrow> is_str opener \<and> length data < 2 ^ 32"
    and "(case x of (opener, stream_id, seq, data) \<Rightarrow>
      encode_stream_bytes_frame opener stream_id seq data) = Inr b"
  then obtain opener stream_id seq data where x: "x = (opener, stream_id, seq, data)"
      and v: "valid_opener opener" "data \<noteq> []" "length data < 2 ^ 32"
      and b: "b = opener_field opener @ u16_be stream_id @ u64_be seq
        @ u32_be (of_nat (length data)) @ data"
    by (auto simp: encode_stream_bytes_frame_def append_stream_opener_Inr
        split: sum.splits if_splits)
  then show "decode_stream_bytes_frame b = Inr x"
    by (simp add: decode_stream_bytes_frame_def decode_opener_field stream_consts unat_of_nat)
next
  fix b x
  assume dec: "decode_stream_bytes_frame b = Inr x"
  then obtain opener c where o: "decode_stream_opener b 0 = Inr (opener, c)"
    by (auto simp: decode_stream_bytes_frame_def split: if_splits sum.splits)
  from decode_stream_opener_form [OF this] obtain r where
      v: "valid_opener opener" "c = 1 + length opener" "b = opener_field opener @ r" by blast
  let ?len = "u32_from_be (take 4 (drop 10 r))"
  have r: "14 \<le> length r" "unat ?len = length r - 14" "unat ?len \<noteq> 0"
      "x = (opener, u16_from_be (take 2 r), u64_from_be (take 8 (drop 2 r)), drop 14 r)"
    using dec v by (auto simp: decode_stream_bytes_frame_def decode_opener_field stream_consts
        Let_def split: if_splits)
  have "r = u16_be (u16_from_be (take 2 r)) @ u64_be (u64_from_be (take 8 (drop 2 r)))
      @ u32_be ?len @ drop 14 r"
    using r(1) split_u16 [of r] split_u64 [of "drop 2 r"] split_u32 [of "drop 10 r"] by simp
  moreover have "?len = of_nat (length (drop 14 r))"
    unfolding length_drop r(2) [symmetric] by simp
  moreover have "length (drop 14 r) < 2 ^ 32"
    using r(2) unat_bound [of ?len] by simp
  ultimately show "(case x of (opener, stream_id, seq, data) \<Rightarrow> is_str opener \<and> length data < 2 ^ 32)
      \<and> (case x of (opener, stream_id, seq, data) \<Rightarrow>
        encode_stream_bytes_frame opener stream_id seq data) = Inr b"
    using v r by (auto simp: encode_stream_bytes_frame_def append_stream_opener_def valid_opener_def
        opener_field_def)
qed

interpretation open_codec: wire_codec
  "\<lambda>(opener, stream_id, service). encode_stream_open_frame opener stream_id service"
  decode_stream_open_frame "\<lambda>(opener, stream_id, service). is_str opener \<and> is_str service"
proof unfold_locales
  fix x b
  assume "case x of (opener, stream_id, service) \<Rightarrow> is_str opener \<and> is_str service"
    and "(case x of (opener, stream_id, service) \<Rightarrow>
      encode_stream_open_frame opener stream_id service) = Inr b"
  then obtain opener stream_id service where x: "x = (opener, stream_id, service)"
      and v: "valid_opener opener" "is_str service" "service \<noteq> []" "length service \<le> 128"
      and b: "b = opener_field opener @ u16_be stream_id @ u16_be (of_nat (length service))
        @ str_bytes service"
    by (auto simp: encode_stream_open_frame_def append_stream_opener_Inr stream_consts
        split: sum.splits if_splits)
  then show "decode_stream_open_frame b = Inr x"
    by (simp add: decode_stream_open_frame_def decode_opener_field stream_consts unat_of_nat
        from_utf8_str_bytes)
next
  fix b x
  assume dec: "decode_stream_open_frame b = Inr x"
  then obtain opener c where o: "decode_stream_opener b 0 = Inr (opener, c)"
    by (auto simp: decode_stream_open_frame_def split: if_splits sum.splits)
  from decode_stream_opener_form [OF this] obtain r where
      v: "valid_opener opener" "c = 1 + length opener" "b = opener_field opener @ r" by blast
  let ?len = "u16_from_be (take 2 (drop 2 r))"
  obtain service where r: "4 \<le> length r" "unat ?len = length r - 4" "unat ?len \<noteq> 0"
      "unat ?len \<le> 128" "is_str service" "drop 4 r = str_bytes service"
      "x = (opener, u16_from_be (take 2 r), service)"
    using dec v by (auto simp: decode_stream_open_frame_def decode_opener_field stream_consts
        Let_def from_utf8_iff split: if_splits option.splits)
  have "r = u16_be (u16_from_be (take 2 r)) @ u16_be ?len @ str_bytes service"
    using r(1) split_u16 [of r] split_u16 [of "drop 2 r"] by (simp add: r(6) [symmetric])
  moreover have len: "length service = length r - 4"
    by (metis length_drop length_str_bytes r(6))
  then have "?len = of_nat (length service)"
    unfolding len r(2) [symmetric] by simp
  ultimately show "(case x of (opener, stream_id, service) \<Rightarrow> is_str opener \<and> is_str service)
      \<and> (case x of (opener, stream_id, service) \<Rightarrow>
        encode_stream_open_frame opener stream_id service) = Inr b"
    using v r len
    by (auto simp: encode_stream_open_frame_def append_stream_opener_def valid_opener_def
        opener_field_def stream_consts)
qed

interpretation close_codec: wire_codec
  "\<lambda>(opener, stream_id). encode_stream_close_frame opener stream_id"
  decode_stream_close_frame "\<lambda>(opener, stream_id). is_str opener"
proof unfold_locales
  fix x b
  assume "case x of (opener, stream_id) \<Rightarrow> is_str opener"
    and "(case x of (opener, stream_id) \<Rightarrow> encode_stream_close_frame opener stream_id) = Inr b"
  then obtain opener stream_id where "x = (opener, stream_id)" "valid_opener opener"
      "b = opener_field opener @ u16_be stream_id"
    by (auto simp: encode_stream_close_frame_def append_stream_opener_Inr split: sum.splits)
  then show "decode_stream_close_frame b = Inr x"
    by (simp add: decode_stream_close_frame_def decode_opener_field stream_consts)
next
  fix b x
  assume dec: "decode_stream_close_frame b = Inr x"
  then obtain opener c where o: "decode_stream_opener b 0 = Inr (opener, c)"
    by (auto simp: decode_stream_close_frame_def split: if_splits sum.splits)
  from decode_stream_opener_form [OF this] obtain r where
      v: "valid_opener opener" "c = 1 + length opener" "b = opener_field opener @ r" by blast
  then have "length r = 2" "x = (opener, u16_from_be (take 2 r))"
    using dec by (auto simp: decode_stream_close_frame_def decode_opener_field stream_consts
        split: if_splits)
  then show "(case x of (opener, stream_id) \<Rightarrow> is_str opener)
      \<and> (case x of (opener, stream_id) \<Rightarrow> encode_stream_close_frame opener stream_id) = Inr b"
    using v by (auto simp: encode_stream_close_frame_def append_stream_opener_def
        valid_opener_def opener_field_def u16_from_be_inverse)
qed

lemma kind_try_from_iff: "kind_try_from b = Inr k \<longleftrightarrow> b = kind_byte k"
  by (cases k) (auto simp: kind_try_from_def)

lemma length_GENERIC_FRAME_MAGIC [simp]: "length GENERIC_FRAME_MAGIC = 4"
  by (simp add: GENERIC_FRAME_MAGIC_def)

interpretation generic_codec: wire_codec "\<lambda>(kind, payload). encode_generic_frame kind payload"
  decode_generic_frame "\<lambda>_. True"
proof unfold_locales
  fix x b
  assume "(case x of (kind, payload) \<Rightarrow> encode_generic_frame kind payload) = Inr b"
  then obtain kind payload where "x = (kind, payload)" "payload \<noteq> []" "length payload \<le> 49139"
      "b = GENERIC_FRAME_MAGIC @ u32_be NETWORK_PROTOCOL_VERSION @ [kind_byte kind]
         @ u32_be (of_nat (length payload)) @ payload"
    by (cases x) (auto simp: encode_generic_frame_def stream_consts split: if_splits)
  moreover have "kind_try_from (kind_byte kind) = Inr kind" by (simp add: kind_try_from_iff)
  ultimately show "decode_generic_frame b = Inr x"
    by (simp add: decode_generic_frame_def stream_consts nth_append unat_of_nat drop_Cons')
next
  fix b x
  assume dec: "decode_generic_frame b = Inr x"
  let ?len = "u32_from_be (take 4 (drop 9 b))"
  obtain kind where b: "13 \<le> length b" "take 4 b = GENERIC_FRAME_MAGIC"
      "u32_from_be (take 4 (drop 4 b)) = NETWORK_PROTOCOL_VERSION" "b ! 8 = kind_byte kind"
      "unat ?len \<noteq> 0" "unat ?len + 13 = length b" "unat ?len \<le> 49139" "x = (kind, drop 13 b)"
    using dec by (auto simp: decode_generic_frame_def stream_consts Let_def kind_try_from_iff
        split: if_splits sum.splits)
  have "b = take 4 b @ u32_be (u32_from_be (take 4 (drop 4 b))) @ [b ! 8] @ u32_be ?len @ drop 13 b"
    using b(1) split_u32 [of "drop 4 b"] split_u32 [of "drop 9 b"] Cons_nth_drop_Suc [of 8 b]
      append_take_drop_id [of 4 b] by simp
  moreover have "?len = of_nat (length (drop 13 b))"
  proof -
    have "length (drop 13 b) = unat ?len" using b(6) by simp
    then show ?thesis by simp
  qed
  ultimately show "True \<and> (case x of (kind, payload) \<Rightarrow> encode_generic_frame kind payload) = Inr b"
    using b by (auto simp: encode_generic_frame_def stream_consts)
qed

lemma length_CHANNEL_MAGIC [simp]: "length CHANNEL_MAGIC = 4"
  by (simp add: CHANNEL_MAGIC_def)

lemma read_n_append [simp]: "length xs = n \<Longrightarrow> read_n n (xs @ ys) = Some (xs, ys)"
  by (simp add: read_n_def)

lemma read_n_Cons [simp]: "read_n (Suc 0) (x # ys) = Some ([x], ys)"
  by (simp add: read_n_def)

lemma channel_kind_try_from_byte [simp]: "channel_kind_try_from (channel_kind_byte k) = Some k"
  by (cases k) (simp_all add: channel_kind_try_from_def)

lemma read_n_Some: "read_n n bs = Some (xs, ys) \<longleftrightarrow> length xs = n \<and> bs = xs @ ys"
  by (auto simp: read_n_def)

lemma split_at_first:
  "x \<notin> set ds \<Longrightarrow> x \<notin> set es \<Longrightarrow> ds @ x # xs = es @ x # ys \<longleftrightarrow> ds = es \<and> xs = ys"
proof (induction ds arbitrary: es)
  case Nil
  then show ?case by (cases es) auto
next
  case (Cons d ds)
  then show ?case by (cases es) auto
qed

lemma split_at_last:
  assumes "x \<notin> set ds" "x \<notin> set es"
  shows "xs @ x # ds = ys @ x # es \<longleftrightarrow> xs = ys \<and> ds = es"
proof -
  have "xs @ x # ds = ys @ x # es \<longleftrightarrow> rev (xs @ x # ds) = rev (ys @ x # es)" by blast
  also have "\<dots> \<longleftrightarrow> xs = ys \<and> ds = es"
    using assms split_at_first [of x "rev ds" "rev es" "rev xs" "rev ys"] by auto
  finally show ?thesis .
qed

lemma digit_char:
  "d < 10 \<Longrightarrow> char_of (48 + d) \<noteq> CHR '':''"
  "d < 10 \<Longrightarrow> e < 10 \<Longrightarrow> (char_of (48 + d) :: char) = char_of (48 + e) \<longleftrightarrow> d = e" for d e :: nat
proof -
  show "char_of (48 + d) \<noteq> CHR '':''" if "d < 10"
  proof
    assume "char_of (48 + d) = CHR '':''"
    then have "(of_char (char_of (48 + d) :: char) :: nat) = of_char CHR '':''" by simp
    with that show False by simp
  qed
  show "(char_of (48 + d) :: char) = char_of (48 + e) \<longleftrightarrow> d = e" if "d < 10" "e < 10"
  proof
    assume "(char_of (48 + d) :: char) = char_of (48 + e)"
    then have "(of_char (char_of (48 + d) :: char) :: nat) = of_char (char_of (48 + e) :: char)"
      by simp
    with that show "d = e" by simp
  qed simp
qed

lemma decimal_digits: "CHR '':'' \<notin> set (decimal n)"
proof (induction n rule: decimal.induct)
  case (1 n)
  then show ?case by (subst decimal.simps) (auto simp: digit_char not_sym [OF digit_char(1)])
qed

lemma decimal_nonempty: "decimal n \<noteq> []"
  by (subst decimal.simps) simp

lemma decimal_inject: "decimal m = decimal n \<longleftrightarrow> m = n"
proof (induction m arbitrary: n rule: decimal.induct)
  case (1 m)
  have d: "decimal k = (if k < 10 then [] else decimal (k div 10)) @ [char_of (48 + k mod 10)]" for k
    by (subst decimal.simps) simp
  have "decimal m = decimal n \<longleftrightarrow>
      (if m < 10 then [] else decimal (m div 10)) = (if n < 10 then [] else decimal (n div 10))
      \<and> m mod 10 = n mod 10"
    by (subst (1 2) d) (simp add: digit_char)
  also have "\<dots> \<longleftrightarrow> m div 10 = n div 10 \<and> m mod 10 = n mod 10"
    using 1 [of "n div 10"] decimal_nonempty [of "n div 10"] decimal_nonempty [of "m div 10"]
    by (auto simp: div_eq_0_iff)
  also have "\<dots> \<longleftrightarrow> m = n"
    by (metis div_mult_mod_eq)
  finally show ?case .
qed

lemma channel_kind_try_from_iff: "channel_kind_try_from b = Some k \<longleftrightarrow> b = channel_kind_byte k"
  by (cases k) (auto simp: channel_kind_try_from_def)

lemma read_channel_frame_form:
  assumes "read_channel_frame bs = Inr ((kind, payload), rest)"
  shows "\<exists>frame. write_channel_frame kind payload = Inr frame \<and> bs = frame @ rest"
proof -
  obtain version k len where bs: "bs = CHANNEL_MAGIC @ version @ k @ len @ payload @ rest"
      and l: "length version = 4" "length k = 1" "length len = 4"
      and v: "u32_from_be version = NETWORK_PROTOCOL_VERSION"
        "hd k = channel_kind_byte kind" "unat (u32_from_be len) = length payload"
        "unat (u32_from_be len) \<noteq> 0" "length payload \<le> MAX_CHANNEL_FRAME_BYTES"
    using assms
    by (auto simp: read_channel_frame_def Let_def read_n_Some channel_kind_try_from_iff
        simp del: length_0_conv length_greater_0_conv split: option.splits if_splits)
  from l(2) v(2) have "k = [channel_kind_byte kind]" by (cases k) auto
  moreover have "len = u32_be (of_nat (length payload))" "version = u32_be NETWORK_PROTOCOL_VERSION"
    using u32_from_be_inverse [OF l(3)] u32_from_be_inverse [OF l(1)] v by (simp_all flip: v(3))
  moreover have "payload \<noteq> []" using v(3,4) by auto
  ultimately show ?thesis
    using v(5) bs by (simp add: write_channel_frame_def)
qed

lemma read_channel_frame_written:
  assumes "write_channel_frame kind payload = Inr frame"
  shows "read_channel_frame (frame @ rest) = Inr ((kind, payload), rest)"
proof -
  have p: "payload \<noteq> []" "length payload \<le> MAX_CHANNEL_FRAME_BYTES"
    and f: "frame = CHANNEL_MAGIC @ u32_be NETWORK_PROTOCOL_VERSION @ [channel_kind_byte kind]
      @ u32_be (of_nat (length payload)) @ payload"
    using assms by (auto simp: write_channel_frame_def split: if_splits)
  have "unat (of_nat (length payload) :: u32) = length payload"
    using p by (simp add: MAX_CHANNEL_FRAME_BYTES_def unat_of_nat)
  then show ?thesis using p by (simp add: f read_channel_frame_def)
qed

section \<open>Properties\<close>

text \<open>
  C35. The stream frame codecs are exact inverses: a decoder accepts a byte string with a
  given result precisely when the result is well-formed and the encoder writes that byte
  string for it, for all three stream frames.
\<close>

theorem stream_frames_canonical:
  "(decode_stream_bytes_frame b = Inr (opener, stream_id, seq, data) \<longleftrightarrow>
      is_str opener \<and> length data < 2 ^ 32
      \<and> encode_stream_bytes_frame opener stream_id seq data = Inr b) \<and>
   (decode_stream_open_frame b = Inr (opener, stream_id, service) \<longleftrightarrow>
      is_str opener \<and> is_str service
      \<and> encode_stream_open_frame opener stream_id service = Inr b) \<and>
   (decode_stream_close_frame b = Inr (opener, stream_id) \<longleftrightarrow>
      is_str opener \<and> encode_stream_close_frame opener stream_id = Inr b)"
  using bytes_codec.accepts_iff [of b "(opener, stream_id, seq, data)"]
    open_codec.accepts_iff [of b "(opener, stream_id, service)"]
    close_codec.accepts_iff [of b "(opener, stream_id)"]
  by auto

text \<open>
  The carrier frames are exact inverses as well: a generic-route frame decodes to a kind
  and payload precisely when it is their encoding, and the channel reader returns a kind and
  payload with the rest of the stream precisely when the stream starts with their encoding.
\<close>

theorem carrier_frames_canonical:
  "(decode_generic_frame b = Inr (kind, payload) \<longleftrightarrow> encode_generic_frame kind payload = Inr b) \<and>
   (read_channel_frame bs = Inr ((ckind, cpayload), rest) \<longleftrightarrow>
      (\<exists>frame. write_channel_frame ckind cpayload = Inr frame \<and> bs = frame @ rest))"
  using generic_codec.accepts_iff [of b "(kind, payload)"] read_channel_frame_form
    read_channel_frame_written by auto

text \<open>
  Relay stream tokens identify the stream: two tokens are equal only for the same opener
  and stream id, also when an opener contains the separator.
\<close>

theorem stream_relay_token_injective:
  "stream_relay_token opener i = stream_relay_token opener' i' \<longleftrightarrow> opener = opener' \<and> i = i'"
  using split_at_last [of "CHR '':''" "decimal (unat i)" "decimal (unat i')" opener opener']
  by (simp add: stream_relay_token_def decimal_digits decimal_inject word_unat_eq_iff)

end
