(* ===== verification/Stream_Manager.thy ===== *)
theory Stream_Manager
  imports Stream_Codec Containers
begin

text \<open>
  The per-peer owner of the byte streams: \<^verbatim>\<open>stream/entry.rs\<close>, \<^verbatim>\<open>manager_registry.rs\<close>,
  \<^verbatim>\<open>manager_buffer.rs\<close> and the send path of \<^verbatim>\<open>stream/session.rs\<close>.  Each operation of the
  manager is one critical section under its lock.  An operation that waits (\<^verbatim>\<open>handle_bytes\<close>,
  \<^verbatim>\<open>drain_events\<close>, \<^verbatim>\<open>receive\<close>) is the section that one turn of its loop runs, with a result
  that says whether the caller waits for a wake-up and runs it again.  Path leases and QUIC
  send halves are opaque numbers.  The set of retired keys is the \<^verbatim>\<open>HashSet\<close>; its length is
  its cardinality.
\<close>

section \<open>State\<close>

definition MAX_PER_STREAM_BUFFER_CAPACITY :: nat where
  "MAX_PER_STREAM_BUFFER_CAPACITY = 256 * 1024"
definition MAX_CONCURRENT_STREAMS :: nat where "MAX_CONCURRENT_STREAMS = 32"
definition MAX_RETIRED_STREAM_KEYS :: nat where "MAX_RETIRED_STREAM_KEYS = 131072"

datatype stream_consumer = Event | Bridge | Poll
datatype stream_opener = Local | Remote

type_synonym stream_key = "stream_opener \<times> u16"

record stream_entry =
  consumer :: stream_consumer
  recv_chunks :: "byte list list"
  recv_bytes :: nat
  recv_closed :: bool
  next_recv_seq :: u64
  wake_gen :: u64
  quic_send :: "nat option"
  next_send_seq :: u64
  send_closed :: bool
  path_lease :: "nat option"

record stream_state =
  streams :: "(stream_key, stream_entry) hmap"
  retired :: "stream_key set"

datatype stream_event =
    DataReceived string string u16 "byte list"
  | StreamClosed string string u16

definition stream_state_new :: stream_state where
  "stream_state_new = \<lparr>streams = [], retired = {}\<rparr>"

definition wake :: "stream_entry \<Rightarrow> stream_entry" where
  "wake e = e\<lparr>wake_gen := wake_gen e + 1\<rparr>"

definition put_entry :: "stream_key \<Rightarrow> stream_entry \<Rightarrow> stream_state \<Rightarrow> stream_state" where
  "put_entry k e s = s\<lparr>streams := hm_modify k (\<lambda>_. e) (streams s)\<rparr>"

section \<open>Registry\<close>

definition stream_open ::
  "stream_opener \<Rightarrow> u16 \<Rightarrow> string \<Rightarrow> stream_consumer \<Rightarrow> stream_state
     \<Rightarrow> (stream_error + unit) \<times> stream_state" where
  "stream_open opener stream_id service cons s =
     (if service = [] \<or> length service > MAX_SERVICE_BYTES then (Inl InvalidArgument, s)
      else if length (streams s) \<ge> MAX_CONCURRENT_STREAMS then (Inl CapacityExceeded, s)
      else let key = (opener, stream_id) in
      if hm_contains (streams s) key then (Inl AlreadyOpen, s)
      else if key \<in> retired s then (Inl Closed, s)
      else if card (retired s) \<ge> MAX_RETIRED_STREAM_KEYS then (Inl CapacityExceeded, s)
      else
        (Inr (), s\<lparr>streams := hm_insert key
           \<lparr>consumer = cons, recv_chunks = [], recv_bytes = 0, recv_closed = False,
            next_recv_seq = 0, wake_gen = 0, quic_send = None, next_send_seq = 0,
            send_closed = False, path_lease = None\<rparr> (streams s)\<rparr>))"

definition bind_lease ::
  "stream_opener \<Rightarrow> u16 \<Rightarrow> nat \<Rightarrow> stream_state \<Rightarrow> (stream_error + unit) \<times> stream_state" where
  "bind_lease opener stream_id lease s =
     (case hm_get (streams s) (opener, stream_id) of
        None \<Rightarrow> (Inl NotFound, s)
      | Some e \<Rightarrow>
          if path_lease e \<noteq> None then (Inl AlreadyOpen, s)
          else (Inr (), put_entry (opener, stream_id) (e\<lparr>path_lease := Some lease\<rparr>) s))"

definition take_lease ::
  "stream_opener \<Rightarrow> u16 \<Rightarrow> stream_state \<Rightarrow> (stream_error + nat) \<times> stream_state" where
  "take_lease opener stream_id s =
     (case hm_get (streams s) (opener, stream_id) of
        None \<Rightarrow> (Inl NotFound, s)
      | Some e \<Rightarrow>
          if send_closed e then (Inl Closed, s)
          else case path_lease e of
            None \<Rightarrow> (Inl NotConnected, s)
          | Some lease \<Rightarrow> (Inr lease, put_entry (opener, stream_id) (e\<lparr>path_lease := None\<rparr>) s))"

definition restore_lease ::
  "stream_opener \<Rightarrow> u16 \<Rightarrow> nat \<Rightarrow> stream_state \<Rightarrow> bool \<times> stream_state" where
  "restore_lease opener stream_id lease s =
     (case hm_get (streams s) (opener, stream_id) of
        None \<Rightarrow> (False, s)
      | Some e \<Rightarrow>
          if recv_closed e \<or> path_lease e \<noteq> None then (False, s)
          else (True, put_entry (opener, stream_id) (e\<lparr>path_lease := Some lease\<rparr>) s))"

definition handle_open ::
  "stream_opener \<Rightarrow> u16 \<Rightarrow> string \<Rightarrow> stream_consumer \<Rightarrow> stream_state
     \<Rightarrow> (stream_error + unit) \<times> stream_state" where
  "handle_open opener stream_id service cons s = stream_open opener stream_id service cons s"

text \<open>Removal with the tombstone that both closing paths leave.\<close>

definition retire_key :: "stream_key \<Rightarrow> stream_state \<Rightarrow> stream_state" where
  "retire_key key s =
     \<lparr>streams = hm_remove key (streams s),
      retired = (if card (retired s) < MAX_RETIRED_STREAM_KEYS then insert key (retired s)
                 else retired s)\<rparr>"

definition handle_close :: "stream_opener \<Rightarrow> u16 \<Rightarrow> stream_state \<Rightarrow> stream_state" where
  "handle_close opener stream_id s =
     (let key = (opener, stream_id) in
      case hm_get (streams s) key of
        None \<Rightarrow> s
      | Some e \<Rightarrow>
          if recv_closed e then s
          else
            let s = put_entry key (wake (e\<lparr>recv_closed := True\<rparr>)) s in
            if send_closed e then retire_key key s else s)"

definition close_local :: "stream_opener \<Rightarrow> u16 \<Rightarrow> stream_state \<Rightarrow> stream_state" where
  "close_local opener stream_id s =
     (let key = (opener, stream_id) in
      case hm_get (streams s) key of
        None \<Rightarrow> s
      | Some e \<Rightarrow>
          if send_closed e then s
          else
            let s = put_entry key (wake (e\<lparr>send_closed := True\<rparr>)) s in
            if recv_closed e then retire_key key s else s)"

definition is_open :: "stream_opener \<Rightarrow> u16 \<Rightarrow> stream_state \<Rightarrow> bool" where
  "is_open opener stream_id s = hm_contains (streams s) (opener, stream_id)"

definition opener_device :: "string \<Rightarrow> string \<Rightarrow> stream_opener \<Rightarrow> string" where
  "opener_device local_opener_device_id peer_id opener =
     (case opener of Local \<Rightarrow> local_opener_device_id | Remote \<Rightarrow> peer_id)"

definition closed_events ::
  "string \<Rightarrow> string \<Rightarrow> stream_key list \<Rightarrow> stream_event list" where
  "closed_events peer_id local_opener_device_id ids =
     map (\<lambda>(opener, stream_id).
            StreamClosed peer_id (opener_device local_opener_device_id peer_id opener) stream_id) ids"

definition close_all ::
  "string \<Rightarrow> string \<Rightarrow> stream_state \<Rightarrow> stream_key list \<times> stream_event list \<times> stream_state" where
  "close_all peer_id local_opener_device_id s =
     (let ids = map fst (streams s) in
      (ids, closed_events peer_id local_opener_device_id ids,
       \<lparr>streams = [], retired = retired s \<union> set ids\<rparr>))"

definition close_inactive ::
  "(nat \<Rightarrow> bool) \<Rightarrow> string \<Rightarrow> string \<Rightarrow> stream_state
     \<Rightarrow> stream_key list \<times> stream_event list \<times> stream_state" where
  "close_inactive lease_is_active peer_id local_opener_device_id s =
     (let ids = map fst (filter (\<lambda>(_, e).
                 case path_lease e of Some lease \<Rightarrow> \<not> lease_is_active lease | None \<Rightarrow> False)
               (streams s)) in
      (ids, closed_events peer_id local_opener_device_id ids, fold retire_key ids s))"

section \<open>Buffers\<close>

definition register_quic_send ::
  "stream_opener \<Rightarrow> u16 \<Rightarrow> nat \<Rightarrow> stream_state \<Rightarrow> (stream_error + unit) \<times> stream_state" where
  "register_quic_send opener stream_id send s =
     (case hm_get (streams s) (opener, stream_id) of
        None \<Rightarrow> (Inl NotFound, s)
      | Some e \<Rightarrow> (Inr (), put_entry (opener, stream_id) (e\<lparr>quic_send := Some send\<rparr>) s))"

definition send_guard :: "stream_opener \<Rightarrow> u16 \<Rightarrow> stream_state \<Rightarrow> stream_error + unit" where
  "send_guard opener stream_id s =
     (case hm_get (streams s) (opener, stream_id) of
        None \<Rightarrow> Inl NotFound
      | Some e \<Rightarrow> if send_closed e then Inl Closed else Inr ())"

definition get_next_send_seq :: "stream_opener \<Rightarrow> u16 \<Rightarrow> stream_state \<Rightarrow> stream_error + u64" where
  "get_next_send_seq opener stream_id s =
     (case hm_get (streams s) (opener, stream_id) of
        None \<Rightarrow> Inl NotFound
      | Some e \<Rightarrow> if send_closed e then Inl Closed else Inr (next_send_seq e))"

definition bump_send_seq ::
  "stream_opener \<Rightarrow> u16 \<Rightarrow> u64 \<Rightarrow> stream_state \<Rightarrow> (stream_error + unit) \<times> stream_state" where
  "bump_send_seq opener stream_id count s =
     (case hm_get (streams s) (opener, stream_id) of
        None \<Rightarrow> (Inl NotFound, s)
      | Some e \<Rightarrow>
          if send_closed e then (Inl Closed, s)
          else (Inr (), put_entry (opener, stream_id)
                  (e\<lparr>next_send_seq := next_send_seq e + count\<rparr>) s))"

text \<open>The QUIC write runs between two critical sections; its outcome is an argument.\<close>

definition quic_send_bytes ::
  "bool \<Rightarrow> stream_opener \<Rightarrow> u16 \<Rightarrow> stream_state \<Rightarrow> (stream_error + unit) \<times> stream_state" where
  "quic_send_bytes write_ok opener stream_id s =
     (let key = (opener, stream_id) in
      case hm_get (streams s) key of
        None \<Rightarrow> (Inl NotFound, s)
      | Some e \<Rightarrow>
          if send_closed e then (Inl Closed, s)
          else case quic_send e of
            None \<Rightarrow> (Inl Closed, s)
          | Some send \<Rightarrow>
              let s = put_entry key (e\<lparr>quic_send := None\<rparr>) s in
              if write_ok then (Inr (), put_entry key (e\<lparr>quic_send := Some send\<rparr>) s)
              else (Inl Closed, s))"

definition quic_finish_send ::
  "stream_opener \<Rightarrow> u16 \<Rightarrow> stream_state \<Rightarrow> (stream_error + unit) \<times> stream_state" where
  "quic_finish_send opener stream_id s =
     (case hm_get (streams s) (opener, stream_id) of
        None \<Rightarrow> (Inl NotFound, s)
      | Some e \<Rightarrow>
          if send_closed e then (Inr (), s)
          else case quic_send e of
            None \<Rightarrow> (Inl Closed, s)
          | Some _ \<Rightarrow> (Inr (), put_entry (opener, stream_id) (e\<lparr>quic_send := None\<rparr>) s))"

text \<open>
  One turn of the first loop of \<^verbatim>\<open>handle_bytes\<close>: return, or buffer the data and leave the
  loop with the new fill level, or wait for room.
\<close>

datatype bytes_turn = Bytes_Return "stream_error + unit" | Bytes_Buffered nat | Bytes_Wait

definition handle_bytes ::
  "stream_opener \<Rightarrow> u16 \<Rightarrow> u64 \<Rightarrow> byte list \<Rightarrow> stream_state \<Rightarrow> bytes_turn \<times> stream_state" where
  "handle_bytes opener stream_id seq data s =
     (case hm_get (streams s) (opener, stream_id) of
        None \<Rightarrow> (Bytes_Return (Inl NotFound), s)
      | Some e \<Rightarrow>
          if recv_closed e \<or> send_closed e then (Bytes_Return (Inr ()), s)
          else if seq \<noteq> next_recv_seq e then
            (if seq < next_recv_seq e then (Bytes_Return (Inr ()), s)
             else (Bytes_Return (Inl InvalidFrame), s))
          else if recv_bytes e + length data \<le> MAX_PER_STREAM_BUFFER_CAPACITY then
            (Bytes_Buffered (recv_bytes e + length data),
             put_entry (opener, stream_id)
               (wake (e\<lparr>next_recv_seq := next_recv_seq e + 1,
                        recv_bytes := recv_bytes e + length data,
                        recv_chunks := recv_chunks e @ [data]\<rparr>)) s)
          else (Bytes_Wait, s))"

text \<open>One turn of its second loop: whether the writer may return to the carrier.\<close>

definition handle_bytes_drained :: "nat \<Rightarrow> stream_opener \<Rightarrow> u16 \<Rightarrow> stream_state \<Rightarrow> bool" where
  "handle_bytes_drained after opener stream_id s =
     (case hm_get (streams s) (opener, stream_id) of
        None \<Rightarrow> True
      | Some e \<Rightarrow> consumer e \<noteq> Event \<or> recv_bytes e < after)"

datatype drain_turn = Drain_Emit stream_event | Drain_Done "stream_event list" | Drain_Wait

definition drain_events ::
  "string \<Rightarrow> stream_opener \<Rightarrow> u16 \<Rightarrow> string \<Rightarrow> stream_state \<Rightarrow> drain_turn \<times> stream_state" where
  "drain_events peer_id opener stream_id opener_device_id s =
     (case hm_get (streams s) (opener, stream_id) of
        None \<Rightarrow> (Drain_Done [], s)
      | Some e \<Rightarrow>
          (case recv_chunks e of
             chunk # rest \<Rightarrow>
               (Drain_Emit (DataReceived peer_id opener_device_id stream_id chunk),
                put_entry (opener, stream_id)
                  (wake (e\<lparr>recv_chunks := rest, recv_bytes := recv_bytes e - length chunk\<rparr>)) s)
           | [] \<Rightarrow>
               if recv_closed e then
                 (Drain_Done [StreamClosed peer_id opener_device_id stream_id], s)
               else (Drain_Wait, s)))"

text \<open>The copy loop of \<^verbatim>\<open>receive\<close> into a buffer with \<open>room\<close> bytes left.\<close>

fun fill_buffer :: "nat \<Rightarrow> byte list list \<Rightarrow> byte list \<times> byte list list" where
  "fill_buffer room [] = ([], [])"
| "fill_buffer room (chunk # rest) =
     (if room = 0 then ([], chunk # rest)
      else
        let taken = min (length chunk) room in
        if taken = length chunk then
          let (filled, left) = fill_buffer (room - taken) rest in (take taken chunk @ filled, left)
        else (take taken chunk, drop taken chunk # rest))"

datatype receive_turn = Receive_Return "stream_error + byte list" | Receive_Wait

definition receive ::
  "stream_opener \<Rightarrow> u16 \<Rightarrow> nat \<Rightarrow> stream_state \<Rightarrow> receive_turn \<times> stream_state" where
  "receive opener stream_id buf_len s =
     (case hm_get (streams s) (opener, stream_id) of
        None \<Rightarrow> (Receive_Return (Inl NotFound), s)
      | Some e \<Rightarrow>
          if consumer e = Event then (Receive_Return (Inl InvalidArgument), s)
          else
            let (filled, left) = fill_buffer buf_len (recv_chunks e);
                s' = put_entry (opener, stream_id) (e\<lparr>recv_chunks := left\<rparr>) s
            in if length filled > 0 then
                 (Receive_Return (Inr filled),
                  put_entry (opener, stream_id)
                    (wake (e\<lparr>recv_chunks := left, recv_bytes := recv_bytes e - length filled\<rparr>)) s)
               else if recv_closed e then (Receive_Return (Inr []), s')
               else (Receive_Wait, s'))"

section \<open>Session operations\<close>

text \<open>
  The local device identity is \<open>None\<close> before it is provisioned.  The carrier of a lease is
  described by the outcome of each step that leaves the manager: whether its transport is
  QUIC, whether the lease is active before and after the write, whether the QUIC write
  succeeds, and whether the \<open>n\<close>-th framed write is accepted by the route.
\<close>

record carrier =
  is_quic :: "nat \<Rightarrow> bool"
  active_before :: bool
  active_after :: bool
  quic_write_ok :: bool
  frame_write_ok :: "nat \<Rightarrow> bool"

definition stream_opener_peer_id ::
  "string option \<Rightarrow> string \<Rightarrow> stream_opener \<Rightarrow> stream_error + string" where
  "stream_opener_peer_id local_id peer_id opener =
     (case opener of
        Local \<Rightarrow> (case local_id of Some d \<Rightarrow> Inr d | None \<Rightarrow> Inl NotConnected)
      | Remote \<Rightarrow> Inr peer_id)"

definition inbound_stream_opener ::
  "string option \<Rightarrow> string \<Rightarrow> string \<Rightarrow> stream_error + stream_opener" where
  "inbound_stream_opener local_id peer_id opener_peer_id =
     (case local_id of
        None \<Rightarrow> Inl NotConnected
      | Some local_peer_id \<Rightarrow>
          if opener_peer_id = local_peer_id then Inr Local
          else if opener_peer_id = peer_id then Inr Remote
          else Inl InvalidFrame)"

definition close_stream_after_path_loss ::
  "stream_opener \<Rightarrow> u16 \<Rightarrow> stream_state \<Rightarrow> stream_state" where
  "close_stream_after_path_loss opener stream_id s =
     close_local opener stream_id (handle_close opener stream_id s)"

function chunks :: "nat \<Rightarrow> 'a list \<Rightarrow> 'a list list" where
  "chunks n xs = (if n = 0 \<or> xs = [] then [] else take n xs # chunks n (drop n xs))"
  by auto

termination by (relation "measure (\<lambda>(n, xs). length xs)") auto

declare chunks.simps [simp del]

fun send_chunks ::
  "(nat \<Rightarrow> bool) \<Rightarrow> string \<Rightarrow> u16 \<Rightarrow> u64 \<Rightarrow> nat \<Rightarrow> byte list list
     \<Rightarrow> (stream_error + nat) \<times> byte list list" where
  "send_chunks write_ok opener_peer_id stream_id seq n [] = (Inr n, [])"
| "send_chunks write_ok opener_peer_id stream_id seq n (chunk # rest) =
     (case encode_stream_bytes_frame opener_peer_id stream_id (seq + of_nat n) chunk of
        Inl e \<Rightarrow> (Inl e, [])
      | Inr payload \<Rightarrow>
          (case encode_generic_frame StreamBytes payload of
             Inl _ \<Rightarrow> (Inl (SendFailed ''generic route frame is too large''), [])
           | Inr frame \<Rightarrow>
               if \<not> write_ok n then (Inl (SendFailed ''generic route transport failed''), [])
               else
                 let (r, frames) = send_chunks write_ok opener_peer_id stream_id seq (n + 1) rest
                 in (r, frame # frames)))"

definition send_on_carrier ::
  "carrier \<Rightarrow> nat \<Rightarrow> string \<Rightarrow> stream_opener \<Rightarrow> u16 \<Rightarrow> byte list \<Rightarrow> stream_state
     \<Rightarrow> (stream_error + unit) \<times> byte list list \<times> stream_state" where
  "send_on_carrier c lease opener_peer_id opener stream_id data s =
     (if is_quic c lease then
        (if \<not> active_before c then (Inl Closed, [], s)
         else let (r, s) = quic_send_bytes (quic_write_ok c) opener stream_id s in (r, [], s))
      else case get_next_send_seq opener stream_id s of
        Inl e \<Rightarrow> (Inl e, [], s)
      | Inr seq \<Rightarrow>
          (case send_chunks (frame_write_ok c) opener_peer_id stream_id seq 0
                  (chunks MAX_STREAM_FRAME_BYTES data) of
             (Inl e, frames) \<Rightarrow> (Inl e, frames, s)
           | (Inr n, frames) \<Rightarrow>
               let (r, s) = bump_send_seq opener stream_id (of_nat n) s in (r, frames, s)))"

definition send_stream_with_opener ::
  "carrier \<Rightarrow> string option \<Rightarrow> string \<Rightarrow> stream_opener \<Rightarrow> u16 \<Rightarrow> byte list \<Rightarrow> stream_state
     \<Rightarrow> (stream_error + unit) \<times> byte list list \<times> stream_state" where
  "send_stream_with_opener c local_id peer_id opener stream_id data s =
     (if data = [] then (Inr (), [], s)
      else case stream_opener_peer_id local_id peer_id opener of
        Inl e \<Rightarrow> (Inl e, [], s)
      | Inr opener_peer_id \<Rightarrow>
      case send_guard opener stream_id s of
        Inl e \<Rightarrow> (Inl e, [], s)
      | Inr _ \<Rightarrow>
      case take_lease opener stream_id s of
        (Inl e, s) \<Rightarrow> (Inl e, [], close_stream_after_path_loss opener stream_id s)
      | (Inr lease, s) \<Rightarrow>
      case send_on_carrier c lease opener_peer_id opener stream_id data s of
        (result, frames, s) \<Rightarrow>
          if \<not> active_after c then
            (Inl Closed, frames, close_stream_after_path_loss opener stream_id s)
          else case result of
            Inl e \<Rightarrow> (Inl e, frames, close_stream_after_path_loss opener stream_id s)
          | Inr _ \<Rightarrow>
              (case restore_lease opener stream_id lease s of
                 (True, s) \<Rightarrow> (Inr (), frames, s)
               | (False, s) \<Rightarrow>
                   (Inl Closed, frames, close_stream_after_path_loss opener stream_id s)))"

definition close_stream_with_opener ::
  "carrier \<Rightarrow> string option \<Rightarrow> string \<Rightarrow> stream_opener \<Rightarrow> u16 \<Rightarrow> stream_state
     \<Rightarrow> (stream_error + unit) \<times> byte list list \<times> stream_state" where
  "close_stream_with_opener c local_id peer_id opener stream_id s =
     (case stream_opener_peer_id local_id peer_id opener of
        Inl e \<Rightarrow> (Inl e, [], s)
      | Inr opener_peer_id \<Rightarrow>
      case take_lease opener stream_id s of
        (Inl e, s) \<Rightarrow> (Inl e, [], close_stream_after_path_loss opener stream_id s)
      | (Inr lease, s) \<Rightarrow>
      let (result, frames, s) =
        (if is_quic c lease then
           (if \<not> active_before c then (Inl Closed, [], s)
            else let (r, s) = quic_finish_send opener stream_id s in (r, [], s))
         else case encode_stream_close_frame opener_peer_id stream_id of
           Inl e \<Rightarrow> (Inl e, [], s)
         | Inr payload \<Rightarrow>
             (case encode_generic_frame StreamClose payload of
                Inl _ \<Rightarrow> (Inl (SendFailed ''generic route frame is too large''), [], s)
              | Inr frame \<Rightarrow>
                  if frame_write_ok c 0 then (Inr (), [frame], s)
                  else (Inl (SendFailed ''generic route transport failed''), [], s)))
      in if \<not> active_after c \<or> isl result
         then (Inl Closed, frames, close_stream_after_path_loss opener stream_id s)
         else
           let s = close_local opener stream_id s;
               (_, s) = restore_lease opener stream_id lease s
           in (Inr (), frames, s))"

text \<open>
  Inbound frames of a generic route.  \<open>lease\<close> is what binding the delivering carrier yields:
  no path, an inactive lease, or an active one.
\<close>

datatype bind_outcome = No_Path | Inactive_Lease | Active_Lease nat

definition bind_inbound_attempt ::
  "bind_outcome \<Rightarrow> stream_opener \<Rightarrow> u16 \<Rightarrow> stream_state
     \<Rightarrow> (stream_error + unit) \<times> stream_state" where
  "bind_inbound_attempt path opener stream_id s =
     (case path of
        No_Path \<Rightarrow> (Inl Closed, close_stream_after_path_loss opener stream_id s)
      | Inactive_Lease \<Rightarrow> (Inl NotConnected, s)
      | Active_Lease lease \<Rightarrow> bind_lease opener stream_id lease s)"

definition handle_inbound_open ::
  "bind_outcome \<Rightarrow> stream_opener \<Rightarrow> u16 \<Rightarrow> string \<Rightarrow> stream_state
     \<Rightarrow> (stream_error + unit) \<times> stream_state" where
  "handle_inbound_open path opener stream_id service s =
     (let cons = (if service = ''ssh'' then Bridge else Event) in
      case handle_open opener stream_id service cons s of
        (Inl AlreadyOpen, s) \<Rightarrow> (Inr (), s)
      | (Inl e, s) \<Rightarrow> (Inl e, s)
      | (Inr _, s) \<Rightarrow>
          (case bind_inbound_attempt path opener stream_id s of
             (Inl e, s) \<Rightarrow> (Inl e, close_stream_after_path_loss opener stream_id s)
           | (Inr _, s) \<Rightarrow> (Inr (), s)))"

definition handle_inbound_stream_frame ::
  "string option \<Rightarrow> string \<Rightarrow> bind_outcome \<Rightarrow> generic_frame_kind \<Rightarrow> byte list \<Rightarrow> stream_state
     \<Rightarrow> bytes_turn \<times> stream_state" where
  "handle_inbound_stream_frame local_id peer_id path kind payload s =
     (case kind of
        StreamOpen \<Rightarrow>
          (case decode_stream_open_frame payload of
             Inl e \<Rightarrow> (Bytes_Return (Inl e), s)
           | Inr (opener_peer_id, stream_id, service) \<Rightarrow>
               (case inbound_stream_opener local_id peer_id opener_peer_id of
                  Inl e \<Rightarrow> (Bytes_Return (Inl e), s)
                | Inr opener \<Rightarrow>
                    if opener \<noteq> Remote then (Bytes_Return (Inl InvalidFrame), s)
                    else
                      let (r, s) = handle_inbound_open path Remote stream_id service s
                      in (Bytes_Return r, s)))
      | StreamBytes \<Rightarrow>
          (case decode_stream_bytes_frame payload of
             Inl e \<Rightarrow> (Bytes_Return (Inl e), s)
           | Inr (opener_peer_id, stream_id, seq, data) \<Rightarrow>
               (case inbound_stream_opener local_id peer_id opener_peer_id of
                  Inl e \<Rightarrow> (Bytes_Return (Inl e), s)
                | Inr opener \<Rightarrow> handle_bytes opener stream_id seq data s))
      | StreamClose \<Rightarrow>
          (case decode_stream_close_frame payload of
             Inl e \<Rightarrow> (Bytes_Return (Inl e), s)
           | Inr (opener_peer_id, stream_id) \<Rightarrow>
               (case inbound_stream_opener local_id peer_id opener_peer_id of
                  Inl e \<Rightarrow> (Bytes_Return (Inl e), s)
                | Inr opener \<Rightarrow> (Bytes_Return (Inr ()), handle_close opener stream_id s)))
      | _ \<Rightarrow> (Bytes_Return (Inl InvalidFrame), s))"

section \<open>Invariant\<close>

definition entry_ok :: "stream_entry \<Rightarrow> bool" where
  "entry_ok e \<longleftrightarrow> recv_bytes e = sum_list (map length (recv_chunks e))
     \<and> recv_bytes e \<le> MAX_PER_STREAM_BUFFER_CAPACITY \<and> \<not> (recv_closed e \<and> send_closed e)"

definition stream_inv :: "stream_state \<Rightarrow> bool" where
  "stream_inv s \<longleftrightarrow> hm_wf (streams s) \<and> length (streams s) \<le> MAX_CONCURRENT_STREAMS \<and>
     (\<forall>k e. hm_get (streams s) k = Some e \<longrightarrow> entry_ok e \<and> k \<notin> retired s)"

text \<open>
  There are exactly \<^const>\<open>MAX_RETIRED_STREAM_KEYS\<close> keys, so the tombstone set has room for
  every key that is not yet in it and the capacity guards on it never fire.
\<close>

lemma UNIV_stream_opener: "(UNIV :: stream_opener set) = {Local, Remote}"
  using stream_opener.exhaust by auto

lemma card_stream_keys: "finite (UNIV :: stream_key set)" "card (UNIV :: stream_key set) = 131072"
proof -
  have "card (UNIV :: u16 set) = 65536" by (simp add: card_word)
  then show "finite (UNIV :: stream_key set)" "card (UNIV :: stream_key set) = 131072"
    by (simp_all add: UNIV_stream_opener card_cartesian_product finite_cartesian_product
        flip: UNIV_Times_UNIV)
qed

lemma retired_has_room: "k \<notin> retired s \<Longrightarrow> card (retired s) < MAX_RETIRED_STREAM_KEYS"
proof -
  assume "k \<notin> retired s"
  then have "retired s \<subset> UNIV" by auto
  from psubset_card_mono [OF card_stream_keys(1) this] show ?thesis
    unfolding card_stream_keys(2) MAX_RETIRED_STREAM_KEYS_def .
qed

lemma streams_put_entry:
  "hm_get (streams (put_entry k e s)) k' =
     (if k' = k then map_option (\<lambda>_. e) (hm_get (streams s) k) else hm_get (streams s) k')"
  "length (streams (put_entry k e s)) = length (streams s)"
  "map fst (streams (put_entry k e s)) = map fst (streams s)"
  "retired (put_entry k e s) = retired s"
  by (simp_all add: put_entry_def)

lemma stream_inv_put:
  assumes "stream_inv s" "entry_ok e"
  shows "stream_inv (put_entry k e s)"
  using assms by (auto simp: stream_inv_def streams_put_entry split: if_splits)

lemma entry_ok_get: "stream_inv s \<Longrightarrow> hm_get (streams s) k = Some e \<Longrightarrow> entry_ok e"
  unfolding stream_inv_def by blast

lemma stream_inv_retire:
  assumes "stream_inv s" shows "stream_inv (retire_key k s)"
proof -
  have "length (hm_remove k (streams s)) \<le> length (streams s)"
    using assms by (simp add: length_hm_remove stream_inv_def)
  then show ?thesis
    using assms by (auto simp: stream_inv_def retire_key_def split: if_splits)
qed

lemma retire_put: "hm_wf (streams s) \<Longrightarrow> retire_key k (put_entry k e s) = retire_key k s"
proof -
  have "hm_remove k (hm_modify k f m) = hm_remove k m" for f and m :: "(stream_key, stream_entry) hmap"
    by (induction m) (auto simp: hm_remove_def hm_modify_def)
  then show ?thesis by (simp add: retire_key_def put_entry_def)
qed

lemma stream_inv_insert:
  assumes "stream_inv s" "k \<notin> retired s" "hm_get (streams s) k = None"
    and "length (streams s) < MAX_CONCURRENT_STREAMS" "entry_ok e"
  shows "stream_inv (s\<lparr>streams := hm_insert k e (streams s)\<rparr>)"
  using assms by (auto simp: stream_inv_def length_hm_insert)

text \<open>Updates of an entry that leave its buffer and closing flags alone.\<close>

lemma entry_ok_frame:
  "entry_ok (e\<lparr>path_lease := l\<rparr>) = entry_ok e" "entry_ok (e\<lparr>quic_send := q\<rparr>) = entry_ok e"
  "entry_ok (e\<lparr>next_send_seq := n\<rparr>) = entry_ok e" "entry_ok (wake e) = entry_ok e"
  by (simp_all add: entry_ok_def wake_def)

named_theorems stream_inv_intros \<open>preservation of the manager invariant, per operation\<close>

lemma stream_inv_open [stream_inv_intros]:
  "stream_inv s \<Longrightarrow> stream_inv (snd (stream_open opener stream_id service cons s))"
  by (simp add: stream_open_def Let_def stream_inv_insert entry_ok_def)

lemma stream_inv_bind [stream_inv_intros]:
  "stream_inv s \<Longrightarrow> stream_inv (snd (bind_lease opener stream_id lease s))"
  using entry_ok_get [of s "(opener, stream_id)"]
  by (cases "hm_get (streams s) (opener, stream_id)")
    (auto simp: bind_lease_def entry_ok_frame stream_inv_put split: option.split)

lemma stream_inv_take [stream_inv_intros]:
  "stream_inv s \<Longrightarrow> stream_inv (snd (take_lease opener stream_id s))"
  using entry_ok_get [of s "(opener, stream_id)"]
  by (cases "hm_get (streams s) (opener, stream_id)")
    (auto simp: take_lease_def entry_ok_frame stream_inv_put split: option.split)

lemma stream_inv_restore [stream_inv_intros]:
  "stream_inv s \<Longrightarrow> stream_inv (snd (restore_lease opener stream_id lease s))"
  using entry_ok_get [of s "(opener, stream_id)"]
  by (cases "hm_get (streams s) (opener, stream_id)")
    (auto simp: restore_lease_def entry_ok_frame stream_inv_put split: option.split)

lemma stream_inv_wf: "stream_inv s \<Longrightarrow> hm_wf (streams s)"
  by (simp add: stream_inv_def)

lemma handle_close_eq:
  "stream_inv s \<Longrightarrow> handle_close opener stream_id s =
     (case hm_get (streams s) (opener, stream_id) of
        None \<Rightarrow> s
      | Some e \<Rightarrow> if recv_closed e then s
          else if send_closed e then retire_key (opener, stream_id) s
          else put_entry (opener, stream_id) (wake (e\<lparr>recv_closed := True\<rparr>)) s)"
  by (simp add: handle_close_def retire_put stream_inv_wf split: option.split)

lemma close_local_eq:
  "stream_inv s \<Longrightarrow> close_local opener stream_id s =
     (case hm_get (streams s) (opener, stream_id) of
        None \<Rightarrow> s
      | Some e \<Rightarrow> if send_closed e then s
          else if recv_closed e then retire_key (opener, stream_id) s
          else put_entry (opener, stream_id) (wake (e\<lparr>send_closed := True\<rparr>)) s)"
  by (simp add: close_local_def retire_put stream_inv_wf split: option.split)

lemma stream_inv_handle_close [stream_inv_intros]:
  assumes "stream_inv s" shows "stream_inv (handle_close opener stream_id s)"
  using assms entry_ok_get [of s "(opener, stream_id)"]
  by (cases "hm_get (streams s) (opener, stream_id)")
    (auto simp: handle_close_eq stream_inv_retire entry_ok_def wake_def stream_inv_put)

lemma stream_inv_close_local [stream_inv_intros]:
  assumes "stream_inv s" shows "stream_inv (close_local opener stream_id s)"
  using assms entry_ok_get [of s "(opener, stream_id)"]
  by (cases "hm_get (streams s) (opener, stream_id)")
    (auto simp: close_local_eq stream_inv_retire entry_ok_def wake_def stream_inv_put)

lemma stream_inv_path_loss [stream_inv_intros]:
  "stream_inv s \<Longrightarrow> stream_inv (close_stream_after_path_loss opener stream_id s)"
  by (simp add: close_stream_after_path_loss_def stream_inv_intros)

lemma stream_inv_close_all [stream_inv_intros]:
  "stream_inv s \<Longrightarrow> stream_inv (snd (snd (close_all peer_id local_id s)))"
  by (simp add: close_all_def Let_def stream_inv_def)

lemma stream_inv_close_inactive [stream_inv_intros]:
  "stream_inv s \<Longrightarrow> stream_inv (snd (snd (close_inactive active peer_id local_id s)))"
proof -
  have "stream_inv s \<Longrightarrow> stream_inv (fold retire_key ids s)" for ids
    by (induction ids arbitrary: s) (simp_all add: stream_inv_retire)
  then show "stream_inv s \<Longrightarrow> ?thesis" by (simp add: close_inactive_def Let_def)
qed

lemma stream_inv_quic [stream_inv_intros]:
  "stream_inv s \<Longrightarrow> stream_inv (snd (register_quic_send opener stream_id q s))"
  "stream_inv s \<Longrightarrow> stream_inv (snd (quic_send_bytes ok opener stream_id s))"
  "stream_inv s \<Longrightarrow> stream_inv (snd (quic_finish_send opener stream_id s))"
  "stream_inv s \<Longrightarrow> stream_inv (snd (bump_send_seq opener stream_id n s))"
  using entry_ok_get [of s "(opener, stream_id)"]
  by (cases "hm_get (streams s) (opener, stream_id)";
      auto simp: register_quic_send_def quic_send_bytes_def quic_finish_send_def
        bump_send_seq_def Let_def entry_ok_frame stream_inv_put split: option.split)+

lemma stream_inv_handle_bytes [stream_inv_intros]:
  "stream_inv s \<Longrightarrow> stream_inv (snd (handle_bytes opener stream_id seq data s))"
  using entry_ok_get [of s "(opener, stream_id)"]
  by (cases "hm_get (streams s) (opener, stream_id)")
    (auto simp: handle_bytes_def entry_ok_def wake_def stream_inv_put)

lemma stream_inv_drain [stream_inv_intros]:
  "stream_inv s \<Longrightarrow> stream_inv (snd (drain_events peer_id opener stream_id device s))"
  using entry_ok_get [of s "(opener, stream_id)"]
  by (cases "hm_get (streams s) (opener, stream_id)")
    (auto simp: drain_events_def entry_ok_def wake_def stream_inv_put split: list.split)

text \<open>The copy loop of \<^verbatim>\<open>receive\<close> splits the buffered bytes.\<close>

lemma fill_buffer_concat:
  "fill_buffer room cs = (filled, left) \<Longrightarrow>
     filled = take room (concat cs) \<and> concat left = drop room (concat cs)"
proof (induction room cs arbitrary: filled left rule: fill_buffer.induct)
  case (2 room chunk rest)
  then show ?case
    by (auto simp: Let_def min_def split: if_splits prod.splits)
qed simp

lemma sum_length_concat: "sum_list (map length cs) = length (concat cs)"
  by (simp add: length_concat)

lemma stream_inv_receive [stream_inv_intros]:
  assumes "stream_inv s" shows "stream_inv (snd (receive opener stream_id n s))"
proof (cases "hm_get (streams s) (opener, stream_id)")
  case None
  with assms show ?thesis by (simp add: receive_def)
next
  case (Some e)
  obtain filled left where f: "fill_buffer n (recv_chunks e) = (filled, left)" by force
  have c: "filled @ concat left = concat (recv_chunks e)"
    using fill_buffer_concat [OF f] by simp
  then have len: "length filled + length (concat left) = length (concat (recv_chunks e))"
    by (metis length_append)
  have "entry_ok e" using assms Some by (rule entry_ok_get)
  then have "entry_ok (e\<lparr>recv_chunks := left, recv_bytes := recv_bytes e - length filled\<rparr>)"
    and "filled = [] \<Longrightarrow> entry_ok (e\<lparr>recv_chunks := left\<rparr>)"
    using len by (auto simp: entry_ok_def sum_length_concat simp del: length_concat)
  with assms Some f show ?thesis
    by (simp add: receive_def Let_def stream_inv_put entry_ok_frame)
qed

text \<open>The same facts in destruct form, for the operations that are composed of others.\<close>

lemma stream_inv_after:
  "take_lease opener stream_id s = (rl, s') \<Longrightarrow> stream_inv s \<Longrightarrow> stream_inv s'"
  "restore_lease opener stream_id lease s = (b, s') \<Longrightarrow> stream_inv s \<Longrightarrow> stream_inv s'"
  "bind_lease opener stream_id lease s = (r, s') \<Longrightarrow> stream_inv s \<Longrightarrow> stream_inv s'"
  "stream_open opener stream_id service cons s = (r, s') \<Longrightarrow> stream_inv s \<Longrightarrow> stream_inv s'"
  "quic_send_bytes ok opener stream_id s = (r, s') \<Longrightarrow> stream_inv s \<Longrightarrow> stream_inv s'"
  "quic_finish_send opener stream_id s = (r, s') \<Longrightarrow> stream_inv s \<Longrightarrow> stream_inv s'"
  "bump_send_seq opener stream_id n s = (r, s') \<Longrightarrow> stream_inv s \<Longrightarrow> stream_inv s'"
  by (metis snd_conv stream_inv_intros)+

lemma stream_inv_send_on_carrier:
  "send_on_carrier c lease oid opener stream_id data s = (r, frames, s') \<Longrightarrow> stream_inv s
     \<Longrightarrow> stream_inv s'"
  by (auto simp: send_on_carrier_def split: if_splits sum.splits prod.splits
      dest: stream_inv_after)

lemma stream_inv_send_stream [stream_inv_intros]:
  "stream_inv s \<Longrightarrow>
     stream_inv (snd (snd (send_stream_with_opener c local_id peer_id opener stream_id data s)))"
  by (auto simp: send_stream_with_opener_def split: sum.split prod.split bool.split
      dest: stream_inv_after stream_inv_send_on_carrier intro!: stream_inv_path_loss)

lemma stream_inv_close_stream [stream_inv_intros]:
  "stream_inv s \<Longrightarrow>
     stream_inv (snd (snd (close_stream_with_opener c local_id peer_id opener stream_id s)))"
  by (auto simp: close_stream_with_opener_def Let_def split: sum.splits prod.split if_splits
      dest: stream_inv_after intro!: stream_inv_path_loss stream_inv_close_local)

lemma stream_inv_inbound_open:
  "handle_inbound_open path opener stream_id service s = (r, s') \<Longrightarrow> stream_inv s \<Longrightarrow> stream_inv s'"
  by (auto simp: handle_inbound_open_def bind_inbound_attempt_def handle_open_def Let_def
      split: sum.splits prod.splits stream_error.splits bind_outcome.splits
      dest: stream_inv_after intro!: stream_inv_path_loss)

lemma stream_inv_inbound_frame [stream_inv_intros]:
  "stream_inv s \<Longrightarrow>
     stream_inv (snd (handle_inbound_stream_frame local_id peer_id path kind payload s))"
  by (auto simp: handle_inbound_stream_frame_def stream_inv_handle_close stream_inv_handle_bytes
      split: generic_frame_kind.split sum.split prod.split dest: stream_inv_inbound_open)

section \<open>Interleaved histories\<close>

text \<open>
  The critical sections as events: tasks of the runtime interleave them in any order.
\<close>

datatype stream_op =
    Op_Open stream_opener u16 string stream_consumer
  | Op_Bind stream_opener u16 nat
  | Op_Take stream_opener u16
  | Op_Restore stream_opener u16 nat
  | Op_Handle_Close stream_opener u16
  | Op_Close_Local stream_opener u16
  | Op_Close_All string string
  | Op_Close_Inactive "nat \<Rightarrow> bool" string string
  | Op_Register_Quic stream_opener u16 nat
  | Op_Quic_Send bool stream_opener u16
  | Op_Quic_Finish stream_opener u16
  | Op_Bump stream_opener u16 u64
  | Op_Bytes stream_opener u16 u64 "byte list"
  | Op_Drain string stream_opener u16 string
  | Op_Receive stream_opener u16 nat

fun stream_step :: "stream_op \<Rightarrow> stream_state \<Rightarrow> stream_state" where
  "stream_step (Op_Open opener i service cons) s = snd (stream_open opener i service cons s)"
| "stream_step (Op_Bind opener i lease) s = snd (bind_lease opener i lease s)"
| "stream_step (Op_Take opener i) s = snd (take_lease opener i s)"
| "stream_step (Op_Restore opener i lease) s = snd (restore_lease opener i lease s)"
| "stream_step (Op_Handle_Close opener i) s = handle_close opener i s"
| "stream_step (Op_Close_Local opener i) s = close_local opener i s"
| "stream_step (Op_Close_All p l) s = snd (snd (close_all p l s))"
| "stream_step (Op_Close_Inactive active p l) s = snd (snd (close_inactive active p l s))"
| "stream_step (Op_Register_Quic opener i q) s = snd (register_quic_send opener i q s)"
| "stream_step (Op_Quic_Send ok opener i) s = snd (quic_send_bytes ok opener i s)"
| "stream_step (Op_Quic_Finish opener i) s = snd (quic_finish_send opener i s)"
| "stream_step (Op_Bump opener i n) s = snd (bump_send_seq opener i n s)"
| "stream_step (Op_Bytes opener i seq data) s = snd (handle_bytes opener i seq data s)"
| "stream_step (Op_Drain p opener i d) s = snd (drain_events p opener i d s)"
| "stream_step (Op_Receive opener i n) s = snd (receive opener i n s)"

text \<open>No key leaves the table without a tombstone, and tombstones stay.\<close>

definition keeps :: "stream_state \<Rightarrow> stream_state \<Rightarrow> bool" where
  "keeps s s' \<longleftrightarrow> retired s \<subseteq> retired s' \<and>
     (\<forall>k. hm_contains (streams s) k \<longrightarrow> hm_contains (streams s') k \<or> k \<in> retired s')"

lemma keeps_refl [simp]: "keeps s s"
  by (simp add: keeps_def)

lemma keeps_trans: "keeps s t \<Longrightarrow> keeps t u \<Longrightarrow> keeps s u"
  unfolding keeps_def by blast

lemma keeps_put [simp]: "keeps s (put_entry k e s)"
  by (auto simp: keeps_def streams_put_entry)

lemma keeps_put2 [simp]: "keeps s (put_entry k e' (put_entry k e s))"
  using keeps_trans keeps_put by blast

lemma keeps_retire:
  "stream_inv s \<Longrightarrow> k \<in> retired s \<or> hm_contains (streams s) k \<Longrightarrow> keeps s (retire_key k s)"
  using retired_has_room [of k s]
  by (auto simp: keeps_def retire_key_def stream_inv_def split: if_splits)

lemma keeps_retire_all:
  "stream_inv s \<Longrightarrow> (\<And>k. k \<in> set ks \<Longrightarrow> k \<in> retired s \<or> hm_contains (streams s) k) \<Longrightarrow>
     keeps s (fold retire_key ks s)"
proof (induction ks arbitrary: s)
  case (Cons k ks)
  have k: "keeps s (retire_key k s)" using Cons.prems by (intro keeps_retire) auto
  have "k' \<in> retired (retire_key k s) \<or> hm_contains (streams (retire_key k s)) k'"
    if "k' \<in> set ks" for k'
    using Cons.prems(2) [of k'] that k unfolding keeps_def by (metis list.set_intros(2) subsetD)
  then have "keeps (retire_key k s) (fold retire_key ks (retire_key k s))"
    using Cons.prems(1) by (intro Cons.IH stream_inv_retire)
  with k show ?case using keeps_trans by simp
qed simp

lemma keeps_step: "stream_inv s \<Longrightarrow> keeps s (stream_step op s)"
proof (induction op s rule: stream_step.induct)
  case (1 opener i service cons s)
  then show ?case by (auto simp: stream_open_def Let_def keeps_def)
next
  case (8 active p l s)
  have "keeps s (fold retire_key ks s)" if "set ks \<subseteq> fst ` set (streams s)" for ks
    using 8 that by (intro keeps_retire_all) (auto simp: map_of_eq_None_iff)
  from this [of "map fst (filter P (streams s))" for P] show ?case
    by (auto simp: close_inactive_def Let_def)
qed (auto simp: bind_lease_def take_lease_def restore_lease_def handle_close_eq close_local_eq
    close_all_def register_quic_send_def quic_send_bytes_def quic_finish_send_def bump_send_seq_def
    handle_bytes_def drain_events_def receive_def Let_def keeps_retire
    split: option.split list.split prod.split,
    auto simp: keeps_def dest!: hm_get_Some_in intro: rev_image_eqI)

interpretation sm: invariant_system stream_step stream_inv
proof
  show "stream_inv (stream_step op s)" if "stream_inv s" for s op
    using that by (cases op) (simp_all add: stream_inv_intros)
qed

interpretation tomb: absorbing_system stream_step stream_inv "\<lambda>s. k \<in> retired s" for k
  by unfold_locales (use keeps_step keeps_def in blast)

lemma stream_inv_new: "stream_inv stream_state_new"
  by (simp add: stream_inv_def stream_state_new_def)

lemma keeps_run: "stream_inv s \<Longrightarrow> keeps s (fold stream_step ops s)"
proof (induction ops arbitrary: s)
  case (Cons op ops)
  then show ?case
    using keeps_trans [OF keeps_step Cons.IH [OF sm.step_inv]] by simp
qed simp

section \<open>The bytes of one stream\<close>

text \<open>
  What an event takes in and hands out for the stream \<open>k\<close>: the frames that \<^verbatim>\<open>handle_bytes\<close>
  buffers, and the bytes that \<^verbatim>\<open>receive\<close> returns or the drainer emits.
\<close>

fun step_io :: "stream_key \<Rightarrow> stream_op \<Rightarrow> stream_state \<Rightarrow> (u64 \<times> byte list) list \<times> byte list" where
  "step_io k (Op_Bytes opener i seq data) s =
     (if (opener, i) = k then
        (case fst (handle_bytes opener i seq data s) of
           Bytes_Buffered _ \<Rightarrow> ([(seq, data)], []) | _ \<Rightarrow> ([], []))
      else ([], []))"
| "step_io k (Op_Receive opener i n) s =
     (if (opener, i) = k then
        (case fst (receive opener i n s) of
           Receive_Return (Inr bytes) \<Rightarrow> ([], bytes) | _ \<Rightarrow> ([], []))
      else ([], []))"
| "step_io k (Op_Drain p opener i d) s =
     (if (opener, i) = k then
        (case fst (drain_events p opener i d s) of
           Drain_Emit (DataReceived _ _ _ chunk) \<Rightarrow> ([], chunk) | _ \<Rightarrow> ([], []))
      else ([], []))"
| "step_io k _ s = ([], [])"

fun stream_io ::
  "stream_key \<Rightarrow> stream_op list \<Rightarrow> stream_state \<Rightarrow> (u64 \<times> byte list) list \<times> byte list" where
  "stream_io k [] s = ([], [])"
| "stream_io k (op # ops) s =
     (let (a, d) = step_io k op s; (as, ds) = stream_io k ops (stream_step op s)
      in (a @ as, d @ ds))"

definition entry_io ::
  "stream_entry \<Rightarrow> (u64 \<times> byte list) list \<Rightarrow> byte list \<Rightarrow> stream_entry \<Rightarrow> bool" where
  "entry_io e a d e' \<longleftrightarrow>
     d @ concat (recv_chunks e') = concat (recv_chunks e) @ concat (map snd a)
     \<and> next_recv_seq e' = next_recv_seq e + of_nat (length a)
     \<and> map fst a = map (\<lambda>i. next_recv_seq e + of_nat i) [0..<length a]"

definition io_ok ::
  "stream_key \<Rightarrow> stream_state \<Rightarrow> (u64 \<times> byte list) list \<Rightarrow> byte list \<Rightarrow> stream_state \<Rightarrow> bool" where
  "io_ok k s a d s' \<longleftrightarrow>
     (case hm_get (streams s) k of
        Some e \<Rightarrow>
          (case hm_get (streams s') k of
             Some e' \<Rightarrow> entry_io e a d e'
           | None \<Rightarrow> k \<in> retired s' \<and> a = [] \<and> d = [])
      | None \<Rightarrow>
          a = [] \<and> d = [] \<and>
          (case hm_get (streams s') k of
             Some e' \<Rightarrow> recv_chunks e' = [] \<and> next_recv_seq e' = 0 \<and> k \<notin> retired s
           | None \<Rightarrow> True))"

lemma entry_io_frame:
  "recv_chunks e' = recv_chunks e \<Longrightarrow> next_recv_seq e' = next_recv_seq e \<Longrightarrow> entry_io e [] [] e'"
  by (simp add: entry_io_def)

lemma io_ok_same [simp]: "io_ok k s [] [] s"
  by (simp add: io_ok_def entry_io_frame split: option.split)

lemma io_ok_put:
  "io_ok k s a d (put_entry k' e' s) \<longleftrightarrow>
     (if k' = k then
        (case hm_get (streams s) k of Some e \<Rightarrow> entry_io e a d e' | None \<Rightarrow> a = [] \<and> d = [])
      else io_ok k s a d s)"
  by (auto simp: io_ok_def streams_put_entry split: option.splits)

lemma io_ok_retired:
  assumes "stream_inv s" "keeps s s'"
    and "hm_get (streams s') k = None \<or> hm_get (streams s') k = hm_get (streams s) k"
  shows "io_ok k s [] [] s'"
proof -
  have "hm_contains (streams s) k \<Longrightarrow> hm_contains (streams s') k \<or> k \<in> retired s'"
    using assms(2) unfolding keeps_def by blast
  then show ?thesis
    using assms(3) by (auto simp: io_ok_def entry_io_frame split: option.split)
qed

lemma io_ok_retire_key:
  assumes "stream_inv s" "hm_contains (streams s) k'"
  shows "io_ok k s [] [] (retire_key k' s)"
  using assms keeps_retire [of s k'] by (intro io_ok_retired) (auto simp: retire_key_def)

lemma get_fold_retire:
  "hm_get (streams (fold retire_key ks s)) k = (if k \<in> set ks then None else hm_get (streams s) k)"
  by (induction ks arbitrary: s) (auto simp: retire_key_def)

lemma io_ok_receive:
  "io_ok k s (fst (step_io k (Op_Receive opener i n) s))
    (snd (step_io k (Op_Receive opener i n) s)) (snd (receive opener i n s))"
proof (cases "hm_get (streams s) (opener, i)")
  case None
  then show ?thesis by (cases "(opener, i) = k") (auto simp: receive_def)
next
  case (Some e)
  obtain filled left where f: "fill_buffer n (recv_chunks e) = (filled, left)" by force
  have "filled @ concat left = concat (recv_chunks e)"
    using fill_buffer_concat [OF f] by simp
  with Some f show ?thesis
    by (cases "(opener, i) = k") (auto simp: receive_def Let_def io_ok_put entry_io_def wake_def)
qed

lemma io_ok_put_same:
  "hm_get (streams s) k' = Some e \<Longrightarrow> recv_chunks e' = recv_chunks e \<Longrightarrow>
   next_recv_seq e' = next_recv_seq e \<Longrightarrow> io_ok k s [] [] (put_entry k' e' s)"
  by (auto simp: io_ok_put entry_io_frame)

lemma io_ok_handle_bytes:
  "io_ok k s (fst (step_io k (Op_Bytes opener i seq data) s))
    (snd (step_io k (Op_Bytes opener i seq data) s)) (snd (handle_bytes opener i seq data s))"
  by (cases "hm_get (streams s) (opener, i)"; cases "(opener, i) = k")
    (auto simp: handle_bytes_def io_ok_put entry_io_def wake_def)

lemma io_ok_drain:
  "io_ok k s (fst (step_io k (Op_Drain p opener i d) s))
    (snd (step_io k (Op_Drain p opener i d) s)) (snd (drain_events p opener i d s))"
proof (cases "hm_get (streams s) (opener, i)")
  case None
  then show ?thesis by (cases "(opener, i) = k") (auto simp: drain_events_def)
next
  case (Some e)
  then show ?thesis
    by (cases "recv_chunks e"; cases "(opener, i) = k")
      (auto simp: drain_events_def io_ok_put entry_io_def wake_def)
qed

lemma io_ok_lease:
  "io_ok k s [] [] (snd (bind_lease opener i lease s))"
  "io_ok k s [] [] (snd (take_lease opener i s))"
  "io_ok k s [] [] (snd (restore_lease opener i lease s))"
  "io_ok k s [] [] (snd (register_quic_send opener i q s))"
  "io_ok k s [] [] (snd (quic_finish_send opener i s))"
  "io_ok k s [] [] (snd (bump_send_seq opener i n s))"
  by (simp_all add: bind_lease_def take_lease_def restore_lease_def register_quic_send_def
      quic_finish_send_def bump_send_seq_def io_ok_put_same split: option.split)

lemma io_ok_quic_send: "io_ok k s [] [] (snd (quic_send_bytes ok opener i s))"
proof -
  have "put_entry k' e2 (put_entry k' e1 s) = put_entry k' e2 s" for k' e1 e2
    by (simp add: put_entry_def hm_modify_def comp_def case_prod_beta cong: if_cong)
  then show ?thesis
    by (simp add: quic_send_bytes_def Let_def io_ok_put_same split: option.split)
qed

lemma io_ok_close:
  assumes "stream_inv s"
  shows "io_ok k s [] [] (handle_close opener i s)" "io_ok k s [] [] (close_local opener i s)"
  using assms
  by (auto simp: handle_close_eq close_local_eq io_ok_retire_key io_ok_put_same wake_def
      split: option.split)

lemma io_ok_open: "io_ok k s [] [] (snd (stream_open opener i service cons s))"
  by (auto simp: stream_open_def Let_def io_ok_def entry_io_frame split: option.split)

lemma io_ok_step:
  assumes "stream_inv s"
  shows "io_ok k s (fst (step_io k op s)) (snd (step_io k op s)) (stream_step op s)"
proof (cases op)
  case (Op_Close_Inactive active p l)
  then show ?thesis
    using assms keeps_step [OF assms, of op]
    by (auto simp: close_inactive_def Let_def get_fold_retire intro!: io_ok_retired)
next
  case (Op_Close_All p l)
  then show ?thesis
    using assms keeps_step [OF assms, of op]
    by (auto simp: close_all_def Let_def intro!: io_ok_retired)
next
  case (Op_Bytes opener i seq data)
  then show ?thesis using io_ok_handle_bytes by (simp del: step_io.simps)
next
  case (Op_Drain p opener i d)
  then show ?thesis using io_ok_drain by (simp del: step_io.simps)
next
  case (Op_Receive opener i n)
  then show ?thesis using io_ok_receive by (simp del: step_io.simps)
qed (simp_all add: io_ok_open io_ok_lease io_ok_quic_send io_ok_close assms)

text \<open>Bytes already buffered for a key, and the sequence number it expects next.\<close>

definition buffered :: "stream_key \<Rightarrow> stream_state \<Rightarrow> byte list" where
  "buffered k s = (case hm_get (streams s) k of Some e \<Rightarrow> concat (recv_chunks e) | None \<Rightarrow> [])"

definition expected_seq :: "stream_key \<Rightarrow> stream_state \<Rightarrow> u64" where
  "expected_seq k s = (case hm_get (streams s) k of Some e \<Rightarrow> next_recv_seq e | None \<Rightarrow> 0)"

lemma stream_io_retired:
  "stream_inv s \<Longrightarrow> k \<in> retired s \<Longrightarrow> stream_io k ops s = ([], [])"
proof (induction ops arbitrary: s)
  case (Cons op ops)
  have none: "hm_get (streams s) k = None"
    using Cons.prems unfolding stream_inv_def by (meson not_Some_eq)
  have "step_io k op s = ([], [])"
    using io_ok_step [OF Cons.prems(1), of k op] none by (simp add: io_ok_def prod_eq_iff)
  then show ?case
    using Cons.IH [OF sm.step_inv tomb.step_final] Cons.prems by (simp add: Let_def)
qed simp

lemma stream_io_run:
  assumes "stream_inv s" "stream_io k ops s = (as, ds)"
  shows "(\<exists>rest. ds @ rest = buffered k s @ concat (map snd as)) \<and>
    map fst as = map (\<lambda>i. expected_seq k s + of_nat i) [0..<length as]"
  using assms
proof (induction ops arbitrary: s as ds)
  case (Cons op ops)
  let ?s = "stream_step op s"
  obtain a d where ad: "step_io k op s = (a, d)" by force
  obtain as' ds' where io': "stream_io k ops ?s = (as', ds')" by force
  have split: "as = a @ as'" "ds = d @ ds'" using Cons.prems(2) ad io' by simp_all
  note inv' = sm.step_inv [OF Cons.prems(1), of op]
  obtain rest where rest: "ds' @ rest = buffered k ?s @ concat (map snd as')"
      and seqs: "map fst as' = map (\<lambda>i. expected_seq k ?s + of_nat i) [0..<length as']"
    using Cons.IH [OF inv' io'] by blast
  have step: "io_ok k s a d ?s" using io_ok_step [OF Cons.prems(1), of k op] ad by simp
  show ?case
  proof (cases "hm_get (streams s) k")
    case None
    then have "a = []" "d = []" "buffered k ?s = buffered k s" "expected_seq k ?s = expected_seq k s"
      using step by (auto simp: io_ok_def buffered_def expected_seq_def split: option.splits)
    with rest seqs split show ?thesis by auto
  next
    case (Some e)
    show ?thesis
    proof (cases "hm_get (streams ?s) k")
      case None
      then have "a = []" "d = []" "k \<in> retired ?s"
        using step Some by (simp_all add: io_ok_def)
      with stream_io_retired [OF inv'] io' split show ?thesis by simp
    next
      case (Some e')
      then have e: "entry_io e a d e'"
        using step \<open>hm_get (streams s) k = Some e\<close> by (simp add: io_ok_def)
      then have "ds @ rest = buffered k s @ concat (map snd as)"
        using rest split Some \<open>hm_get (streams s) k = Some e\<close>
        by (simp add: buffered_def entry_io_def)
      moreover have "map fst as = map (\<lambda>i. expected_seq k s + of_nat i) [0..<length as]"
        using e seqs split Some \<open>hm_get (streams s) k = Some e\<close>
        by (simp add: expected_seq_def entry_io_def map_upt_split add.assoc)
      ultimately show ?thesis by blast
    qed
  qed
qed simp

section \<open>Sending over a framed carrier\<close>

lemma concat_chunks: "0 < n \<Longrightarrow> concat (chunks n xs) = xs"
  by (induction n xs rule: chunks.induct) (subst chunks.simps, auto)

lemma chunks_bound: "c \<in> set (chunks n xs) \<Longrightarrow> c \<noteq> [] \<and> length c \<le> n"
proof (induction n xs rule: chunks.induct)
  case (1 n xs)
  then show ?case by (cases "n = 0 \<or> xs = []") (auto simp: chunks.simps [of n xs])
qed

text \<open>
  The frames of a send are exactly what the peer's decoders read back: chunk after chunk,
  numbered from the stream's next sequence number.
\<close>

definition decode_frame :: "byte list \<Rightarrow> (string \<times> u16 \<times> u64 \<times> byte list) option" where
  "decode_frame frame =
     (case decode_generic_frame frame of
        Inr (StreamBytes, payload) \<Rightarrow>
          (case decode_stream_bytes_frame payload of Inr x \<Rightarrow> Some x | Inl _ \<Rightarrow> None)
      | _ \<Rightarrow> None)"

fun carries :: "string \<Rightarrow> u16 \<Rightarrow> u64 \<Rightarrow> byte list list \<Rightarrow> byte list list \<Rightarrow> bool" where
  "carries oid i seq [] [] = True"
| "carries oid i seq (c # cs) (f # fs) =
     (decode_frame f = Some (oid, i, seq, c) \<and> carries oid i (seq + 1) cs fs)"
| "carries oid i seq _ _ = False"

lemma send_chunks_frames:
  assumes "is_str oid"
  shows "send_chunks ok oid i seq n cs = (Inr m, frames) \<Longrightarrow>
    m = n + length cs \<and> carries oid i (seq + of_nat n) cs frames"
proof (induction cs arbitrary: n m frames)
  case (Cons c cs)
  obtain payload where p: "encode_stream_bytes_frame oid i (seq + of_nat n) c = Inr payload"
    using Cons.prems by (auto split: sum.splits)
  obtain frame where f: "encode_generic_frame StreamBytes payload = Inr frame"
    using Cons.prems p by (auto split: sum.splits)
  obtain frames' where r: "send_chunks ok oid i seq (n + 1) cs = (Inr m, frames')"
      and fr: "frames = frame # frames'"
    using Cons.prems p f by (auto split: if_splits prod.splits)
  have small: "length payload \<le> 49139"
    using f by (auto simp: encode_generic_frame_def stream_consts split: if_splits)
  then have "length c < 2 ^ 32"
    using p by (auto simp: encode_stream_bytes_frame_def append_stream_opener_def
        split: sum.splits if_splits)
  then have "decode_stream_bytes_frame payload = Inr (oid, i, seq + of_nat n, c)"
    using bytes_codec.dec_enc [of "(oid, i, seq + of_nat n, c)"] p assms by simp
  moreover have "decode_generic_frame frame = Inr (StreamBytes, payload)"
    using generic_codec.dec_enc [of "(StreamBytes, payload)"] f by simp
  ultimately have "decode_frame frame = Some (oid, i, seq + of_nat n, c)"
    by (simp add: decode_frame_def)
  with Cons.IH [OF r] fr show ?case by (simp add: ac_simps)
qed simp

fun feed :: "string option \<Rightarrow> string \<Rightarrow> byte list list \<Rightarrow> stream_state \<Rightarrow> stream_state" where
  "feed local_id peer_id [] s = s"
| "feed local_id peer_id (f # fs) s =
     (case decode_generic_frame f of
        Inl _ \<Rightarrow> s
      | Inr (kind, payload) \<Rightarrow>
          feed local_id peer_id fs
            (snd (handle_inbound_stream_frame local_id peer_id No_Path kind payload s)))"

definition accepting :: "stream_key \<Rightarrow> u64 \<Rightarrow> nat \<Rightarrow> stream_state \<Rightarrow> bool" where
  "accepting k seq room s \<longleftrightarrow>
     (\<exists>e. hm_get (streams s) k = Some e \<and> \<not> recv_closed e \<and> \<not> send_closed e
        \<and> next_recv_seq e = seq \<and> recv_bytes e + room \<le> MAX_PER_STREAM_BUFFER_CAPACITY)"

lemma feed_carries:
  assumes "opener = (if oid = me then Local else Remote)" "oid = me \<or> oid = peer"
  shows "carries oid i seq cs fs \<Longrightarrow> accepting (opener, i) seq (sum_list (map length cs)) s \<Longrightarrow>
    buffered (opener, i) (feed (Some me) peer fs s) = buffered (opener, i) s @ concat cs
    \<and> expected_seq (opener, i) (feed (Some me) peer fs s) = seq + of_nat (length cs)"
proof (induction cs fs arbitrary: seq s rule: list_induct2')
  case 1
  then show ?case by (auto simp: accepting_def expected_seq_def)
next
  case (4 c cs f fs)
  then obtain payload where f: "decode_generic_frame f = Inr (StreamBytes, payload)"
      "decode_stream_bytes_frame payload = Inr (oid, i, seq, c)"
    by (auto simp: decode_frame_def split: sum.splits generic_frame_kind.splits prod.splits)
  obtain e where e: "hm_get (streams s) (opener, i) = Some e" "\<not> recv_closed e" "\<not> send_closed e"
      "next_recv_seq e = seq"
      "recv_bytes e + (length c + sum_list (map length cs)) \<le> MAX_PER_STREAM_BUFFER_CAPACITY"
    using 4(3) by (auto simp: accepting_def)
  let ?s = "snd (handle_inbound_stream_frame (Some me) peer No_Path StreamBytes payload s)"
  have s': "?s = put_entry (opener, i) (wake (e\<lparr>next_recv_seq := seq + 1,
        recv_bytes := recv_bytes e + length c, recv_chunks := recv_chunks e @ [c]\<rparr>)) s"
    using f e assms by (auto simp: handle_inbound_stream_frame_def inbound_stream_opener_def
        handle_bytes_def)
  then have "accepting (opener, i) (seq + 1) (sum_list (map length cs)) ?s"
      and "buffered (opener, i) ?s = buffered (opener, i) s @ c"
    using e by (simp_all add: accepting_def buffered_def streams_put_entry wake_def)
  then show ?case using 4(1) [of "seq + 1" ?s] 4(2) f by (simp add: ac_simps)
qed simp_all

lemma path_loss_closes:
  assumes "stream_inv s" "hm_get (streams s) (opener, i) = Some e"
  shows "(opener, i) \<in> retired (close_stream_after_path_loss opener i s)
    \<and> hm_get (streams (close_stream_after_path_loss opener i s)) (opener, i) = None"
proof -
  have ret: "(opener, i) \<in> retired (retire_key (opener, i) s')
      \<and> hm_get (streams (retire_key (opener, i) s')) (opener, i) = None"
    if "(opener, i) \<notin> retired s'" for s'
    using retired_has_room [OF that] by (simp add: retire_key_def)
  have free: "(opener, i) \<notin> retired s" "\<not> (recv_closed e \<and> send_closed e)"
    using assms entry_ok_get [OF assms] unfolding stream_inv_def entry_ok_def by blast+
  let ?s = "handle_close opener i s"
  have inv: "stream_inv ?s" using assms(1) by (rule stream_inv_handle_close)
  show ?thesis
  proof (cases "send_closed e")
    case True
    then have "?s = retire_key (opener, i) s"
      using assms free by (simp add: handle_close_eq)
    with ret [OF free(1)] show ?thesis
      by (simp add: close_stream_after_path_loss_def close_local_def)
  next
    case False
    then obtain e' where "hm_get (streams ?s) (opener, i) = Some e'" "recv_closed e'"
        "\<not> send_closed e'" "retired ?s = retired s"
      using assms by (cases "recv_closed e") (auto simp: handle_close_eq streams_put_entry wake_def)
    then show ?thesis
      using ret [of ?s] free inv by (simp add: close_stream_after_path_loss_def close_local_eq)
  qed
qed

lemma take_lease_get:
  assumes "hm_get (streams s) (opener, i) = Some e" "\<not> send_closed e" "path_lease e = Some lease"
  shows "take_lease opener i s = (Inr lease, put_entry (opener, i) (e\<lparr>path_lease := None\<rparr>) s)"
  using assms by (simp add: take_lease_def)

lemma first_chunk_too_large:
  assumes "data \<noteq> []" "oid \<noteq> []" "length oid \<le> 128" "49124 < length data + length oid"
  shows "send_chunks ok oid i seq 0 (chunks MAX_STREAM_FRAME_BYTES data)
    = (Inl (SendFailed ''generic route frame is too large''), [])"
proof -
  let ?c = "take MAX_STREAM_FRAME_BYTES data"
  have "chunks MAX_STREAM_FRAME_BYTES data =
      ?c # chunks MAX_STREAM_FRAME_BYTES (drop MAX_STREAM_FRAME_BYTES data)"
    using assms(1) by (subst chunks.simps) (simp add: MAX_STREAM_FRAME_BYTES_def)
  moreover obtain payload where "encode_stream_bytes_frame oid i (seq + of_nat 0) ?c = Inr payload"
      "49139 < length payload"
    using assms by (auto simp: encode_stream_bytes_frame_def append_stream_opener_def stream_consts)
  ultimately show ?thesis
    by (simp add: encode_generic_frame_def stream_consts)
qed

section \<open>Properties\<close>

text \<open>
  C29. The manager stays within its limits in every interleaving: at most 32 streams, every
  receive buffer holds at most 256 KiB and its counter is the number of buffered bytes, no
  entry is left that is closed on both sides, and no open stream has a retired key.
\<close>

theorem stream_manager_bounded:
  assumes "s = fold stream_step ops stream_state_new" and "hm_get (streams s) k = Some e"
  shows "length (streams s) \<le> 32 \<and> recv_bytes e = length (concat (recv_chunks e))
    \<and> recv_bytes e \<le> 262144 \<and> \<not> (recv_closed e \<and> send_closed e) \<and> k \<notin> retired s"
proof -
  have inv: "stream_inv s" unfolding assms(1) by (rule sm.run_inv [OF stream_inv_new])
  then have "length (streams s) \<le> 32" "k \<notin> retired s"
    using assms(2) unfolding stream_inv_def MAX_CONCURRENT_STREAMS_def by blast+
  then show ?thesis
    using entry_ok_get [OF inv assms(2)]
    by (simp add: entry_ok_def sum_length_concat MAX_PER_STREAM_BUFFER_CAPACITY_def
        del: length_concat)
qed

lemmas stream_eval =
  stream_state_new_def stream_open_def bind_lease_def handle_bytes_def handle_close_def
  close_local_def put_entry_def retire_key_def wake_def hm_insert_def hm_modify_def hm_remove_def
  MAX_SERVICE_BYTES_def MAX_CONCURRENT_STREAMS_def MAX_RETIRED_STREAM_KEYS_def
  MAX_PER_STREAM_BUFFER_CAPACITY_def is_open_def

definition demo_ops :: "stream_op list" where
  "demo_ops = [Op_Open Local 1 ''ssh'' Bridge, Op_Bind Local 1 7]"

lemma demo_entry:
  "hm_get (streams (fold stream_step demo_ops stream_state_new)) (Local, 1) =
     Some \<lparr>consumer = Bridge, recv_chunks = [], recv_bytes = 0, recv_closed = False,
       next_recv_seq = 0, wake_gen = 0, quic_send = None, next_send_seq = 0,
       send_closed = False, path_lease = Some 7\<rparr>"
  by (simp add: demo_ops_def stream_eval)

theorem stream_manager_bounded_witness:
  "\<exists>e. hm_get (streams (fold stream_step demo_ops stream_state_new)) (Local, 1) = Some e
     \<and> recv_bytes e \<le> 262144 \<and> (Local, 1) \<notin> retired (fold stream_step demo_ops stream_state_new)"
  using stream_manager_bounded [OF refl demo_entry] demo_entry by blast

text \<open>
  C28. Stream identities are never reused: a key that was open and no longer is, in any
  interleaving, can never be opened again.
\<close>

theorem retired_identity_never_reused:
  assumes "s1 = fold stream_step ops1 stream_state_new" "is_open opener i s1"
    and "s2 = fold stream_step ops2 s1" "\<not> is_open opener i s2"
    and "s3 = fold stream_step ops3 s2"
  shows "\<not> is_open opener i s3 \<and> fst (stream_open opener i service cons s3) \<noteq> Inr ()"
proof -
  have inv: "stream_inv s1" "stream_inv s2" "stream_inv s3"
    unfolding assms(1,3,5) by (intro sm.run_inv stream_inv_new)+
  have "(opener, i) \<in> retired s2"
    using keeps_run [OF inv(1), of ops2] assms(2-4) unfolding keeps_def is_open_def by blast
  then have r: "(opener, i) \<in> retired s3"
    unfolding assms(5) by (rule tomb.run_final [OF inv(2)])
  then have "hm_get (streams s3) (opener, i) = None"
    using inv(3) unfolding stream_inv_def by (meson not_Some_eq)
  with r show ?thesis by (simp add: is_open_def stream_open_def Let_def)
qed

theorem retired_identity_never_reused_witness:
  "\<not> is_open Local 1 (fold stream_step [Op_Open Local 1 ''ssh'' Bridge]
       (fold stream_step [Op_Close_Local Local 1, Op_Handle_Close Local 1]
         (fold stream_step demo_ops stream_state_new)))
   \<and> fst (stream_open Local 1 ''ssh'' Bridge (fold stream_step [Op_Open Local 1 ''ssh'' Bridge]
       (fold stream_step [Op_Close_Local Local 1, Op_Handle_Close Local 1]
         (fold stream_step demo_ops stream_state_new)))) \<noteq> Inr ()"
  by (rule retired_identity_never_reused [OF refl _ refl _ refl])
    (simp_all add: demo_ops_def stream_eval)

text \<open>
  C14. A stream delivers its bytes once and in order: for every key and every interleaving
  of all operations on the manager, the accepted frames are numbered 0, 1, 2, ... without
  gap or repetition, and the bytes handed out (through \<^verbatim>\<open>receive\<close> or as events) are a
  prefix of the accepted bytes.
\<close>

theorem stream_bytes_in_order:
  "let (as, ds) = stream_io k ops stream_state_new in
     (\<exists>rest. ds @ rest = concat (map snd as)) \<and> map fst as = map of_nat [0..<length as]"
proof -
  obtain as ds where "stream_io k ops stream_state_new = (as, ds)" by force
  with stream_io_run [OF stream_inv_new this] show ?thesis
    by (simp add: buffered_def expected_seq_def stream_state_new_def)
qed


definition demo_carrier :: carrier where
  "demo_carrier = \<lparr>is_quic = (\<lambda>_. False), active_before = True, active_after = True,
     quic_write_ok = True, frame_write_ok = (\<lambda>_. True)\<rparr>"




end
