(* ===== verification/Delivery_Ordered.thy ===== *)
theory Delivery_Ordered
  imports Containers
begin

text \<open>
  The vocabulary of the delivery layer (\<open>delivery/mod.rs\<close>) and the ordered receive channel
  (\<open>delivery/ordered.rs\<close>): a channel keeps the next sequence number it will release, the
  message the application is working on, and a bounded buffer of messages that arrived too
  early.  The lemmas show that the buffer is bounded and exactly accounted, and that the
  messages a channel releases carry consecutive sequence numbers from zero.
\<close>

section \<open>Messages, policies and limits\<close>

type_synonym message_id = "byte list"

definition MAX_SCOPE_ID_BYTES :: nat where "MAX_SCOPE_ID_BYTES = 128"
definition MAX_TERMINAL_OUTCOMES :: nat where "MAX_TERMINAL_OUTCOMES = 4096"
definition MAX_ACTIVE_INCOMING_RECORDS :: nat where "MAX_ACTIVE_INCOMING_RECORDS = 4096"

definition is_valid_scope_id :: "string \<Rightarrow> bool" where
  "is_valid_scope_id value = (value \<noteq> [] \<and> length value \<le> MAX_SCOPE_ID_BYTES)"

definition is_valid_peer_id :: "string \<Rightarrow> bool" where
  "is_valid_peer_id peer_id = is_valid_scope_id peer_id"

datatype delivery_policy =
  BestEffort | LatestState | Acked | AckedDeduplicated | SessionBoundOrdered | ResumableTransfer

datatype delivery_error =
  InvalidScope | PayloadTooLarge | InvalidRetryPolicy | QueueFull | NotPending | MessageExpired
  | RetryExhausted

record delivery_config =
  max_pending_messages :: nat
  max_pending_bytes :: nat
  max_payload_bytes :: nat
  dedup_max_entries :: nat
  dedup_ttl :: duration
  application_ack_timeout :: duration
  max_reorder_messages :: nat
  max_reorder_bytes :: nat
  max_sequence_gap :: u64

definition default_delivery_config :: delivery_config where
  "default_delivery_config =
     \<lparr>max_pending_messages = 1024, max_pending_bytes = 16 * 1024 * 1024,
      max_payload_bytes = 1024 * 1024, dedup_max_entries = 4096,
      dedup_ttl = 10 * 60 * 1000000000, application_ack_timeout = 5 * 60 * 1000000000,
      max_reorder_messages = 64, max_reorder_bytes = 4 * 1024 * 1024, max_sequence_gap = 1024\<rparr>"

record ordered_message =
  om_peer :: string
  om_session :: string
  om_channel :: string
  om_message_id :: message_id
  om_sequence :: u64
  om_policy :: delivery_policy
  om_payload :: "byte list"

datatype ordered_insert_result = Ready | Buffered | Duplicate | Rejected

section \<open>The ordered channel\<close>

record ordered_channel =
  expected_sequence :: u64
  in_flight :: "message_id option"
  reorder_buffer :: "(u64, ordered_message) hmap"
  reorder_bytes :: nat

definition ordered_channel_default :: ordered_channel where
  "ordered_channel_default =
     \<lparr>expected_sequence = 0, in_flight = None, reorder_buffer = [], reorder_bytes = 0\<rparr>"

definition ordered_insert ::
  "delivery_config \<Rightarrow> ordered_message \<Rightarrow> ordered_channel \<Rightarrow> ordered_insert_result \<times> ordered_channel"
where
  "ordered_insert cfg message ch =
     (if om_sequence message < expected_sequence ch then (Duplicate, ch)
      else if om_sequence message = expected_sequence ch then
        (case in_flight ch of
           Some i \<Rightarrow> if i = om_message_id message then (Duplicate, ch) else (Rejected, ch)
         | None \<Rightarrow> (Ready, ch\<lparr>in_flight := Some (om_message_id message)\<rparr>))
      else if saturating_sub (om_sequence message) (expected_sequence ch) > max_sequence_gap cfg
          \<or> length (reorder_buffer ch) \<ge> max_reorder_messages cfg
          \<or> reorder_bytes ch + length (om_payload message) > max_reorder_bytes cfg
        then (Rejected, ch)
      else (case hm_get (reorder_buffer ch) (om_sequence message) of
          Some existing \<Rightarrow>
            if om_message_id existing = om_message_id message then (Duplicate, ch) else (Rejected, ch)
        | None \<Rightarrow>
            (Buffered,
             ch\<lparr>reorder_bytes := reorder_bytes ch + length (om_payload message),
                reorder_buffer := hm_insert (om_sequence message) message (reorder_buffer ch)\<rparr>)))"

definition ordered_acknowledge ::
  "message_id \<Rightarrow> ordered_channel \<Rightarrow> ordered_message option \<times> ordered_channel" where
  "ordered_acknowledge message_id ch =
     (if in_flight ch \<noteq> Some message_id then (None, ch)
      else
        let expected = saturating_add (expected_sequence ch) 1;
            ch = ch\<lparr>in_flight := None, expected_sequence := expected\<rparr>
        in case hm_get (reorder_buffer ch) expected of
             None \<Rightarrow> (None, ch)
           | Some next \<Rightarrow>
               (Some next,
                ch\<lparr>reorder_buffer := hm_remove expected (reorder_buffer ch),
                   reorder_bytes := reorder_bytes ch - length (om_payload next),
                   in_flight := Some (om_message_id next)\<rparr>))"

section \<open>The buffer is bounded and accounted\<close>

definition payload_len :: "ordered_message \<Rightarrow> nat" where
  "payload_len m = length (om_payload m)"

definition channel_inv :: "delivery_config \<Rightarrow> ordered_channel \<Rightarrow> bool" where
  "channel_inv cfg ch \<longleftrightarrow>
     hm_wf (reorder_buffer ch)
     \<and> (\<forall>q m. hm_get (reorder_buffer ch) q = Some m \<longrightarrow>
          om_sequence m = q \<and> expected_sequence ch < q
          \<and> unat q - unat (expected_sequence ch) \<le> unat (max_sequence_gap cfg))
     \<and> length (reorder_buffer ch) \<le> max_reorder_messages cfg
     \<and> reorder_bytes ch = hm_sum payload_len (reorder_buffer ch)
     \<and> reorder_bytes ch \<le> max_reorder_bytes cfg"

lemma channel_inv_default: "channel_inv cfg ordered_channel_default"
  by (simp add: channel_inv_def ordered_channel_default_def)

lemma channel_inv_cleared:
  "channel_inv cfg (ch\<lparr>in_flight := None, reorder_buffer := [], reorder_bytes := 0\<rparr>)"
  by (simp add: channel_inv_def)

text \<open>The outcomes of an insertion, each with what it says of the channel before and after.\<close>

lemma ordered_insert_cases:
  obtains (ready) "ordered_insert cfg m ch = (Ready, ch\<lparr>in_flight := Some (om_message_id m)\<rparr>)"
      "om_sequence m = expected_sequence ch" "in_flight ch = None"
  | (buffered) "ordered_insert cfg m ch =
        (Buffered, ch\<lparr>reorder_bytes := reorder_bytes ch + length (om_payload m),
           reorder_buffer := hm_insert (om_sequence m) m (reorder_buffer ch)\<rparr>)"
      "expected_sequence ch < om_sequence m"
      "saturating_sub (om_sequence m) (expected_sequence ch) \<le> max_sequence_gap cfg"
      "length (reorder_buffer ch) < max_reorder_messages cfg"
      "reorder_bytes ch + length (om_payload m) \<le> max_reorder_bytes cfg"
      "hm_get (reorder_buffer ch) (om_sequence m) = None"
  | (unchanged) r where "ordered_insert cfg m ch = (r, ch)" "r = Duplicate \<or> r = Rejected"
proof (cases "om_sequence m < expected_sequence ch")
  case True
  then show ?thesis using unchanged by (simp add: ordered_insert_def)
next
  case late: False
  show ?thesis
  proof (cases "om_sequence m = expected_sequence ch")
    case True
    then show ?thesis using ready
        unchanged [of "if in_flight ch = Some (om_message_id m) then Duplicate else Rejected"]
      by (cases "in_flight ch") (simp_all add: ordered_insert_def)
  next
    case False
    let ?full = "saturating_sub (om_sequence m) (expected_sequence ch) > max_sequence_gap cfg
          \<or> length (reorder_buffer ch) \<ge> max_reorder_messages cfg
          \<or> reorder_bytes ch + length (om_payload m) > max_reorder_bytes cfg"
    let ?old = "hm_get (reorder_buffer ch) (om_sequence m)"
    show ?thesis
    proof (cases "?full \<or> ?old \<noteq> None")
      case True
      have "ordered_insert cfg m ch =
          (if \<not> ?full \<and> map_option om_message_id ?old = Some (om_message_id m)
           then Duplicate else Rejected, ch)"
        using True False late by (cases ?old) (simp_all add: ordered_insert_def)
      then show ?thesis by (rule unchanged) simp
    next
      case room: False
      have "ordered_insert cfg m ch =
        (Buffered, ch\<lparr>reorder_bytes := reorder_bytes ch + length (om_payload m),
           reorder_buffer := hm_insert (om_sequence m) m (reorder_buffer ch)\<rparr>)"
        using room False late by (simp add: ordered_insert_def)
      then show ?thesis by (rule buffered) (use room False late in \<open>auto simp: not_less\<close>)
    qed
  qed
qed

lemma saturating_sub_le_iff:
  "expected < q \<Longrightarrow> saturating_sub q expected \<le> g \<longleftrightarrow> unat q - unat expected \<le> unat (g :: u64)"
  by (simp add: saturating_sub_def word_le_nat_alt word_less_nat_alt unat_sub)

lemma ordered_insert_inv:
  assumes "channel_inv cfg ch"
  shows "channel_inv cfg (snd (ordered_insert cfg m ch))"
proof (cases rule: ordered_insert_cases [of cfg m ch])
  case buffered
  then show ?thesis
    using assms by (auto simp: channel_inv_def length_hm_insert hm_sum_insert_new payload_len_def
        saturating_sub_le_iff)
qed (use assms in \<open>simp_all add: channel_inv_def\<close>)

lemma saturating_succ:
  "saturating_add e 1 = (if e = - 1 then - 1 else e + (1 :: u64))"
  "e \<noteq> - 1 \<Longrightarrow> unat (e + (1 :: u64)) = Suc (unat e)"
proof -
  show s: "unat (e + (1 :: u64)) = Suc (unat e)" if "e \<noteq> - 1" for e
    using that unatSuc [of e] by (metis add.commute add_eq_0_iff)
  show "saturating_add e 1 = (if e = - 1 then - 1 else e + (1 :: u64))"
    using s [of e] unat_bound [of "e + 1"]
    by (auto simp: saturating_add_def checked_add_def unat_max_word)
qed

lemma saturating_succ_buffered:
  "e < q \<Longrightarrow> unat (saturating_add e 1) = Suc (unat (e :: u64))"
  "e < q \<Longrightarrow> q \<noteq> saturating_add e 1 \<Longrightarrow> saturating_add e 1 < (q :: u64)"
proof -
  show *: "unat (saturating_add e 1) = Suc (unat e)" if "e < q" for q
    using saturating_succ [of e] order.strict_trans2 [OF that word_order.extremum] by simp
  show "saturating_add e 1 < q" if "e < q" "q \<noteq> saturating_add e 1"
    using that * [of q] by (simp add: word_less_nat_alt word_unat_eq_iff)
qed

lemma ordered_acknowledge_cases:
  obtains (other) "ordered_acknowledge i ch = (None, ch)" "in_flight ch \<noteq> Some i"
  | (last) "ordered_acknowledge i ch =
        (None, ch\<lparr>in_flight := None, expected_sequence := saturating_add (expected_sequence ch) 1\<rparr>)"
      "in_flight ch = Some i"
      "hm_get (reorder_buffer ch) (saturating_add (expected_sequence ch) 1) = None"
  | (promoted) m where "ordered_acknowledge i ch =
        (Some m, ch\<lparr>in_flight := Some (om_message_id m),
           expected_sequence := saturating_add (expected_sequence ch) 1,
           reorder_buffer :=
             hm_remove (saturating_add (expected_sequence ch) 1) (reorder_buffer ch),
           reorder_bytes := reorder_bytes ch - length (om_payload m)\<rparr>)"
      "in_flight ch = Some i"
      "hm_get (reorder_buffer ch) (saturating_add (expected_sequence ch) 1) = Some m"
proof (cases "in_flight ch = Some i")
  case False
  then show ?thesis using other by (simp add: ordered_acknowledge_def)
next
  case True
  then show ?thesis using last promoted
    by (cases "hm_get (reorder_buffer ch) (saturating_add (expected_sequence ch) 1)")
       (simp_all add: ordered_acknowledge_def Let_def)
qed

lemma ordered_acknowledge_inv:
  assumes inv: "channel_inv cfg ch"
  shows "channel_inv cfg (snd (ordered_acknowledge i ch))"
proof -
  let ?e = "saturating_add (expected_sequence ch) 1"
  have above: "?e < q \<and> unat q - unat ?e \<le> unat (max_sequence_gap cfg)"
    if "hm_get (reorder_buffer ch) q = Some m" "q \<noteq> ?e" for q m
    using inv that saturating_succ_buffered [of "expected_sequence ch" q]
    by (fastforce simp: channel_inv_def)
  show ?thesis
  proof (cases rule: ordered_acknowledge_cases [of i ch])
    case last
    then have "hm_get (reorder_buffer ch) q = Some m \<Longrightarrow> q \<noteq> ?e" for q m by auto
    with last above inv show ?thesis by (auto simp: channel_inv_def)
  next
    case (promoted m)
    have "hm_sum payload_len (reorder_buffer ch) =
        hm_sum payload_len (hm_remove ?e (reorder_buffer ch)) + length (om_payload m)"
      using inv promoted(3) by (simp add: channel_inv_def hm_sum_remove payload_len_def)
    with promoted above inv show ?thesis
      by (auto simp: channel_inv_def length_hm_remove split: if_splits)
  qed (use inv in simp)
qed

section \<open>Messages are released in order\<close>

text \<open>
  The number of the \<open>i\<close>-th message of a channel; the counter saturates at the largest 64-bit
  value.  A channel that released \<open>out\<close> has handed out the numbers of the first
  \<open>length out\<close> messages, and expects the number of the last one while the application works on
  it, and the next one afterwards.
\<close>

definition seqno :: "nat \<Rightarrow> u64" where
  "seqno i = of_nat (min i (2 ^ 64 - 1))"

lemma unat_seqno: "unat (seqno i) = min i (2 ^ 64 - 1)"
  by (simp add: seqno_def unat_of_nat)

lemma seqno_0 [simp]: "seqno 0 = 0"
  by (simp add: seqno_def)

lemma seqno_Suc: "saturating_add (seqno i) 1 = seqno (Suc i)"
  by (simp add: word_unat_eq_iff unat_saturating_add unat_seqno)

definition released_ok :: "ordered_channel \<Rightarrow> ordered_message list \<Rightarrow> bool" where
  "released_ok ch out \<longleftrightarrow>
     map om_sequence out = map seqno [0..<length out]
     \<and> (case in_flight ch of
           None \<Rightarrow> expected_sequence ch = seqno (length out)
         | Some i \<Rightarrow> out \<noteq> [] \<and> expected_sequence ch = seqno (length out - 1)
                      \<and> om_message_id (last out) = i)"

lemma released_default: "released_ok ordered_channel_default []"
  by (simp add: released_ok_def ordered_channel_default_def)

definition insert_released :: "ordered_insert_result \<Rightarrow> ordered_message \<Rightarrow> ordered_message list" where
  "insert_released r m = (if r = Ready then [m] else [])"

lemma released_insert:
  assumes "released_ok ch out" "ordered_insert cfg m ch = (r, ch')"
  shows "released_ok ch' (out @ insert_released r m)"
  by (cases rule: ordered_insert_cases [of cfg m ch])
     (use assms in \<open>auto simp: released_ok_def insert_released_def split: option.splits\<close>)

lemma released_acknowledge:
  assumes inv: "channel_inv cfg ch" and ok: "released_ok ch out"
    and ack: "ordered_acknowledge i ch = (r, ch')"
  shows "released_ok ch' (out @ (case r of Some m \<Rightarrow> [m] | None \<Rightarrow> []))"
proof -
  have succ: "saturating_add (expected_sequence ch) 1 = seqno (length out)"
    if "in_flight ch = Some i"
    using ok that by (auto simp: released_ok_def seqno_Suc neq_Nil_conv)
  show ?thesis
  proof (cases rule: ordered_acknowledge_cases [of i ch])
    case (promoted m)
    then have "om_sequence m = seqno (length out)"
      using inv succ by (auto simp: channel_inv_def)
    with promoted ok ack succ show ?thesis by (auto simp: released_ok_def)
  qed (use ok ack succ in \<open>auto simp: released_ok_def\<close>)
qed

end
