(* ===== verification/Delivery_Store.thy ===== *)
theory Delivery_Store
  imports Delivery_Ordered
begin

text \<open>
  The state of the delivery manager (\<open>delivery/store.rs\<close>, the data of \<open>delivery/mod.rs\<close>)
  behind its one lock: the pending messages of the sender, the terminal outcomes, the
  sequence counters, and on the receiving side the messages awaiting an application
  acknowledgement, the history of processed messages and the ordered channels.  The
  runtime assertion \<open>assert_delivery_invariants\<close> is translated as it stands.
\<close>

section \<open>Sender data\<close>

datatype delivery_state = Queued | Sending | SentUnacked | StAcked | StExpired | StCancelled | StFailed

record retry_policy =
  max_attempts :: u32
  initial_backoff :: duration
  max_backoff :: duration
  ttl :: "duration option"
  max_total_retry_bytes :: "u64 option"

definition default_retry_policy :: retry_policy where
  "default_retry_policy =
     \<lparr>max_attempts = 5, initial_backoff = 250 * 1000000, max_backoff = 5 * 1000000000,
      ttl = Some (10 * 60 * 1000000000), max_total_retry_bytes = Some (64 * 1024 * 1024)\<rparr>"

record pending_message =
  pm_message_id :: message_id
  pm_peer :: string
  pm_channel :: string
  pm_sequence :: u64
  pm_payload :: "byte list"
  pm_policy :: delivery_policy
  pm_state :: delivery_state
  pm_attempts :: u32
  pm_created_at :: instant
  pm_expires_at :: "instant option"
  pm_recovery_epoch :: u64
  pm_retry_policy :: retry_policy
  pm_next_retry_at :: instant
  pm_retry_bytes :: u64

datatype delivery_identity =
  DeliveryIdentity (di_peer: string) (di_message_id: message_id)

datatype delivery_terminal_outcome = OutAcknowledged | OutExpired | OutCancelled | OutFailed

section \<open>Receiver data\<close>

datatype dedup_key = DedupKey (dk_peer: string) (dk_channel: string) (dk_message_id: message_id)

type_synonym channel_scope = "string \<times> string"

definition scope_of :: "dedup_key \<Rightarrow> channel_scope" where
  "scope_of key = (dk_peer key, dk_channel key)"

lemma scope_of_DedupKey [simp]: "scope_of (DedupKey p c i) = (p, c)"
  by (simp add: scope_of_def)

datatype active_incoming_state = InFlight | OrderedBuffered

record active_record =
  ack_deadline :: "instant option"
  ar_epoch :: u64
  ar_state :: active_incoming_state

record processed_record =
  pr_expires_at :: instant
  pr_last_seen_at :: instant
  pr_epoch :: u64

record delivery_store =
  pending :: "(delivery_identity, pending_message) hmap"
  pending_bytes :: nat
  terminal_outcomes :: "(delivery_identity, delivery_terminal_outcome) hmap"
  next_sequences :: "(channel_scope, u64) hmap"
  recovery_epochs :: "(string, u64) hmap"
  incoming_active :: "(dedup_key, active_record) hmap"
  processed_dedup :: "(dedup_key, processed_record) hmap"
  ordered :: "(channel_scope, ordered_channel) hmap"
  failed_ordered :: "channel_scope set"

definition delivery_store_new :: delivery_store where
  "delivery_store_new =
     \<lparr>pending = [], pending_bytes = 0, terminal_outcomes = [], next_sequences = [],
      recovery_epochs = [], incoming_active = [], processed_dedup = [], ordered = [],
      failed_ordered = {}\<rparr>"

definition assert_active_record :: "delivery_store \<Rightarrow> dedup_key \<Rightarrow> active_record \<Rightarrow> bool" where
  "assert_active_record store key r \<longleftrightarrow>
     hm_get (processed_dedup store) key = None \<and>
     (case ar_state r of
        InFlight \<Rightarrow> ack_deadline r \<noteq> None
      | OrderedBuffered \<Rightarrow>
          ack_deadline r = None \<and>
          (case hm_get (ordered store) (scope_of key) of
             None \<Rightarrow> False
           | Some ch \<Rightarrow>
               list_ex (\<lambda>(q, m). om_message_id m = dk_message_id key) (reorder_buffer ch)))"

definition assert_ordered_channel :: "delivery_store \<Rightarrow> channel_scope \<Rightarrow> ordered_channel \<Rightarrow> bool" where
  "assert_ordered_channel store scope ch \<longleftrightarrow>
     (case in_flight ch of
        None \<Rightarrow> True
      | Some i \<Rightarrow>
          (case hm_get (incoming_active store) (DedupKey (fst scope) (snd scope) i) of
             None \<Rightarrow> False
           | Some r \<Rightarrow> ar_state r = InFlight)) \<and>
     list_all (\<lambda>(q, m).
        case hm_get (incoming_active store)
               (DedupKey (om_peer m) (om_channel m) (om_message_id m)) of
          None \<Rightarrow> False
        | Some r \<Rightarrow> ar_state r = OrderedBuffered) (reorder_buffer ch)"

definition assert_delivery_invariants :: "delivery_store \<Rightarrow> bool" where
  "assert_delivery_invariants store \<longleftrightarrow>
     list_all (\<lambda>(key, r). assert_active_record store key r) (incoming_active store) \<and>
     list_all (\<lambda>(scope, ch). assert_ordered_channel store scope ch) (ordered store)"

end
