(* ===== verification/Delivery_Incoming.thy ===== *)
theory Delivery_Incoming
  imports Delivery_Store
begin

text \<open>
  The receiving half of the delivery manager (\<open>delivery/incoming.rs\<close> and the receive
  operations of \<open>delivery/recovery.rs\<close>): duplicate detection before the application handler
  runs, ordered channels, completion, abandonment, time-outs and the explicit close of a
  peer.  Every operation is one critical section of the store lock.  Where the order of a
  hash map decides (ties among the oldest history entries), \<open>pick\<close> stands for it.
\<close>

section \<open>Operations\<close>

datatype dedup_decision = New | DuplicateInFlight | DuplicateProcessed | CapacityReached | ChannelFailed

record incoming_completion =
  ic_epoch :: u64
  ic_next :: "ordered_message option"

record incoming_timeout =
  it_peer :: string
  it_channel :: string
  it_message_id :: message_id
  it_ordered_failed :: bool

definition timeout_of :: "bool \<Rightarrow> dedup_key \<Rightarrow> incoming_timeout" where
  "timeout_of failed key =
     \<lparr>it_peer = dk_peer key, it_channel = dk_channel key, it_message_id = dk_message_id key,
      it_ordered_failed = failed\<rparr>"

definition fail_ordered_channel ::
  "channel_scope \<Rightarrow> delivery_store \<Rightarrow> dedup_key list \<times> delivery_store" where
  "fail_ordered_channel scope store =
     (let channel_keys =
            (case hm_get (ordered store) scope of
               None \<Rightarrow> []
             | Some ch \<Rightarrow>
                 (case in_flight ch of
                    None \<Rightarrow> [] | Some i \<Rightarrow> [DedupKey (fst scope) (snd scope) i])
                 @ map (\<lambda>(q, m). DedupKey (om_peer m) (om_channel m) (om_message_id m))
                     (reorder_buffer ch));
          active_keys = filter (\<lambda>key. dk_peer key = fst scope \<and> dk_channel key = snd scope)
                          (map fst (incoming_active store));
          affected = remdups (channel_keys @ active_keys)
      in (affected,
          store\<lparr>ordered := hm_remove scope (ordered store),
                incoming_active :=
                  fold hm_remove affected (incoming_active store),
                failed_ordered := insert scope (failed_ordered store)\<rparr>))"

definition timed_out :: "string option \<Rightarrow> instant \<Rightarrow> dedup_key \<times> active_record \<Rightarrow> bool" where
  "timed_out peer_id now = (\<lambda>(key, r).
     (case peer_id of None \<Rightarrow> True | Some peer \<Rightarrow> dk_peer key = peer) \<and>
     (case ar_state r of
        InFlight \<Rightarrow> (case ack_deadline r of None \<Rightarrow> False | Some deadline \<Rightarrow> now \<ge> deadline)
      | OrderedBuffered \<Rightarrow> False))"

text \<open>One turn of the first loop of \<open>expire_incoming_locked\<close>: the store, the ordered scopes met and the timeouts so far.\<close>

definition expire_one ::
  "dedup_key \<times> active_record \<Rightarrow> delivery_store \<times> channel_scope list \<times> incoming_timeout list
   \<Rightarrow> delivery_store \<times> channel_scope list \<times> incoming_timeout list" where
  "expire_one = (\<lambda>(key, r) (store, scopes, expired).
     if ar_state r = OrderedBuffered
        \<or> (case hm_get (ordered store) (scope_of key) of
             None \<Rightarrow> False | Some ch \<Rightarrow> in_flight ch = Some (dk_message_id key))
     then (store, List.insert (scope_of key) scopes, expired)
     else if hm_contains (incoming_active store) key
     then (store\<lparr>incoming_active := hm_remove key (incoming_active store)\<rparr>, scopes,
           expired @ [timeout_of False key])
     else (store, scopes, expired))"

definition fail_one ::
  "channel_scope \<Rightarrow> delivery_store \<times> incoming_timeout list \<Rightarrow> delivery_store \<times> incoming_timeout list"
where
  "fail_one scope = (\<lambda>(store, expired).
     case fail_ordered_channel scope store of (affected, store) \<Rightarrow>
       (store, expired @ map (timeout_of True) affected))"

definition expire_incoming_locked ::
  "string option \<Rightarrow> instant \<Rightarrow> delivery_store \<Rightarrow> incoming_timeout list \<times> delivery_store" where
  "expire_incoming_locked peer_id now store =
     (case fold expire_one (filter (timed_out peer_id now) (incoming_active store)) (store, [], []) of
        (store, scopes, expired) \<Rightarrow>
          (case fold fail_one scopes (store, expired) of (store, expired) \<Rightarrow> (expired, store)))"

definition prune_processed_dedup :: "instant \<Rightarrow> delivery_store \<Rightarrow> delivery_store" where
  "prune_processed_dedup now store =
     store\<lparr>processed_dedup := hm_retain (\<lambda>_ r. pr_expires_at r > now) (processed_dedup store)\<rparr>"

definition begin_incoming ::
  "delivery_config \<Rightarrow> string \<Rightarrow> string \<Rightarrow> message_id \<Rightarrow> u64 \<Rightarrow> instant \<Rightarrow> delivery_store
   \<Rightarrow> dedup_decision \<times> delivery_store" where
  "begin_incoming cfg peer_id channel_id message_id recovery_epoch now store =
     (let store = prune_processed_dedup now (snd (expire_incoming_locked (Some peer_id) now store));
          key = DedupKey peer_id channel_id message_id
      in if (peer_id, channel_id) \<in> failed_ordered store then (ChannelFailed, store)
         else if hm_contains (incoming_active store) key then
           (DuplicateInFlight,
            store\<lparr>incoming_active :=
              hm_modify key (\<lambda>r. r\<lparr>ar_epoch := recovery_epoch\<rparr>) (incoming_active store)\<rparr>)
         else if hm_contains (processed_dedup store) key then
           (DuplicateProcessed,
            store\<lparr>processed_dedup :=
              hm_modify key (\<lambda>r. r\<lparr>pr_epoch := recovery_epoch, pr_last_seen_at := now,
                                    pr_expires_at := now + dedup_ttl cfg\<rparr>) (processed_dedup store)\<rparr>)
         else if length (incoming_active store) \<ge> MAX_ACTIVE_INCOMING_RECORDS then
           (CapacityReached, store)
         else
           (New,
            store\<lparr>incoming_active :=
              hm_insert key \<lparr>ack_deadline = Some (now + application_ack_timeout cfg),
                             ar_epoch = recovery_epoch, ar_state = InFlight\<rparr>
                (incoming_active store)\<rparr>))"

definition begin_incoming_checked ::
  "delivery_config \<Rightarrow> string \<Rightarrow> string \<Rightarrow> message_id \<Rightarrow> u64 \<Rightarrow> instant \<Rightarrow> delivery_store
   \<Rightarrow> (delivery_error + dedup_decision) \<times> delivery_store" where
  "begin_incoming_checked cfg peer_id channel_id message_id recovery_epoch now store =
     (if \<not> is_valid_peer_id peer_id \<or> \<not> is_valid_scope_id channel_id
      then (Inl InvalidScope, store)
      else apfst Inr
             (begin_incoming cfg peer_id channel_id message_id recovery_epoch now store))"

definition accept_ordered_at ::
  "delivery_config \<Rightarrow> ordered_message \<Rightarrow> instant \<Rightarrow> delivery_store
   \<Rightarrow> ordered_insert_result \<times> delivery_store" where
  "accept_ordered_at cfg message now store =
     (let scope = (om_peer message, om_channel message);
          active_key = DedupKey (om_peer message) (om_channel message) (om_message_id message)
      in if \<not> is_valid_peer_id (om_peer message) \<or> \<not> is_valid_scope_id (om_channel message)
         then (Rejected, store)
         else if scope \<in> failed_ordered store then (Rejected, store)
         else if \<not> hm_contains (incoming_active store) active_key then (Rejected, store)
         else
           let ch = (case hm_get (ordered store) scope of
                       None \<Rightarrow> ordered_channel_default | Some ch \<Rightarrow> ch);
               (result, ch) = ordered_insert cfg message ch;
               store = store\<lparr>ordered := hm_insert scope ch (ordered store)\<rparr>
           in (result,
               case result of
                 Ready \<Rightarrow>
                   store\<lparr>incoming_active := hm_modify active_key
                     (\<lambda>r. r\<lparr>ar_state := InFlight,
                            ack_deadline := Some (now + application_ack_timeout cfg)\<rparr>)
                     (incoming_active store)\<rparr>
               | Buffered \<Rightarrow>
                   store\<lparr>incoming_active := hm_modify active_key
                     (\<lambda>r. r\<lparr>ar_state := OrderedBuffered, ack_deadline := None\<rparr>)
                     (incoming_active store)\<rparr>
               | Duplicate \<Rightarrow> store
               | Rejected \<Rightarrow> store))"

text \<open>The history keeps at most \<open>dedup_max_entries\<close> records; the least recently seen one goes first.\<close>

definition oldest_processed ::
  "((dedup_key, processed_record) hmap \<Rightarrow> nat) \<Rightarrow> (dedup_key, processed_record) hmap \<Rightarrow> dedup_key"
where
  "oldest_processed pick m =
     (let t = Min (set (map (pr_last_seen_at \<circ> snd) m));
          ties = filter (\<lambda>(k, r). pr_last_seen_at r = t) m
      in fst (ties ! (pick ties mod length ties)))"

lemma oldest_processed_in:
  assumes "m \<noteq> []"
  shows "oldest_processed pick m \<in> fst ` set m"
proof -
  let ?t = "Min (set (map (pr_last_seen_at \<circ> snd) m))"
  let ?ties = "filter (\<lambda>(k, r). pr_last_seen_at r = ?t) m"
  have "?t \<in> set (map (pr_last_seen_at \<circ> snd) m)"
    using assms by (intro Min_in) auto
  then have "?ties \<noteq> []" by (force simp: filter_empty_conv)
  then have "?ties ! (pick ?ties mod length ?ties) \<in> set ?ties"
    by (intro nth_mem) simp
  then show ?thesis by (auto simp: oldest_processed_def Let_def)
qed

lemma length_hm_remove_less: "k \<in> fst ` set m \<Longrightarrow> length (hm_remove k m) < length m"
  by (induction m) (force simp: hm_remove_def less_Suc_eq_le length_delete_le)+

function evict_processed ::
  "((dedup_key, processed_record) hmap \<Rightarrow> nat) \<Rightarrow> nat \<Rightarrow> (dedup_key, processed_record) hmap
   \<Rightarrow> (dedup_key, processed_record) hmap" where
  "evict_processed pick max_entries m =
     (if m \<noteq> [] \<and> length m \<ge> max_entries
      then evict_processed pick max_entries (hm_remove (oldest_processed pick m) m)
      else m)"
  by pat_completeness auto

termination
  by (relation "measure (\<lambda>(_, _, m). length m)")
     (auto intro: length_hm_remove_less oldest_processed_in)

declare evict_processed.simps [simp del]

definition remember_processed ::
  "((dedup_key, processed_record) hmap \<Rightarrow> nat) \<Rightarrow> dedup_key \<Rightarrow> processed_record \<Rightarrow> nat
   \<Rightarrow> delivery_store \<Rightarrow> delivery_store" where
  "remember_processed pick key r max_entries store =
     (if max_entries = 0 then store
      else
        let live = hm_retain (\<lambda>_ existing. pr_expires_at existing > pr_last_seen_at r)
                     (processed_dedup store)
        in store\<lparr>processed_dedup := hm_insert key r (evict_processed pick max_entries live)\<rparr>)"

text \<open>
  The application acknowledges a message.  An ordered message may only be completed while it
  is the one in flight; its completion releases the next one if that has already arrived.
\<close>

definition completion_allowed :: "delivery_store \<Rightarrow> channel_scope \<Rightarrow> message_id \<Rightarrow> active_record \<Rightarrow> bool"
where
  "completion_allowed store scope message_id active =
     (case hm_get (ordered store) scope of
        Some ch \<Rightarrow>
          (case in_flight ch of
             Some current \<Rightarrow> current = message_id
           | None \<Rightarrow> ar_state active \<noteq> OrderedBuffered)
      | None \<Rightarrow> ar_state active \<noteq> OrderedBuffered)"

definition next_buffered_key :: "delivery_store \<Rightarrow> channel_scope \<Rightarrow> message_id \<Rightarrow> dedup_key option" where
  "next_buffered_key store scope message_id =
     (case hm_get (ordered store) scope of
        None \<Rightarrow> None
      | Some ch \<Rightarrow>
          if in_flight ch = Some message_id
          then map_option (\<lambda>m. DedupKey (om_peer m) (om_channel m) (om_message_id m))
                 (hm_get (reorder_buffer ch) (saturating_add (expected_sequence ch) 1))
          else None)"

definition complete_incoming_at ::
  "delivery_config \<Rightarrow> ((dedup_key, processed_record) hmap \<Rightarrow> nat) \<Rightarrow> string \<Rightarrow> string \<Rightarrow> message_id
   \<Rightarrow> instant \<Rightarrow> delivery_store \<Rightarrow> incoming_completion option \<times> delivery_store" where
  "complete_incoming_at cfg pick peer_id channel_id message_id now store =
     (let key = DedupKey peer_id channel_id message_id;
          scope = (peer_id, channel_id)
      in case hm_get (incoming_active store) key of
           None \<Rightarrow> (None, store)
         | Some active \<Rightarrow>
             if \<not> completion_allowed store scope message_id active then (None, store)
             else if (case next_buffered_key store scope message_id of
                        None \<Rightarrow> False
                      | Some next_key \<Rightarrow>
                          map_option ar_state (hm_get (incoming_active store) next_key)
                            \<noteq> Some OrderedBuffered)
             then (None, store)
             else
               let (next_ordered, store) =
                     (case hm_get (ordered store) scope of
                        None \<Rightarrow> (None, store)
                      | Some ch \<Rightarrow>
                          if in_flight ch = Some message_id
                          then let (next, ch) = ordered_acknowledge message_id ch
                               in (next, store\<lparr>ordered := hm_insert scope ch (ordered store)\<rparr>)
                          else (None, store));
                   store = store\<lparr>incoming_active := hm_remove key (incoming_active store)\<rparr>;
                   next_key =
                     map_option (\<lambda>m. DedupKey (om_peer m) (om_channel m) (om_message_id m)) next_ordered
               in if (case next_key of
                        None \<Rightarrow> False | Some k \<Rightarrow> \<not> hm_contains (incoming_active store) k)
                  then (None, store)
                  else
                    let store = (case next_key of
                          None \<Rightarrow> store
                        | Some k \<Rightarrow>
                            store\<lparr>incoming_active := hm_modify k
                              (\<lambda>r. r\<lparr>ar_state := InFlight,
                                     ack_deadline := Some (now + application_ack_timeout cfg)\<rparr>)
                              (incoming_active store)\<rparr>);
                        processed = \<lparr>pr_expires_at = now + dedup_ttl cfg, pr_last_seen_at = now,
                                     pr_epoch = ar_epoch active\<rparr>
                    in (Some \<lparr>ic_epoch = ar_epoch active, ic_next = next_ordered\<rparr>,
                        remember_processed pick key processed (dedup_max_entries cfg) store))"

definition complete_incoming_checked ::
  "delivery_config \<Rightarrow> ((dedup_key, processed_record) hmap \<Rightarrow> nat) \<Rightarrow> string \<Rightarrow> string \<Rightarrow> message_id
   \<Rightarrow> instant \<Rightarrow> delivery_store \<Rightarrow> (delivery_error + incoming_completion option) \<times> delivery_store" where
  "complete_incoming_checked cfg pick peer_id channel_id message_id now store =
     (if \<not> is_valid_peer_id peer_id \<or> \<not> is_valid_scope_id channel_id
      then (Inl InvalidScope, store)
      else apfst Inr (complete_incoming_at cfg pick peer_id channel_id message_id now store))"

definition incoming_recovery_epoch :: "string \<Rightarrow> string \<Rightarrow> message_id \<Rightarrow> delivery_store \<Rightarrow> u64 option" where
  "incoming_recovery_epoch peer_id channel_id message_id store =
     (let key = DedupKey peer_id channel_id message_id
      in case map_option ar_epoch (hm_get (incoming_active store) key) of
           Some e \<Rightarrow> Some e
         | None \<Rightarrow> map_option pr_epoch (hm_get (processed_dedup store) key))"

definition abandon_incoming ::
  "string \<Rightarrow> string \<Rightarrow> message_id \<Rightarrow> delivery_store \<Rightarrow> bool \<times> delivery_store" where
  "abandon_incoming peer_id channel_id message_id store =
     (let key = DedupKey peer_id channel_id message_id;
          scope = (peer_id, channel_id);
          in_channel = (case hm_get (ordered store) scope of
              None \<Rightarrow> False
            | Some ch \<Rightarrow> in_flight ch = Some message_id
                \<or> list_ex (\<lambda>(q, m). om_message_id m = message_id) (reorder_buffer ch))
      in if \<not> hm_contains (incoming_active store) key then (False, store)
         else if in_channel then (True, snd (fail_ordered_channel scope store))
         else (True, store\<lparr>incoming_active := hm_remove key (incoming_active store)\<rparr>))"

definition reject_incoming ::
  "string \<Rightarrow> string \<Rightarrow> message_id \<Rightarrow> delivery_store \<Rightarrow> bool \<times> delivery_store" where
  "reject_incoming peer_id channel_id message_id store =
     (let key = DedupKey peer_id channel_id message_id
      in (hm_contains (incoming_active store) key,
          store\<lparr>incoming_active := hm_remove key (incoming_active store)\<rparr>))"

definition expire_incoming ::
  "string \<Rightarrow> instant \<Rightarrow> delivery_store \<Rightarrow> incoming_timeout list \<times> delivery_store" where
  "expire_incoming peer_id now store = expire_incoming_locked (Some peer_id) now store"

definition close_peer :: "string \<Rightarrow> delivery_store \<Rightarrow> delivery_store" where
  "close_peer peer_id store =
     store\<lparr>incoming_active := hm_retain (\<lambda>key _. dk_peer key \<noteq> peer_id) (incoming_active store),
           processed_dedup := hm_retain (\<lambda>key _. dk_peer key \<noteq> peer_id) (processed_dedup store),
           ordered := hm_map (\<lambda>scope ch.
               if fst scope = peer_id
               then ch\<lparr>in_flight := None, reorder_buffer := [], reorder_bytes := 0\<rparr> else ch)
             (ordered store),
           failed_ordered := {scope \<in> failed_ordered store. fst scope \<noteq> peer_id}\<rparr>"

end
