(* ===== verification/Delivery_Receive_Inv.thy ===== *)
theory Delivery_Receive_Inv
  imports Delivery_Incoming
begin

text \<open>
  The invariant of the receiving half of the delivery store and its preservation by every
  operation.  The links between the active records, the history and the ordered channels
  are stated once over the lookups (\<open>store_linked\<close>); each operation is an update of those lookups.
\<close>

section \<open>The links between the maps of the store\<close>

type_synonym actives = "dedup_key \<Rightarrow> active_record option"

definition channel_linked ::
  "delivery_config \<Rightarrow> actives \<Rightarrow> channel_scope set \<Rightarrow> string \<Rightarrow> string \<Rightarrow> ordered_channel \<Rightarrow> bool" where
  "channel_linked cfg A F p c ch \<longleftrightarrow>
     channel_inv cfg ch \<and> (p, c) \<notin> F
     \<and> (\<forall>i. in_flight ch = Some i \<longrightarrow> map_option ar_state (A (DedupKey p c i)) = Some InFlight)
     \<and> (\<forall>q m. hm_get (reorder_buffer ch) q = Some m \<longrightarrow>
          om_peer m = p \<and> om_channel m = c \<and>
          map_option ar_state (A (DedupKey p c (om_message_id m))) = Some OrderedBuffered)
     \<and> (\<forall>q q' m m'. hm_get (reorder_buffer ch) q = Some m \<longrightarrow>
          hm_get (reorder_buffer ch) q' = Some m' \<longrightarrow> om_message_id m = om_message_id m' \<longrightarrow> q = q')"

definition buffered_in :: "(channel_scope \<Rightarrow> ordered_channel option) \<Rightarrow> dedup_key \<Rightarrow> bool" where
  "buffered_in O' key \<longleftrightarrow>
     (\<exists>ch q m. O' (scope_of key) = Some ch \<and> hm_get (reorder_buffer ch) q = Some m
        \<and> om_message_id m = dk_message_id key)"

definition record_linked ::
  "(dedup_key \<Rightarrow> processed_record option) \<Rightarrow> (channel_scope \<Rightarrow> ordered_channel option)
   \<Rightarrow> dedup_key \<Rightarrow> active_record \<Rightarrow> bool" where
  "record_linked P O' key r \<longleftrightarrow>
     P key = None \<and>
     (ar_state r = InFlight \<longrightarrow> ack_deadline r \<noteq> None) \<and>
     (ar_state r = OrderedBuffered \<longrightarrow> ack_deadline r = None \<and> buffered_in O' key)"

definition store_linked ::
  "delivery_config \<Rightarrow> actives \<Rightarrow> (dedup_key \<Rightarrow> processed_record option)
   \<Rightarrow> (channel_scope \<Rightarrow> ordered_channel option) \<Rightarrow> channel_scope set \<Rightarrow> bool" where
  "store_linked cfg A P O' F \<longleftrightarrow>
     (\<forall>key r. A key = Some r \<longrightarrow> record_linked P O' key r)
     \<and> (\<forall>p c ch. O' (p, c) = Some ch \<longrightarrow> channel_linked cfg A F p c ch)"

definition receive_inv :: "delivery_config \<Rightarrow> delivery_store \<Rightarrow> bool" where
  "receive_inv cfg s \<longleftrightarrow>
     hm_wf (incoming_active s) \<and> hm_wf (processed_dedup s) \<and> hm_wf (ordered s)
     \<and> length (incoming_active s) \<le> MAX_ACTIVE_INCOMING_RECORDS
     \<and> length (processed_dedup s) \<le> dedup_max_entries cfg
     \<and> store_linked cfg (hm_get (incoming_active s)) (hm_get (processed_dedup s)) (hm_get (ordered s))
         (failed_ordered s)"

lemma linkedI:
  assumes "\<And>key r. A key = Some r \<Longrightarrow> record_linked P O' key r"
    and "\<And>p c ch. O' (p, c) = Some ch \<Longrightarrow> channel_linked cfg A F p c ch"
  shows "store_linked cfg A P O' F"
  using assms unfolding store_linked_def by blast

lemma linked_record: "store_linked cfg A P O' F \<Longrightarrow> A key = Some r \<Longrightarrow> record_linked P O' key r"
  unfolding store_linked_def by blast

lemma linked_channel: "store_linked cfg A P O' F \<Longrightarrow> O' (p, c) = Some ch \<Longrightarrow> channel_linked cfg A F p c ch"
  unfolding store_linked_def by blast

lemma linked_inv: "store_linked cfg A P O' F \<Longrightarrow> O' (p, c) = Some ch \<Longrightarrow> channel_inv cfg ch"
  by (drule (1) linked_channel) (simp add: channel_linked_def)

lemma linked_in_flight:
  "store_linked cfg A P O' F \<Longrightarrow> O' (p, c) = Some ch \<Longrightarrow> in_flight ch = Some i \<Longrightarrow>
     \<exists>r. A (DedupKey p c i) = Some r \<and> ar_state r = InFlight"
  by (drule (1) linked_channel) (auto simp: channel_linked_def)

lemma linked_buffered:
  "store_linked cfg A P O' F \<Longrightarrow> O' (p, c) = Some ch \<Longrightarrow> hm_get (reorder_buffer ch) q = Some m \<Longrightarrow>
     om_peer m = p \<and> om_channel m = c \<and>
     (\<exists>r. A (DedupKey p c (om_message_id m)) = Some r \<and> ar_state r = OrderedBuffered)"
  by (drule (1) linked_channel) (auto simp: channel_linked_def)

text \<open>A record that only changes outside a channel's keys keeps the channel linked.\<close>

lemma channel_linked_cong:
  assumes "channel_linked cfg A F p c ch"
    and "\<And>i r. A (DedupKey p c i) = Some r \<Longrightarrow>
           in_flight ch = Some i \<or> (\<exists>q m. hm_get (reorder_buffer ch) q = Some m \<and> om_message_id m = i) \<Longrightarrow>
           map_option ar_state (A' (DedupKey p c i)) = Some (ar_state r)"
    and "(p, c) \<in> F' \<Longrightarrow> (p, c) \<in> F"
  shows "channel_linked cfg A' F' p c ch"
proof -
  have keep: "map_option ar_state (A' (DedupKey p c i)) = Some st"
    if "map_option ar_state (A (DedupKey p c i)) = Some st"
      "in_flight ch = Some i \<or> (\<exists>q m. hm_get (reorder_buffer ch) q = Some m \<and> om_message_id m = i)"
    for i st
    using that assms(2) [of i] by (cases "A (DedupKey p c i)") (simp_all only: option.map option.inject option.simps)
  show ?thesis
    using assms(1,3) unfolding channel_linked_def by (intro conjI allI impI) (metis keep)+
qed

section \<open>How the links survive the updates\<close>

lemma linked_processed:
  assumes "store_linked cfg A P O' F" "\<And>key r. A key = Some r \<Longrightarrow> P' key = None"
  shows "store_linked cfg A P' O' F"
  using assms unfolding store_linked_def record_linked_def by blast

lemma linked_drop:
  assumes l: "store_linked cfg A P O' F"
    and state: "\<And>r. A (DedupKey p c i) = Some r \<Longrightarrow> ar_state r = InFlight"
    and gate: "\<And>ch. O' (p, c) = Some ch \<Longrightarrow> in_flight ch \<noteq> Some i"
  shows "store_linked cfg (A(DedupKey p c i := None)) P O' F"
proof (rule linkedI)
  fix key r
  assume "(A(DedupKey p c i := None)) key = Some r"
  then show "record_linked P O' key r"
    using linked_record [OF l] by (simp split: if_splits)
next
  fix p' c' ch
  assume ch: "O' (p', c') = Some ch"
  show "channel_linked cfg (A(DedupKey p c i := None)) F p' c' ch"
  proof (rule channel_linked_cong [OF linked_channel [OF l ch]])
    fix i' r
    assume A: "A (DedupKey p' c' i') = Some r"
      and where': "in_flight ch = Some i' \<or>
        (\<exists>q m. hm_get (reorder_buffer ch) q = Some m \<and> om_message_id m = i')"
    have "DedupKey p' c' i' \<noteq> DedupKey p c i"
      using where' gate [of ch] state [of r] ch A linked_buffered [OF l ch] by fastforce
    with A show "map_option ar_state ((A(DedupKey p c i := None)) (DedupKey p' c' i')) =
        Some (ar_state r)" by simp
  qed simp
qed

lemma linked_fail:
  assumes l: "store_linked cfg A P O' F"
  shows "store_linked cfg (\<lambda>key. if scope_of key = (p, c) then None else A key) P
           (O'((p, c) := None)) (insert (p, c) F)"
proof (rule linkedI)
  fix key r
  assume "(if scope_of key = (p, c) then None else A key) = Some r"
  then show "record_linked P (O'((p, c) := None)) key r"
    using linked_record [OF l, of key r] by (auto simp: record_linked_def buffered_in_def split: if_splits)
next
  fix p' c' ch
  assume "(O'((p, c) := None)) (p', c') = Some ch"
  then have "(p', c') \<noteq> (p, c)" "O' (p', c') = Some ch" by (auto split: if_splits)
  then show "channel_linked cfg (\<lambda>key. if scope_of key = (p, c) then None else A key)
      (insert (p, c) F) p' c' ch"
    using linked_channel [OF l, of p' c' ch] by (auto simp: channel_linked_def)
qed

lemma linked_new:
  assumes l: "store_linked cfg A P O' F" and fresh: "A key = None" "P key = None"
    and r: "ar_state r = InFlight" "ack_deadline r \<noteq> None"
  shows "store_linked cfg (A(key \<mapsto> r)) P O' F"
proof (rule linkedI)
  fix key' r'
  assume "(A(key \<mapsto> r)) key' = Some r'"
  then show "record_linked P O' key' r'"
    using linked_record [OF l, of key' r'] fresh r by (auto simp: record_linked_def split: if_splits)
next
  fix p c ch
  assume "O' (p, c) = Some ch"
  then show "channel_linked cfg (A(key \<mapsto> r)) F p c ch"
    by (rule channel_linked_cong [OF linked_channel [OF l]]) (use fresh in auto)
qed

lemma linked_same_state:
  assumes l: "store_linked cfg A P O' F" and A: "A key = Some r"
    and r': "ar_state r' = ar_state r" "ack_deadline r' = ack_deadline r"
  shows "store_linked cfg (A(key \<mapsto> r')) P O' F"
proof (rule linkedI)
  fix key' r''
  assume "(A(key \<mapsto> r')) key' = Some r''"
  then show "record_linked P O' key' r''"
    using linked_record [OF l] A r' by (auto simp: record_linked_def split: if_splits)
next
  fix p c ch
  assume "O' (p, c) = Some ch"
  then show "channel_linked cfg (A(key \<mapsto> r')) F p c ch"
    by (rule channel_linked_cong [OF linked_channel [OF l]]) (use A r' in auto)
qed

text \<open>A channel that is replaced, together with the record of one of its messages.\<close>

lemma linked_channel_update:
  assumes l: "store_linked cfg A P O' F"
    and ch': "channel_linked cfg A' F p c ch'"
    and other: "\<And>key. scope_of key \<noteq> (p, c) \<Longrightarrow> A' key = A key"
    and own: "\<And>i r. A' (DedupKey p c i) = Some r \<Longrightarrow>
                record_linked P (O'((p, c) \<mapsto> ch')) (DedupKey p c i) r"
  shows "store_linked cfg A' P (O'((p, c) \<mapsto> ch')) F"
proof (rule linkedI)
  fix key r
  assume A: "A' key = Some r"
  show "record_linked P (O'((p, c) \<mapsto> ch')) key r"
  proof (cases "scope_of key = (p, c)")
    case True
    then obtain i where "key = DedupKey p c i" by (cases key) auto
    with A own show ?thesis by simp
  next
    case False
    with A other have "A key = Some r" by simp
    from linked_record [OF l this] False show ?thesis
      by (simp add: record_linked_def buffered_in_def)
  qed
next
  fix p' c' ch
  assume "(O'((p, c) \<mapsto> ch')) (p', c') = Some ch"
  then consider "(p', c') = (p, c)" "ch = ch'" | "(p', c') \<noteq> (p, c)" "O' (p', c') = Some ch"
    by (auto split: if_splits)
  then show "channel_linked cfg A' F p' c' ch"
  proof cases
    case 1
    with ch' show ?thesis by simp
  next
    case 2
    show ?thesis
      by (rule channel_linked_cong [OF linked_channel [OF l 2(2)]]) (use 2 other in auto)
  qed
qed

text \<open>Creating the channel of a scope that has none.\<close>

lemma linked_default:
  assumes "store_linked cfg A P O' F" "O' (p, c) = None" "(p, c) \<notin> F"
  shows "store_linked cfg A P (O'((p, c) \<mapsto> ordered_channel_default)) F"
proof (rule linked_channel_update [OF assms(1)])
  show "channel_linked cfg A F p c ordered_channel_default"
    using assms(3) channel_inv_default by (simp add: channel_linked_def ordered_channel_default_def)
next
  fix i r
  assume "A (DedupKey p c i) = Some r"
  from linked_record [OF assms(1) this] assms(2)
  show "record_linked P (O'((p, c) \<mapsto> ordered_channel_default)) (DedupKey p c i) r"
    by (auto simp: record_linked_def buffered_in_def)
qed simp

definition promote :: "delivery_config \<Rightarrow> instant \<Rightarrow> active_record \<Rightarrow> active_record" where
  "promote cfg now r =
     r\<lparr>ar_state := InFlight, ack_deadline := Some (now + application_ack_timeout cfg)\<rparr>"

lemma linked_ready:
  assumes l: "store_linked cfg A P O' F" and ch: "O' (p, c) = Some ch"
    and A: "A (DedupKey p c i) = Some r" "ar_state r = InFlight"
    and free: "in_flight ch = None"
  shows "store_linked cfg (A(DedupKey p c i \<mapsto> promote cfg now r)) P
           (O'((p, c) \<mapsto> ch\<lparr>in_flight := Some i\<rparr>)) F"
proof (rule linked_channel_update [OF l])
  have "om_message_id m \<noteq> i" if "hm_get (reorder_buffer ch) q = Some m" for q m
    using linked_buffered [OF l ch that] A by auto
  then show "channel_linked cfg (A(DedupKey p c i \<mapsto> promote cfg now r)) F p c
      (ch\<lparr>in_flight := Some i\<rparr>)"
    using linked_channel [OF l ch] by (auto simp: channel_linked_def channel_inv_def promote_def)
next
  fix i' r'
  assume "(A(DedupKey p c i \<mapsto> promote cfg now r)) (DedupKey p c i') = Some r'"
  then show "record_linked P (O'((p, c) \<mapsto> ch\<lparr>in_flight := Some i\<rparr>)) (DedupKey p c i') r'"
    using linked_record [OF l, of "DedupKey p c i'"] A(1) ch
    by (auto simp: record_linked_def buffered_in_def promote_def split: if_splits)
qed auto

lemma linked_buffer:
  assumes l: "store_linked cfg A P O' F" and ch: "O' (p, c) = Some ch"
    and A: "A (DedupKey p c (om_message_id m)) = Some r" "ar_state r = InFlight"
    and m: "om_peer m = p" "om_channel m = c" "in_flight ch \<noteq> Some (om_message_id m)"
    and inv: "channel_inv cfg ch'"
    and ch': "in_flight ch' = in_flight ch"
      "reorder_buffer ch' = hm_insert (om_sequence m) m (reorder_buffer ch)"
      "hm_get (reorder_buffer ch) (om_sequence m) = None"
  shows "store_linked cfg
           (A(DedupKey p c (om_message_id m) \<mapsto> r\<lparr>ar_state := OrderedBuffered, ack_deadline := None\<rparr>)) P
           (O'((p, c) \<mapsto> ch')) F"
    (is "store_linked cfg ?A P ?O F")
proof (rule linked_channel_update [OF l])
  have "om_message_id m' \<noteq> om_message_id m" "om_message_id m \<noteq> om_message_id m'"
    if "hm_get (reorder_buffer ch) q = Some m'" for q m'
    using linked_buffered [OF l ch that] A by auto
  then show "channel_linked cfg ?A F p c ch'"
    using linked_channel [OF l ch] m inv ch' by (auto simp: channel_linked_def)
next
  fix i r'
  assume r': "?A (DedupKey p c i) = Some r'"
  show "record_linked P ?O (DedupKey p c i) r'"
  proof (cases "i = om_message_id m")
    case True
    with r' linked_record [OF l A(1)] ch' show ?thesis
      by (auto simp: record_linked_def buffered_in_def)
  next
    case False
    with r' have "record_linked P O' (DedupKey p c i) r'"
      using linked_record [OF l] by simp
    moreover have "buffered_in ?O (DedupKey p c i)" if "buffered_in O' (DedupKey p c i)"
    proof -
      from that ch obtain q m' where b: "hm_get (reorder_buffer ch) q = Some m'" "om_message_id m' = i"
        by (auto simp: buffered_in_def)
      then have "hm_get (reorder_buffer ch') q = Some m'" using ch' by auto
      with b show ?thesis by (auto simp: buffered_in_def)
    qed
    ultimately show ?thesis by (auto simp: record_linked_def)
  qed
qed auto

lemma linked_complete_last:
  assumes l: "store_linked cfg A P O' F" and ch: "O' (p, c) = Some ch" "in_flight ch = Some i"
    and ch': "in_flight ch' = None" "reorder_buffer ch' = reorder_buffer ch" "channel_inv cfg ch'"
  shows "store_linked cfg (A(DedupKey p c i := None)) P (O'((p, c) \<mapsto> ch')) F"
proof (rule linked_channel_update [OF l])
  have "om_message_id m \<noteq> i" if "hm_get (reorder_buffer ch) q = Some m" for q m
    using linked_buffered [OF l ch(1) that] linked_in_flight [OF l ch] by auto
  then show "channel_linked cfg (A(DedupKey p c i := None)) F p c ch'"
    using linked_channel [OF l ch(1)] ch' by (auto simp: channel_linked_def)
next
  fix i' r
  assume "(A(DedupKey p c i := None)) (DedupKey p c i') = Some r"
  then show "record_linked P (O'((p, c) \<mapsto> ch')) (DedupKey p c i') r"
    using linked_record [OF l, of "DedupKey p c i'" r] ch ch'
    by (auto simp: record_linked_def buffered_in_def split: if_splits)
qed auto

lemma linked_complete_next:
  assumes l: "store_linked cfg A P O' F" and ch: "O' (p, c) = Some ch" "in_flight ch = Some i"
    and m: "hm_get (reorder_buffer ch) e = Some m" "A (DedupKey p c (om_message_id m)) = Some r"
    and ch': "in_flight ch' = Some (om_message_id m)" "channel_inv cfg ch'"
      "reorder_buffer ch' = hm_remove e (reorder_buffer ch)"
  shows "store_linked cfg (A(DedupKey p c i := None, DedupKey p c (om_message_id m) \<mapsto> promote cfg now r)) P
           (O'((p, c) \<mapsto> ch')) F"
    (is "store_linked cfg ?A P ?O F")
proof (rule linked_channel_update [OF l])
  have "om_message_id m' \<noteq> i" if "hm_get (reorder_buffer ch) q = Some m'" for q m'
    using linked_buffered [OF l ch(1) that] linked_in_flight [OF l ch] by auto
  moreover have "om_message_id m' \<noteq> om_message_id m"
    if "hm_get (reorder_buffer ch) q = Some m'" "q \<noteq> e" for q m'
    using linked_channel [OF l ch(1)] that m(1) unfolding channel_linked_def by metis
  ultimately show "channel_linked cfg ?A F p c ch'"
    using linked_channel [OF l ch(1)] ch' by (auto simp: channel_linked_def promote_def)
next
  fix i' r'
  assume r': "?A (DedupKey p c i') = Some r'"
  show "record_linked P ?O (DedupKey p c i') r'"
  proof (cases "i' = om_message_id m")
    case True
    with r' linked_record [OF l m(2)] show ?thesis by (auto simp: record_linked_def promote_def)
  next
    case False
    then have rl: "record_linked P O' (DedupKey p c i') r'"
      using r' linked_record [OF l] by (simp split: if_splits)
    have "buffered_in ?O (DedupKey p c i')" if "buffered_in O' (DedupKey p c i')"
    proof -
      from that ch obtain q m' where b: "hm_get (reorder_buffer ch) q = Some m'" "om_message_id m' = i'"
        by (auto simp: buffered_in_def)
      with False m(1) have "q \<noteq> e" by auto
      with b ch' have "hm_get (reorder_buffer ch') q = Some m'" by simp
      with b show ?thesis by (auto simp: buffered_in_def)
    qed
    with rl show ?thesis by (auto simp: record_linked_def)
  qed
qed auto

section \<open>Every operation keeps the invariant\<close>

lemma receive_inv_linked:
  "receive_inv cfg s \<Longrightarrow> store_linked cfg (hm_get (incoming_active s)) (hm_get (processed_dedup s))
     (hm_get (ordered s)) (failed_ordered s)"
  by (simp add: receive_inv_def)

lemma receive_inv_new: "receive_inv cfg delivery_store_new"
  by (simp add: receive_inv_def delivery_store_new_def store_linked_def)

lemma hm_get_fold_remove:
  "hm_get (fold hm_remove ks m) = (\<lambda>k. if k \<in> set ks then None else hm_get m k)"
  by (induction ks arbitrary: m) (auto simp: fun_eq_iff)

lemma hm_wf_fold_remove: "hm_wf m \<Longrightarrow> hm_wf (fold hm_remove ks m)"
  by (induction ks arbitrary: m) simp_all

lemma length_fold_remove: "hm_wf m \<Longrightarrow> length (fold hm_remove ks m) \<le> length m"
proof (induction ks arbitrary: m)
  case (Cons k ks)
  have "length (hm_remove k m) \<le> length m"
    using Cons.prems by (simp add: length_hm_remove)
  then show ?case using Cons.IH [of "hm_remove k m"] Cons.prems by simp
qed simp

lemma fail_active:
  assumes inv: "receive_inv cfg s"
  shows "hm_get (incoming_active (snd (fail_ordered_channel (p, c) s))) =
    (\<lambda>key. if scope_of key = (p, c) then None else hm_get (incoming_active s) key)"
proof -
  let ?affected = "fst (fail_ordered_channel (p, c) s)"
  note l = receive_inv_linked [OF inv]
  have own: "scope_of key = (p, c)" if "key \<in> set ?affected" for key
  proof (cases "hm_get (ordered s) (p, c)")
    case None
    then show ?thesis using that by (auto simp: fail_ordered_channel_def Let_def scope_of_def)
  next
    case (Some ch)
    have "om_peer m = p \<and> om_channel m = c" if "(q, m) \<in> set (reorder_buffer ch)" for q m
      using linked_buffered [OF l Some, of q m] that linked_inv [OF l Some]
      by (simp add: channel_inv_def)
    then show ?thesis
      using that Some by (auto simp: fail_ordered_channel_def Let_def scope_of_def split: option.splits)
  qed
  have all: "key \<in> set ?affected" if "scope_of key = (p, c)" "hm_get (incoming_active s) key = Some r"
    for key r
    using that hm_get_Some_in [of "incoming_active s" key r]
    by (force simp: fail_ordered_channel_def Let_def scope_of_def)
  have eq: "incoming_active (snd (fail_ordered_channel (p, c) s)) =
      fold hm_remove ?affected (incoming_active s)"
    by (simp add: fail_ordered_channel_def Let_def)
  show ?thesis
    unfolding eq hm_get_fold_remove using own all by (fastforce simp: fun_eq_iff)
qed

lemma fail_fields:
  "processed_dedup (snd (fail_ordered_channel sc s)) = processed_dedup s"
  "ordered (snd (fail_ordered_channel sc s)) = hm_remove sc (ordered s)"
  "failed_ordered (snd (fail_ordered_channel sc s)) = insert sc (failed_ordered s)"
  by (simp_all add: fail_ordered_channel_def Let_def)

lemma fail_inv:
  assumes inv: "receive_inv cfg s"
  shows "receive_inv cfg (snd (fail_ordered_channel (p, c) s))"
proof -
  have act: "incoming_active (snd (fail_ordered_channel (p, c) s)) =
      fold hm_remove (fst (fail_ordered_channel (p, c) s)) (incoming_active s)"
    by (simp add: fail_ordered_channel_def Let_def)
  have len: "length (incoming_active (snd (fail_ordered_channel (p, c) s))) \<le> length (incoming_active s)"
    using inv unfolding act by (intro length_fold_remove) (simp add: receive_inv_def)
  have wf: "hm_wf (incoming_active (snd (fail_ordered_channel (p, c) s)))"
    using inv unfolding act by (intro hm_wf_fold_remove) (simp add: receive_inv_def)
  show ?thesis
    using inv linked_fail [OF receive_inv_linked [OF inv], of p c] len wf
    unfolding receive_inv_def fail_fields fail_active [OF inv] by simp
qed

text \<open>
  Time-outs, abandonment and the rejection of a message only drop active records and whole channels; a
  dropped channel is marked as failed.
\<close>

definition shrinks :: "delivery_store \<Rightarrow> delivery_store \<Rightarrow> bool" where
  "shrinks s s' \<longleftrightarrow>
     processed_dedup s' = processed_dedup s
     \<and> (\<forall>key. hm_get (incoming_active s') key = None
              \<or> hm_get (incoming_active s') key = hm_get (incoming_active s) key)
     \<and> failed_ordered s \<subseteq> failed_ordered s'
     \<and> (\<forall>p c. hm_get (ordered s') (p, c) = hm_get (ordered s) (p, c)
              \<or> hm_get (ordered s') (p, c) = None \<and> (p, c) \<in> failed_ordered s')"

lemma shrinks_refl [simp]: "shrinks s s"
  by (simp add: shrinks_def)

lemma shrinks_trans: "shrinks s s' \<Longrightarrow> shrinks s' s'' \<Longrightarrow> shrinks s s''"
  unfolding shrinks_def by (metis subset_eq)

lemma shrinks_fail:
  "receive_inv cfg s \<Longrightarrow> shrinks s (snd (fail_ordered_channel (p, c) s))"
  by (auto simp: shrinks_def fail_fields fail_active)

lemma drop_active_inv:
  assumes inv: "receive_inv cfg s"
    and state: "\<And>r. hm_get (incoming_active s) (DedupKey p c i) = Some r \<Longrightarrow> ar_state r = InFlight"
    and gate: "\<And>ch. hm_get (ordered s) (p, c) = Some ch \<Longrightarrow> in_flight ch \<noteq> Some i"
  shows "receive_inv cfg
    (s\<lparr>incoming_active := hm_remove (DedupKey p c i) (incoming_active s)\<rparr>)"
  using inv linked_drop [OF receive_inv_linked [OF inv] state gate]
    hm.del_bound [of "incoming_active s" MAX_ACTIVE_INCOMING_RECORDS]
  by (simp add: receive_inv_def)

lemma expire_one_step:
  assumes inv: "receive_inv cfg s"
    and entry: "ar_state r = InFlight"
      "hm_get (incoming_active s) key = None \<or> hm_get (incoming_active s) key = Some r"
    and step: "expire_one (key, r) (s, scopes, expired) = (s', scopes', expired')"
  shows "receive_inv cfg s' \<and> shrinks s s'"
proof (cases "s' = s")
  case False
  obtain p c i where key: "key = DedupKey p c i" by (cases key)
  have s': "s' = s\<lparr>incoming_active := hm_remove key (incoming_active s)\<rparr>"
    and gate: "\<And>ch. hm_get (ordered s) (p, c) = Some ch \<Longrightarrow> in_flight ch \<noteq> Some i"
    using step False by (auto simp: expire_one_def key split: if_splits)
  have "receive_inv cfg s'"
    unfolding s' key using entry by (intro drop_active_inv [OF inv] gate) (auto simp: key)
  then show ?thesis by (simp add: s' shrinks_def)
qed (use inv in simp)

lemma expire_one_fold:
  assumes "receive_inv cfg s"
    and "\<And>key r. (key, r) \<in> set es \<Longrightarrow> ar_state r = InFlight \<and>
           (hm_get (incoming_active s) key = None \<or> hm_get (incoming_active s) key = Some r)"
    and "fold expire_one es (s, scopes, expired) = (s', scopes', expired')"
  shows "receive_inv cfg s' \<and> shrinks s s'"
  using assms
proof (induction es arbitrary: s scopes expired)
  case (Cons e es)
  obtain key r where e: "e = (key, r)" by (cases e)
  obtain s1 sc1 ex1 where one: "expire_one (key, r) (s, scopes, expired) = (s1, sc1, ex1)"
    by (cases "expire_one (key, r) (s, scopes, expired)")
  have s1: "receive_inv cfg s1 \<and> shrinks s s1"
    using Cons.prems(1,2) e by (intro expire_one_step [OF _ _ _ one]) auto
  have "receive_inv cfg s' \<and> shrinks s1 s'"
  proof (rule Cons.IH)
    show "receive_inv cfg s1" using s1 by simp
    show "fold expire_one es (s1, sc1, ex1) = (s', scopes', expired')"
      using Cons.prems(3) by (simp add: e one)
    fix k x
    assume "(k, x) \<in> set es"
    with Cons.prems(2) s1 show "ar_state x = InFlight \<and>
        (hm_get (incoming_active s1) k = None \<or> hm_get (incoming_active s1) k = Some x)"
      unfolding shrinks_def by (metis list.set_intros(2))
  qed
  with s1 show ?case using shrinks_trans by blast
qed simp

lemma fail_one_fold:
  assumes "receive_inv cfg s" "fold fail_one scopes (s, expired) = (s', expired')"
  shows "receive_inv cfg s' \<and> shrinks s s'"
  using assms
proof (induction scopes arbitrary: s expired)
  case (Cons sc scopes)
  obtain p c where sc: "sc = (p, c)" by (cases sc)
  obtain ex where "fail_one sc (s, expired) = (snd (fail_ordered_channel (p, c) s), ex)"
    by (cases "fail_ordered_channel (p, c) s") (simp add: fail_one_def sc)
  then have "receive_inv cfg s' \<and> shrinks (snd (fail_ordered_channel (p, c) s)) s'"
    using Cons.IH [OF fail_inv [OF Cons.prems(1), of p c], of ex] Cons.prems(2) by simp
  then show ?case using shrinks_fail [OF Cons.prems(1)] shrinks_trans by blast
qed simp

lemma expire_inv:
  assumes "receive_inv cfg s"
  shows "receive_inv cfg (snd (expire_incoming_locked peer now s)) \<and>
    shrinks s (snd (expire_incoming_locked peer now s))"
proof -
  let ?es = "filter (timed_out peer now) (incoming_active s)"
  obtain s1 scopes expired where one: "fold expire_one ?es (s, [], []) = (s1, scopes, expired)"
    by (cases "fold expire_one ?es (s, [], [])")
  obtain s2 expired' where two: "fold fail_one scopes (s1, expired) = (s2, expired')"
    by (cases "fold fail_one scopes (s1, expired)")
  have "ar_state r = InFlight \<and> hm_get (incoming_active s) key = Some r" if "(key, r) \<in> set ?es" for key r
    using that assms by (auto simp: timed_out_def receive_inv_def split: active_incoming_state.splits)
  then have "receive_inv cfg s1 \<and> shrinks s s1"
    using expire_one_fold [OF assms _ one] by blast
  moreover from this fail_one_fold [OF _ two] have "receive_inv cfg s2 \<and> shrinks s1 s2" by blast
  ultimately show ?thesis
    using shrinks_trans by (fastforce simp: expire_incoming_locked_def one two)
qed

lemma expire_nothing:
  "filter (timed_out peer now) (incoming_active s) = [] \<Longrightarrow>
     snd (expire_incoming_locked peer now s) = s"
  by (simp add: expire_incoming_locked_def)

lemma abandon_inv:
  assumes inv: "receive_inv cfg s"
  shows "receive_inv cfg (snd (abandon_incoming p c i s)) \<and> shrinks s (snd (abandon_incoming p c i s))"
proof -
  have state: "ar_state r = InFlight"
    if "hm_get (incoming_active s) (DedupKey p c i) = Some r"
      "\<And>ch. hm_get (ordered s) (p, c) = Some ch \<Longrightarrow>
         \<not> list_ex (\<lambda>(q, m). om_message_id m = i) (reorder_buffer ch)" for r
  proof (cases "ar_state r")
    case OrderedBuffered
    then show ?thesis
      using linked_record [OF receive_inv_linked [OF inv] that(1)] that(2)
      by (fastforce simp: record_linked_def buffered_in_def list_ex_iff dest: hm_get_Some_in)
  qed
  have "receive_inv cfg (s\<lparr>incoming_active := hm_remove (DedupKey p c i) (incoming_active s)\<rparr>)"
    if "\<And>ch. hm_get (ordered s) (p, c) = Some ch \<Longrightarrow> in_flight ch \<noteq> Some i \<and>
         \<not> list_ex (\<lambda>(q, m). om_message_id m = i) (reorder_buffer ch)"
    using that state by (intro drop_active_inv [OF inv]) auto
  moreover have "shrinks s (s\<lparr>incoming_active := hm_remove k (incoming_active s)\<rparr>)" for k
    by (simp add: shrinks_def)
  ultimately show ?thesis
    using fail_inv [OF inv] shrinks_fail [OF inv] inv
    by (cases "hm_get (ordered s) (p, c)") (auto simp: abandon_incoming_def Let_def)
qed

lemma prune_inv: "receive_inv cfg s \<Longrightarrow> receive_inv cfg (prune_processed_dedup now s)"
  using length_hm_retain [of "\<lambda>_ r. now < pr_expires_at r" "processed_dedup s"]
  by (auto simp: receive_inv_def prune_processed_dedup_def hm_get_retain record_linked_def
      intro!: linked_processed [where P = "hm_get (processed_dedup s)"]
      dest: linked_record split: option.splits)

text \<open>The store at the moment \<open>begin_incoming\<close> decides.\<close>

definition swept :: "string \<Rightarrow> instant \<Rightarrow> delivery_store \<Rightarrow> delivery_store" where
  "swept peer_id now s = prune_processed_dedup now (snd (expire_incoming_locked (Some peer_id) now s))"

lemma swept_inv: "receive_inv cfg s \<Longrightarrow> receive_inv cfg (swept p now s)"
  using expire_inv [of cfg s "Some p" now] by (simp add: swept_def prune_inv)

definition fresh_record :: "delivery_config \<Rightarrow> u64 \<Rightarrow> instant \<Rightarrow> active_record" where
  "fresh_record cfg epoch now =
     \<lparr>ack_deadline = Some (now + application_ack_timeout cfg), ar_epoch = epoch, ar_state = InFlight\<rparr>"

lemma begin_incoming_New:
  assumes "begin_incoming cfg p c i e now s = (New, s')"
  shows "(p, c) \<notin> failed_ordered (swept p now s)"
    "hm_get (incoming_active (swept p now s)) (DedupKey p c i) = None"
    "hm_get (processed_dedup (swept p now s)) (DedupKey p c i) = None"
    "length (incoming_active (swept p now s)) < MAX_ACTIVE_INCOMING_RECORDS"
    "s' = (swept p now s)\<lparr>incoming_active :=
       hm_insert (DedupKey p c i) (fresh_record cfg e now) (incoming_active (swept p now s))\<rparr>"
  using assms by (simp_all add: begin_incoming_def swept_def fresh_record_def Let_def split: if_splits)

lemma begin_incoming_inv:
  assumes "receive_inv cfg s"
  shows "receive_inv cfg (snd (begin_incoming cfg p c i e now s))"
proof (cases "fst (begin_incoming cfg p c i e now s) = New")
  case True
  then obtain s' where new: "begin_incoming cfg p c i e now s = (New, s')"
    by (cases "begin_incoming cfg p c i e now s") simp
  note facts = begin_incoming_New [OF new]
  have "store_linked cfg ((hm_get (incoming_active (swept p now s)))(DedupKey p c i \<mapsto> fresh_record cfg e now))
      (hm_get (processed_dedup (swept p now s))) (hm_get (ordered (swept p now s)))
      (failed_ordered (swept p now s))"
    using facts by (intro linked_new receive_inv_linked swept_inv assms) (simp_all add: fresh_record_def)
  then show ?thesis
    using facts swept_inv [OF assms] new by (simp add: receive_inv_def length_hm_insert)
next
  case False
  have act: "receive_inv cfg (t\<lparr>incoming_active := hm_modify k (\<lambda>r. r\<lparr>ar_epoch := e\<rparr>) (incoming_active t)\<rparr>)"
    if t: "receive_inv cfg t" and k: "hm_get (incoming_active t) k = Some r" for t k r
  proof -
    have "hm_get (hm_modify k (\<lambda>r. r\<lparr>ar_epoch := e\<rparr>) (incoming_active t)) =
        (hm_get (incoming_active t))(k \<mapsto> r\<lparr>ar_epoch := e\<rparr>)"
      using k by (auto simp: fun_eq_iff)
    then show ?thesis
      using t linked_same_state [OF receive_inv_linked [OF t] k, of "r\<lparr>ar_epoch := e\<rparr>"]
      by (simp add: receive_inv_def)
  qed
  have proc: "receive_inv cfg (t\<lparr>processed_dedup := hm_modify k f (processed_dedup t)\<rparr>)"
    if t: "receive_inv cfg t" for t k f
    using t by (auto simp: receive_inv_def record_linked_def
        intro!: linked_processed [where P = "hm_get (processed_dedup t)"] dest: linked_record)
  from False show ?thesis
    using swept_inv [OF assms, of p now] act proc
    by (auto simp: begin_incoming_def swept_def Let_def split: if_splits)
qed

section \<open>Ordered acceptance and completion\<close>

definition channel_or_default :: "delivery_store \<Rightarrow> channel_scope \<Rightarrow> ordered_channel" where
  "channel_or_default s sc =
     (case hm_get (ordered s) sc of None \<Rightarrow> ordered_channel_default | Some ch \<Rightarrow> ch)"

abbreviation message_key :: "ordered_message \<Rightarrow> dedup_key" where
  "message_key m \<equiv> DedupKey (om_peer m) (om_channel m) (om_message_id m)"

abbreviation message_scope :: "ordered_message \<Rightarrow> channel_scope" where
  "message_scope m \<equiv> (om_peer m, om_channel m)"

lemma hm_get_modify_Some:
  "hm_get m k = Some v \<Longrightarrow> hm_get (hm_modify k f m) = (hm_get m)(k \<mapsto> f v)"
  by (auto simp: fun_eq_iff)

lemma accept_ordered_cases:
  assumes "accept_ordered_at cfg m now s = (res, s')"
  obtains (refused) "res = Rejected" "s' = s"
  | (inserted) r ch' where "message_scope m \<notin> failed_ordered s"
      "hm_get (incoming_active s) (message_key m) = Some r"
      "ordered_insert cfg m (channel_or_default s (message_scope m)) = (res, ch')"
      "processed_dedup s' = processed_dedup s" "failed_ordered s' = failed_ordered s"
      "ordered s' = hm_insert (message_scope m) ch' (ordered s)"
      "map fst (incoming_active s') = map fst (incoming_active s)"
      "hm_get (incoming_active s') = (hm_get (incoming_active s))(message_key m \<mapsto>
         (case res of Ready \<Rightarrow> promote cfg now r
          | Buffered \<Rightarrow> r\<lparr>ar_state := OrderedBuffered, ack_deadline := None\<rparr>
          | _ \<Rightarrow> r))"
proof (cases "is_valid_peer_id (om_peer m) \<and> is_valid_scope_id (om_channel m)
    \<and> message_scope m \<notin> failed_ordered s \<and> hm_contains (incoming_active s) (message_key m)")
  case False
  then show ?thesis
    using assms refused by (auto simp: accept_ordered_at_def Let_def split: if_splits)
next
  case True
  then obtain r where r: "hm_get (incoming_active s) (message_key m) = Some r" by auto
  obtain res' ch' where ins: "ordered_insert cfg m (channel_or_default s (message_scope m)) = (res', ch')"
    by (cases "ordered_insert cfg m (channel_or_default s (message_scope m))")
  from r have same: "(hm_get (incoming_active s))(message_key m \<mapsto> r) = hm_get (incoming_active s)"
    by auto
  from True ins r assms show ?thesis
    by (intro inserted [OF _ r, of ch'])
       (cases res'; auto simp: accept_ordered_at_def channel_or_default_def Let_def promote_def same
         hm_get_modify_Some)+
qed

lemma accept_ordered_inv:
  assumes inv: "receive_inv cfg s"
    and fresh: "map_option ar_state (hm_get (incoming_active s) (message_key m)) = Some InFlight"
      "\<And>ch. hm_get (ordered s) (message_scope m) = Some ch \<Longrightarrow> in_flight ch \<noteq> Some (om_message_id m)"
    and acc: "accept_ordered_at cfg m now s = (res, s')"
  shows "receive_inv cfg s'"
  using acc
proof (cases rule: accept_ordered_cases)
  case (inserted r ch')
  let ?p = "om_peer m" and ?c = "om_channel m"
  let ?A = "hm_get (incoming_active s)" and ?P = "hm_get (processed_dedup s)"
  let ?ch = "channel_or_default s (?p, ?c)"
  let ?O = "(hm_get (ordered s))((?p, ?c) \<mapsto> ?ch)"
  note l = receive_inv_linked [OF inv]
  have l': "store_linked cfg ?A ?P ?O (failed_ordered s)"
  proof (cases "hm_get (ordered s) (?p, ?c)")
    case None
    with linked_default [OF l None] inserted(1) show ?thesis by (simp add: channel_or_default_def)
  next
    case (Some ch)
    then have "?O = hm_get (ordered s)" by (auto simp: channel_or_default_def)
    with l show ?thesis by simp
  qed
  have ch: "?O (?p, ?c) = Some ?ch" by simp
  have r: "ar_state r = InFlight" using fresh(1) inserted(2) by simp
  have gate: "in_flight ?ch \<noteq> Some (om_message_id m)"
    using fresh(2) by (auto simp: channel_or_default_def ordered_channel_default_def split: option.splits)
  have inv': "channel_inv cfg ch'"
    using ordered_insert_inv [OF linked_inv [OF l' ch], of m] inserted(3) by simp
  have "store_linked cfg (hm_get (incoming_active s')) ?P (?O((?p, ?c) \<mapsto> ch')) (failed_ordered s)"
  proof (cases rule: ordered_insert_cases [of cfg m ?ch])
    case ready
    have "store_linked cfg (?A(message_key m \<mapsto> promote cfg now r)) ?P
        (?O((?p, ?c) \<mapsto> ?ch\<lparr>in_flight := Some (om_message_id m)\<rparr>)) (failed_ordered s)"
      by (rule linked_ready [OF l' ch inserted(2) r ready(3)])
    with ready inserted(3,8) show ?thesis by auto
  next
    case buffered
    then have ch': "in_flight ch' = in_flight ?ch"
        "reorder_buffer ch' = hm_insert (om_sequence m) m (reorder_buffer ?ch)"
      using inserted(3) by auto
    have "store_linked cfg
        (?A(message_key m \<mapsto> r\<lparr>ar_state := OrderedBuffered, ack_deadline := None\<rparr>)) ?P
        (?O((?p, ?c) \<mapsto> ch')) (failed_ordered s)"
      by (rule linked_buffer [OF l' ch inserted(2) r refl refl gate inv' ch' buffered(6)])
    with buffered inserted(3,8) show ?thesis by auto
  next
    case (unchanged x)
    then have "ch' = ?ch" "hm_get (incoming_active s') = ?A" using inserted(2,3,8) by auto
    with l' show ?thesis by simp
  qed
  then show ?thesis
    using inv inserted(4-7) map_eq_imp_length_eq [OF inserted(7)] by (simp add: receive_inv_def)
qed (use inv in simp)

lemma evict_processed_facts:
  assumes "hm_wf m"
  shows "hm_wf (evict_processed pick n m)"
    and "0 < n \<Longrightarrow> length (evict_processed pick n m) < n"
    and "hm_get (evict_processed pick n m) k = None \<or> hm_get (evict_processed pick n m) k = hm_get m k"
    and "length m < n \<Longrightarrow> evict_processed pick n m = m"
proof -
  have "hm_wf (evict_processed pick n m) \<and> (0 < n \<longrightarrow> length (evict_processed pick n m) < n) \<and>
      (\<forall>k. hm_get (evict_processed pick n m) k = None \<or> hm_get (evict_processed pick n m) k = hm_get m k)"
    using assms
  proof (induction pick n m rule: evict_processed.induct)
    case (1 pick n m)
    show ?case
    proof (cases "m \<noteq> [] \<and> length m \<ge> n")
      case True
      have "hm_get (hm_remove (oldest_processed pick m) m) k = None
          \<or> hm_get (hm_remove (oldest_processed pick m) m) k = hm_get m k" for k
        by simp
      moreover have "evict_processed pick n m =
          evict_processed pick n (hm_remove (oldest_processed pick m) m)"
        using True by (simp add: evict_processed.simps [of pick n m])
      ultimately show ?thesis
        using 1(1) [OF True hm_wf_remove [OF 1(2)]] by metis
    next
      case False
      then show ?thesis using 1(2) by (auto simp: evict_processed.simps [of pick n m])
    qed
  qed
  then show "hm_wf (evict_processed pick n m)" "0 < n \<Longrightarrow> length (evict_processed pick n m) < n"
    "hm_get (evict_processed pick n m) k = None \<or> hm_get (evict_processed pick n m) k = hm_get m k"
    by auto
  show "length m < n \<Longrightarrow> evict_processed pick n m = m"
    by (simp add: evict_processed.simps [of pick n m])
qed

lemma remember_fields [simp]:
  "incoming_active (remember_processed pick key r n s) = incoming_active s"
  "ordered (remember_processed pick key r n s) = ordered s"
  "failed_ordered (remember_processed pick key r n s) = failed_ordered s"
  by (simp_all add: remember_processed_def Let_def)

lemma remember_facts:
  assumes "hm_wf (processed_dedup s)" "length (processed_dedup s) \<le> n"
  shows "hm_wf (processed_dedup (remember_processed pick key r n s))"
    and "length (processed_dedup (remember_processed pick key r n s)) \<le> n"
    and "k \<noteq> key \<Longrightarrow> hm_get (processed_dedup s) k = None \<Longrightarrow>
           hm_get (processed_dedup (remember_processed pick key r n s)) k = None"
proof -
  let ?live = "hm_retain (\<lambda>_ existing. pr_expires_at existing > pr_last_seen_at r) (processed_dedup s)"
  have live: "hm_wf ?live" "hm_get (processed_dedup s) k = None \<Longrightarrow> hm_get ?live k = None" for k
    using assms(1) by (simp_all add: hm_get_retain)
  show "hm_wf (processed_dedup (remember_processed pick key r n s))"
    using assms evict_processed_facts(1) [OF live(1)] by (simp add: remember_processed_def Let_def)
  show "length (processed_dedup (remember_processed pick key r n s)) \<le> n"
    using assms evict_processed_facts(2) [OF live(1), of n pick]
    by (auto simp: remember_processed_def Let_def length_hm_insert)
  show "hm_get (processed_dedup (remember_processed pick key r n s)) k = None"
    if "k \<noteq> key" "hm_get (processed_dedup s) k = None"
    using that live(2) [of k] evict_processed_facts(3) [OF live(1), of pick n k]
    by (auto simp: remember_processed_def Let_def)
qed

definition processed_now :: "delivery_config \<Rightarrow> instant \<Rightarrow> active_record \<Rightarrow> processed_record" where
  "processed_now cfg now r =
     \<lparr>pr_expires_at = now + dedup_ttl cfg, pr_last_seen_at = now, pr_epoch = ar_epoch r\<rparr>"

lemma complete_plain:
  assumes "hm_get (incoming_active s) (DedupKey p c i) = Some r" "ar_state r = InFlight"
    "\<And>ch. hm_get (ordered s) (p, c) = Some ch \<Longrightarrow> in_flight ch = None"
  shows "complete_incoming_at cfg pick p c i now s =
    (Some \<lparr>ic_epoch = ar_epoch r, ic_next = None\<rparr>,
     remember_processed pick (DedupKey p c i) (processed_now cfg now r) (dedup_max_entries cfg)
       (s\<lparr>incoming_active := hm_remove (DedupKey p c i) (incoming_active s)\<rparr>))"
  using assms by (cases "hm_get (ordered s) (p, c)")
    (simp_all add: complete_incoming_at_def Let_def completion_allowed_def next_buffered_key_def processed_now_def)

lemma complete_refused:
  assumes "hm_get (incoming_active s) (DedupKey p c i) = Some r" "\<not> completion_allowed s (p, c) i r"
  shows "complete_incoming_at cfg pick p c i now s = (None, s)"
  using assms by (simp add: complete_incoming_at_def Let_def)

lemma complete_last:
  assumes "hm_get (incoming_active s) (DedupKey p c i) = Some r"
    "hm_get (ordered s) (p, c) = Some ch" "in_flight ch = Some i"
    "ordered_acknowledge i ch = (None, ch')"
    "hm_get (reorder_buffer ch) (saturating_add (expected_sequence ch) 1) = None"
  shows "complete_incoming_at cfg pick p c i now s =
    (Some \<lparr>ic_epoch = ar_epoch r, ic_next = None\<rparr>,
     remember_processed pick (DedupKey p c i) (processed_now cfg now r) (dedup_max_entries cfg)
       (s\<lparr>ordered := hm_insert (p, c) ch' (ordered s),
          incoming_active := hm_remove (DedupKey p c i) (incoming_active s)\<rparr>))"
  using assms by (simp add: complete_incoming_at_def Let_def completion_allowed_def next_buffered_key_def
      processed_now_def)

lemma complete_next:
  assumes "hm_get (incoming_active s) (DedupKey p c i) = Some r"
    "hm_get (ordered s) (p, c) = Some ch" "in_flight ch = Some i"
    "ordered_acknowledge i ch = (Some m, ch')"
    "hm_get (reorder_buffer ch) (saturating_add (expected_sequence ch) 1) = Some m"
    "om_peer m = p" "om_channel m = c" "om_message_id m \<noteq> i"
    "hm_get (incoming_active s) (DedupKey p c (om_message_id m)) = Some x"
    "ar_state x = OrderedBuffered"
  shows "complete_incoming_at cfg pick p c i now s =
    (Some \<lparr>ic_epoch = ar_epoch r, ic_next = Some m\<rparr>,
     remember_processed pick (DedupKey p c i) (processed_now cfg now r) (dedup_max_entries cfg)
       (s\<lparr>ordered := hm_insert (p, c) ch' (ordered s),
          incoming_active := hm_modify (DedupKey p c (om_message_id m)) (promote cfg now)
            (hm_remove (DedupKey p c i) (incoming_active s))\<rparr>))"
  using assms by (simp add: complete_incoming_at_def Let_def completion_allowed_def next_buffered_key_def
      processed_now_def promote_def [abs_def])

text \<open>
  What a completion does to a store that satisfies the invariant: nothing, or it retires
  the record of the message, and, if the message was in flight on an ordered channel,
  advances the channel and promotes the message it releases.
\<close>

lemma complete_incoming_cases:
  assumes inv: "receive_inv cfg s"
    and comp: "complete_incoming_at cfg pick p c i now s = (res, s')"
  obtains (refused) "res = None" "s' = s"
  | (plain) r where "hm_get (incoming_active s) (DedupKey p c i) = Some r" "ar_state r = InFlight"
      "\<And>ch. hm_get (ordered s) (p, c) = Some ch \<Longrightarrow> in_flight ch = None"
      "res = Some \<lparr>ic_epoch = ar_epoch r, ic_next = None\<rparr>"
      "s' = remember_processed pick (DedupKey p c i) (processed_now cfg now r) (dedup_max_entries cfg)
         (s\<lparr>incoming_active := hm_remove (DedupKey p c i) (incoming_active s)\<rparr>)"
  | (advanced) r ch ch' nxt where "hm_get (incoming_active s) (DedupKey p c i) = Some r"
      "hm_get (ordered s) (p, c) = Some ch" "in_flight ch = Some i"
      "ordered_acknowledge i ch = (nxt, ch')"
      "res = Some \<lparr>ic_epoch = ar_epoch r, ic_next = nxt\<rparr>"
      "s' = remember_processed pick (DedupKey p c i) (processed_now cfg now r) (dedup_max_entries cfg)
         (s\<lparr>ordered := hm_insert (p, c) ch' (ordered s),
            incoming_active :=
              (case nxt of None \<Rightarrow> hm_remove (DedupKey p c i) (incoming_active s)
               | Some m \<Rightarrow> hm_modify (DedupKey p c (om_message_id m)) (promote cfg now)
                   (hm_remove (DedupKey p c i) (incoming_active s)))\<rparr>)"
proof (cases "hm_get (incoming_active s) (DedupKey p c i)")
  case None
  then show ?thesis using comp refused by (simp add: complete_incoming_at_def Let_def)
next
  case r: (Some r)
  note l = receive_inv_linked [OF inv]
  have no_channel: "ar_state r = InFlight" if "hm_get (ordered s) (p, c) = None"
    using linked_record [OF l r] that
    by (cases "ar_state r") (auto simp: record_linked_def buffered_in_def)
  consider (gate) "\<not> completion_allowed s (p, c) i r"
    | (free) "ar_state r = InFlight" "\<And>ch. hm_get (ordered s) (p, c) = Some ch \<Longrightarrow> in_flight ch = None"
    | (mine) ch where "hm_get (ordered s) (p, c) = Some ch" "in_flight ch = Some i"
    using no_channel
    by (cases "ar_state r"; cases "hm_get (ordered s) (p, c)";
        cases "in_flight (the (hm_get (ordered s) (p, c)))")
       (auto simp: completion_allowed_def)
  then show ?thesis
  proof cases
    case gate
    with complete_refused [OF r] comp show ?thesis by (intro refused) simp_all
  next
    case free
    with complete_plain [OF r, of cfg pick now] comp show ?thesis by (intro plain [OF r]) simp_all
  next
    case (mine ch)
    show ?thesis
    proof (cases rule: ordered_acknowledge_cases [of i ch])
      case other
      with mine show ?thesis by simp
    next
      case last
      with complete_last [OF r mine last(1) last(3), of cfg pick now] comp show ?thesis
        by (intro advanced [OF r mine last(1)]) simp_all
    next
      case (promoted m)
      obtain x where x: "hm_get (incoming_active s) (DedupKey p c (om_message_id m)) = Some x"
          "ar_state x = OrderedBuffered" and m: "om_peer m = p" "om_channel m = c"
        using linked_buffered [OF l mine(1) promoted(3)] by auto
      moreover have "om_message_id m \<noteq> i"
        using linked_in_flight [OF l mine] x by auto
      ultimately show ?thesis
        using complete_next [OF r mine promoted(1) promoted(3) m _ x, of cfg pick now] comp
        by (intro advanced [OF r mine promoted(1)]) simp_all
    qed
  qed
qed

lemma remember_inv:
  assumes l: "store_linked cfg (hm_get (incoming_active t)) (hm_get (processed_dedup s)) (hm_get (ordered t)) (failed_ordered t)"
    and s: "receive_inv cfg s" and t: "processed_dedup t = processed_dedup s"
      "hm_wf (incoming_active t)" "hm_wf (ordered t)"
      "length (incoming_active t) \<le> length (incoming_active s)"
    and key: "hm_get (incoming_active t) key = None"
  shows "receive_inv cfg (remember_processed pick key r (dedup_max_entries cfg) t)"
proof -
  have P: "hm_wf (processed_dedup t)" "length (processed_dedup t) \<le> dedup_max_entries cfg"
    using s t(1) by (simp_all add: receive_inv_def)
  have "store_linked cfg (hm_get (incoming_active t))
      (hm_get (processed_dedup (remember_processed pick key r (dedup_max_entries cfg) t)))
      (hm_get (ordered t)) (failed_ordered t)"
  proof (rule linked_processed [OF l])
    fix k x
    assume k: "hm_get (incoming_active t) k = Some x"
    then have "hm_get (processed_dedup t) k = None"
      using linked_record [OF l] t(1) by (auto simp: record_linked_def)
    with k key show "hm_get (processed_dedup (remember_processed pick key r (dedup_max_entries cfg) t)) k = None"
      by (intro remember_facts(3) [OF P]) auto
  qed
  with s t remember_facts(1,2) [OF P] show ?thesis by (simp add: receive_inv_def)
qed

lemma complete_incoming_inv:
  assumes inv: "receive_inv cfg s"
    and comp: "complete_incoming_at cfg pick p c i now s = (res, s')"
  shows "receive_inv cfg s'"
  using inv comp
proof (cases rule: complete_incoming_cases)
  case refused
  then show ?thesis using inv by simp
next
  case (plain r)
  have "store_linked cfg ((hm_get (incoming_active s))(DedupKey p c i := None)) (hm_get (processed_dedup s))
      (hm_get (ordered s)) (failed_ordered s)"
    using plain by (intro linked_drop [OF receive_inv_linked [OF inv]]) auto
  then show ?thesis
    unfolding plain(5) using inv
    by (intro remember_inv [OF _ inv]) (auto simp: receive_inv_def length_hm_remove)
next
  case (advanced r ch ch' nxt)
  note l = receive_inv_linked [OF inv]
  have ch': "channel_inv cfg ch'"
    using ordered_acknowledge_inv [OF linked_inv [OF l advanced(2)], of i] advanced(4) by simp
  let ?A = "hm_get (incoming_active s)" and ?K = "DedupKey p c i"
  let ?O = "(hm_get (ordered s))((p, c) \<mapsto> ch')"
  show ?thesis
  proof (cases nxt)
    case None
    then have "in_flight ch' = None \<and> reorder_buffer ch' = reorder_buffer ch"
      using advanced(3,4) by (cases rule: ordered_acknowledge_cases [of i ch]) auto
    then have "store_linked cfg (?A(?K := None)) (hm_get (processed_dedup s)) ?O (failed_ordered s)"
      using ch' by (intro linked_complete_last [OF l advanced(2,3)]) auto
    then show ?thesis
      unfolding advanced(6) using inv None
      by (intro remember_inv [OF _ inv]) (auto simp: receive_inv_def length_hm_remove)
  next
    case (Some m)
    let ?e = "saturating_add (expected_sequence ch) 1"
    have m: "hm_get (reorder_buffer ch) ?e = Some m" "in_flight ch' = Some (om_message_id m)"
        "reorder_buffer ch' = hm_remove ?e (reorder_buffer ch)"
      using advanced(3,4) Some by (cases rule: ordered_acknowledge_cases [of i ch]; auto)+
    obtain x where x: "?A (DedupKey p c (om_message_id m)) = Some x" "ar_state x = OrderedBuffered"
      using linked_buffered [OF l advanced(2) m(1)] by auto
    then have ne: "om_message_id m \<noteq> i" using linked_in_flight [OF l advanced(2,3)] by auto
    have "store_linked cfg (?A(?K := None, DedupKey p c (om_message_id m) \<mapsto> promote cfg now x))
        (hm_get (processed_dedup s)) ?O (failed_ordered s)"
      by (rule linked_complete_next [OF l advanced(2,3) m(1) x(1) m(2) ch' m(3)])
    moreover have "hm_get (hm_modify (DedupKey p c (om_message_id m)) (promote cfg now)
        (hm_remove ?K (incoming_active s))) =
        ?A(?K := None, DedupKey p c (om_message_id m) \<mapsto> promote cfg now x)"
      using x ne by (simp add: hm_get_modify_Some)
    ultimately show ?thesis
      unfolding advanced(6) using inv Some ne
      by (intro remember_inv [OF _ inv]) (auto simp: receive_inv_def length_hm_remove)
  qed
qed

lemma close_peer_inv:
  assumes inv: "receive_inv cfg s"
  shows "receive_inv cfg (close_peer peer s)"
proof -
  note l = receive_inv_linked [OF inv]
  have wf: "hm_wf (incoming_active s)" "hm_wf (processed_dedup s)"
    using inv by (simp_all add: receive_inv_def)
  let ?A = "\<lambda>key. if dk_peer key = peer then None else hm_get (incoming_active s) key"
  let ?P = "\<lambda>key. if dk_peer key = peer then None else hm_get (processed_dedup s) key"
  have A: "hm_get (incoming_active (close_peer peer s)) = ?A"
    and P: "hm_get (processed_dedup (close_peer peer s)) = ?P"
    using wf by (auto simp: close_peer_def hm_get_retain fun_eq_iff split: option.splits)
  have "store_linked cfg ?A ?P (hm_get (ordered (close_peer peer s))) (failed_ordered (close_peer peer s))"
  proof (rule linkedI)
    fix key r
    assume "?A key = Some r"
    then have "dk_peer key \<noteq> peer" "record_linked (hm_get (processed_dedup s)) (hm_get (ordered s)) key r"
      using linked_record [OF l, of key r] by (auto split: if_splits)
    then show "record_linked ?P (hm_get (ordered (close_peer peer s))) key r"
      by (cases key) (auto simp: record_linked_def buffered_in_def close_peer_def)
  next
    fix p c ch
    assume "hm_get (ordered (close_peer peer s)) (p, c) = Some ch"
    then obtain ch0 where ch0: "hm_get (ordered s) (p, c) = Some ch0"
        "ch = (if p = peer then ch0\<lparr>in_flight := None, reorder_buffer := [], reorder_bytes := 0\<rparr> else ch0)"
      by (auto simp: close_peer_def)
    then show "channel_linked cfg ?A (failed_ordered (close_peer peer s)) p c ch"
      using linked_channel [OF l ch0(1)] channel_inv_cleared [of cfg ch0]
      by (auto simp: channel_linked_def close_peer_def)
  qed
  with inv show ?thesis
    unfolding receive_inv_def A P
    by (auto simp: close_peer_def intro: order_trans [OF length_hm_retain])
qed

end
