(* ===== verification/Delivery_Receive.thy ===== *)
theory Delivery_Receive
  imports Delivery_Receive_Inv
begin

text \<open>
  The receiving path of a business message after its payload has been opened
  (\<open>channel/inbound.rs\<close>): duplicate detection, ordered acceptance, the event handed to the
  application and the acknowledgement handed to the transport, together with the application's
  own acknowledgement, abandonment, the time-out scan and the explicit close of a peer.
  The properties speak about arbitrary sequences of these events.
\<close>

section \<open>Handling a message and an acknowledgement\<close>

datatype channel_effect =
    EmitMessage ordered_message
  | SendDeliveryAck string string message_id u64

datatype inbound_error =
    Delivery delivery_error
  | LostDedupRecord
  | HandlerCapacity
  | OrderedChannelFailed
  | ReorderLimits
  | AckNotSent
  | NotAwaitingAck

type_synonym channel_result = "(inbound_error + unit) \<times> channel_effect list \<times> delivery_store"

text \<open>
  The message \<open>incoming\<close> with the wire generation \<open>epoch\<close>; \<open>t1\<close> and \<open>t2\<close> are the clock readings of
  the two critical sections and \<open>sent\<close> is the outcome of transmitting an acknowledgement.
\<close>

definition deliver_incoming ::
  "delivery_config \<Rightarrow> bool \<Rightarrow> u64 \<Rightarrow> ordered_message \<Rightarrow> instant \<Rightarrow> instant \<Rightarrow> delivery_store \<Rightarrow> channel_result"
where
  "deliver_incoming cfg sent epoch incoming t1 t2 store =
     (if om_policy incoming = BestEffort then (Inr (), [EmitMessage incoming], store)
      else
        case begin_incoming_checked cfg (om_peer incoming) (om_channel incoming)
               (om_message_id incoming) epoch t1 store of
          (Inl e, store) \<Rightarrow> (Inl (Delivery e), [], store)
        | (Inr DuplicateInFlight, store) \<Rightarrow> (Inr (), [], store)
        | (Inr DuplicateProcessed, store) \<Rightarrow>
            (case incoming_recovery_epoch (om_peer incoming) (om_channel incoming)
                    (om_message_id incoming) store of
               None \<Rightarrow> (Inl LostDedupRecord, [], store)
             | Some e \<Rightarrow>
                 (if sent then Inr () else Inl AckNotSent,
                  [SendDeliveryAck (om_peer incoming) (om_session incoming)
                     (om_message_id incoming) e], store))
        | (Inr CapacityReached, store) \<Rightarrow> (Inl HandlerCapacity, [], store)
        | (Inr ChannelFailed, store) \<Rightarrow> (Inl OrderedChannelFailed, [], store)
        | (Inr New, store) \<Rightarrow>
            if om_policy incoming = SessionBoundOrdered then
              (case accept_ordered_at cfg incoming t2 store of
                 (Ready, store) \<Rightarrow> (Inr (), [EmitMessage incoming], store)
               | (Buffered, store) \<Rightarrow> (Inr (), [], store)
               | (Duplicate, store) \<Rightarrow>
                   (Inr (), [], snd (reject_incoming (om_peer incoming) (om_channel incoming)
                                       (om_message_id incoming) store))
               | (Rejected, store) \<Rightarrow>
                   (Inl ReorderLimits, [],
                    snd (reject_incoming (om_peer incoming) (om_channel incoming)
                           (om_message_id incoming) store)))
            else (Inr (), [EmitMessage incoming], store))"

definition acknowledge_delivered ::
  "delivery_config \<Rightarrow> ((dedup_key, processed_record) hmap \<Rightarrow> nat) \<Rightarrow> bool \<Rightarrow> string \<Rightarrow> string \<Rightarrow> string
   \<Rightarrow> message_id \<Rightarrow> instant \<Rightarrow> delivery_store \<Rightarrow> channel_result" where
  "acknowledge_delivered cfg pick sent peer_id session_id channel_id message_id now store =
     (case complete_incoming_checked cfg pick peer_id channel_id message_id now store of
        (Inl e, store) \<Rightarrow> (Inl (Delivery e), [], store)
      | (Inr None, store) \<Rightarrow> (Inl NotAwaitingAck, [], store)
      | (Inr (Some completion), store) \<Rightarrow>
          (if sent then Inr () else Inl AckNotSent,
           (case ic_next completion of None \<Rightarrow> [] | Some next \<Rightarrow> [EmitMessage next])
           @ [SendDeliveryAck peer_id session_id message_id (ic_epoch completion)],
           store))"

section \<open>Event sequences\<close>

datatype receive_event =
    Arrives bool u64 ordered_message instant instant
  | AppAck bool string string string message_id instant
  | Abandon string string message_id
  | Scan string instant
  | ClosePeer string

fun receive_step ::
  "delivery_config \<Rightarrow> ((dedup_key, processed_record) hmap \<Rightarrow> nat) \<Rightarrow> receive_event \<Rightarrow> delivery_store
   \<Rightarrow> channel_effect list \<times> delivery_store" where
  "receive_step cfg pick (Arrives sent epoch m t1 t2) s = snd (deliver_incoming cfg sent epoch m t1 t2 s)"
| "receive_step cfg pick (AppAck sent p ses c i now) s =
     snd (acknowledge_delivered cfg pick sent p ses c i now s)"
| "receive_step cfg pick (Abandon p c i) s = ([], snd (abandon_incoming p c i s))"
| "receive_step cfg pick (Scan p now) s = ([], snd (expire_incoming p now s))"
| "receive_step cfg pick (ClosePeer p) s = ([], close_peer p s)"

fun receive_run ::
  "delivery_config \<Rightarrow> ((dedup_key, processed_record) hmap \<Rightarrow> nat) \<Rightarrow> receive_event list \<Rightarrow> delivery_store
   \<Rightarrow> channel_effect list \<times> delivery_store" where
  "receive_run cfg pick [] s = ([], s)"
| "receive_run cfg pick (e # es) s =
     (case receive_step cfg pick e s of (out, s') \<Rightarrow>
        (case receive_run cfg pick es s' of (out', s'') \<Rightarrow> (out @ out', s'')))"

text \<open>The messages of an effect list that reach the application.\<close>

fun emitted :: "channel_effect list \<Rightarrow> ordered_message list" where
  "emitted [] = []"
| "emitted (EmitMessage m # es) = m # emitted es"
| "emitted (SendDeliveryAck p s i e # es) = emitted es"

lemma emitted_append [simp]: "emitted (xs @ ys) = emitted xs @ emitted ys"
  by (induction xs rule: emitted.induct) simp_all

section \<open>The outcomes of an arrival\<close>

text \<open>
  An arrival that is not new changes no record but the one of its own key; a new one
  enters the active records and, if its policy is ordered, the channel.
\<close>

lemma deliver_incoming_cases:
  assumes d: "deliver_incoming cfg sent epoch m t1 t2 s = (res, out, s')"
  obtains (best_effort) "om_policy m = BestEffort" "out = [EmitMessage m]" "s' = s"
  | (invalid) "out = []" "s' = s"
  | (known) dec where "om_policy m \<noteq> BestEffort"
      "begin_incoming cfg (om_peer m) (om_channel m) (om_message_id m) epoch t1 s = (dec, s')"
      "dec \<noteq> New" "emitted out = []"
  | (unordered) "om_policy m \<noteq> BestEffort" "om_policy m \<noteq> SessionBoundOrdered"
      "begin_incoming cfg (om_peer m) (om_channel m) (om_message_id m) epoch t1 s = (New, s')"
      "out = [EmitMessage m]"
  | (ordered) s1 r where "om_policy m = SessionBoundOrdered"
      "begin_incoming cfg (om_peer m) (om_channel m) (om_message_id m) epoch t1 s = (New, s1)"
      "accept_ordered_at cfg m t2 s1 = (r, s')" "r = Ready \<or> r = Buffered"
      "out = (if r = Ready then [EmitMessage m] else [])"
  | (refused) s1 s2 r where "om_policy m = SessionBoundOrdered"
      "begin_incoming cfg (om_peer m) (om_channel m) (om_message_id m) epoch t1 s = (New, s1)"
      "accept_ordered_at cfg m t2 s1 = (r, s2)" "r = Duplicate \<or> r = Rejected"
      "s' = s2\<lparr>incoming_active := hm_remove (message_key m) (incoming_active s2)\<rparr>" "out = []"
proof (cases "om_policy m = BestEffort
    \<or> \<not> (is_valid_peer_id (om_peer m) \<and> is_valid_scope_id (om_channel m))")
  case True
  then show ?thesis
    using d by (cases "om_policy m = BestEffort"; intro best_effort invalid)
      (simp_all add: deliver_incoming_def begin_incoming_checked_def)
next
  case False
  obtain dec s1 where b: "begin_incoming cfg (om_peer m) (om_channel m) (om_message_id m) epoch t1 s = (dec, s1)"
    by (cases "begin_incoming cfg (om_peer m) (om_channel m) (om_message_id m) epoch t1 s")
  have checked: "begin_incoming_checked cfg (om_peer m) (om_channel m) (om_message_id m) epoch t1 s = (Inr dec, s1)"
    using False b by (auto simp: begin_incoming_checked_def)
  show ?thesis
  proof (cases "dec = New")
    case dec: False
    then have "s' = s1" "emitted out = []"
      using d False checked
      by (cases dec; auto simp: deliver_incoming_def split: option.splits)+
    with False b show ?thesis by (intro known [OF _ _ dec]) auto
  next
    case New: True
    obtain r s2 where a: "accept_ordered_at cfg m t2 s1 = (r, s2)"
      by (cases "accept_ordered_at cfg m t2 s1")
    show ?thesis
    proof (cases "om_policy m = SessionBoundOrdered")
      case True
      have eq: "(res, out, s') =
          (if r = Rejected then Inl ReorderLimits else Inr (), if r = Ready then [EmitMessage m] else [],
           if r = Ready \<or> r = Buffered then s2
           else s2\<lparr>incoming_active := hm_remove (message_key m) (incoming_active s2)\<rparr>)"
        using d True checked New a
        by (cases r) (simp_all add: deliver_incoming_def reject_incoming_def Let_def)
      show ?thesis
      proof (cases "r = Ready \<or> r = Buffered")
        case ok: True
        with eq a b New True show ?thesis by (intro ordered [of s1 r]) simp_all
      next
        case no: False
        then have "r = Duplicate \<or> r = Rejected" by (cases r) simp_all
        with eq a b New True no show ?thesis by (intro refused [of s1 r s2]) auto
      qed
    next
      case unord: False
      then show ?thesis
        using d False checked New b by (intro unordered) (simp_all add: deliver_incoming_def)
    qed
  qed
qed

section \<open>Every event keeps the invariant\<close>

lemma begin_New_fresh:
  assumes inv: "receive_inv cfg s" and new: "begin_incoming cfg p c i e now s = (New, s1)"
  shows "receive_inv cfg s1" "hm_get (incoming_active s1) (DedupKey p c i) = Some (fresh_record cfg e now)"
    "\<And>ch. hm_get (ordered s1) (p, c) = Some ch \<Longrightarrow> in_flight ch \<noteq> Some i"
    "ordered s1 = ordered (swept p now s)" "failed_ordered s1 = failed_ordered (swept p now s)"
    "processed_dedup s1 = processed_dedup (swept p now s)"
proof -
  note facts = begin_incoming_New [OF new]
  show "receive_inv cfg s1" using begin_incoming_inv [OF inv, of p c i e now] new by simp
  show "hm_get (incoming_active s1) (DedupKey p c i) = Some (fresh_record cfg e now)"
    "ordered s1 = ordered (swept p now s)" "failed_ordered s1 = failed_ordered (swept p now s)"
    "processed_dedup s1 = processed_dedup (swept p now s)"
    by (simp_all add: facts(5))
  show "in_flight ch \<noteq> Some i" if "hm_get (ordered s1) (p, c) = Some ch" for ch
    using that facts(2,5) linked_in_flight [OF receive_inv_linked [OF swept_inv [OF inv, of p now]]]
    by fastforce
qed

lemma deliver_incoming_inv:
  assumes inv: "receive_inv cfg s" and d: "deliver_incoming cfg sent e m t1 t2 s = (res, out, s')"
  shows "receive_inv cfg s'"
  using d
proof (cases rule: deliver_incoming_cases)
  case (known dec)
  then show ?thesis
    using begin_incoming_inv [OF inv, of "om_peer m" "om_channel m" "om_message_id m" e t1] by simp
next
  case unordered
  then show ?thesis using begin_New_fresh(1) [OF inv] by blast
next
  case (ordered s1 r)
  note n = begin_New_fresh [OF inv ordered(2)]
  show ?thesis
    by (rule accept_ordered_inv [OF n(1) _ _ ordered(3)])
       (use n(2,3) in \<open>auto simp: fresh_record_def\<close>)
next
  case (refused s1 s2 r)
  note n = begin_New_fresh [OF inv refused(2)]
  have s2: "receive_inv cfg s2"
    by (rule accept_ordered_inv [OF n(1) _ _ refused(3)])
       (use n(2,3) in \<open>auto simp: fresh_record_def\<close>)
  have "map_option ar_state (hm_get (incoming_active s2) (message_key m)) = Some InFlight \<and>
      (\<forall>ch. hm_get (ordered s2) (message_scope m) = Some ch \<longrightarrow> in_flight ch \<noteq> Some (om_message_id m))"
    using refused(3)
  proof (cases rule: accept_ordered_cases)
    case refused
    then show ?thesis using n(2,3) by (simp add: fresh_record_def)
  next
    case (inserted x ch')
    have "ch' = channel_or_default s1 (message_scope m)"
      using inserted(3) refused(4) by (cases rule: ordered_insert_cases [of cfg m
          "channel_or_default s1 (message_scope m)"]) auto
    then show ?thesis
      using inserted(2,6,8) n(2,3) refused(4)
      by (auto simp: fresh_record_def channel_or_default_def ordered_channel_default_def split: option.splits)
  qed
  then show ?thesis
    unfolding refused(5) by (intro drop_active_inv [OF s2]) auto
qed (use inv in simp_all)

lemma acknowledge_delivered_cases:
  assumes "acknowledge_delivered cfg pick sent p ses c i now s = (res, out, s')"
  obtains (none) "emitted out = []" "s' = s"
  | (completed) comp where "complete_incoming_at cfg pick p c i now s = (comp, s')"
      "emitted out = (case comp of None \<Rightarrow> []
         | Some x \<Rightarrow> (case ic_next x of None \<Rightarrow> [] | Some m \<Rightarrow> [m]))"
proof (cases "is_valid_peer_id p \<and> is_valid_scope_id c")
  case False
  then show ?thesis using assms none
    by (auto simp: acknowledge_delivered_def complete_incoming_checked_def)
next
  case True
  obtain comp s1 where c1: "complete_incoming_at cfg pick p c i now s = (comp, s1)"
    by (cases "complete_incoming_at cfg pick p c i now s")
  with True have checked: "complete_incoming_checked cfg pick p c i now s = (Inr comp, s1)"
    by (simp add: complete_incoming_checked_def)
  show ?thesis
  proof (cases comp)
    case None
    with assms checked c1 show ?thesis
      by (intro completed [of comp]) (auto simp: acknowledge_delivered_def)
  next
    case (Some x)
    with assms checked c1 show ?thesis
      by (intro completed [of comp]) (auto simp: acknowledge_delivered_def split: option.splits)
  qed
qed

lemma receive_step_inv: "receive_inv cfg s \<Longrightarrow> receive_inv cfg (snd (receive_step cfg pick e s))"
proof (cases e)
  case (Arrives sent ep m t1 t2)
  assume "receive_inv cfg s"
  with Arrives show ?thesis
    by (cases "deliver_incoming cfg sent ep m t1 t2 s") (simp add: deliver_incoming_inv)
next
  case (AppAck sent p ses c i now)
  assume inv: "receive_inv cfg s"
  obtain res out s' where a: "acknowledge_delivered cfg pick sent p ses c i now s = (res, out, s')"
    by (cases "acknowledge_delivered cfg pick sent p ses c i now s")
  from a have "receive_inv cfg s'"
    by (cases rule: acknowledge_delivered_cases) (use inv in \<open>auto intro: complete_incoming_inv\<close>)
  with AppAck a show ?thesis by simp
qed (simp_all add: abandon_inv expire_inv close_peer_inv expire_incoming_def)

interpretation recv: invariant_system "\<lambda>e s. snd (receive_step cfg pick e s)" "receive_inv cfg" for cfg pick
  by unfold_locales (rule receive_step_inv)

lemma receive_run_state: "snd (receive_run cfg pick es s) = fold (\<lambda>e s. snd (receive_step cfg pick e s)) es s"
  by (induction es arbitrary: s) (simp_all add: case_prod_beta)

lemma receive_run_inv: "receive_inv cfg s \<Longrightarrow> receive_inv cfg (snd (receive_run cfg pick es s))"
  unfolding receive_run_state by (rule recv.run_inv)

lemma receive_inv_assertions:
  assumes inv: "receive_inv cfg s"
  shows "assert_delivery_invariants s"
proof -
  note l = receive_inv_linked [OF inv]
  have wf: "hm_wf (incoming_active s)" "hm_wf (ordered s)" using inv by (simp_all add: receive_inv_def)
  have "assert_active_record s key r" if "(key, r) \<in> set (incoming_active s)" for key r
    using linked_record [OF l hm_in_get [OF wf(1) that]]
    by (cases "ar_state r")
       (fastforce simp: assert_active_record_def record_linked_def buffered_in_def list_ex_iff
         dest: hm_get_Some_in split: option.splits)+
  moreover have "assert_ordered_channel s sc ch" if "(sc, ch) \<in> set (ordered s)" for sc ch
  proof -
    obtain p c where sc: "sc = (p, c)" by (cases sc)
    have ch: "hm_get (ordered s) (p, c) = Some ch" using hm_in_get [OF wf(2) that] sc by simp
    have buf: "hm_wf (reorder_buffer ch)" using linked_inv [OF l ch] by (simp add: channel_inv_def)
    have "\<exists>r. hm_get (incoming_active s) (message_key m) = Some r \<and> ar_state r = OrderedBuffered"
      if "(q, m) \<in> set (reorder_buffer ch)" for q m
      using linked_buffered [OF l ch hm_in_get [OF buf that]] by auto
    moreover have "\<exists>r. hm_get (incoming_active s) (DedupKey p c i) = Some r \<and> ar_state r = InFlight"
      if "in_flight ch = Some i" for i
      using linked_in_flight [OF l ch that] .
    ultimately show ?thesis
      by (fastforce simp: assert_ordered_channel_def sc list_all_iff split: option.splits)
  qed
  ultimately show ?thesis by (auto simp: assert_delivery_invariants_def list_all_iff)
qed

section \<open>Ordered channels release a prefix\<close>

definition on_channel :: "channel_scope \<Rightarrow> ordered_message \<Rightarrow> bool" where
  "on_channel sc m \<longleftrightarrow> om_policy m = SessionBoundOrdered \<and> message_scope m = sc"

text \<open>
  The history \<open>out\<close> of messages released on the channel \<open>sc\<close> is in order, and unless the channel has
  failed its state continues that history; \<open>Q\<close> holds of every released or waiting message.
\<close>

definition progress ::
  "(ordered_message \<Rightarrow> bool) \<Rightarrow> delivery_store \<Rightarrow> channel_scope \<Rightarrow> ordered_message list \<Rightarrow> bool" where
  "progress Q s sc out \<longleftrightarrow>
     map om_sequence out = map seqno [0..<length out] \<and> list_all Q out
     \<and> (sc \<notin> failed_ordered s \<longrightarrow> released_ok (channel_or_default s sc) out)
     \<and> (\<forall>q m. hm_get (reorder_buffer (channel_or_default s sc)) q = Some m \<longrightarrow> Q m)"

lemma channel_or_default_None [simp]:
  "hm_get (ordered s) sc = None \<Longrightarrow> channel_or_default s sc = ordered_channel_default"
  by (simp add: channel_or_default_def)

lemma channel_or_default_Some [simp]:
  "hm_get (ordered s) sc = Some ch \<Longrightarrow> channel_or_default s sc = ch"
  by (simp add: channel_or_default_def)

lemma progress_new: "progress Q delivery_store_new sc []"
  by (simp add: progress_def channel_or_default_def delivery_store_new_def released_default)
     (simp add: ordered_channel_default_def)

lemma progress_frame:
  assumes "progress Q s sc out" "sc \<in> failed_ordered s \<Longrightarrow> sc \<in> failed_ordered s'"
    and "hm_get (ordered s') sc = hm_get (ordered s) sc
      \<or> hm_get (ordered s') sc = None \<and> sc \<in> failed_ordered s'"
  shows "progress Q s' sc out"
  using assms(3)
proof
  assume "hm_get (ordered s') sc = hm_get (ordered s) sc"
  then have "channel_or_default s' sc = channel_or_default s sc" by (simp add: channel_or_default_def)
  with assms(1,2) show ?thesis by (auto simp: progress_def)
next
  assume "hm_get (ordered s') sc = None \<and> sc \<in> failed_ordered s'"
  with assms(1) show ?thesis by (auto simp: progress_def ordered_channel_default_def)
qed

lemma progress_shrinks: "progress Q s sc out \<Longrightarrow> shrinks s s' \<Longrightarrow> progress Q s' sc out"
  by (cases sc) (erule progress_frame; auto simp: shrinks_def)

lemma progress_swept: "receive_inv cfg s \<Longrightarrow> progress Q s sc out \<Longrightarrow> progress Q (swept p now s) sc out"
  using expire_inv [of cfg s "Some p" now] progress_shrinks
    progress_frame [of Q "snd (expire_incoming_locked (Some p) now s)" sc out "swept p now s"]
  by (auto simp: swept_def prune_processed_dedup_def)

lemma progress_begin:
  assumes "receive_inv cfg s" "progress Q s sc out" "begin_incoming cfg p c i e now s = (dec, s')"
  shows "progress Q s' sc out"
proof (rule progress_frame [OF progress_swept [OF assms(1,2), of p now]])
  show "sc \<in> failed_ordered (swept p now s) \<Longrightarrow> sc \<in> failed_ordered s'"
    "hm_get (ordered s') sc = hm_get (ordered (swept p now s)) sc
      \<or> hm_get (ordered s') sc = None \<and> sc \<in> failed_ordered s'"
    using assms(3) by (auto simp: begin_incoming_def swept_def Let_def split: if_splits)
qed

lemma progress_accept:
  assumes p: "progress Q s sc out" and acc: "accept_ordered_at cfg m now s = (res, s')"
    and Q: "on_channel sc m \<Longrightarrow> Q m" and pol: "om_policy m = SessionBoundOrdered"
  shows "progress Q s' sc (out @ filter (on_channel sc) (insert_released res m))"
  using acc
proof (cases rule: accept_ordered_cases)
  case refused
  with p show ?thesis by (simp add: insert_released_def)
next
  case (inserted r ch')
  show ?thesis
  proof (cases "message_scope m = sc")
    case False
    then have "filter (on_channel sc) (insert_released res m) = []"
      by (simp add: insert_released_def on_channel_def)
    moreover have "progress Q s' sc out"
      using False inserted(5,6) by (intro progress_frame [OF p]) auto
    ultimately show ?thesis by simp
  next
    case True
    then have on: "on_channel sc m" using pol by (simp add: on_channel_def)
    let ?ch = "channel_or_default s sc"
    have ins: "ordered_insert cfg m ?ch = (res, ch')" using inserted(3) True by simp
    have rel: "released_ok ?ch out" using p inserted(1) True by (simp add: progress_def)
    have ch': "channel_or_default s' sc = ch'" using inserted(6) True by (simp add: channel_or_default_def)
    have filt: "filter (on_channel sc) (insert_released res m) = insert_released res m"
      using on by (simp add: insert_released_def)
    have "released_ok ch' (out @ insert_released res m)" by (rule released_insert [OF rel ins])
    moreover from this have "map om_sequence (out @ insert_released res m) =
        map seqno [0..<length (out @ insert_released res m)]" by (simp add: released_ok_def)
    moreover have "list_all Q (out @ insert_released res m)"
      using p Q [OF on] by (auto simp: progress_def insert_released_def)
    moreover have "Q m'" if "hm_get (reorder_buffer ch') q = Some m'" for q m'
      using p Q [OF on] that ins
      by (cases rule: ordered_insert_cases [of cfg m ?ch]) (auto simp: progress_def split: if_splits)
    ultimately show ?thesis unfolding filt progress_def ch' by simp
  qed
qed

lemma progress_complete:
  assumes inv: "receive_inv cfg s" and p: "progress Q s sc out"
    and comp: "complete_incoming_at cfg pick pe c i now s = (res, s')"
    and Q: "\<And>m. Q m \<Longrightarrow> on_channel sc m"
    and nxt: "rel = (case res of None \<Rightarrow> [] | Some x \<Rightarrow> (case ic_next x of None \<Rightarrow> [] | Some m \<Rightarrow> [m]))"
  shows "progress Q s' sc (out @ filter (on_channel sc) rel)"
  using inv comp
proof (cases rule: complete_incoming_cases)
  case refused
  with p nxt show ?thesis by simp
next
  case (plain r)
  with p nxt show ?thesis by (auto intro: progress_frame [OF p])
next
  case (advanced r ch ch' nx)
  note l = receive_inv_linked [OF inv]
  have rel: "rel = (case nx of None \<Rightarrow> [] | Some m \<Rightarrow> [m])" using advanced(5) nxt by simp
  have s': "ordered s' = hm_insert (pe, c) ch' (ordered s)" "failed_ordered s' = failed_ordered s"
    by (simp_all add: advanced(6))
  have nx: "hm_get (reorder_buffer ch) (saturating_add (expected_sequence ch) 1) = Some m" if "nx = Some m" for m
    using advanced(4) that by (cases rule: ordered_acknowledge_cases [of i ch]) auto
  show ?thesis
  proof (cases "(pe, c) = sc")
    case False
    have "message_scope m = (pe, c)" if "nx = Some m" for m
      using linked_buffered [OF l advanced(2) nx [OF that]] by simp
    then have "filter (on_channel sc) rel = []"
      using False by (auto simp: rel on_channel_def split: option.splits)
    moreover have "progress Q s' sc out"
      using False s' by (intro progress_frame [OF p]) auto
    ultimately show ?thesis by simp
  next
    case True
    have "sc \<notin> failed_ordered s"
      using linked_channel [OF l advanced(2)] True by (auto simp: channel_linked_def)
    then have "released_ok ch out" using p True advanced(2) by (simp add: progress_def)
    then have r: "released_ok ch' (out @ rel)"
      unfolding rel by (rule released_acknowledge [OF linked_inv [OF l advanced(2)] _ advanced(4)])
    have Qbuf: "Q m" if "hm_get (reorder_buffer ch) q = Some m" for q m
      using p that True advanced(2) by (auto simp: progress_def)
    have Qrel: "list_all Q rel" using Qbuf nx by (auto simp: rel split: option.splits)
    then have filt: "filter (on_channel sc) rel = rel" using Q by (auto simp: rel split: option.splits)
    have ch': "channel_or_default s' sc = ch'" using s' True by (auto simp: channel_or_default_def)
    have "Q m" if "hm_get (reorder_buffer ch') q = Some m" for q m
      using Qbuf that advanced(4) by (cases rule: ordered_acknowledge_cases [of i ch]) (auto split: if_splits)
    with r Qrel p show ?thesis
      unfolding filt progress_def ch' by (auto simp: released_ok_def)
  qed
qed

lemma progress_deliver:
  assumes inv: "receive_inv cfg s" and p: "progress Q s sc out"
    and d: "deliver_incoming cfg sent ep m t1 t2 s = (res, eff, s')"
    and Q: "on_channel sc m \<Longrightarrow> Q m"
  shows "progress Q s' sc (out @ filter (on_channel sc) (emitted eff))"
  using d
proof (cases rule: deliver_incoming_cases)
  case best_effort
  with p show ?thesis by (simp add: on_channel_def)
next
  case invalid
  with p show ?thesis by simp
next
  case (known dec)
  with progress_begin [OF inv p] show ?thesis by simp
next
  case unordered
  with progress_begin [OF inv p] show ?thesis by (simp add: on_channel_def)
next
  case (ordered s1 r)
  have "emitted eff = insert_released r m" using ordered(5) by (simp add: insert_released_def)
  with progress_accept [OF progress_begin [OF inv p ordered(2)] ordered(3) Q ordered(1)] show ?thesis
    by simp
next
  case (refused s1 s2 r)
  have "insert_released r m = []" using refused(4) by (auto simp: insert_released_def)
  then have "progress Q s2 sc out"
    using progress_accept [OF progress_begin [OF inv p refused(2)] refused(3) Q refused(1)] by simp
  then have "progress Q s' sc out" by (rule progress_frame) (simp_all add: refused(5))
  with refused(6) show ?thesis by simp
qed

lemma progress_step:
  assumes inv: "receive_inv cfg s" and p: "progress Q s sc out"
    and Q: "\<And>m. Q m \<Longrightarrow> on_channel sc m"
    and arr: "\<And>sent ep m t1 t2. e = Arrives sent ep m t1 t2 \<Longrightarrow> on_channel sc m \<Longrightarrow> Q m"
    and not_closed: "e \<noteq> ClosePeer (fst sc)"
    and step: "receive_step cfg pick e s = (eff, s')"
  shows "progress Q s' sc (out @ filter (on_channel sc) (emitted eff))"
proof (cases e)
  case (Arrives sent ep m t1 t2)
  obtain res where "deliver_incoming cfg sent ep m t1 t2 s = (res, eff, s')"
    using step Arrives by (cases "deliver_incoming cfg sent ep m t1 t2 s") simp
  from progress_deliver [OF inv p this] arr [OF Arrives] show ?thesis by blast
next
  case (AppAck sent pe ses c i now)
  obtain res where a: "acknowledge_delivered cfg pick sent pe ses c i now s = (res, eff, s')"
    using step AppAck by (cases "acknowledge_delivered cfg pick sent pe ses c i now s") simp
  from a show ?thesis
  proof (cases rule: acknowledge_delivered_cases)
    case none
    with p show ?thesis by simp
  next
    case (completed comp)
    show ?thesis by (rule progress_complete [OF inv p completed(1) Q completed(2)])
  qed
next
  case (Abandon pe c i)
  with step abandon_inv [OF inv, of pe c i] progress_shrinks [OF p] show ?thesis by auto
next
  case (Scan pe now)
  with step expire_inv [OF inv, of "Some pe" now] progress_shrinks [OF p] show ?thesis
    by (auto simp: expire_incoming_def)
next
  case (ClosePeer pe)
  then have "fst sc \<noteq> pe" using not_closed by auto
  then have "progress Q (close_peer pe s) sc out"
    by (intro progress_frame [OF p]) (simp_all add: close_peer_def option.map_ident)
  with step ClosePeer show ?thesis by auto
qed

lemma progress_run:
  assumes "receive_inv cfg s" "progress Q s sc out" "\<And>m. Q m \<Longrightarrow> on_channel sc m"
    and "\<And>sent ep m t1 t2. Arrives sent ep m t1 t2 \<in> set es \<Longrightarrow> on_channel sc m \<Longrightarrow> Q m"
    and "ClosePeer (fst sc) \<notin> set es" "receive_run cfg pick es s = (eff, s')"
  shows "progress Q s' sc (out @ filter (on_channel sc) (emitted eff))"
  using assms
proof (induction es arbitrary: s out eff)
  case (Cons e es)
  obtain eff1 s1 where one: "receive_step cfg pick e s = (eff1, s1)" by (cases "receive_step cfg pick e s")
  obtain eff2 where two: "receive_run cfg pick es s1 = (eff2, s')" "eff = eff1 @ eff2"
    using Cons.prems(6) one by (cases "receive_run cfg pick es s1") auto
  have s1: "receive_inv cfg s1" using receive_step_inv [OF Cons.prems(1), of pick e] one by simp
  have p1: "progress Q s1 sc (out @ filter (on_channel sc) (emitted eff1))"
    by (rule progress_step [OF Cons.prems(1-3) Cons.prems(4) _ one]) (use Cons.prems(5) in auto)
  have arr: "Q m" if "Arrives sent ep m t1 t2 \<in> set es" "on_channel sc m" for sent ep m t1 t2
    using that by (intro Cons.prems(4)) auto
  from Cons.IH [OF s1 p1 Cons.prems(3) arr _ two(1)] Cons.prems(5) two(2) show ?case by simp
qed simp

section \<open>No message is handled twice within the window\<close>

fun event_times :: "receive_event \<Rightarrow> instant list" where
  "event_times (Arrives sent epoch m t1 t2) = [t1, t2]"
| "event_times (AppAck sent p ses c i now) = [now]"
| "event_times (Scan p now) = [now]"
| "event_times (Abandon p c i) = []"
| "event_times (ClosePeer p) = []"

fun is_app_ack :: "receive_event \<Rightarrow> bool" where
  "is_app_ack (AppAck sent p ses c i now) = True"
| "is_app_ack _ = False"

definition in_window :: "delivery_config \<Rightarrow> instant \<Rightarrow> instant \<Rightarrow> bool" where
  "in_window cfg t0 t \<longleftrightarrow> t0 \<le> t \<and> t < t0 + dedup_ttl cfg \<and> t < t0 + application_ack_timeout cfg"

fun window_event :: "delivery_config \<Rightarrow> instant \<Rightarrow> receive_event \<Rightarrow> bool" where
  "window_event cfg t0 (Abandon p c i) = False"
| "window_event cfg t0 (ClosePeer p) = False"
| "window_event cfg t0 e = list_all (in_window cfg t0) (event_times e)"

text \<open>No record of the store can expire inside the window, and the history has room for \<open>k\<close> more.\<close>

definition calm :: "delivery_config \<Rightarrow> instant \<Rightarrow> nat \<Rightarrow> delivery_store \<Rightarrow> bool" where
  "calm cfg t0 k s \<longleftrightarrow>
     (\<forall>key r d. hm_get (incoming_active s) key = Some r \<longrightarrow> ack_deadline r = Some d \<longrightarrow>
        t0 + application_ack_timeout cfg \<le> d)
     \<and> (\<forall>key r. hm_get (processed_dedup s) key = Some r \<longrightarrow> t0 + dedup_ttl cfg \<le> pr_expires_at r)
     \<and> length (processed_dedup s) + k \<le> dedup_max_entries cfg"

definition seen :: "delivery_store \<Rightarrow> dedup_key \<Rightarrow> bool" where
  "seen s key \<longleftrightarrow> map_option ar_state (hm_get (incoming_active s) key) = Some InFlight
     \<or> hm_get (processed_dedup s) key \<noteq> None"

definition tracked :: "delivery_store \<Rightarrow> ordered_message list \<Rightarrow> bool" where
  "tracked s out \<longleftrightarrow> distinct (map message_key out) \<and> (\<forall>m\<in>set out. seen s (message_key m))"

definition reliable :: "ordered_message \<Rightarrow> bool" where
  "reliable m \<longleftrightarrow> om_policy m \<noteq> BestEffort"

lemma tracked_mono: "tracked s out \<Longrightarrow> (\<And>key. seen s key \<Longrightarrow> seen s' key) \<Longrightarrow> tracked s' out"
  by (auto simp: tracked_def)

lemma tracked_snoc:
  "tracked s out \<Longrightarrow> \<not> seen s (message_key m) \<Longrightarrow> (\<And>key. seen s key \<Longrightarrow> seen s' key) \<Longrightarrow>
     seen s' (message_key m) \<Longrightarrow> tracked s' (out @ [m])"
  by (auto simp: tracked_def)

lemma hm_retain_all: "(\<And>k v. (k, v) \<in> set m \<Longrightarrow> P k v) \<Longrightarrow> hm_retain P m = m"
  by (auto simp: hm_retain_def intro!: filter_True)

lemma calm_swept:
  assumes inv: "receive_inv cfg s" and calm: "calm cfg t0 k s" and t: "in_window cfg t0 t"
  shows "snd (expire_incoming_locked p t s) = s" "swept pe t s = s"
proof -
  have wf: "hm_wf (incoming_active s)" "hm_wf (processed_dedup s)"
    using inv by (simp_all add: receive_inv_def)
  have "\<not> timed_out p t (key, r)" if "(key, r) \<in> set (incoming_active s)" for p key r
    using hm_in_get [OF wf(1) that] calm t
    by (fastforce simp: timed_out_def calm_def in_window_def split: option.splits active_incoming_state.splits)
  then have none: "filter (timed_out p t) (incoming_active s) = []" for p
    by (auto simp: filter_empty_conv)
  then show exp: "snd (expire_incoming_locked p t s) = s" for p
    by (simp add: expire_nothing)
  have "hm_retain (\<lambda>_ r. t < pr_expires_at r) (processed_dedup s) = processed_dedup s"
    using calm t hm_in_get [OF wf(2)]
    by (intro hm_retain_all) (fastforce simp: calm_def in_window_def)
  then show "swept pe t s = s" by (simp add: swept_def exp prune_processed_dedup_def)
qed

lemma calm_known:
  assumes inv: "receive_inv cfg s" and calm: "calm cfg t0 k s" and t: "in_window cfg t0 t"
    and b: "begin_incoming cfg p c i e t s = (dec, s')" "dec \<noteq> New"
  shows "calm cfg t0 k s' \<and> (\<forall>key. seen s key \<longrightarrow> seen s' key)"
proof -
  have sw: "prune_processed_dedup t (snd (expire_incoming_locked (Some p) t s)) = s"
    using calm_swept(2) [OF inv calm t, of p] by (simp add: swept_def)
  have t': "t0 + dedup_ttl cfg \<le> t + dedup_ttl cfg" using t by (simp add: in_window_def)
  from b show ?thesis
    unfolding begin_incoming_def Let_def sw using calm t'
    by (auto simp: calm_def seen_def option.map_comp comp_def split: if_splits)
qed

lemma calm_new:
  assumes inv: "receive_inv cfg s" and calm: "calm cfg t0 k s" and t: "in_window cfg t0 t"
    and b: "begin_incoming cfg p c i e t s = (New, s')"
  shows "calm cfg t0 k s'" "\<not> seen s (DedupKey p c i)" "seen s' (DedupKey p c i)"
    "\<And>key. seen s key \<Longrightarrow> seen s' key"
    "s' = s\<lparr>incoming_active := hm_insert (DedupKey p c i) (fresh_record cfg e t) (incoming_active s)\<rparr>"
proof -
  note facts = begin_incoming_New [OF b, unfolded calm_swept(2) [OF inv calm t]]
  show "s' = s\<lparr>incoming_active := hm_insert (DedupKey p c i) (fresh_record cfg e t) (incoming_active s)\<rparr>"
    by (rule facts(5))
  show "calm cfg t0 k s'" "\<not> seen s (DedupKey p c i)" "seen s' (DedupKey p c i)"
    "\<And>key. seen s key \<Longrightarrow> seen s' key"
    using calm t facts by (auto simp: calm_def seen_def fresh_record_def in_window_def)
qed

lemma calm_accept:
  assumes calm: "calm cfg t0 k s" and t: "in_window cfg t0 t"
    and acc: "accept_ordered_at cfg m t s = (res, s')"
  shows "calm cfg t0 k s' \<and> (\<forall>key. key \<noteq> message_key m \<longrightarrow> seen s key \<longrightarrow> seen s' key)
    \<and> (res = Ready \<longrightarrow> seen s' (message_key m))"
  using acc
proof (cases rule: accept_ordered_cases)
  case refused
  with calm show ?thesis by simp
next
  case (inserted r ch')
  with calm t show ?thesis
    by (cases res) (auto simp: calm_def seen_def promote_def in_window_def)
qed

lemma window_deliver:
  assumes inv: "receive_inv cfg s" and calm: "calm cfg t0 k s" and tr: "tracked s out"
    and t: "in_window cfg t0 t1" "in_window cfg t0 t2"
    and d: "deliver_incoming cfg sent ep m t1 t2 s = (res, eff, s')"
  shows "calm cfg t0 k s' \<and> tracked s' (out @ filter reliable (emitted eff))"
  using d
proof (cases rule: deliver_incoming_cases)
  case best_effort
  with calm tr show ?thesis by (simp add: reliable_def)
next
  case invalid
  with calm tr show ?thesis by simp
next
  case (known dec)
  with calm_known [OF inv calm t(1) known(2,3)] tr show ?thesis
    by (auto intro: tracked_mono)
next
  case unordered
  note n = calm_new [OF inv calm t(1) unordered(3)]
  from tracked_snoc [OF tr n(2,4,3)] n(1) unordered show ?thesis by (simp add: reliable_def)
next
  case (ordered s1 r)
  note n = calm_new [OF inv calm t(1) ordered(2)]
  note a = calm_accept [OF n(1) t(2) ordered(3)]
  have keep: "seen s' key" if "seen s key" for key
    using that n(2,4) a by metis
  show ?thesis
  proof (cases "r = Ready")
    case True
    with tracked_snoc [OF tr n(2) keep] a ordered(1,5) show ?thesis by (simp add: reliable_def)
  next
    case False
    with tracked_mono [OF tr keep] a ordered(5) show ?thesis by simp
  qed
next
  case (refused s1 s2 r)
  note n = calm_new [OF inv calm t(1) refused(2)]
  note a = calm_accept [OF n(1) t(2) refused(3)]
  have "seen s' key" if "seen s key" for key
  proof -
    have "key \<noteq> message_key m" using that n(2) by auto
    with that n(4) a have "seen s2 key" by blast
    with \<open>key \<noteq> message_key m\<close> show ?thesis by (simp add: seen_def refused(5))
  qed
  moreover have "calm cfg t0 k s'" using a by (auto simp: calm_def refused(5))
  ultimately show ?thesis using tracked_mono [OF tr] refused(6) by simp
qed

lemma calm_remember:
  assumes wf: "hm_wf (processed_dedup s)" and calm: "calm cfg t0 (Suc k) s" and t: "in_window cfg t0 t"
  shows "calm cfg t0 k (remember_processed pick key (processed_now cfg t r) (dedup_max_entries cfg) s)"
    and "hm_get (processed_dedup (remember_processed pick key (processed_now cfg t r)
           (dedup_max_entries cfg) s)) = (hm_get (processed_dedup s))(key \<mapsto> processed_now cfg t r)"
proof -
  have live: "hm_retain (\<lambda>_ x. pr_last_seen_at (processed_now cfg t r) < pr_expires_at x) (processed_dedup s)
      = processed_dedup s"
    using calm t hm_in_get [OF wf]
    by (intro hm_retain_all) (fastforce simp: calm_def in_window_def processed_now_def)
  have "evict_processed pick (dedup_max_entries cfg) (processed_dedup s) = processed_dedup s"
    using calm by (intro evict_processed_facts(4) [OF wf]) (simp add: calm_def)
  with live calm have eq: "remember_processed pick key (processed_now cfg t r) (dedup_max_entries cfg) s =
      s\<lparr>processed_dedup := hm_insert key (processed_now cfg t r) (processed_dedup s)\<rparr>"
    by (auto simp: remember_processed_def Let_def calm_def)
  show "hm_get (processed_dedup (remember_processed pick key (processed_now cfg t r)
      (dedup_max_entries cfg) s)) = (hm_get (processed_dedup s))(key \<mapsto> processed_now cfg t r)"
    by (simp add: eq)
  show "calm cfg t0 k (remember_processed pick key (processed_now cfg t r) (dedup_max_entries cfg) s)"
    unfolding eq using calm t by (auto simp: calm_def length_hm_insert processed_now_def in_window_def)
qed

lemma window_complete:
  assumes inv: "receive_inv cfg s" and calm: "calm cfg t0 (Suc k) s" and tr: "tracked s out"
    and t: "in_window cfg t0 t"
    and comp: "complete_incoming_at cfg pick p c i t s = (res, s')"
    and rel: "rel = (case res of None \<Rightarrow> [] | Some x \<Rightarrow> (case ic_next x of None \<Rightarrow> [] | Some m \<Rightarrow> [m]))"
    and pol: "\<And>m. m \<in> set rel \<Longrightarrow> reliable m"
  shows "calm cfg t0 k s' \<and> tracked s' (out @ filter reliable rel)"
  using inv comp
proof (cases rule: complete_incoming_cases)
  case refused
  with calm tr rel show ?thesis by (auto simp: calm_def)
next
  case (plain r)
  let ?s = "s\<lparr>incoming_active := hm_remove (DedupKey p c i) (incoming_active s)\<rparr>"
  have c: "calm cfg t0 (Suc k) ?s" using calm by (auto simp: calm_def)
  have wf: "hm_wf (processed_dedup ?s)" using inv by (simp add: receive_inv_def)
  note r = calm_remember [OF wf c t, of pick "DedupKey p c i" r]
  have "seen s' key" if "seen s key" for key
    using that r(2) by (auto simp: seen_def plain(5))
  with r(1) tr rel plain(4,5) show ?thesis by (auto intro: tracked_mono)
next
  case (advanced r ch ch' nxt)
  note l = receive_inv_linked [OF inv]
  let ?act = "case nxt of None \<Rightarrow> hm_remove (DedupKey p c i) (incoming_active s)
     | Some m \<Rightarrow> hm_modify (DedupKey p c (om_message_id m)) (promote cfg t)
         (hm_remove (DedupKey p c i) (incoming_active s))"
  let ?s = "s\<lparr>ordered := hm_insert (p, c) ch' (ordered s), incoming_active := ?act\<rparr>"
  have c: "calm cfg t0 (Suc k) ?s"
    using calm t by (auto simp: calm_def promote_def in_window_def split: option.splits if_splits)
  have wf: "hm_wf (processed_dedup ?s)" using inv by (simp add: receive_inv_def)
  note r = calm_remember [OF wf c t, of pick "DedupKey p c i" r]
  have keep: "seen s' key" if "seen s key" for key
    using that r(2) by (auto simp: seen_def advanced(6) promote_def split: option.splits)
  have rel': "rel = (case nxt of None \<Rightarrow> [] | Some m \<Rightarrow> [m])" using advanced(5) rel by simp
  show ?thesis
  proof (cases nxt)
    case None
    with r(1) tracked_mono [OF tr keep] rel' advanced(6) show ?thesis by simp
  next
    case (Some m)
    have "hm_get (reorder_buffer ch) (saturating_add (expected_sequence ch) 1) = Some m"
      using advanced(4) Some by (cases rule: ordered_acknowledge_cases [of i ch]) auto
    from linked_buffered [OF l advanced(2) this] obtain x where m: "message_scope m = (p, c)"
      and x: "hm_get (incoming_active s) (message_key m) = Some x" "ar_state x = OrderedBuffered" by auto
    have new: "\<not> seen s (message_key m)"
      using x linked_record [OF l x(1)] by (simp add: seen_def record_linked_def)
    have ne: "om_message_id m \<noteq> i"
      using linked_in_flight [OF l advanced(2,3)] x m by auto
    have "seen s' (message_key m)"
      using x m ne Some by (simp add: seen_def advanced(6) promote_def)
    from tracked_snoc [OF tr new keep this] r(1) rel' Some pol advanced(6) show ?thesis by simp
  qed
qed

definition buffers_ordered :: "delivery_store \<Rightarrow> bool" where
  "buffers_ordered s \<longleftrightarrow> (\<forall>sc. \<exists>out. progress (on_channel sc) s sc out)"

lemma buffers_ordered_step:
  assumes "receive_inv cfg s" "buffers_ordered s" "window_event cfg t0 e"
  shows "buffers_ordered (snd (receive_step cfg pick e s))"
  unfolding buffers_ordered_def
proof
  fix sc
  obtain out where "progress (on_channel sc) s sc out"
    using assms(2) unfolding buffers_ordered_def by blast
  moreover have "e \<noteq> ClosePeer (fst sc)" using assms(3) by auto
  ultimately show "\<exists>out. progress (on_channel sc) (snd (receive_step cfg pick e s)) sc out"
    using progress_step [OF assms(1), of "on_channel sc" sc out e pick]
    by (cases "receive_step cfg pick e s") (simp, blast)
qed

lemma buffers_ordered_next:
  assumes "buffers_ordered s" "hm_get (ordered s) sc = Some ch" "hm_get (reorder_buffer ch) q = Some m"
  shows "reliable m"
proof -
  obtain out where "progress (on_channel sc) s sc out"
    using assms(1) unfolding buffers_ordered_def by blast
  with assms(2,3) show ?thesis by (auto simp: progress_def on_channel_def reliable_def)
qed

lemma completion_next_reliable:
  assumes inv: "receive_inv cfg s" and b: "buffers_ordered s"
    and comp: "complete_incoming_at cfg pick p c i t s = (Some x, s')" "ic_next x = Some m"
  shows "reliable m"
  using inv comp(1)
proof (cases rule: complete_incoming_cases)
  case (advanced r ch ch' nxt)
  with comp(2) have "hm_get (reorder_buffer ch) (saturating_add (expected_sequence ch) 1) = Some m"
    by (cases rule: ordered_acknowledge_cases [of i ch]) auto
  with buffers_ordered_next [OF b advanced(2)] show ?thesis .
qed (use comp(2) in simp_all)

lemma window_step:
  assumes inv: "receive_inv cfg s" and b: "buffers_ordered s" and tr: "tracked s out"
    and calm: "calm cfg t0 ((if is_app_ack e then 1 else 0) + k) s" and e: "window_event cfg t0 e"
    and step: "receive_step cfg pick e s = (eff, s')"
  shows "calm cfg t0 k s' \<and> tracked s' (out @ filter reliable (emitted eff))"
proof (cases e)
  case (Arrives sent ep m t1 t2)
  obtain res where d: "deliver_incoming cfg sent ep m t1 t2 s = (res, eff, s')"
    using step Arrives by (cases "deliver_incoming cfg sent ep m t1 t2 s") simp
  show ?thesis by (rule window_deliver [OF inv _ tr _ _ d]) (use calm e Arrives in simp_all)
next
  case (AppAck sent pe ses c i now)
  obtain res where a: "acknowledge_delivered cfg pick sent pe ses c i now s = (res, eff, s')"
    using step AppAck by (cases "acknowledge_delivered cfg pick sent pe ses c i now s") simp
  from a show ?thesis
  proof (cases rule: acknowledge_delivered_cases)
    case none
    with calm tr AppAck show ?thesis by (simp add: calm_def)
  next
    case (completed comp)
    show ?thesis
    proof (rule window_complete [OF inv _ tr _ completed])
      fix m
      assume "m \<in> set (emitted eff)"
      with completed show "reliable m"
        by (auto split: option.splits intro: completion_next_reliable [OF inv b])
    qed (use calm e AppAck in simp_all)
  qed
next
  case (Scan pe now)
  then have "in_window cfg t0 now" "calm cfg t0 k s" using e calm by simp_all
  from calm_swept(1) [OF inv this(2,1), of "Some pe"] this(2) step tr Scan show ?thesis
    by (auto simp: expire_incoming_def)
qed (use e in simp_all)

lemma window_run:
  assumes "receive_inv cfg s" "buffers_ordered s" "tracked s out"
    and "calm cfg t0 (length (filter is_app_ack es)) s" "list_all (window_event cfg t0) es"
    and "receive_run cfg pick es s = (eff, s')"
  shows "tracked s' (out @ filter reliable (emitted eff))"
  using assms
proof (induction es arbitrary: s out eff)
  case (Cons e es)
  obtain eff1 s1 where one: "receive_step cfg pick e s = (eff1, s1)" by (cases "receive_step cfg pick e s")
  obtain eff2 where two: "receive_run cfg pick es s1 = (eff2, s')" "eff = eff1 @ eff2"
    using Cons.prems(6) one by (cases "receive_run cfg pick es s1") auto
  have e: "window_event cfg t0 e" "list_all (window_event cfg t0) es" using Cons.prems(5) by simp_all
  have inv: "receive_inv cfg s1" "buffers_ordered s1"
    using receive_step_inv [OF Cons.prems(1), of pick e]
      buffers_ordered_step [OF Cons.prems(1,2) e(1), of pick] one by simp_all
  have "calm cfg t0 (length (filter is_app_ack es)) s1
      \<and> tracked s1 (out @ filter reliable (emitted eff1))"
    using Cons.prems(4) by (intro window_step [OF Cons.prems(1-3) _ e(1) one]) (simp split: if_splits)
  then show ?case
    using Cons.IH [OF inv _ _ e(2) two(1), of "out @ filter reliable (emitted eff1)"] two(2) by simp
qed simp

section \<open>Properties of the receiving side\<close>

lemma released_prefix:
  assumes seq: "map om_sequence out = map seqno [0..<length out]"
    and Q: "\<And>m. m \<in> set out \<Longrightarrow> unat (om_sequence m) < length msgs \<and> f m = msgs ! unat (om_sequence m)"
    and len: "length msgs < 2 ^ 64"
  shows "length out \<le> length msgs \<and> map f out = take (length out) msgs"
proof -
  have nth: "om_sequence (out ! i) = seqno i" if "i < length out" for i
    using that seq by (metis (no_types, lifting) add_0 length_map map_nth nth_map nth_upt)
  have le: "length out \<le> length msgs"
  proof (rule ccontr)
    assume "\<not> ?thesis"
    then have "length msgs < length out" by simp
    with Q [of "out ! length msgs"] nth [of "length msgs"] len show False
      by (simp add: unat_seqno)
  qed
  have "f (out ! i) = msgs ! i" if "i < length out" for i
    using Q [of "out ! i"] nth [OF that] that le len by (simp add: unat_seqno)
  with le show ?thesis by (auto intro: nth_equalityI)
qed


text \<open>
  C16. ordered delivery.  Let \<open>msgs\<close> be the messages a sender put on an ordered channel, and let
  the network lose, duplicate, delay and reorder them at will, on any number of connections.
  As long as the peer is not explicitly closed, what the application is shown on that
  channel is a prefix of \<open>msgs\<close>: nothing is skipped, repeated or out of order.
\<close>

theorem ordered_messages_in_order:
  assumes arrivals: "\<And>sent ep m t1 t2. Arrives sent ep m t1 t2 \<in> set es \<Longrightarrow> on_channel sc m \<Longrightarrow>
      unat (om_sequence m) < length msgs
      \<and> (om_message_id m, om_payload m) = msgs ! unat (om_sequence m)"
    and not_closed: "ClosePeer (fst sc) \<notin> set es" and len: "length msgs < 2 ^ 64"
  shows "\<exists>n \<le> length msgs. map (\<lambda>m. (om_message_id m, om_payload m))
      (filter (on_channel sc) (emitted (fst (receive_run cfg pick es delivery_store_new)))) = take n msgs"
proof -
  define Q where "Q m \<longleftrightarrow> on_channel sc m \<and> unat (om_sequence m) < length msgs
    \<and> (om_message_id m, om_payload m) = msgs ! unat (om_sequence m)" for m
  obtain eff s' where run: "receive_run cfg pick es delivery_store_new = (eff, s')"
    by (cases "receive_run cfg pick es delivery_store_new")
  have "progress Q s' sc ([] @ filter (on_channel sc) (emitted eff))"
    by (rule progress_run [OF receive_inv_new progress_new _ _ not_closed run])
       (use arrivals in \<open>auto simp: Q_def\<close>)
  then have "map om_sequence (filter (on_channel sc) (emitted eff)) =
      map seqno [0..<length (filter (on_channel sc) (emitted eff))]"
    and "list_all Q (filter (on_channel sc) (emitted eff))"
    by (simp_all add: progress_def)
  then show ?thesis
    using released_prefix [OF _ _ len, of "filter (on_channel sc) (emitted eff)"
        "\<lambda>m. (om_message_id m, om_payload m)"] run
    by (auto simp: Q_def list_all_iff)
qed

text \<open>
  C11. at-most-once handling.  In any run that stays within the retention times of the store
  and completes no more messages than the history holds, without an explicit abandonment
  or close, the application is shown every acknowledged message at most once, however
  often it is retransmitted and on however many connections.
\<close>

theorem at_most_once_in_window:
  assumes "list_all (window_event cfg t0) es" "length (filter is_app_ack es) \<le> dedup_max_entries cfg"
  shows "distinct (map message_key
    (filter reliable (emitted (fst (receive_run cfg pick es delivery_store_new)))))"
proof -
  obtain eff s' where run: "receive_run cfg pick es delivery_store_new = (eff, s')"
    by (cases "receive_run cfg pick es delivery_store_new")
  have "buffers_ordered delivery_store_new"
    unfolding buffers_ordered_def using progress_new by blast
  moreover have "tracked delivery_store_new []" by (simp add: tracked_def)
  moreover have "calm cfg t0 (length (filter is_app_ack es)) delivery_store_new"
    using assms(2) by (simp add: calm_def delivery_store_new_def)
  ultimately have "tracked s' ([] @ filter reliable (emitted eff))"
    by (rule window_run [OF receive_inv_new _ _ _ assms(1) run])
  with run show ?thesis by (simp add: tracked_def)
qed

text \<open>
  A concrete exchange: the second message overtakes the first one, both are retransmitted, and
  the application acknowledges the first one.
\<close>

definition sample_message :: "u64 \<Rightarrow> ordered_message" where
  "sample_message q = \<lparr>om_peer = ''p'', om_session = ''s'', om_channel = ''c'', om_message_id = [ucast q],
     om_sequence = q, om_policy = SessionBoundOrdered, om_payload = [ucast q]\<rparr>"

definition sample_events :: "receive_event list" where
  "sample_events = [Arrives True 1 (sample_message 1) 0 0, Arrives True 1 (sample_message 0) 1 1,
     Arrives True 2 (sample_message 0) 2 2, AppAck True ''p'' ''s'' ''c'' [0] 3,
     Arrives True 2 (sample_message 1) 4 4]"

definition sample_sent :: "(message_id \<times> byte list) list" where
  "sample_sent = [([0], [0]), ([1], [1])]"

lemmas deliver_eval = deliver_incoming_def begin_incoming_checked_def begin_incoming_def
  accept_ordered_at_def ordered_insert_def ordered_acknowledge_def acknowledge_delivered_def
  complete_incoming_checked_def complete_incoming_at_def completion_allowed_def
  next_buffered_key_def reject_incoming_def expire_incoming_locked_def prune_processed_dedup_def
  timed_out_def remember_processed_def evict_processed.simps is_valid_peer_id_def
  is_valid_scope_id_def MAX_SCOPE_ID_BYTES_def MAX_ACTIVE_INCOMING_RECORDS_def
  default_delivery_config_def ordered_channel_default_def hm_insert_def hm_remove_def
  hm_retain_def hm_modify_def hm_map_def saturating_succ saturating_sub_def delivery_store_new_def
  incoming_recovery_epoch_def abandon_incoming_def fail_ordered_channel_def close_peer_def
  sample_message_def Let_def

lemma sample_run_emits:
  "emitted (fst (receive_run default_delivery_config (\<lambda>_. 0) sample_events delivery_store_new)) =
     [sample_message 0, sample_message 1]"
  by (simp add: sample_events_def deliver_eval)

lemma sample_sent_0: "sample_sent ! 0 = ([0], [0])" and sample_sent_1: "sample_sent ! Suc 0 = ([1], [1])"
  by (simp_all add: sample_sent_def)

theorem ordered_messages_in_order_witness:
  "\<exists>n \<le> length sample_sent. map (\<lambda>m. (om_message_id m, om_payload m))
      (filter (on_channel (''p'', ''c''))
        (emitted (fst (receive_run default_delivery_config (\<lambda>_. 0) sample_events delivery_store_new))))
      = take n sample_sent"
proof (rule ordered_messages_in_order)
  fix sent ep m t1 t2
  assume "Arrives sent ep m t1 t2 \<in> set sample_events"
  then have "m = sample_message 0 \<or> m = sample_message 1" by (auto simp: sample_events_def)
  then show "unat (om_sequence m) < length sample_sent
      \<and> (om_message_id m, om_payload m) = sample_sent ! unat (om_sequence m)"
    by (auto simp: sample_message_def sample_sent_0 sample_sent_1) (simp_all add: sample_sent_def)
qed (simp_all add: sample_events_def sample_sent_def)

theorem at_most_once_in_window_witness:
  "distinct (map message_key (filter reliable
     (emitted (fst (receive_run default_delivery_config (\<lambda>_. 0) sample_events delivery_store_new)))))"
  by (rule at_most_once_in_window [where ?t0.0 = 0])
     (simp_all add: sample_events_def in_window_def default_delivery_config_def)

section \<open>Where the ordered channel loses messages\<close>

text \<open>
  A retransmission of an ordered message whose history record has expired is older than the
  channel expects: it is dropped as a duplicate without being acknowledged again, so its
  sender keeps retransmitting until its own budget is exhausted.
\<close>

theorem expired_ordered_duplicate_unacknowledged:
  "let s = snd (receive_run default_delivery_config (\<lambda>_. 0)
         [Arrives True 1 (sample_message 0) 0 0, AppAck True ''p'' ''s'' ''c'' [0] 1] delivery_store_new);
       late = 1 + 10 * 60 * 1000000000
   in fst (deliver_incoming default_delivery_config True 2 (sample_message 0) 2 2 s) = Inr ()
      \<and> fst (snd (deliver_incoming default_delivery_config True 2 (sample_message 0) 2 2 s))
          = [SendDeliveryAck ''p'' ''s'' [0] 2]
      \<and> fst (deliver_incoming default_delivery_config True 2 (sample_message 0) late late s) = Inr ()
      \<and> fst (snd (deliver_incoming default_delivery_config True 2 (sample_message 0) late late s)) = []"
  by (simp add: deliver_eval)

text \<open>
  After an abandoned ordered message and an explicit close of the peer the channel starts
  again at sequence zero, although the sender continues: the retransmitted message waits in
  the reorder buffer for predecessors that were completed long ago.
\<close>

theorem abandoned_channel_restarts_at_zero:
  "let (out, s) = receive_run default_delivery_config (\<lambda>_. 0)
         [Arrives True 1 (sample_message 0) 0 0, AppAck True ''p'' ''s'' ''c'' [0] 1,
          Arrives True 1 (sample_message 1) 2 2, Abandon ''p'' ''c'' [1], ClosePeer ''p'',
          Arrives True 2 (sample_message 1) 3 3] delivery_store_new
   in emitted out = [sample_message 0, sample_message 1]
      \<and> ordered s = [((''p'', ''c''), \<lparr>expected_sequence = 0, in_flight = None,
            reorder_buffer = [(1, sample_message 1)], reorder_bytes = 1\<rparr>)]"
  by (simp add: deliver_eval)

text \<open>
  The two critical sections of an arrival are not one: when an explicit close of the peer and
  the retransmission of the same message fall between them, the first handler removes the
  active record of the message the second one has buffered, and the asserted invariant fails.
\<close>

theorem interleaved_close_breaks_assertion:
  "let cfg = default_delivery_config; m = sample_message 1;
       s1 = snd (begin_incoming cfg ''p'' ''c'' [1] 1 0 delivery_store_new);
       s2 = close_peer ''p'' s1;
       s3 = snd (deliver_incoming cfg True 2 m 1 1 s2);
       (r, s4) = accept_ordered_at cfg m 2 (snd s3);
       s5 = snd (reject_incoming ''p'' ''c'' [1] s4)
   in r = Duplicate \<and> assert_delivery_invariants s4 \<and> \<not> assert_delivery_invariants s5"
  by (simp add: deliver_eval assert_delivery_invariants_def assert_active_record_def
      assert_ordered_channel_def)

end
