(* ===== verification/Delivery_Send.thy ===== *)
theory Delivery_Send
  imports Delivery_Store
begin

text \<open>
  The sending half of the delivery manager (\<open>delivery/send.rs\<close> and the send operations of
  \<open>delivery/recovery.rs\<close>, \<open>delivery/mod.rs\<close>): enqueueing with a fresh message id, leasing a
  transport attempt, its completion or failure with back-off, acknowledgement, cancellation,
  and the batches handed out on a new connection or by the retry worker.  The random draws of
  \<open>next_message_id\<close> and the hash-map order in which the terminal history evicts are arguments
  (\<open>draws\<close>, \<open>pick\<close>).
\<close>

section \<open>Retry policy\<close>

definition retry_policy_is_valid :: "retry_policy \<Rightarrow> bool" where
  "retry_policy_is_valid p \<longleftrightarrow> max_attempts p > 0 \<and> initial_backoff p \<le> max_backoff p"

text \<open>
  The multiplication of a \<open>Duration\<close> saturates at its largest value, which no \<open>max_backoff\<close>
  exceeds, so the minimum is the one of the exact product.
\<close>

definition delay_for_attempt :: "retry_policy \<Rightarrow> u32 \<Rightarrow> duration" where
  "delay_for_attempt p attempt =
     (let shift = min (saturating_sub attempt 1) 31;
          multiplier = push_bit (unat shift) (1 :: u32)
      in min (initial_backoff p * unat multiplier) (max_backoff p))"

section \<open>Helpers on the store\<close>

type_synonym outcome_pick = "(delivery_identity, delivery_terminal_outcome) hmap \<Rightarrow> nat"

definition next_message_id ::
  "string \<Rightarrow> (delivery_identity, pending_message) hmap
   \<Rightarrow> (delivery_identity, delivery_terminal_outcome) hmap \<Rightarrow> message_id list \<Rightarrow> message_id option" where
  "next_message_id peer_id pending_map outcomes draws =
     find (\<lambda>candidate. \<not> hm_contains pending_map (DeliveryIdentity peer_id candidate)
             \<and> \<not> hm_contains outcomes (DeliveryIdentity peer_id candidate)) draws"

definition resolve_pending_identity ::
  "delivery_store \<Rightarrow> string option \<Rightarrow> message_id \<Rightarrow> delivery_identity option" where
  "resolve_pending_identity store expected_peer_id message_id =
     (case expected_peer_id of
        Some peer_id \<Rightarrow>
          if hm_contains (pending store) (DeliveryIdentity peer_id message_id)
          then Some (DeliveryIdentity peer_id message_id) else None
      | None \<Rightarrow>
          (case filter (\<lambda>identity. di_message_id identity = message_id) (map fst (pending store)) of
             [identity] \<Rightarrow> Some identity
           | _ \<Rightarrow> None))"

definition record_terminal ::
  "outcome_pick \<Rightarrow> delivery_identity \<Rightarrow> delivery_terminal_outcome \<Rightarrow> delivery_store \<Rightarrow> delivery_store" where
  "record_terminal pick identity outcome store =
     (let outcomes = terminal_outcomes store;
          outcomes =
            (if \<not> hm_contains outcomes identity \<and> length outcomes \<ge> MAX_TERMINAL_OUTCOMES
             then (if outcomes = [] then outcomes
                   else hm_remove (fst (outcomes ! (pick outcomes mod length outcomes))) outcomes)
             else outcomes)
      in store\<lparr>terminal_outcomes :=
           (if hm_contains outcomes identity then outcomes else hm_insert identity outcome outcomes)\<rparr>)"

definition is_expired :: "pending_message \<Rightarrow> instant \<Rightarrow> bool" where
  "is_expired message now =
     (case pm_expires_at message of None \<Rightarrow> False | Some expires_at \<Rightarrow> now \<ge> expires_at)"

definition remove_pending ::
  "delivery_identity \<Rightarrow> delivery_store \<Rightarrow> pending_message option \<times> delivery_store" where
  "remove_pending identity store =
     (case hm_get (pending store) identity of
        None \<Rightarrow> (None, store)
      | Some message \<Rightarrow>
          (Some message,
           store\<lparr>pending := hm_remove identity (pending store),
                 pending_bytes := pending_bytes store - length (pm_payload message)\<rparr>))"

text \<open>Removing a message and recording why, as every terminal transition does.\<close>

definition settle ::
  "outcome_pick \<Rightarrow> delivery_identity \<Rightarrow> delivery_terminal_outcome \<Rightarrow> delivery_store \<Rightarrow> delivery_store" where
  "settle pick identity outcome store =
     record_terminal pick identity outcome (snd (remove_pending identity store))"

section \<open>Operations\<close>

definition enqueue_at_inner ::
  "delivery_config \<Rightarrow> outcome_pick \<Rightarrow> message_id list \<Rightarrow> string \<Rightarrow> string \<Rightarrow> byte list \<Rightarrow> delivery_policy
   \<Rightarrow> retry_policy \<Rightarrow> instant \<Rightarrow> delivery_store
   \<Rightarrow> ((delivery_error + pending_message) \<times> delivery_store) option" where
  "enqueue_at_inner cfg pick draws peer_id channel_id payload policy retry now store =
     (if \<not> is_valid_scope_id peer_id \<or> \<not> is_valid_scope_id channel_id
      then Some (Inl InvalidScope, store)
      else if length payload > max_payload_bytes cfg then Some (Inl PayloadTooLarge, store)
      else if \<not> retry_policy_is_valid retry then Some (Inl InvalidRetryPolicy, store)
      else
        let store =
              (if policy = LatestState
               then fold (\<lambda>identity store.
                      case remove_pending identity store of
                        (None, store) \<Rightarrow> store
                      | (Some _, store) \<Rightarrow> record_terminal pick identity OutCancelled store)
                    (map fst (filter (\<lambda>(_, message). pm_peer message = peer_id
                        \<and> pm_channel message = channel_id \<and> pm_policy message = LatestState)
                      (pending store))) store
               else store)
        in if policy \<noteq> BestEffort
              \<and> (length (pending store) \<ge> max_pending_messages cfg
                 \<or> pending_bytes store + length payload > max_pending_bytes cfg)
           then Some (Inl QueueFull, store)
           else
             let sequence = (case hm_get (next_sequences store) (peer_id, channel_id) of
                               None \<Rightarrow> 0 | Some q \<Rightarrow> q);
                 store = store\<lparr>next_sequences :=
                           hm_insert (peer_id, channel_id) (saturating_add sequence 1)
                             (next_sequences store)\<rparr>;
                 epoch = (case hm_get (recovery_epochs store) peer_id of None \<Rightarrow> 0 | Some e \<Rightarrow> e)
             in case next_message_id peer_id (pending store) (terminal_outcomes store) draws of
                  None \<Rightarrow> None
                | Some message_id \<Rightarrow>
                    let message =
                      \<lparr>pm_message_id = message_id, pm_peer = peer_id, pm_channel = channel_id,
                       pm_sequence = sequence, pm_payload = payload, pm_policy = policy,
                       pm_state = Queued, pm_attempts = 0, pm_created_at = now,
                       pm_expires_at = map_option (\<lambda>ttl. now + ttl) (ttl retry),
                       pm_recovery_epoch = epoch, pm_retry_policy = retry,
                       pm_next_retry_at = now, pm_retry_bytes = 0\<rparr>
                    in Some (Inr message,
                         if policy \<noteq> BestEffort
                         then store\<lparr>pending_bytes := pending_bytes store + length (pm_payload message),
                                    pending := hm_insert (DeliveryIdentity peer_id message_id) message
                                                 (pending store)\<rparr>
                         else store))"

definition begin_send_inner ::
  "outcome_pick \<Rightarrow> string option \<Rightarrow> message_id \<Rightarrow> instant \<Rightarrow> delivery_store
   \<Rightarrow> (delivery_error + pending_message option) \<times> delivery_store" where
  "begin_send_inner pick expected_peer_id message_id now store =
     (if (case expected_peer_id of
            None \<Rightarrow> False
          | Some peer_id \<Rightarrow>
              \<not> hm_contains (pending store) (DeliveryIdentity peer_id message_id)
              \<and> list_ex (\<lambda>(identity, _). di_message_id identity = message_id) (pending store))
      then (Inl InvalidScope, store)
      else case resolve_pending_identity store expected_peer_id message_id of
        None \<Rightarrow> (Inl NotPending, store)
      | Some identity \<Rightarrow>
      case hm_get (pending store) identity of
        None \<Rightarrow> (Inl NotPending, store)
      | Some message \<Rightarrow>
          if is_expired message now then (Inl MessageExpired, settle pick identity OutExpired store)
          else if pm_state message = Sending then (Inr None, store)
          else if pm_state message = SentUnacked \<and> now < pm_next_retry_at message then (Inr None, store)
          else if pm_state message \<noteq> Queued \<and> pm_state message \<noteq> SentUnacked then (Inr None, store)
          else if now < pm_next_retry_at message then (Inr None, store)
          else
            let next_attempt = saturating_add (pm_attempts message) 1
            in if next_attempt > max_attempts (pm_retry_policy message)
               then (Inl RetryExhausted, settle pick identity OutFailed store)
               else
                 let retry_bytes = saturating_add (pm_retry_bytes message)
                       (if next_attempt > 1 then of_nat (length (pm_payload message)) else 0)
                 in if (case max_total_retry_bytes (pm_retry_policy message) of
                          None \<Rightarrow> False | Some limit \<Rightarrow> retry_bytes > limit)
                    then (Inl RetryExhausted, settle pick identity OutFailed store)
                    else
                      let message = message\<lparr>pm_attempts := next_attempt,
                            pm_retry_bytes := retry_bytes, pm_state := Sending\<rparr>
                      in (Inr (Some message),
                          store\<lparr>pending := hm_modify identity (\<lambda>_. message) (pending store)\<rparr>))"

record delivery_send_attempt =
  at_peer :: string
  at_message_id :: message_id
  at_attempt :: u32
  at_message :: pending_message

definition begin_send_for_peer ::
  "outcome_pick \<Rightarrow> string \<Rightarrow> message_id \<Rightarrow> instant \<Rightarrow> delivery_store
   \<Rightarrow> (delivery_error + delivery_send_attempt option) \<times> delivery_store" where
  "begin_send_for_peer pick peer_id message_id now store =
     (if \<not> is_valid_peer_id peer_id then (Inl InvalidScope, store)
      else case begin_send_inner pick (Some peer_id) message_id now store of
        (Inl e, store) \<Rightarrow> (Inl e, store)
      | (Inr message, store) \<Rightarrow>
          (Inr (map_option (\<lambda>message.
             \<lparr>at_peer = peer_id, at_message_id = message_id, at_attempt = pm_attempts message,
              at_message = message\<rparr>) message), store))"

definition mark_sent_inner ::
  "string option \<Rightarrow> u32 option \<Rightarrow> message_id \<Rightarrow> instant \<Rightarrow> delivery_store \<Rightarrow> bool \<times> delivery_store" where
  "mark_sent_inner expected_peer_id expected_attempt message_id now store =
     (case resolve_pending_identity store expected_peer_id message_id of
        None \<Rightarrow> (False, store)
      | Some identity \<Rightarrow>
      case hm_get (pending store) identity of
        None \<Rightarrow> (False, store)
      | Some message \<Rightarrow>
          if pm_state message \<noteq> Sending
             \<or> (case expected_attempt of None \<Rightarrow> False | Some n \<Rightarrow> pm_attempts message \<noteq> n)
          then (False, store)
          else
            (True, store\<lparr>pending := hm_modify identity
               (\<lambda>m. m\<lparr>pm_state := SentUnacked,
                      pm_next_retry_at := now + delay_for_attempt (pm_retry_policy m) (pm_attempts m)\<rparr>)
               (pending store)\<rparr>))"

datatype retry_decision = RetryAt instant | RetryFailed | RetryExpired | RetryNotFound

definition mark_send_failed_inner ::
  "outcome_pick \<Rightarrow> string option \<Rightarrow> u32 option \<Rightarrow> message_id \<Rightarrow> instant \<Rightarrow> delivery_store
   \<Rightarrow> retry_decision \<times> delivery_store" where
  "mark_send_failed_inner pick expected_peer_id expected_attempt message_id now store =
     (case resolve_pending_identity store expected_peer_id message_id of
        None \<Rightarrow> (RetryNotFound, store)
      | Some identity \<Rightarrow>
      case hm_get (pending store) identity of
        None \<Rightarrow> (RetryNotFound, store)
      | Some message \<Rightarrow>
          if is_expired message now then (RetryExpired, settle pick identity OutExpired store)
          else if expected_attempt \<noteq> None
               \<and> (pm_state message \<noteq> Sending
                  \<or> (case expected_attempt of None \<Rightarrow> False | Some n \<Rightarrow> pm_attempts message \<noteq> n))
          then (RetryNotFound, store)
          else if pm_attempts message \<ge> max_attempts (pm_retry_policy message)
               \<or> (case max_total_retry_bytes (pm_retry_policy message) of
                    None \<Rightarrow> False
                  | Some limit \<Rightarrow>
                      saturating_add (pm_retry_bytes message) (of_nat (length (pm_payload message))) > limit)
          then (RetryFailed, settle pick identity OutFailed store)
          else
            let retry_at = now + delay_for_attempt (pm_retry_policy message) (pm_attempts message)
            in (RetryAt retry_at,
                store\<lparr>pending := hm_modify identity
                  (\<lambda>m. m\<lparr>pm_state := Queued, pm_next_retry_at := retry_at\<rparr>) (pending store)\<rparr>))"

datatype ack_result = AckAcknowledged | AckUnknown

definition acknowledge ::
  "outcome_pick \<Rightarrow> string \<Rightarrow> message_id \<Rightarrow> delivery_store \<Rightarrow> ack_result \<times> delivery_store" where
  "acknowledge pick peer_id message_id store =
     (let identity = DeliveryIdentity peer_id message_id
      in if \<not> is_valid_peer_id peer_id then (AckUnknown, store)
         else if \<not> hm_contains (pending store) identity then (AckUnknown, store)
         else (AckAcknowledged, settle pick identity OutAcknowledged store))"

definition terminal_outcome ::
  "string \<Rightarrow> message_id \<Rightarrow> delivery_store \<Rightarrow> delivery_terminal_outcome option" where
  "terminal_outcome peer_id message_id store =
     (if \<not> is_valid_peer_id peer_id then None
      else hm_get (terminal_outcomes store) (DeliveryIdentity peer_id message_id))"

definition cancel :: "outcome_pick \<Rightarrow> message_id \<Rightarrow> delivery_store \<Rightarrow> bool \<times> delivery_store" where
  "cancel pick message_id store =
     (case resolve_pending_identity store None message_id of
        None \<Rightarrow> (False, store)
      | Some identity \<Rightarrow>
          if hm_contains (pending store) identity
          then (True, settle pick identity OutCancelled store)
          else (False, store))"

record recovery_snapshot =
  rs_epoch :: u64
  rs_messages :: "pending_message list"

text \<open>
  The loops over the peer's pending messages treat every message on its own, so they are
  written as a map over the entries; the expired ones are settled afterwards.
\<close>

definition expired_identities :: "string \<Rightarrow> instant \<Rightarrow> delivery_store \<Rightarrow> delivery_identity list" where
  "expired_identities peer_id now store =
     map fst (filter (\<lambda>(_, m). pm_peer m = peer_id \<and> is_expired m now) (pending store))"

definition recover_peer_at ::
  "outcome_pick \<Rightarrow> string \<Rightarrow> instant \<Rightarrow> delivery_store \<Rightarrow> recovery_snapshot \<times> delivery_store" where
  "recover_peer_at pick peer_id now store =
     (let epoch = (case hm_get (recovery_epochs store) peer_id of
                     None \<Rightarrow> 1 | Some e \<Rightarrow> saturating_add e 1);
          requeue = (\<lambda>m. m\<lparr>pm_state := Queued, pm_next_retry_at := now, pm_recovery_epoch := epoch\<rparr>);
          live = (\<lambda>m. pm_peer m = peer_id \<and> \<not> is_expired m now);
          messages = map (\<lambda>(_, m). requeue m) (filter (\<lambda>(_, m). live m) (pending store));
          expired = expired_identities peer_id now store;
          store = store\<lparr>recovery_epochs := hm_insert peer_id epoch (recovery_epochs store),
                        pending := hm_map (\<lambda>_ m. if live m then requeue m else m) (pending store)\<rparr>
      in (\<lparr>rs_epoch = epoch, rs_messages = sort_key pm_sequence messages\<rparr>,
          fold (\<lambda>identity. settle pick identity OutExpired) expired store))"

definition recover_peer_checked ::
  "outcome_pick \<Rightarrow> string \<Rightarrow> instant \<Rightarrow> delivery_store
   \<Rightarrow> (delivery_error + recovery_snapshot) \<times> delivery_store" where
  "recover_peer_checked pick peer_id now store =
     (if \<not> is_valid_peer_id peer_id then (Inl InvalidScope, store)
      else apfst Inr (recover_peer_at pick peer_id now store))"

definition retryable_messages ::
  "outcome_pick \<Rightarrow> string \<Rightarrow> instant \<Rightarrow> delivery_store \<Rightarrow> pending_message list \<times> delivery_store" where
  "retryable_messages pick peer_id now store =
     (let due = (\<lambda>m. pm_peer m = peer_id \<and> \<not> is_expired m now \<and> now \<ge> pm_next_retry_at m
                   \<and> (pm_state m = SentUnacked \<or> pm_state m = Queued));
          requeue = (\<lambda>m. if pm_state m = SentUnacked
                          then m\<lparr>pm_state := Queued, pm_next_retry_at := now\<rparr> else m);
          retryable = map (\<lambda>(_, m). requeue m) (filter (\<lambda>(_, m). due m) (pending store));
          expired = expired_identities peer_id now store;
          store = store\<lparr>pending := hm_map (\<lambda>_ m. if due m then requeue m else m) (pending store)\<rparr>
      in (sort_key pm_sequence retryable,
          fold (\<lambda>identity. settle pick identity OutExpired) expired store))"

definition retryable_messages_checked ::
  "outcome_pick \<Rightarrow> string \<Rightarrow> instant \<Rightarrow> delivery_store
   \<Rightarrow> (delivery_error + pending_message list) \<times> delivery_store" where
  "retryable_messages_checked pick peer_id now store =
     (if \<not> is_valid_peer_id peer_id then (Inl InvalidScope, store)
      else apfst Inr (retryable_messages pick peer_id now store))"

section \<open>The invariant of the sending side\<close>

definition message_bytes :: "pending_message \<Rightarrow> nat" where
  "message_bytes m = length (pm_payload m)"

definition latest_state_of :: "string \<Rightarrow> string \<Rightarrow> pending_message \<Rightarrow> bool" where
  "latest_state_of p c m \<longleftrightarrow> pm_peer m = p \<and> pm_channel m = c \<and> pm_policy m = LatestState"

definition message_ok :: "delivery_config \<Rightarrow> delivery_identity \<Rightarrow> pending_message \<Rightarrow> bool" where
  "message_ok cfg identity m \<longleftrightarrow>
     identity = DeliveryIdentity (pm_peer m) (pm_message_id m)
     \<and> pm_policy m \<noteq> BestEffort
     \<and> pm_state m \<in> {Queued, Sending, SentUnacked}
     \<and> retry_policy_is_valid (pm_retry_policy m)
     \<and> pm_attempts m \<le> max_attempts (pm_retry_policy m)
     \<and> message_bytes m \<le> max_payload_bytes cfg"

definition send_inv :: "delivery_config \<Rightarrow> delivery_store \<Rightarrow> bool" where
  "send_inv cfg s \<longleftrightarrow>
     hm_wf (pending s) \<and> hm_wf (terminal_outcomes s)
     \<and> (\<forall>identity m. hm_get (pending s) identity = Some m \<longrightarrow>
          message_ok cfg identity m \<and> hm_get (terminal_outcomes s) identity = None)
     \<and> (\<forall>i1 i2 m1 m2 p c. hm_get (pending s) i1 = Some m1 \<longrightarrow> hm_get (pending s) i2 = Some m2 \<longrightarrow>
          latest_state_of p c m1 \<longrightarrow> latest_state_of p c m2 \<longrightarrow> i1 = i2)
     \<and> pending_bytes s = hm_sum message_bytes (pending s)
     \<and> length (pending s) \<le> max_pending_messages cfg
     \<and> pending_bytes s \<le> max_pending_bytes cfg
     \<and> length (terminal_outcomes s) \<le> MAX_TERMINAL_OUTCOMES"

lemma send_inv_new: "send_inv cfg delivery_store_new"
  by (simp add: send_inv_def delivery_store_new_def)

lemma send_invI:
  assumes "hm_wf (pending s)" "hm_wf (terminal_outcomes s)"
    and "\<And>identity m. hm_get (pending s) identity = Some m \<Longrightarrow>
          message_ok cfg identity m \<and> hm_get (terminal_outcomes s) identity = None"
    and "\<And>i1 i2 m1 m2 p c. hm_get (pending s) i1 = Some m1 \<Longrightarrow> hm_get (pending s) i2 = Some m2 \<Longrightarrow>
          latest_state_of p c m1 \<Longrightarrow> latest_state_of p c m2 \<Longrightarrow> i1 = i2"
    and "pending_bytes s = hm_sum message_bytes (pending s)"
    and "length (pending s) \<le> max_pending_messages cfg" "pending_bytes s \<le> max_pending_bytes cfg"
    and "length (terminal_outcomes s) \<le> MAX_TERMINAL_OUTCOMES"
  shows "send_inv cfg s"
  unfolding send_inv_def by (intro conjI allI impI) (use assms in \<open>assumption | blast\<close>)+

lemma send_inv_latest:
  "send_inv cfg s \<Longrightarrow> hm_get (pending s) i1 = Some m1 \<Longrightarrow> hm_get (pending s) i2 = Some m2 \<Longrightarrow>
     latest_state_of p c m1 \<Longrightarrow> latest_state_of p c m2 \<Longrightarrow> i1 = i2"
  unfolding send_inv_def by blast

lemma send_inv_facts:
  assumes "send_inv cfg s"
  shows "hm_wf (pending s)" "hm_wf (terminal_outcomes s)"
    "pending_bytes s = hm_sum message_bytes (pending s)"
    "length (pending s) \<le> max_pending_messages cfg" "pending_bytes s \<le> max_pending_bytes cfg"
    "length (terminal_outcomes s) \<le> MAX_TERMINAL_OUTCOMES"
  using assms unfolding send_inv_def by auto

lemma send_invD:
  assumes "send_inv cfg s" "hm_get (pending s) identity = Some m"
  shows "message_ok cfg identity m" "hm_get (terminal_outcomes s) identity = None"
  using assms unfolding send_inv_def by blast+

text \<open>Settling a pending message: it leaves the queue and its outcome is on record.\<close>

lemma settle_pending:
  assumes "hm_get (pending s) identity = Some m"
  shows "pending (settle pick identity outcome s) = hm_remove identity (pending s)"
    "pending_bytes (settle pick identity outcome s) = pending_bytes s - message_bytes m"
    "next_sequences (settle pick identity outcome s) = next_sequences s"
    "recovery_epochs (settle pick identity outcome s) = recovery_epochs s"
  using assms by (simp_all add: settle_def remove_pending_def record_terminal_def Let_def message_bytes_def)

definition kept_outcomes :: "outcome_pick \<Rightarrow> (delivery_identity, delivery_terminal_outcome) hmap
  \<Rightarrow> (delivery_identity, delivery_terminal_outcome) hmap" where
  "kept_outcomes pick m =
     (if length m \<ge> MAX_TERMINAL_OUTCOMES then hm_remove (fst (m ! (pick m mod length m))) m else m)"

lemma kept_outcomes_facts:
  assumes "hm_wf m" "length m \<le> MAX_TERMINAL_OUTCOMES"
  shows "hm_wf (kept_outcomes pick m)" "length (kept_outcomes pick m) < MAX_TERMINAL_OUTCOMES"
    "hm_get m k = None \<Longrightarrow> hm_get (kept_outcomes pick m) k = None"
    "hm_get (kept_outcomes pick m) k = Some v \<Longrightarrow> hm_get m k = Some v"
proof -
  have "fst (m ! (pick m mod length m)) \<in> fst ` set m" if "length m \<ge> MAX_TERMINAL_OUTCOMES"
    using that by (intro imageI nth_mem mod_less_divisor) (auto simp: MAX_TERMINAL_OUTCOMES_def)
  then have "hm_contains m (fst (m ! (pick m mod length m)))" if "length m \<ge> MAX_TERMINAL_OUTCOMES"
    using that by (metis map_of_eq_None_iff)
  then show "length (kept_outcomes pick m) < MAX_TERMINAL_OUTCOMES"
    using assms by (auto simp: kept_outcomes_def length_hm_remove MAX_TERMINAL_OUTCOMES_def)
qed (use assms in \<open>auto simp: kept_outcomes_def split: if_splits\<close>)

lemma settle_outcomes:
  assumes "hm_get (pending s) identity = Some m" "hm_get (terminal_outcomes s) identity = None"
  shows "terminal_outcomes (settle pick identity outcome s) =
    hm_insert identity outcome (kept_outcomes pick (terminal_outcomes s))"
  using assms
  by (simp add: settle_def remove_pending_def record_terminal_def Let_def kept_outcomes_def
      MAX_TERMINAL_OUTCOMES_def)

lemma settle_inv:
  assumes inv: "send_inv cfg s" and m: "hm_get (pending s) identity = Some m"
  shows "send_inv cfg (settle pick identity outcome s)"
proof -
  note f = send_inv_facts [OF inv]
  note t = settle_outcomes [OF m send_invD(2) [OF inv m], of pick outcome]
  note k = kept_outcomes_facts [OF f(2,6), where pick = pick]
  have sum: "hm_sum message_bytes (pending s) =
      hm_sum message_bytes (hm_remove identity (pending s)) + message_bytes m"
    using hm_sum_remove [OF f(1) m] .
  have was: "hm_get (pending s) i = Some x"
    if "hm_get (pending (settle pick identity outcome s)) i = Some x" for i x
    using that by (simp add: settle_pending [OF m] split: if_splits)
  show ?thesis
  proof (rule send_invI)
    fix i x
    assume x: "hm_get (pending (settle pick identity outcome s)) i = Some x"
    then have "i \<noteq> identity" by (auto simp: settle_pending [OF m])
    then show "message_ok cfg i x \<and> hm_get (terminal_outcomes (settle pick identity outcome s)) i = None"
      using send_invD [OF inv was [OF x]] k(3) [of i] by (simp add: t)
  next
    show "length (pending (settle pick identity outcome s)) \<le> max_pending_messages cfg"
      using hm.del_bound [OF f(1,4)] by (simp add: settle_pending [OF m])
  next
    show "length (terminal_outcomes (settle pick identity outcome s)) \<le> MAX_TERMINAL_OUTCOMES"
      using k(2) by (simp add: t length_hm_insert)
  next
    fix i1 i2 m1 m2 p c
    assume "hm_get (pending (settle pick identity outcome s)) i1 = Some m1"
      "hm_get (pending (settle pick identity outcome s)) i2 = Some m2"
      "latest_state_of p c m1" "latest_state_of p c m2"
    then show "i1 = i2" using was by (intro send_inv_latest [OF inv])
  qed (use f sum k(1) in \<open>simp_all add: settle_pending [OF m] t\<close>)
qed

lemma hm_modify_as_map: "hm_modify k f m = hm_map (\<lambda>k' v. if k' = k then f v else v) m"
  unfolding hm_modify_def hm_map_def by (rule refl)

text \<open>Updating pending messages in place, as long as what identifies and bounds them stays.\<close>

definition same_message :: "pending_message \<Rightarrow> pending_message \<Rightarrow> bool" where
  "same_message m m' \<longleftrightarrow> pm_message_id m' = pm_message_id m \<and> pm_peer m' = pm_peer m
     \<and> pm_channel m' = pm_channel m \<and> pm_sequence m' = pm_sequence m \<and> pm_payload m' = pm_payload m
     \<and> pm_policy m' = pm_policy m \<and> pm_retry_policy m' = pm_retry_policy m
     \<and> pm_expires_at m' = pm_expires_at m"

lemma remap_inv:
  assumes inv: "send_inv cfg s"
    and g: "\<And>i m. hm_get (pending s) i = Some m \<Longrightarrow> same_message m (g i m) \<and> message_ok cfg i (g i m)"
    and t: "pending t = hm_map g (pending s)" "pending_bytes t = pending_bytes s"
      "terminal_outcomes t = terminal_outcomes s"
  shows "send_inv cfg t"
proof -
  note f = send_inv_facts [OF inv]
  have "message_bytes (g k v) = message_bytes v" if "(k, v) \<in> set (pending s)" for k v
    using g [OF hm_in_get [OF f(1) that]] by (simp add: same_message_def message_bytes_def)
  then have "map (\<lambda>(k, v). message_bytes v) (hm_map g (pending s)) =
      map (\<lambda>(k, v). message_bytes v) (pending s)"
    by (auto simp: hm_map_def)
  then have sum: "hm_sum message_bytes (hm_map g (pending s)) = hm_sum message_bytes (pending s)"
    by (simp only: hm_sum_def)
  have was: "\<exists>m. hm_get (pending s) i = Some m \<and> same_message m x \<and> message_ok cfg i x"
    if x: "hm_get (pending t) i = Some x" for i x
  proof -
    from x obtain m where m: "hm_get (pending s) i = Some m" "x = g i m" by (auto simp: t(1))
    with g [OF m(1)] show ?thesis by simp
  qed
  show ?thesis
  proof (rule send_invI)
    fix i x assume "hm_get (pending t) i = Some x"
    from was [OF this] show "message_ok cfg i x \<and> hm_get (terminal_outcomes t) i = None"
      using send_invD(2) [OF inv] t(3) by metis
  next
    fix i1 i2 m1 m2 p c
    assume m: "hm_get (pending t) i1 = Some m1" "hm_get (pending t) i2 = Some m2"
      and l: "latest_state_of p c m1" "latest_state_of p c m2"
    from was [OF m(1)] was [OF m(2)] obtain x1 x2 where "hm_get (pending s) i1 = Some x1"
        "same_message x1 m1" "hm_get (pending s) i2 = Some x2" "same_message x2 m2"
      by blast
    moreover from this l have "latest_state_of p c x1" "latest_state_of p c x2"
      by (simp_all add: same_message_def latest_state_of_def)
    ultimately show "i1 = i2" by (intro send_inv_latest [OF inv])
  qed (use f in \<open>simp_all add: t sum\<close>)
qed

lemma modify_inv:
  assumes "send_inv cfg s" "hm_get (pending s) i = Some m" "same_message m (f m)" "message_ok cfg i (f m)"
  shows "send_inv cfg (s\<lparr>pending := hm_modify i f (pending s)\<rparr>)"
  by (rule remap_inv [OF assms(1), of "\<lambda>k v. if k = i then f v else v"])
     (use assms send_invD(1) [OF assms(1)] in \<open>auto simp: hm_modify_as_map same_message_def\<close>)

lemma fold_settle_inv:
  assumes "send_inv cfg s" "distinct ids" "\<And>i. i \<in> set ids \<Longrightarrow> hm_contains (pending s) i"
  shows "send_inv cfg (fold (\<lambda>i. settle pick i outcome) ids s)"
  using assms
proof (induction ids arbitrary: s)
  case (Cons i ids)
  then obtain m where m: "hm_get (pending s) i = Some m" by fastforce
  have "hm_contains (pending (settle pick i outcome s)) j" if "j \<in> set ids" for j
    using Cons.prems(2,3) that by (auto simp: settle_pending [OF m])
  with Cons.IH [OF settle_inv [OF Cons.prems(1) m]] Cons.prems(2) show ?case by simp
qed simp

lemma resolve_pending_in:
  assumes "resolve_pending_identity s p i = Some identity"
  shows "identity \<in> fst ` set (pending s) \<and> di_message_id identity = i"
proof (cases p)
  case None
  with assms have "filter (\<lambda>x. di_message_id x = i) (map fst (pending s)) = [identity]"
    by (auto simp: resolve_pending_identity_def split: list.splits)
  then have "identity \<in> set (filter (\<lambda>x. di_message_id x = i) (map fst (pending s)))" by simp
  then show ?thesis by auto
next
  case (Some peer)
  with assms show ?thesis
    by (auto simp: resolve_pending_identity_def split: if_splits dest!: hm_get_Some_in) force
qed

lemma resolve_pending:
  assumes "resolve_pending_identity s p i = Some identity"
  obtains m where "hm_get (pending s) identity = Some m" "di_message_id identity = i"
  using resolve_pending_in [OF assms] by (metis map_of_eq_None_iff not_None_eq)

section \<open>Elementary moves\<close>

text \<open>
  Whatever an operation does to the pending messages is a sequence of three kinds of moves: a
  message is settled, messages change their progress in place, or a fresh message is added.
  The label of a move says which identity it settles.
\<close>

definition advances :: "pending_message \<Rightarrow> pending_message \<Rightarrow> bool" where
  "advances m m' \<longleftrightarrow> same_message m m' \<and> pm_state m' \<in> {Queued, Sending, SentUnacked}
     \<and> pm_attempts m \<le> pm_attempts m' \<and> pm_attempts m' \<le> max_attempts (pm_retry_policy m)"

inductive send_move :: "delivery_config \<Rightarrow> delivery_identity option \<Rightarrow> delivery_store \<Rightarrow> delivery_store \<Rightarrow> bool"
  for cfg where
  settled: "hm_get (pending s) i = Some m \<Longrightarrow> send_move cfg (Some i) s (settle pick i outcome s)"
| updated: "(\<And>i m. hm_get (pending s) i = Some m \<Longrightarrow> m' i m = m \<or> advances m (m' i m)) \<Longrightarrow>
    pending t = hm_map m' (pending s) \<Longrightarrow> pending_bytes t = pending_bytes s \<Longrightarrow>
    terminal_outcomes t = terminal_outcomes s \<Longrightarrow> send_move cfg None s t"
| added: "hm_get (pending s) i = None \<Longrightarrow> hm_get (terminal_outcomes s) i = None \<Longrightarrow>
    message_ok cfg i m \<Longrightarrow> pm_attempts m = 0 \<Longrightarrow> length (pending s) < max_pending_messages cfg \<Longrightarrow>
    pending_bytes s + message_bytes m \<le> max_pending_bytes cfg \<Longrightarrow>
    (\<And>j x p c. hm_get (pending s) j = Some x \<Longrightarrow> latest_state_of p c x \<Longrightarrow> \<not> latest_state_of p c m) \<Longrightarrow>
    pending t = hm_insert i m (pending s) \<Longrightarrow> pending_bytes t = pending_bytes s + message_bytes m \<Longrightarrow>
    terminal_outcomes t = terminal_outcomes s \<Longrightarrow> send_move cfg None s t"

inductive_cases send_move_SomeE: "send_move cfg (Some i) s t"
inductive_cases send_move_NoneE: "send_move cfg None s t"

inductive send_moves ::
  "delivery_config \<Rightarrow> delivery_identity list \<Rightarrow> delivery_store \<Rightarrow> delivery_store \<Rightarrow> bool" for cfg where
  idle: "send_moves cfg [] s s"
| more: "send_move cfg l s t \<Longrightarrow> send_moves cfg ls t u \<Longrightarrow>
    send_moves cfg ((case l of None \<Rightarrow> [] | Some i \<Rightarrow> [i]) @ ls) s u"

lemma send_moves_one: "send_move cfg None s t \<Longrightarrow> send_moves cfg [] s t"
  using send_moves.more [of cfg None s t "[]" t] send_moves.idle by simp

lemma send_moves_settle:
  "hm_get (pending s) i = Some m \<Longrightarrow> send_moves cfg [i] s (settle pick i outcome s)"
  using send_moves.more [OF send_move.settled send_moves.idle] by fastforce

lemma send_moves_same:
  assumes "pending t = pending s" "pending_bytes t = pending_bytes s"
    "terminal_outcomes t = terminal_outcomes s"
  shows "send_moves cfg [] s t"
  by (rule send_moves_one, rule send_move.updated [where m' = "\<lambda>_ m. m"]) (use assms in \<open>simp_all add: hm_map_def\<close>)

lemma send_moves_trans:
  "send_moves cfg ls s t \<Longrightarrow> send_moves cfg ls' t u \<Longrightarrow> send_moves cfg (ls @ ls') s u"
proof (induction rule: send_moves.induct)
  case (more l s t ls u')
  from send_moves.more [OF more.hyps(1) more.IH [OF more.prems]] show ?case by simp
qed simp

lemma send_moves_fold_settle:
  assumes "distinct ids" "\<And>i. i \<in> set ids \<Longrightarrow> hm_contains (pending s) i"
  shows "send_moves cfg ids s (fold (\<lambda>i. settle pick i outcome) ids s)"
  using assms
proof (induction ids arbitrary: s)
  case Nil
  then show ?case by (simp add: send_moves.idle)
next
  case (Cons i ids)
  then obtain m where m: "hm_get (pending s) i = Some m" by fastforce
  have "hm_contains (pending (settle pick i outcome s)) j" if "j \<in> set ids" for j
    using Cons.prems that by (auto simp: settle_pending [OF m])
  with Cons have "send_moves cfg ids (settle pick i outcome s)
      (fold (\<lambda>i. settle pick i outcome) ids (settle pick i outcome s))" by simp
  from send_moves_trans [OF send_moves_settle [OF m] this] show ?case by simp
qed

lemma advances_ok: "message_ok cfg i m \<Longrightarrow> advances m m' \<Longrightarrow> message_ok cfg i m'"
  by (auto simp: message_ok_def advances_def same_message_def message_bytes_def)

lemma added_inv:
  assumes inv: "send_inv cfg s"
    and i: "hm_get (pending s) i = None" "hm_get (terminal_outcomes s) i = None" "message_ok cfg i m"
    and room: "length (pending s) < max_pending_messages cfg"
      "pending_bytes s + message_bytes m \<le> max_pending_bytes cfg"
    and latest: "\<And>j x p c. hm_get (pending s) j = Some x \<Longrightarrow> latest_state_of p c x \<Longrightarrow> \<not> latest_state_of p c m"
    and t: "pending t = hm_insert i m (pending s)" "pending_bytes t = pending_bytes s + message_bytes m"
      "terminal_outcomes t = terminal_outcomes s"
  shows "send_inv cfg t"
proof -
  note f = send_inv_facts [OF inv]
  show ?thesis
  proof (rule send_invI)
    fix j x assume "hm_get (pending t) j = Some x"
    then show "message_ok cfg j x \<and> hm_get (terminal_outcomes t) j = None"
      using i send_invD [OF inv, of j x] by (auto simp: t split: if_splits)
  next
    fix i1 i2 m1 m2 p c
    assume "hm_get (pending t) i1 = Some m1" "hm_get (pending t) i2 = Some m2"
      and l: "latest_state_of p c m1" "latest_state_of p c m2"
    then have "i1 = i \<and> m1 = m \<or> hm_get (pending s) i1 = Some m1"
      "i2 = i \<and> m2 = m \<or> hm_get (pending s) i2 = Some m2"
      by (simp_all add: t split: if_splits)
    then show "i1 = i2"
      using l latest [of i1 m1 p c] latest [of i2 m2 p c] send_inv_latest [OF inv, of i1 m1 i2 m2 p c]
      by meson
  next
    show "pending_bytes t = hm_sum message_bytes (pending t)"
      using f(3) i(1) by (simp add: t hm_sum_insert_new)
  next
    show "length (pending t) \<le> max_pending_messages cfg"
      using room(1) i(1) by (simp add: t length_hm_insert)
  qed (use f room in \<open>simp_all add: t\<close>)
qed

lemma send_move_inv: "send_move cfg l s t \<Longrightarrow> send_inv cfg s \<Longrightarrow> send_inv cfg t"
proof (induction rule: send_move.induct)
  case (settled s i m pick outcome)
  then show ?case by (blast intro: settle_inv)
next
  case (updated s m' t)
  show ?case
  proof (rule remap_inv [OF updated.prems _ updated.hyps(2-4)])
    fix i m assume "hm_get (pending s) i = Some m"
    with updated.hyps(1) send_invD(1) [OF updated.prems]
    show "same_message m (m' i m) \<and> message_ok cfg i (m' i m)"
      by (metis advances_ok advances_def same_message_def)
  qed
next
  case (added s i m t)
  show ?case
    by (rule added_inv [OF added.prems added.hyps(1-3,5-10)])
qed

lemma send_moves_inv: "send_moves cfg ls s t \<Longrightarrow> send_inv cfg s \<Longrightarrow> send_inv cfg t"
  by (induction rule: send_moves.induct) (simp_all add: send_move_inv)

definition keeps_message :: "pending_message \<Rightarrow> pending_message \<Rightarrow> bool" where
  "keeps_message m m' \<longleftrightarrow> same_message m m' \<and> pm_attempts m \<le> pm_attempts m'"

lemma keeps_message_refl [simp]: "keeps_message m m"
  by (simp add: keeps_message_def same_message_def)

lemma keeps_message_trans: "keeps_message m m' \<Longrightarrow> keeps_message m' m'' \<Longrightarrow> keeps_message m m''"
  unfolding keeps_message_def same_message_def by (metis order_trans)

lemma send_move_keep:
  assumes "send_move cfg l s t" "hm_get (pending s) i = Some m" "l \<noteq> Some i"
  shows "\<exists>m'. hm_get (pending t) i = Some m' \<and> keeps_message m m'"
  using assms
proof (induction rule: send_move.induct)
  case (settled s j x pick outcome)
  then show ?case by (auto simp: settle_pending)
next
  case (updated s m' t)
  from updated.hyps(1) [OF updated.prems(1)] have "keeps_message m (m' i m)"
    by (auto simp: keeps_message_def advances_def same_message_def)
  with updated.hyps(2) updated.prems(1) show ?case by simp
next
  case (added s j x t)
  then show ?case by auto
qed

lemma send_moves_keep:
  assumes "send_moves cfg ls s t" "hm_get (pending s) i = Some m" "i \<notin> set ls"
  shows "\<exists>m'. hm_get (pending t) i = Some m' \<and> keeps_message m m'"
  using assms
proof (induction arbitrary: m rule: send_moves.induct)
  case (more l s t ls u)
  have "l \<noteq> Some i" using more.prems(2) by auto
  from send_move_keep [OF more.hyps(1) more.prems(1) this] obtain m1 where
    m1: "hm_get (pending t) i = Some m1" "keeps_message m m1" by blast
  have "i \<notin> set ls" using more.prems(2) by simp
  from more.IH [OF m1(1) this] m1(2) show ?case using keeps_message_trans by blast
qed auto

section \<open>Events\<close>

datatype send_event =
    Enqueue "message_id list" string string "byte list" delivery_policy retry_policy instant
  | BeginSend "string option" message_id instant
  | MarkSent "string option" "u32 option" message_id instant
  | MarkFailed "string option" "u32 option" message_id instant
  | Ack string message_id
  | Cancel message_id
  | Recover string instant
  | RetryScan string instant

fun send_step :: "delivery_config \<Rightarrow> outcome_pick \<Rightarrow> send_event \<Rightarrow> delivery_store \<Rightarrow> delivery_store" where
  "send_step cfg pick (Enqueue draws p c payload policy retry now) s =
     (case enqueue_at_inner cfg pick draws p c payload policy retry now s of
        None \<Rightarrow> s | Some (_, s') \<Rightarrow> s')"
| "send_step cfg pick (BeginSend p i now) s = snd (begin_send_inner pick p i now s)"
| "send_step cfg pick (MarkSent p n i now) s = snd (mark_sent_inner p n i now s)"
| "send_step cfg pick (MarkFailed p n i now) s = snd (mark_send_failed_inner pick p n i now s)"
| "send_step cfg pick (Ack p i) s = snd (acknowledge pick p i s)"
| "send_step cfg pick (Cancel i) s = snd (cancel pick i s)"
| "send_step cfg pick (Recover p now) s = snd (recover_peer_at pick p now s)"
| "send_step cfg pick (RetryScan p now) s = snd (retryable_messages pick p now s)"

text \<open>The reasons for which an event may take a message out of the queue.\<close>

definition attempt_exhausted :: "pending_message \<Rightarrow> bool" where
  "attempt_exhausted m \<longleftrightarrow> pm_attempts m = max_attempts (pm_retry_policy m)
     \<or> (case max_total_retry_bytes (pm_retry_policy m) of
          None \<Rightarrow> False
        | Some limit \<Rightarrow>
            saturating_add (pm_retry_bytes m) (of_nat (length (pm_payload m))) > limit
            \<or> pm_retry_bytes m > limit)"

fun may_leave :: "send_event \<Rightarrow> pending_message \<Rightarrow> bool" where
  "may_leave (Enqueue draws p c payload policy retry now) m \<longleftrightarrow>
     policy = LatestState \<and> latest_state_of p c m"
| "may_leave (BeginSend p i now) m \<longleftrightarrow> pm_message_id m = i \<and> (is_expired m now \<or> attempt_exhausted m)"
| "may_leave (MarkSent p n i now) m \<longleftrightarrow> False"
| "may_leave (MarkFailed p n i now) m \<longleftrightarrow> pm_message_id m = i \<and> (is_expired m now \<or> attempt_exhausted m)"
| "may_leave (Ack p i) m \<longleftrightarrow> pm_peer m = p \<and> pm_message_id m = i"
| "may_leave (Cancel i) m \<longleftrightarrow> pm_message_id m = i"
| "may_leave (Recover p now) m \<longleftrightarrow> pm_peer m = p \<and> is_expired m now"
| "may_leave (RetryScan p now) m \<longleftrightarrow> pm_peer m = p \<and> is_expired m now"

text \<open>The identities an event may create.\<close>

fun mints :: "send_event \<Rightarrow> delivery_identity \<Rightarrow> bool" where
  "mints (Enqueue draws p c payload policy retry now) i \<longleftrightarrow> (\<exists>n\<in>set draws. i = DeliveryIdentity p n)"
| "mints _ i \<longleftrightarrow> False"

definition traced :: "send_event \<Rightarrow> delivery_store \<Rightarrow> delivery_store \<Rightarrow> bool" where
  "traced e s t \<longleftrightarrow> (\<forall>i m'. hm_get (pending t) i = Some m' \<longrightarrow>
     mints e i \<or> (\<exists>m. hm_get (pending s) i = Some m \<and> keeps_message m m'))"

lemma traced_subset:
  "traced e s t \<Longrightarrow> (\<And>i m. hm_get (pending u) i = Some m \<Longrightarrow> hm_get (pending t) i = Some m) \<Longrightarrow>
     traced e s u"
  unfolding traced_def by blast

lemma settle_subset: "hm_get (pending (settle pick j outcome s)) i = Some m \<Longrightarrow> hm_get (pending s) i = Some m"
  by (simp add: settle_def remove_pending_def record_terminal_def Let_def split: option.splits if_splits)

lemma fold_settle_subset:
  "hm_get (pending (fold (\<lambda>j. settle pick j outcome) ids s)) i = Some m \<Longrightarrow> hm_get (pending s) i = Some m"
  by (induction ids arbitrary: s) (auto dest: settle_subset)

definition explained :: "delivery_config \<Rightarrow> send_event \<Rightarrow> delivery_store \<Rightarrow> delivery_store \<Rightarrow> bool" where
  "explained cfg e s t \<longleftrightarrow> (\<exists>ls. send_moves cfg ls s t \<and>
     (\<forall>i\<in>set ls. \<exists>m. hm_get (pending s) i = Some m \<and> may_leave e m)) \<and> traced e s t"

lemma explained_same: "explained cfg e s s"
  unfolding explained_def traced_def using send_moves.idle by fastforce

lemma explained_settle:
  assumes "hm_get (pending s) i = Some m" "may_leave e m"
  shows "explained cfg e s (settle pick i outcome s)"
  unfolding explained_def traced_def
  using send_moves_settle [OF assms(1)] assms by (fastforce dest: settle_subset)

lemma explained_update:
  assumes "\<And>i m. hm_get (pending s) i = Some m \<Longrightarrow> m' i m = m \<or> advances m (m' i m)"
    "pending t = hm_map m' (pending s)" "pending_bytes t = pending_bytes s"
    "terminal_outcomes t = terminal_outcomes s"
  shows "explained cfg e s t"
proof -
  have "keeps_message m (m' i m)" if "hm_get (pending s) i = Some m" for i m
    using assms(1) [OF that] by (auto simp: keeps_message_def advances_def same_message_def)
  then have "traced e s t" unfolding traced_def assms(2) by auto
  then show ?thesis
    unfolding explained_def using send_moves_one [OF send_move.updated [OF assms]] by fastforce
qed

lemma explained_modify:
  assumes "hm_get (pending s) i = Some m" "advances m (f m)"
  shows "explained cfg e s (s\<lparr>pending := hm_modify i f (pending s)\<rparr>)"
  by (rule explained_update [where m' = "\<lambda>k v. if k = i then f v else v"])
     (use assms in \<open>auto simp: hm_modify_as_map\<close>)

lemma explained_expired:
  assumes inv: "send_inv cfg s" and t: "explained cfg e s t"
    and keys: "map fst (pending t) = map fst (pending s)"
    and e: "\<And>m. pm_peer m = p \<Longrightarrow> is_expired m now \<Longrightarrow> may_leave e m"
  shows "explained cfg e s (fold (\<lambda>i. settle pick i OutExpired) (expired_identities p now s) t)"
proof -
  let ?ids = "expired_identities p now s"
  note f = send_inv_facts [OF inv]
  have ids: "distinct ?ids" using f(1) by (simp add: expired_identities_def distinct_map_filter)
  have leave: "\<exists>m. hm_get (pending s) i = Some m \<and> may_leave e m" if "i \<in> set ?ids" for i
  proof -
    from that obtain m where m: "(i, m) \<in> set (pending s)" "pm_peer m = p" "is_expired m now"
      by (auto simp: expired_identities_def)
    with hm_in_get [OF f(1) m(1)] e show ?thesis by blast
  qed
  have "hm_contains (pending t) i" if "i \<in> set ?ids" for i
  proof -
    have "i \<in> set (map fst (pending s))" using that by (auto simp: expired_identities_def)
    then show ?thesis by (simp add: map_of_eq_None_iff flip: keys)
  qed
  from send_moves_fold_settle [OF ids this] have
    "send_moves cfg ?ids t (fold (\<lambda>i. settle pick i OutExpired) ?ids t)" by blast
  moreover obtain ls where "send_moves cfg ls s t"
    "\<And>i. i \<in> set ls \<Longrightarrow> \<exists>m. hm_get (pending s) i = Some m \<and> may_leave e m"
    and tr: "traced e s t"
    using t unfolding explained_def by blast
  moreover have "traced e s (fold (\<lambda>i. settle pick i OutExpired) ?ids t)"
    by (rule traced_subset [OF tr fold_settle_subset])
  ultimately show ?thesis
    unfolding explained_def using send_moves_trans leave
    by (intro conjI exI [of _ "ls @ ?ids"]) (auto simp del: may_leave.simps)
qed

lemma saturating_succ_u32:
  "a \<le> saturating_add a (1 :: u32)"
  "a \<le> b \<Longrightarrow> b < saturating_add a 1 \<Longrightarrow> a = (b :: u32)"
  by (simp_all add: word_le_nat_alt word_less_nat_alt unat_saturating_add word_unat_eq_iff)
     (use unat_bound [of a] in simp)

lemma send_inv_attempts:
  assumes "send_inv cfg s" "hm_get (pending s) i = Some m"
  shows "pm_attempts m \<le> max_attempts (pm_retry_policy m)" "i = DeliveryIdentity (pm_peer m) (pm_message_id m)"
  using send_invD(1) [OF assms] by (simp_all add: message_ok_def)

lemma begin_send_explained:
  assumes inv: "send_inv cfg s"
  shows "explained cfg (BeginSend p i now) s (snd (begin_send_inner pick p i now s))"
proof (cases "resolve_pending_identity s p i")
  case None
  then show ?thesis by (simp add: begin_send_inner_def explained_same split: option.splits)
next
  case (Some identity)
  then obtain m where m: "hm_get (pending s) identity = Some m" "di_message_id identity = i"
    by (rule resolve_pending)
  note a = send_inv_attempts [OF inv m(1)]
  have id: "pm_message_id m = i" using a(2) m(2) by simp
  let ?n = "saturating_add (pm_attempts m) 1"
  let ?b = "saturating_add (pm_retry_bytes m) (if ?n > 1 then of_nat (length (pm_payload m)) else 0)"
  have exp: "explained cfg (BeginSend p i now) s (settle pick identity outcome s)"
    if "is_expired m now \<or> attempt_exhausted m" for outcome
    using that id by (intro explained_settle [OF m(1)]) simp
  have full: "attempt_exhausted m" if "?n > max_attempts (pm_retry_policy m)"
    using saturating_succ_u32(2) [OF a(1) that] by (simp add: attempt_exhausted_def)
  have bytes: "attempt_exhausted m" if "max_total_retry_bytes (pm_retry_policy m) = Some limit" "?b > limit" for limit
  proof -
    have "saturating_add (pm_retry_bytes m) 0 = pm_retry_bytes m"
      using unat_bound [of "pm_retry_bytes m"] by (simp add: word_unat_eq_iff unat_saturating_add)
    with that show ?thesis by (auto simp: attempt_exhausted_def split: if_splits)
  qed
  have upd: "explained cfg (BeginSend p i now) s (s\<lparr>pending := hm_modify identity
      (\<lambda>_. m\<lparr>pm_attempts := ?n, pm_retry_bytes := ?b, pm_state := Sending\<rparr>) (pending s)\<rparr>)"
    if "\<not> ?n > max_attempts (pm_retry_policy m)"
    using that saturating_succ_u32(1) [of "pm_attempts m"]
    by (intro explained_modify [OF m(1)]) (simp add: advances_def same_message_def not_less)
  show ?thesis
    unfolding begin_send_inner_def Some option.case m(1) Let_def
    using exp full bytes upd explained_same by (simp split: option.splits)
qed

lemma mark_sent_explained:
  assumes inv: "send_inv cfg s"
  shows "explained cfg (MarkSent p n i now) s (snd (mark_sent_inner p n i now s))"
proof (cases "resolve_pending_identity s p i")
  case None
  then show ?thesis by (simp add: mark_sent_inner_def explained_same)
next
  case (Some identity)
  then obtain m where m: "hm_get (pending s) identity = Some m" by (rule resolve_pending)
  have "explained cfg (MarkSent p n i now) s (s\<lparr>pending := hm_modify identity
      (\<lambda>m. m\<lparr>pm_state := SentUnacked,
        pm_next_retry_at := now + delay_for_attempt (pm_retry_policy m) (pm_attempts m)\<rparr>) (pending s)\<rparr>)"
    using send_inv_attempts(1) [OF inv m]
    by (intro explained_modify [OF m]) (simp add: advances_def same_message_def)
  then show ?thesis by (simp add: mark_sent_inner_def Some m explained_same)
qed

lemma mark_failed_explained:
  assumes inv: "send_inv cfg s"
  shows "explained cfg (MarkFailed p n i now) s (snd (mark_send_failed_inner pick p n i now s))"
proof (cases "resolve_pending_identity s p i")
  case None
  then show ?thesis by (simp add: mark_send_failed_inner_def explained_same)
next
  case (Some identity)
  then obtain m where m: "hm_get (pending s) identity = Some m" "di_message_id identity = i"
    by (rule resolve_pending)
  note a = send_inv_attempts [OF inv m(1)]
  have id: "pm_message_id m = i" using a(2) m(2) by simp
  have exp: "explained cfg (MarkFailed p n' i now) s (settle pick identity outcome s)"
    if "is_expired m now \<or> attempt_exhausted m" for outcome n'
    using that id by (intro explained_settle [OF m(1)]) simp
  have full: "attempt_exhausted m" if "pm_attempts m \<ge> max_attempts (pm_retry_policy m)
      \<or> (case max_total_retry_bytes (pm_retry_policy m) of None \<Rightarrow> False
         | Some limit \<Rightarrow> saturating_add (pm_retry_bytes m) (of_nat (length (pm_payload m))) > limit)"
    using that a(1) by (auto simp: attempt_exhausted_def split: option.splits)
  have upd: "explained cfg (MarkFailed p n' i now) s (s\<lparr>pending := hm_modify identity
      (\<lambda>m. m\<lparr>pm_state := Queued, pm_next_retry_at := x\<rparr>) (pending s)\<rparr>)" for x n'
    using a(1) by (intro explained_modify [OF m(1)]) (simp add: advances_def same_message_def)
  show ?thesis
    unfolding mark_send_failed_inner_def Some option.case m(1) Let_def
    using full by (auto intro!: explained_same exp upd split del: option.split)
qed

lemma ack_explained:
  assumes inv: "send_inv cfg s"
  shows "explained cfg (Ack p i) s (snd (acknowledge pick p i s))"
proof (cases "hm_get (pending s) (DeliveryIdentity p i)")
  case (Some m)
  have "pm_peer m = p" "pm_message_id m = i" using send_inv_attempts(2) [OF inv Some] by simp_all
  then have "explained cfg (Ack p i) s (settle pick (DeliveryIdentity p i) OutAcknowledged s)"
    by (intro explained_settle [OF Some]) simp
  then show ?thesis by (simp add: acknowledge_def Some explained_same Let_def)
qed (simp add: acknowledge_def explained_same Let_def)

lemma cancel_explained:
  assumes inv: "send_inv cfg s"
  shows "explained cfg (Cancel i) s (snd (cancel pick i s))"
proof (cases "resolve_pending_identity s None i")
  case (Some identity)
  then obtain m where m: "hm_get (pending s) identity = Some m" "di_message_id identity = i"
    by (rule resolve_pending)
  then have "pm_message_id m = i" using send_inv_attempts(2) [OF inv m(1)] by simp
  then have "explained cfg (Cancel i) s (settle pick identity OutCancelled s)"
    by (intro explained_settle [OF m(1)]) simp
  then show ?thesis by (simp add: cancel_def Some m)
qed (simp add: cancel_def explained_same)

lemma recover_explained:
  assumes inv: "send_inv cfg s"
  shows "explained cfg (Recover p now) s (snd (recover_peer_at pick p now s))"
proof -
  define g where "g = (\<lambda>(_ :: delivery_identity) m. if pm_peer m = p \<and> \<not> is_expired m now
    then m\<lparr>pm_state := Queued, pm_next_retry_at := now, pm_recovery_epoch :=
      (case hm_get (recovery_epochs s) p of None \<Rightarrow> 1 | Some e \<Rightarrow> saturating_add e 1)\<rparr> else m)"
  define t where "t = s\<lparr>recovery_epochs := hm_insert p
      (case hm_get (recovery_epochs s) p of None \<Rightarrow> 1 | Some e \<Rightarrow> saturating_add e 1) (recovery_epochs s),
    pending := hm_map g (pending s)\<rparr>"
  have "explained cfg (Recover p now) s t"
    using send_inv_attempts(1) [OF inv]
    by (intro explained_update [where m' = g]) (auto simp: t_def g_def advances_def same_message_def)
  then have "explained cfg (Recover p now) s
      (fold (\<lambda>i. settle pick i OutExpired) (expired_identities p now s) t)"
    by (rule explained_expired [OF inv]) (simp_all add: t_def)
  then show ?thesis by (simp add: recover_peer_at_def Let_def t_def g_def)
qed

lemma retry_scan_explained:
  assumes inv: "send_inv cfg s"
  shows "explained cfg (RetryScan p now) s (snd (retryable_messages pick p now s))"
proof -
  define g where "g = (\<lambda>(_ :: delivery_identity) m.
    if pm_peer m = p \<and> \<not> is_expired m now \<and> now \<ge> pm_next_retry_at m
       \<and> (pm_state m = SentUnacked \<or> pm_state m = Queued)
    then (if pm_state m = SentUnacked then m\<lparr>pm_state := Queued, pm_next_retry_at := now\<rparr> else m)
    else m)"
  have "explained cfg (RetryScan p now) s (s\<lparr>pending := hm_map g (pending s)\<rparr>)"
    using send_inv_attempts(1) [OF inv]
    by (intro explained_update [where m' = g]) (auto simp: g_def advances_def same_message_def)
  then have "explained cfg (RetryScan p now) s (fold (\<lambda>i. settle pick i OutExpired)
      (expired_identities p now s) (s\<lparr>pending := hm_map g (pending s)\<rparr>))"
    by (rule explained_expired [OF inv]) simp_all
  then show ?thesis by (simp add: retryable_messages_def Let_def g_def)
qed

text \<open>Enqueueing: a superseded \<open>LatestState\<close> message is settled first, then the new one is added.\<close>

definition superseded :: "delivery_policy \<Rightarrow> string \<Rightarrow> string \<Rightarrow> delivery_store \<Rightarrow> delivery_identity list" where
  "superseded policy p c s =
     (if policy = LatestState
      then map fst (filter (\<lambda>(_, m). latest_state_of p c m) (pending s)) else [])"

definition cleared :: "outcome_pick \<Rightarrow> delivery_policy \<Rightarrow> string \<Rightarrow> string \<Rightarrow> delivery_store \<Rightarrow> delivery_store" where
  "cleared pick policy p c s = fold (\<lambda>i. settle pick i OutCancelled) (superseded policy p c s) s"

lemma fold_remove_settle:
  assumes "distinct ids" "\<And>i. i \<in> set ids \<Longrightarrow> hm_contains (pending s) i"
  shows "fold (\<lambda>identity store. case remove_pending identity store of
       (None, store) \<Rightarrow> store
     | (Some _, store) \<Rightarrow> record_terminal pick identity OutCancelled store) ids s =
     fold (\<lambda>i. settle pick i OutCancelled) ids s"
  using assms
proof (induction ids arbitrary: s)
  case (Cons i ids)
  then obtain m where m: "hm_get (pending s) i = Some m" by fastforce
  have "hm_contains (pending (settle pick i OutCancelled s)) j" if "j \<in> set ids" for j
    using Cons.prems that by (auto simp: settle_pending [OF m])
  with Cons show ?case by (simp add: m settle_def remove_pending_def)
qed simp

lemma superseded_facts:
  assumes inv: "send_inv cfg s"
  shows "distinct (superseded policy p c s)"
    "\<And>i. i \<in> set (superseded policy p c s) \<Longrightarrow>
       \<exists>m. hm_get (pending s) i = Some m \<and> policy = LatestState \<and> latest_state_of p c m"
proof -
  note wf = send_inv_facts(1) [OF inv]
  show "distinct (superseded policy p c s)"
    using wf by (simp add: superseded_def distinct_map_filter)
  fix i assume "i \<in> set (superseded policy p c s)"
  then obtain m where "(i, m) \<in> set (pending s)" "policy = LatestState" "latest_state_of p c m"
    by (auto simp: superseded_def split: if_splits)
  with hm_in_get [OF wf] show "\<exists>m. hm_get (pending s) i = Some m \<and> policy = LatestState \<and> latest_state_of p c m"
    by blast
qed

lemma enqueue_cleared:
  assumes inv: "send_inv cfg s"
  shows "(if policy = LatestState
     then fold (\<lambda>identity store. case remove_pending identity store of
            (None, store) \<Rightarrow> store
          | (Some _, store) \<Rightarrow> record_terminal pick identity OutCancelled store)
       (map fst (filter (\<lambda>(_, m). pm_peer m = p \<and> pm_channel m = c \<and> pm_policy m = LatestState)
         (pending s))) s
     else s) = cleared pick policy p c s"
proof (cases "policy = LatestState")
  case True
  have eq: "map fst (filter (\<lambda>(_, m). pm_peer m = p \<and> pm_channel m = c \<and> pm_policy m = LatestState)
      (pending s)) = superseded policy p c s"
    unfolding superseded_def latest_state_of_def using True by simp
  have c: "hm_contains (pending s) i" if "i \<in> set (superseded policy p c s)" for i
    using superseded_facts(2) [OF inv that] by auto
  have "fold (\<lambda>identity store. case remove_pending identity store of
       (None, store) \<Rightarrow> store
     | (Some _, store) \<Rightarrow> record_terminal pick identity OutCancelled store) (superseded policy p c s) s =
     fold (\<lambda>i. settle pick i OutCancelled) (superseded policy p c s) s"
    by (rule fold_remove_settle [OF superseded_facts(1) [OF inv] c])
  then show ?thesis unfolding eq cleared_def using True by simp
qed (simp add: cleared_def superseded_def)

lemma fold_settle_fields:
  assumes "distinct ids" "\<And>i. i \<in> set ids \<Longrightarrow> hm_contains (pending s) i"
  shows "hm_get (pending (fold (\<lambda>i. settle pick i outcome) ids s)) =
      (\<lambda>i. if i \<in> set ids then None else hm_get (pending s) i)
    \<and> next_sequences (fold (\<lambda>i. settle pick i outcome) ids s) = next_sequences s
    \<and> recovery_epochs (fold (\<lambda>i. settle pick i outcome) ids s) = recovery_epochs s"
  using assms
proof (induction ids arbitrary: s)
  case (Cons i ids)
  then obtain m where m: "hm_get (pending s) i = Some m" by fastforce
  have "hm_contains (pending (settle pick i outcome s)) j" if "j \<in> set ids" for j
    using Cons.prems that by (auto simp: settle_pending [OF m])
  with Cons.IH [of "settle pick i outcome s"] Cons.prems show ?case
    by (auto simp: settle_pending [OF m] fun_eq_iff)
qed simp

lemma cleared_facts:
  assumes inv: "send_inv cfg s"
  shows "send_inv cfg (cleared pick policy p c s)"
    "hm_get (pending (cleared pick policy p c s)) =
      (\<lambda>i. if i \<in> set (superseded policy p c s) then None else hm_get (pending s) i)"
    "next_sequences (cleared pick policy p c s) = next_sequences s"
    "recovery_epochs (cleared pick policy p c s) = recovery_epochs s"
    "send_moves cfg (superseded policy p c s) s (cleared pick policy p c s)"
proof -
  have c: "hm_contains (pending s) i" if "i \<in> set (superseded policy p c s)" for i
    using superseded_facts(2) [OF inv that] by auto
  note d = superseded_facts(1) [OF inv]
  show "send_moves cfg (superseded policy p c s) s (cleared pick policy p c s)"
    unfolding cleared_def by (rule send_moves_fold_settle [OF d c])
  then show "send_inv cfg (cleared pick policy p c s)" by (rule send_moves_inv [OF _ inv])
  show "hm_get (pending (cleared pick policy p c s)) =
      (\<lambda>i. if i \<in> set (superseded policy p c s) then None else hm_get (pending s) i)"
    "next_sequences (cleared pick policy p c s) = next_sequences s"
    "recovery_epochs (cleared pick policy p c s) = recovery_epochs s"
    unfolding cleared_def using fold_settle_fields [OF d c] by auto
qed

lemma cleared_latest:
  assumes inv: "send_inv cfg s" and m: "hm_get (pending (cleared pick LatestState p c s)) i = Some m"
  shows "\<not> latest_state_of p c m"
proof
  assume l: "latest_state_of p c m"
  have "hm_get (pending s) i = Some m" "i \<notin> set (superseded LatestState p c s)"
    using m by (simp_all add: cleared_facts(2) [OF inv] split: if_splits)
  with l show False
    by (force simp: superseded_def dest: hm_get_Some_in)
qed

text \<open>The outcomes of an enqueue.\<close>

lemma enqueue_cases:
  assumes inv: "send_inv cfg s"
    and e: "enqueue_at_inner cfg pick draws p c payload policy retry now s = Some (res, s')"
  obtains (invalid) x where "res = Inl x" "s' = s"
  | (full) "res = Inl QueueFull" "s' = cleared pick policy p c s"
  | (ok) m t q where "res = Inr m" "t = cleared pick policy p c s"
      "q = (case hm_get (next_sequences s) (p, c) of None \<Rightarrow> 0 | Some q \<Rightarrow> q)"
      "pm_peer m = p" "pm_channel m = c" "pm_sequence m = q" "pm_payload m = payload"
      "pm_policy m = policy" "pm_attempts m = 0" "pm_state m = Queued" "pm_retry_policy m = retry"
      "retry_policy_is_valid retry" "length payload \<le> max_payload_bytes cfg"
      "hm_get (pending t) (DeliveryIdentity p (pm_message_id m)) = None"
      "hm_get (terminal_outcomes t) (DeliveryIdentity p (pm_message_id m)) = None"
      "pm_message_id m \<in> set draws"
      "next_sequences s' = hm_insert (p, c) (saturating_add q 1) (next_sequences s)"
      "terminal_outcomes s' = terminal_outcomes t"
      "policy = BestEffort \<and> pending s' = pending t \<and> pending_bytes s' = pending_bytes t
       \<or> policy \<noteq> BestEffort \<and> length (pending t) < max_pending_messages cfg
         \<and> pending_bytes t + length payload \<le> max_pending_bytes cfg
         \<and> pending s' = hm_insert (DeliveryIdentity p (pm_message_id m)) m (pending t)
         \<and> pending_bytes s' = pending_bytes t + length payload"
proof (cases "is_valid_scope_id p \<and> is_valid_scope_id c \<and> length payload \<le> max_payload_bytes cfg
    \<and> retry_policy_is_valid retry")
  case False
  then show ?thesis using e invalid by (auto simp: enqueue_at_inner_def split: if_splits)
next
  case valid: True
  let ?t = "cleared pick policy p c s"
  let ?full = "policy \<noteq> BestEffort \<and> (length (pending ?t) \<ge> max_pending_messages cfg
      \<or> pending_bytes ?t + length payload > max_pending_bytes cfg)"
  show ?thesis
  proof (cases ?full)
    case True
    with e valid show ?thesis
      by (intro full) (auto simp: enqueue_at_inner_def enqueue_cleared [OF inv] Let_def)
  next
    case False
    note e' = e [unfolded enqueue_at_inner_def enqueue_cleared [OF inv] Let_def]
    obtain i where i: "next_message_id p (pending ?t) (terminal_outcomes ?t) draws = Some i"
      using e' valid False by (auto split: option.splits)
    then have fresh: "hm_get (pending ?t) (DeliveryIdentity p i) = None"
        "hm_get (terminal_outcomes ?t) (DeliveryIdentity p i) = None" "i \<in> set draws"
      by (auto simp: next_message_id_def find_Some_iff)
    define q where "q = (case hm_get (next_sequences s) (p, c) of None \<Rightarrow> 0 | Some q \<Rightarrow> q)"
    define m where "m = \<lparr>pm_message_id = i, pm_peer = p, pm_channel = c, pm_sequence = q,
      pm_payload = payload, pm_policy = policy, pm_state = Queued, pm_attempts = 0,
      pm_created_at = now, pm_expires_at = map_option (\<lambda>ttl. now + ttl) (ttl retry),
      pm_recovery_epoch = (case hm_get (recovery_epochs ?t) p of None \<Rightarrow> 0 | Some e \<Rightarrow> e),
      pm_retry_policy = retry, pm_next_retry_at = now, pm_retry_bytes = 0\<rparr>"
    define t1 where "t1 = ?t\<lparr>next_sequences := hm_insert (p, c) (saturating_add q 1) (next_sequences s)\<rparr>"
    have "res = Inr m" and s': "s' = (if policy \<noteq> BestEffort
        then t1\<lparr>pending_bytes := pending_bytes t1 + length payload,
                pending := hm_insert (DeliveryIdentity p i) m (pending t1)\<rparr> else t1)"
      using e' valid False i cleared_facts(3) [OF inv, of pick policy p c]
      by (cases "policy = BestEffort"; auto simp: m_def q_def t1_def)+
    then show ?thesis
      using valid False fresh
      by (intro ok [of m ?t q]) (auto simp: q_def m_def t1_def s')
  qed
qed

end
