(* ===== verification/Delivery_Sender.thy ===== *)
theory Delivery_Sender
  imports Delivery_Send
begin

text \<open>
  Runs of the sending half of the delivery manager: every event of \<open>Delivery_Send\<close> keeps its
  invariant and takes a message out of the queue only for a stated reason, so an
  unacknowledged reliable message survives until the next connection, is leased a bounded
  number of times, and the sequence numbers of a channel count its enqueued messages.
\<close>

section \<open>Every event is explained\<close>

lemma enqueue_explained:
  assumes inv: "send_inv cfg s"
    and e: "enqueue_at_inner cfg pick draws p c payload policy retry now s = Some (res, s')"
  shows "explained cfg (Enqueue draws p c payload policy retry now) s s'"
proof -
  let ?t = "cleared pick policy p c s"
  note cf = cleared_facts(5) [OF inv, where pick = pick and policy = policy and p = p and c = c]
  have leave: "\<forall>i\<in>set (superseded policy p c s). \<exists>m. hm_get (pending s) i = Some m
      \<and> may_leave (Enqueue draws p c payload policy retry now) m"
    using superseded_facts(2) [OF inv] by fastforce
  have sub: "hm_get (pending s) i = Some x" if "hm_get (pending ?t) i = Some x" for i x
    using that by (simp add: cleared_facts(2) [OF inv] split: if_splits)
  from inv e show ?thesis
  proof (cases rule: enqueue_cases)
    case (ok m t q)
    let ?i = "DeliveryIdentity p (pm_message_id m)"
    have "send_moves cfg [] t s'"
    proof (cases "policy = BestEffort")
      case False
      have new: "message_ok cfg ?i m"
        using ok False by (simp add: message_ok_def message_bytes_def)
      have "\<not> latest_state_of p' c' m" if "hm_get (pending t) j = Some x" "latest_state_of p' c' x" for j x p' c'
        using that cleared_latest [OF inv, of pick p c j x] ok by (auto simp: latest_state_of_def)
      with new ok False show ?thesis
        by (intro send_moves_one send_move.added [where i = ?i and m = m]) (auto simp: message_bytes_def)
    qed (use ok in \<open>auto intro: send_moves_same\<close>)
    note moves = send_moves_trans [OF cf this [unfolded ok(2)]]
    have "hm_get (pending s) j = Some x \<or> j = ?i" if "hm_get (pending s') j = Some x" for j x
      using that ok sub [of j x] by (auto split: if_splits)
    then have "traced (Enqueue draws p c payload policy retry now) s s'"
      unfolding traced_def using ok by fastforce
    with moves leave show ?thesis
      unfolding explained_def by (auto simp del: may_leave.simps)
  next
    case full
    have "traced (Enqueue draws p c payload policy retry now) s s'"
      unfolding traced_def full using sub by (blast intro: keeps_message_refl)
    with cf leave full show ?thesis unfolding explained_def by blast
  next
    case (invalid x)
    then show ?thesis by (simp add: explained_same)
  qed
qed

lemma send_step_explained:
  assumes inv: "send_inv cfg s"
  shows "explained cfg e s (send_step cfg pick e s)"
proof (cases e)
  case (Enqueue draws p c payload policy retry now)
  with enqueue_explained [OF inv, of pick draws p c payload policy retry now] show ?thesis
    by (cases "enqueue_at_inner cfg pick draws p c payload policy retry now s")
       (auto simp: explained_same simp del: may_leave.simps)
qed (simp_all add: inv begin_send_explained mark_sent_explained mark_failed_explained ack_explained
       cancel_explained recover_explained retry_scan_explained)

lemma explained_inv: "explained cfg e s t \<Longrightarrow> send_inv cfg s \<Longrightarrow> send_inv cfg t"
  unfolding explained_def using send_moves_inv by blast

lemma explained_keep:
  assumes "explained cfg e s t" "hm_get (pending s) i = Some m" "\<not> may_leave e m"
  shows "\<exists>m'. hm_get (pending t) i = Some m' \<and> keeps_message m m'"
proof -
  from assms(1) obtain ls where ls: "send_moves cfg ls s t"
    "\<forall>i\<in>set ls. \<exists>m. hm_get (pending s) i = Some m \<and> may_leave e m"
    unfolding explained_def by blast
  with assms(2,3) have "i \<notin> set ls" by auto
  from send_moves_keep [OF ls(1) assms(2) this] show ?thesis .
qed

interpretation sender: invariant_system "send_step cfg pick" "send_inv cfg" for cfg pick
  by unfold_locales (blast intro: explained_inv send_step_explained)

lemmas sender_reachable = sender.run_inv [OF send_inv_new]

section \<open>Runs\<close>

text \<open>What a run hands to the caller: the accepted messages and the leased attempts.\<close>

definition accepted_by :: "delivery_config \<Rightarrow> outcome_pick \<Rightarrow> send_event \<Rightarrow> delivery_store \<Rightarrow> pending_message list" where
  "accepted_by cfg pick e s =
     (case e of Enqueue draws p c payload policy retry now \<Rightarrow>
        (case enqueue_at_inner cfg pick draws p c payload policy retry now s of
           Some (Inr m, _) \<Rightarrow> [m] | _ \<Rightarrow> [])
      | _ \<Rightarrow> [])"

definition leased_by :: "outcome_pick \<Rightarrow> send_event \<Rightarrow> delivery_store \<Rightarrow> pending_message list" where
  "leased_by pick e s =
     (case e of BeginSend p i now \<Rightarrow>
        (case begin_send_inner pick p i now s of (Inr (Some m), _) \<Rightarrow> [m] | _ \<Rightarrow> [])
      | _ \<Rightarrow> [])"

fun collect :: "(send_event \<Rightarrow> delivery_store \<Rightarrow> 'a list) \<Rightarrow> delivery_config \<Rightarrow> outcome_pick
    \<Rightarrow> send_event list \<Rightarrow> delivery_store \<Rightarrow> 'a list" where
  "collect out cfg pick [] s = []"
| "collect out cfg pick (e # es) s = out e s @ collect out cfg pick es (send_step cfg pick e s)"

abbreviation accepted :: "delivery_config \<Rightarrow> outcome_pick \<Rightarrow> send_event list \<Rightarrow> delivery_store \<Rightarrow> pending_message list" where
  "accepted cfg pick \<equiv> collect (accepted_by cfg pick) cfg pick"

abbreviation leases :: "delivery_config \<Rightarrow> outcome_pick \<Rightarrow> send_event list \<Rightarrow> delivery_store \<Rightarrow> pending_message list" where
  "leases cfg pick \<equiv> collect (leased_by pick) cfg pick"

definition identity_of :: "pending_message \<Rightarrow> delivery_identity" where
  "identity_of m = DeliveryIdentity (pm_peer m) (pm_message_id m)"

subsection \<open>Sequence numbers\<close>

definition sequence_of :: "delivery_store \<Rightarrow> channel_scope \<Rightarrow> u64" where
  "sequence_of s sc = (case hm_get (next_sequences s) sc of None \<Rightarrow> 0 | Some q \<Rightarrow> q)"

definition sent_on :: "channel_scope \<Rightarrow> pending_message \<Rightarrow> bool" where
  "sent_on sc m \<longleftrightarrow> (pm_peer m, pm_channel m) = sc"

lemma settle_sequences [simp]: "next_sequences (settle pick i outcome s) = next_sequences s"
  by (simp add: settle_def remove_pending_def record_terminal_def Let_def split: option.splits)

lemma fold_settle_sequences [simp]:
  "next_sequences (fold (\<lambda>i. settle pick i outcome) ids s) = next_sequences s"
  by (induction ids arbitrary: s) simp_all

lemma send_step_sequence:
  assumes inv: "send_inv cfg s"
  shows "sequence_of (send_step cfg pick e s) sc =
      (if filter (sent_on sc) (accepted_by cfg pick e s) = [] then sequence_of s sc
       else saturating_add (sequence_of s sc) 1)
    \<and> map pm_sequence (filter (sent_on sc) (accepted_by cfg pick e s)) =
      (if filter (sent_on sc) (accepted_by cfg pick e s) = [] then [] else [sequence_of s sc])"
proof (cases e)
  case (Enqueue draws p c payload policy retry now)
  show ?thesis
  proof (cases "enqueue_at_inner cfg pick draws p c payload policy retry now s")
    case (Some r)
    then obtain res s' where r: "enqueue_at_inner cfg pick draws p c payload policy retry now s = Some (res, s')"
      by (cases r) simp
    from inv r show ?thesis
    proof (cases rule: enqueue_cases)
      case (ok m t q)
      then show ?thesis
        by (cases sc) (auto simp: Enqueue r accepted_by_def sent_on_def sequence_of_def)
    qed (auto simp: Enqueue r accepted_by_def sequence_of_def cleared_facts(3) [OF inv])
  qed (simp add: Enqueue accepted_by_def)
qed (auto simp: accepted_by_def sequence_of_def begin_send_inner_def mark_sent_inner_def
       mark_send_failed_inner_def acknowledge_def cancel_def recover_peer_at_def retryable_messages_def
       Let_def split: option.splits)

lemma accepted_sequences:
  assumes "send_inv cfg s" "sequence_of s sc = seqno n"
  shows "map pm_sequence (filter (sent_on sc) (accepted cfg pick es s)) =
    map seqno [n..<n + length (filter (sent_on sc) (accepted cfg pick es s))]"
  using assms
proof (induction es arbitrary: s n)
  case (Cons e es)
  let ?s = "send_step cfg pick e s"
  note step = send_step_sequence [OF Cons.prems(1), of pick e sc]
  have inv: "send_inv cfg ?s" by (rule sender.step_inv [OF Cons.prems(1)])
  show ?case
  proof (cases "filter (sent_on sc) (accepted_by cfg pick e s) = []")
    case True
    then show ?thesis using Cons.IH [OF inv, of n] step Cons.prems(2) by simp
  next
    case False
    with step Cons.prems(2) have one: "map pm_sequence (filter (sent_on sc) (accepted_by cfg pick e s)) = [seqno n]"
      and later: "sequence_of ?s sc = seqno (Suc n)" by (simp_all add: seqno_Suc)
    from one obtain x where x: "filter (sent_on sc) (accepted_by cfg pick e s) = [x]" "pm_sequence x = seqno n"
      by (auto simp: map_eq_Cons_conv)
    show ?thesis using Cons.IH [OF inv later] x by (simp add: upt_conv_Cons del: upt_Suc)
  qed
qed simp

text \<open>
  the messages accepted for one channel carry the sequence numbers 0, 1, 2, ... in the
  order in which they were accepted (saturating at the last 64-bit number), whatever happens in
  between and on other channels; a refused message uses no number.
\<close>

theorem enqueued_sequences_consecutive:
  "map pm_sequence (filter (sent_on sc) (accepted cfg pick es delivery_store_new)) =
     map seqno [0..<length (filter (sent_on sc) (accepted cfg pick es delivery_store_new))]"
  using accepted_sequences [OF send_inv_new, of sc 0 cfg pick es]
  by (simp add: sequence_of_def delivery_store_new_def)

subsection \<open>Leases\<close>

lemma begin_send_leases:
  assumes inv: "send_inv cfg s" and b: "begin_send_inner pick p i now s = (Inr (Some m'), s')"
  obtains m where "hm_get (pending s) (identity_of m') = Some m"
    "hm_get (pending s') (identity_of m') = Some m'" "same_message m m'"
    "pm_attempts m' = saturating_add (pm_attempts m) 1" "pm_attempts m' \<le> max_attempts (pm_retry_policy m)"
proof (cases "resolve_pending_identity s p i")
  case None
  with b show ?thesis by (simp add: begin_send_inner_def split: option.splits if_splits)
next
  case (Some identity)
  then obtain m where m: "hm_get (pending s) identity = Some m" by (rule resolve_pending)
  note a = send_inv_attempts [OF inv m]
  let ?n = "saturating_add (pm_attempts m) 1"
  from b [unfolded begin_send_inner_def Some option.case m Let_def]
  have "\<not> ?n > max_attempts (pm_retry_policy m)"
    and res: "m' = m\<lparr>pm_attempts := ?n, pm_retry_bytes := saturating_add (pm_retry_bytes m)
        (if ?n > 1 then of_nat (length (pm_payload m)) else 0), pm_state := Sending\<rparr>"
    and s': "s' = s\<lparr>pending := hm_modify identity (\<lambda>_. m') (pending s)\<rparr>"
    by (auto split: if_splits option.splits)
  moreover have "identity_of m' = identity" using a(2) by (simp add: res identity_of_def)
  ultimately show ?thesis using m by (intro that [of m]) (auto simp: same_message_def)
qed

lemma leased_byE:
  assumes inv: "send_inv cfg s" and x: "x \<in> set (leased_by pick e s)"
  obtains m where "leased_by pick e s = [x]" "hm_get (pending s) (identity_of x) = Some m"
    "hm_get (pending (send_step cfg pick e s)) (identity_of x) = Some x" "same_message m x"
    "pm_attempts x = saturating_add (pm_attempts m) 1" "pm_attempts x \<le> max_attempts (pm_retry_policy m)"
proof -
  from x obtain p i now s' where e: "e = BeginSend p i now"
    "begin_send_inner pick p i now s = (Inr (Some x), s')"
    by (auto simp: leased_by_def dest: sym split: send_event.splits prod.splits sum.splits option.splits)
  from inv e(2) show ?thesis
    by (rule begin_send_leases) (rule that, simp_all add: e leased_by_def)
qed

lemma leases_gone:
  assumes "send_inv cfg s" "hm_get (pending s) i = None" "\<And>e. e \<in> set es \<Longrightarrow> \<not> mints e i"
  shows "filter (\<lambda>x. identity_of x = i) (leases cfg pick es s) = []"
  using assms
proof (induction es arbitrary: s)
  case (Cons e es)
  let ?s = "send_step cfg pick e s"
  have "traced e s ?s" using send_step_explained [OF Cons.prems(1)] by (simp add: explained_def)
  with Cons.prems(2,3) have "hm_get (pending ?s) i = None"
    unfolding traced_def by (metis list.set_intros(1) not_None_eq)
  moreover have "identity_of x \<noteq> i" if "x \<in> set (leased_by pick e s)" for x
    using Cons.prems(2) by (rule_tac leased_byE [OF Cons.prems(1) that]) auto
  ultimately show ?case
    using Cons.IH [OF sender.step_inv [OF Cons.prems(1)]] Cons.prems(3) by (auto simp: filter_empty_conv)
qed simp

lemma saturating_succ_less:
  "saturating_add a (1 :: u32) \<le> b \<Longrightarrow> b < - 1 \<Longrightarrow> a < saturating_add a 1"
  by (simp add: word_le_nat_alt word_less_nat_alt unat_saturating_add unat_max_word)

lemma leases_increase:
  assumes "send_inv cfg s" "hm_get (pending s) i = Some m" "\<And>e. e \<in> set es \<Longrightarrow> \<not> mints e i"
    "max_attempts (pm_retry_policy m) < - 1"
  shows "sorted_wrt (<) (pm_attempts m # map pm_attempts (filter (\<lambda>x. identity_of x = i) (leases cfg pick es s)))
    \<and> (\<forall>x\<in>set (filter (\<lambda>x. identity_of x = i) (leases cfg pick es s)).
         pm_attempts x \<le> max_attempts (pm_retry_policy m) \<and> same_message m x)"
  using assms
proof (induction es arbitrary: s m)
  case (Cons e es)
  let ?s = "send_step cfg pick e s" and ?P = "\<lambda>x. identity_of x = i"
  let ?l = "filter ?P (leases cfg pick es ?s)"
  note inv = sender.step_inv [OF Cons.prems(1), of pick e]
  have rest: "filter ?P (leases cfg pick (e # es) s) = filter ?P (leased_by pick e s) @ ?l" by simp
  show ?case
  proof (cases "filter ?P (leased_by pick e s)")
    case (Cons x xs)
    then have x: "x \<in> set (leased_by pick e s)" "identity_of x = i" by (auto simp: filter_eq_Cons_iff)
    from leased_byE [OF Cons.prems(1) x(1)] x(2) Cons.prems(2) have
      l: "leased_by pick e s = [x]" "hm_get (pending ?s) i = Some x" "same_message m x"
        "pm_attempts x = saturating_add (pm_attempts m) 1" "pm_attempts x \<le> max_attempts (pm_retry_policy m)"
      by (metis option.inject)+
    have pol: "pm_retry_policy x = pm_retry_policy m" using l(3) by (simp add: same_message_def)
    have up: "pm_attempts m < pm_attempts x" using saturating_succ_less [of "pm_attempts m"] l(4,5) Cons.prems(4) by simp
    have "same_message m y" if "same_message x y" for y using l(3) that by (simp add: same_message_def)
    with Cons.IH [OF inv l(2)] Cons.prems(3,4) pol up l(5,3) show ?thesis
      unfolding rest by (fastforce simp: l(1) x(2))
  next
    case Nil
    show ?thesis
    proof (cases "hm_get (pending ?s) i")
      case None
      then show ?thesis using leases_gone [OF inv None] Cons.prems(3) Nil by (simp add: rest)
    next
      case (Some m1)
      have "traced e s ?s" using send_step_explained [OF Cons.prems(1)] by (simp add: explained_def)
      with Some Cons.prems(2,3) have k: "keeps_message m m1" unfolding traced_def by fastforce
      then have "pm_retry_policy m1 = pm_retry_policy m" "pm_attempts m \<le> pm_attempts m1"
        "\<And>y. same_message m1 y \<Longrightarrow> same_message m y"
        by (simp_all add: keeps_message_def same_message_def)
      with Cons.IH [OF inv Some] Cons.prems(3,4) Nil show ?thesis
        unfolding rest by fastforce
    qed
  qed
qed simp

lemma sorted_words_length:
  fixes ns :: "'a::len word list"
  assumes "sorted_wrt (<) (a # ns)" "\<forall>n\<in>set ns. n \<le> b"
  shows "length ns \<le> unat b - unat a"
proof -
  have "distinct ns" using assms(1) by (simp add: strict_sorted_iff)
  then have "length ns = card (unat ` set ns)"
    by (simp add: card_image inj_on_def word_unat_eq_iff distinct_card)
  also have "\<dots> \<le> card {unat a<..unat b}"
    using assms by (intro card_mono) (auto simp: word_less_nat_alt word_le_nat_alt)
  finally show ?thesis by simp
qed

text \<open>
  C30. a pending message is transmitted a bounded number of times.  Over any further run in
  which its identity is not issued anew, the attempts leased for it carry strictly increasing
  attempt numbers, all above the attempts already made and none above the limit of its retry
  policy, and each lease hands out the same message; so there are at most as many leases as
  attempts were left.  (A limit of \<open>u32::MAX\<close> is excluded: its counter saturates.)
\<close>

theorem leases_bounded_and_distinct:
  assumes "s = fold (send_step cfg pick) es0 delivery_store_new" "hm_get (pending s) i = Some m"
    "list_all (\<lambda>e. \<not> mints e i) es" "max_attempts (pm_retry_policy m) < - 1"
    "ls = filter (\<lambda>x. identity_of x = i) (leases cfg pick es s)"
  shows "sorted_wrt (<) (pm_attempts m # map pm_attempts ls)
    \<and> list_all (\<lambda>x. pm_attempts x \<le> max_attempts (pm_retry_policy m) \<and> same_message m x) ls
    \<and> length ls \<le> unat (max_attempts (pm_retry_policy m)) - unat (pm_attempts m)"
proof -
  have inv: "send_inv cfg s" unfolding assms(1) by (rule sender_reachable)
  have l: "sorted_wrt (<) (pm_attempts m # map pm_attempts ls)
    \<and> (\<forall>x\<in>set ls. pm_attempts x \<le> max_attempts (pm_retry_policy m) \<and> same_message m x)"
    unfolding assms(5)
    by (rule leases_increase [OF inv assms(2) _ assms(4)]) (use assms(3) in \<open>simp add: list_all_iff\<close>)
  moreover from l have "length (map pm_attempts ls) \<le> unat (max_attempts (pm_retry_policy m)) - unat (pm_attempts m)"
    by (intro sorted_words_length) auto
  ultimately show ?thesis by (simp add: list_all_iff)
qed

subsection \<open>Retention until acknowledgement\<close>

text \<open>No event of the run has a reason to take the message out of the queue.\<close>

fun undisturbed ::
  "delivery_config \<Rightarrow> outcome_pick \<Rightarrow> delivery_identity \<Rightarrow> send_event list \<Rightarrow> delivery_store \<Rightarrow> bool" where
  "undisturbed cfg pick i [] s \<longleftrightarrow> True"
| "undisturbed cfg pick i (e # es) s \<longleftrightarrow>
     (case hm_get (pending s) i of None \<Rightarrow> False | Some m \<Rightarrow> \<not> may_leave e m)
     \<and> undisturbed cfg pick i es (send_step cfg pick e s)"

lemma undisturbed_keep:
  assumes "send_inv cfg s" "hm_get (pending s) i = Some m" "undisturbed cfg pick i es s"
  shows "\<exists>m'. hm_get (pending (fold (send_step cfg pick) es s)) i = Some m' \<and> keeps_message m m'"
  using assms
proof (induction es arbitrary: s m)
  case (Cons e es)
  have "\<not> may_leave e m" using Cons.prems(2,3) by simp
  from explained_keep [OF send_step_explained [OF Cons.prems(1)] Cons.prems(2) this] obtain m1 where
    m1: "hm_get (pending (send_step cfg pick e s)) i = Some m1" "keeps_message m m1" by blast
  with Cons.IH [OF sender.step_inv [OF Cons.prems(1)] m1(1)] Cons.prems(3) show ?case
    using keeps_message_trans by fastforce
qed simp

lemma recover_settles:
  assumes inv: "send_inv cfg s"
  shows "hm_get (pending (snd (recover_peer_at pick p now s))) i =
    (case hm_get (pending s) i of None \<Rightarrow> None
     | Some m \<Rightarrow> if pm_peer m = p then (if is_expired m now then None
         else Some (m\<lparr>pm_state := Queued, pm_next_retry_at := now,
                      pm_recovery_epoch := rs_epoch (fst (recover_peer_at pick p now s))\<rparr>))
       else Some m)"
proof -
  let ?ids = "expired_identities p now s"
  have ids: "distinct ?ids" using send_inv_facts(1) [OF inv] by (simp add: expired_identities_def distinct_map_filter)
  define g where "g = (\<lambda>(_ :: delivery_identity) m. if pm_peer m = p \<and> \<not> is_expired m now
    then m\<lparr>pm_state := Queued, pm_next_retry_at := now, pm_recovery_epoch :=
      (case hm_get (recovery_epochs s) p of None \<Rightarrow> 1 | Some e \<Rightarrow> saturating_add e 1)\<rparr> else m)"
  define t where "t = s\<lparr>recovery_epochs := hm_insert p
      (case hm_get (recovery_epochs s) p of None \<Rightarrow> 1 | Some e \<Rightarrow> saturating_add e 1) (recovery_epochs s),
    pending := hm_map g (pending s)\<rparr>"
  have eq: "snd (recover_peer_at pick p now s) = fold (\<lambda>i. settle pick i OutExpired) ?ids t"
    by (simp add: recover_peer_at_def Let_def t_def g_def)
  have mem: "j \<in> set ?ids \<longleftrightarrow> (\<exists>m. hm_get (pending s) j = Some m \<and> pm_peer m = p \<and> is_expired m now)" for j
    using hm_in_get [OF send_inv_facts(1) [OF inv]] by (force simp: expired_identities_def dest: hm_get_Some_in)
  then have "hm_contains (pending t) j" if "j \<in> set ?ids" for j using that by (auto simp: t_def)
  from fold_settle_fields [OF ids this, of pick OutExpired] have
    "hm_get (pending (snd (recover_peer_at pick p now s))) i = (if i \<in> set ?ids then None else hm_get (pending t) i)"
    unfolding eq by simp
  then show ?thesis
    by (auto simp: mem t_def g_def recover_peer_at_def Let_def split: option.splits)
qed

lemma recover_messages:
  assumes inv: "send_inv cfg s"
    and ms_def: "ms = rs_messages (fst (recover_peer_at pick p now s))"
  shows "set ms = {m. pm_peer m = p
      \<and> hm_get (pending (snd (recover_peer_at pick p now s))) (identity_of m) = Some m}"
    and "distinct (map pm_message_id ms)" and "sorted (map pm_sequence ms)"
proof -
  note wf = send_inv_facts(1) [OF inv]
  define requeue :: "pending_message \<Rightarrow> pending_message" where "requeue = (\<lambda>m. m\<lparr>pm_state := Queued, pm_next_retry_at := now,
    pm_recovery_epoch := rs_epoch (fst (recover_peer_at pick p now s))\<rparr>)"
  define live where "live = filter (\<lambda>(_, m). pm_peer m = p \<and> \<not> is_expired m now) (pending s)"
  have ms: "ms = sort_key pm_sequence (map (\<lambda>(_, m). requeue m) live)"
    unfolding ms_def live_def requeue_def by (simp add: recover_peer_at_def Let_def)
  have live: "hm_get (pending s) i = Some m" "pm_peer m = p" "\<not> is_expired m now"
    if "(i, m) \<in> set live" for i m
    using that hm_in_get [OF wf, of i m] by (simp_all add: live_def)
  have key: "i = DeliveryIdentity p (pm_message_id m)" if "(i, m) \<in> set live" for i m
    using send_inv_attempts(2) [OF inv live(1) [OF that]] live(2) [OF that] by simp
  show "set ms = {m. pm_peer m = p
      \<and> hm_get (pending (snd (recover_peer_at pick p now s))) (identity_of m) = Some m}" (is "_ = ?R")
  proof (intro subset_antisym subsetI)
    fix m' assume "m' \<in> set ms"
    then obtain i m where m: "(i, m) \<in> set live" "m' = requeue m" by (auto simp: ms)
    with live [OF m(1)] key [OF m(1)] show "m' \<in> ?R"
      by (simp add: recover_settles [OF inv] identity_of_def requeue_def)
  next
    fix m' assume "m' \<in> ?R"
    then have p: "pm_peer m' = p" and got: "hm_get (pending (snd (recover_peer_at pick p now s))) (identity_of m') = Some m'"
      by simp_all
    from got obtain m where m: "hm_get (pending s) (identity_of m') = Some m"
      by (simp add: recover_settles [OF inv] split: option.splits)
    moreover have "pm_peer m = p" using send_inv_attempts(2) [OF inv m] p by (simp add: identity_of_def)
    moreover from this got m have "\<not> is_expired m now" "m' = requeue m"
      by (simp_all add: recover_settles [OF inv] requeue_def split: if_splits)
    ultimately have "(identity_of m', m) \<in> set live" by (simp add: live_def hm_get_Some_in)
    with \<open>m' = requeue m\<close> show "m' \<in> set ms" by (force simp: ms)
  qed
  have "map fst live = map (DeliveryIdentity p) (map (\<lambda>(_, m). pm_message_id m) live)"
    using key by auto
  moreover have "distinct (map fst live)" using wf by (simp add: live_def distinct_map_filter)
  ultimately have "distinct (map (\<lambda>(_, m). pm_message_id m) live)" by (simp only: distinct_map)
  moreover have "map pm_message_id (map (\<lambda>(_, m). requeue m) live) = map (\<lambda>(_, m). pm_message_id m) live"
    by (auto simp: requeue_def)
  ultimately have "distinct (map pm_message_id (map (\<lambda>(_, m). requeue m) live))" by (simp only:)
  then show "distinct (map pm_message_id ms)"
    unfolding ms by (simp only: distinct_map [of pm_message_id] distinct_sort set_sort)
  show "sorted (map pm_sequence ms)" unfolding ms by (rule sorted_sort_key)
qed

text \<open>
  C12. nothing unacknowledged is lost.  A pending message stays pending, with the same id,
  payload and sequence number, through any run in which it is neither acknowledged nor
  cancelled, superseded, expired or exhausted; no terminal outcome is on record for it; and
  when the peer connects again before the message expires, the recovery batch contains it,
  ready to be sent at once.
\<close>

theorem unacknowledged_message_recovered:
  assumes "s = fold (send_step cfg pick) es0 delivery_store_new" "hm_get (pending s) i = Some m"
    "undisturbed cfg pick i es s" "\<not> is_expired m now" "t = fold (send_step cfg pick) es s"
  shows "hm_get (terminal_outcomes t) i = None
    \<and> (\<exists>r. keeps_message m r \<and> pm_state r = Queued \<and> pm_next_retry_at r = now
        \<and> r \<in> set (rs_messages (fst (recover_peer_at pick (pm_peer m) now t)))
        \<and> hm_get (pending (snd (recover_peer_at pick (pm_peer m) now t))) i = Some r)"
proof -
  have inv: "send_inv cfg s" unfolding assms(1) by (rule sender_reachable)
  have inv': "send_inv cfg t" unfolding assms(5) by (rule sender.run_inv [OF inv])
  from undisturbed_keep [OF inv assms(2,3)] obtain m' where
    m': "hm_get (pending t) i = Some m'" "keeps_message m m'" unfolding assms(5) by blast
  define r where "r = m'\<lparr>pm_state := Queued, pm_next_retry_at := now,
    pm_recovery_epoch := rs_epoch (fst (recover_peer_at pick (pm_peer m) now t))\<rparr>"
  have same: "pm_peer m' = pm_peer m" "is_expired m' now = is_expired m now"
    using m'(2) by (auto simp: keeps_message_def same_message_def is_expired_def)
  have i: "i = identity_of r" using send_inv_attempts(2) [OF inv' m'(1)] by (simp add: r_def identity_of_def)
  have got: "hm_get (pending (snd (recover_peer_at pick (pm_peer m) now t))) i = Some r"
    using m'(1) same assms(4) by (simp add: recover_settles [OF inv'] r_def)
  moreover have "r \<in> set (rs_messages (fst (recover_peer_at pick (pm_peer m) now t)))"
    using got same(1) by (simp add: recover_messages(1) [OF inv' refl] i r_def)
  moreover have "keeps_message m r" "pm_state r = Queued" "pm_next_retry_at r = now"
    using m'(2) by (simp_all add: r_def keeps_message_def same_message_def)
  ultimately show ?thesis using send_invD(2) [OF inv' m'(1)] by blast
qed

text \<open>
  C31. the recovery batch of a new connection is exact: it lists, sorted by sequence number and
  without repetition, precisely the messages that are pending for the peer afterwards, all of
  them queued for immediate sending under the new recovery epoch; the messages of other peers
  are untouched.
\<close>

theorem recovery_batch_exact:
  assumes "s = fold (send_step cfg pick) es delivery_store_new" "recover_peer_at pick p now s = (snap, t)"
  shows "set (rs_messages snap) = {m. pm_peer m = p \<and> hm_get (pending t) (identity_of m) = Some m}
    \<and> distinct (map pm_message_id (rs_messages snap)) \<and> sorted (map pm_sequence (rs_messages snap))
    \<and> list_all (\<lambda>m. pm_state m = Queued \<and> pm_next_retry_at m = now \<and> pm_recovery_epoch m = rs_epoch snap)
        (rs_messages snap)
    \<and> hm_get (recovery_epochs t) p = Some (rs_epoch snap)
    \<and> (\<forall>i. di_peer i \<noteq> p \<longrightarrow> hm_get (pending t) i = hm_get (pending s) i)"
proof -
  have inv: "send_inv cfg s" unfolding assms(1) by (rule sender_reachable)
  have snap: "rs_messages snap = rs_messages (fst (recover_peer_at pick p now s))" by (simp add: assms(2))
  have ep: "recovery_epochs (fold (\<lambda>i. settle pick i OutExpired) ids x) = recovery_epochs x" for ids x
    by (induction ids arbitrary: x)
       (simp_all add: settle_def remove_pending_def record_terminal_def Let_def split: option.splits)
  have "hm_get (recovery_epochs t) p = Some (rs_epoch snap)"
    using assms(2) by (auto simp: recover_peer_at_def Let_def ep)
  moreover have "hm_get (pending t) i = hm_get (pending s) i" if "di_peer i \<noteq> p" for i
    using recover_settles [OF inv, of pick p now i] that send_inv_attempts(2) [OF inv, of i]
    by (auto simp: assms(2) split: option.splits)
  moreover have "list_all (\<lambda>m. pm_state m = Queued \<and> pm_next_retry_at m = now
      \<and> pm_recovery_epoch m = rs_epoch snap) (rs_messages snap)"
    using assms(2) by (auto simp: recover_peer_at_def Let_def list_all_iff)
  ultimately show ?thesis using recover_messages [OF inv snap] by (simp add: assms(2))
qed

subsection \<open>Bounds\<close>

lemma distinct_singleton_length:
  assumes "distinct xs" "\<And>x y. x \<in> set xs \<Longrightarrow> y \<in> set xs \<Longrightarrow> x = y"
  shows "length xs \<le> 1"
proof (rule ccontr)
  assume "\<not> ?thesis"
  then have l: "0 < length xs" "1 < length xs" by linarith+
  with assms(1) have "xs ! 0 \<noteq> xs ! 1" by (simp add: nth_eq_iff_index_eq)
  with assms(2) [OF nth_mem [OF l(1)] nth_mem [OF l(2)]] show False by blast
qed

lemma send_inv_entry:
  assumes inv: "send_inv cfg s" and e: "(i, m) \<in> set (pending s)"
  shows "i = identity_of m \<and> pm_policy m \<noteq> BestEffort
    \<and> pm_attempts m \<le> max_attempts (pm_retry_policy m) \<and> length (pm_payload m) \<le> max_payload_bytes cfg
    \<and> hm_get (terminal_outcomes s) i = None"
proof -
  note d = send_invD [OF inv hm_in_get [OF send_inv_facts(1) [OF inv] e]]
  then show ?thesis by (simp add: message_ok_def identity_of_def message_bytes_def)
qed

lemma send_inv_one_latest:
  assumes inv: "send_inv cfg s"
  shows "length (filter (\<lambda>(i, m). latest_state_of p c m) (pending s)) \<le> 1"
proof -
  note wf = send_inv_facts(1) [OF inv]
  let ?l = "filter (\<lambda>(i, m). latest_state_of p c m) (pending s)"
  have "x = y" if xy: "x \<in> set (map fst ?l)" "y \<in> set (map fst ?l)" for x y
  proof -
    from xy obtain m1 m2 where "(x, m1) \<in> set (pending s)" "latest_state_of p c m1"
      "(y, m2) \<in> set (pending s)" "latest_state_of p c m2" by auto
    then show ?thesis by (intro send_inv_latest [OF inv hm_in_get [OF wf] hm_in_get [OF wf]])
  qed
  moreover have "distinct (map fst ?l)" using wf by (simp add: distinct_map_filter)
  ultimately have "length (map fst ?l) \<le> 1" by (intro distinct_singleton_length)
  then show ?thesis by (simp only: length_map)
qed

text \<open>
  C32. the outgoing queue is bounded.  After any run the number of pending messages and their
  bytes are within the configured limits, the byte counter is exact, no message has used more
  attempts than its policy allows or is larger than a payload may be, a \<open>LatestState\<close> channel
  holds at most one message, and the terminal history is within its limit and disjoint from
  the pending messages.
\<close>

theorem send_store_bounded:
  "let s = fold (send_step cfg pick) es delivery_store_new in
     length (pending s) \<le> max_pending_messages cfg
     \<and> pending_bytes s = sum_list (map (\<lambda>(i, m). length (pm_payload m)) (pending s))
     \<and> pending_bytes s \<le> max_pending_bytes cfg
     \<and> length (terminal_outcomes s) \<le> MAX_TERMINAL_OUTCOMES
     \<and> list_all (\<lambda>(i, m). i = identity_of m \<and> pm_policy m \<noteq> BestEffort
          \<and> pm_attempts m \<le> max_attempts (pm_retry_policy m) \<and> length (pm_payload m) \<le> max_payload_bytes cfg
          \<and> hm_get (terminal_outcomes s) i = None) (pending s)
     \<and> length (filter (\<lambda>(i, m). latest_state_of p c m) (pending s)) \<le> 1"
proof -
  define s where "s = fold (send_step cfg pick) es delivery_store_new"
  have inv: "send_inv cfg s" unfolding s_def by (rule sender_reachable)
  have "pending_bytes s = sum_list (map (\<lambda>(i, m). length (pm_payload m)) (pending s))"
    using send_inv_facts(3) [OF inv] unfolding hm_sum_def message_bytes_def .
  with send_inv_facts [OF inv] send_inv_one_latest [OF inv] show ?thesis
    unfolding s_def [symmetric] Let_def list_all_iff
    by (intro conjI ballI) (auto dest: send_inv_entry [OF inv])
qed

text \<open>
  the search for an unused message id ends: among more distinct random candidates than the
  queue and the terminal history can hold together there is a free one, so the enqueue returns.
\<close>

theorem enqueue_returns:
  assumes "s = fold (send_step cfg pick) es delivery_store_new" "distinct draws"
    "length draws > max_pending_messages cfg + MAX_TERMINAL_OUTCOMES"
  shows "\<exists>res s'. enqueue_at_inner cfg pick draws p c payload policy retry now s = Some (res, s')"
proof -
  have inv: "send_inv cfg s" unfolding assms(1) by (rule sender_reachable)
  let ?t = "cleared pick policy p c s"
  note f = send_inv_facts [OF cleared_facts(1) [OF inv, of pick policy p c]]
  have "next_message_id p (pending ?t) (terminal_outcomes ?t) draws \<noteq> None"
  proof
    assume "next_message_id p (pending ?t) (terminal_outcomes ?t) draws = None"
    then have "DeliveryIdentity p ` set draws \<subseteq> set (map fst (pending ?t)) \<union> set (map fst (terminal_outcomes ?t))"
      by (auto simp: next_message_id_def find_None_iff dest: hm_get_Some_in) (force dest: hm_get_Some_in)+
    from card_mono [OF _ this] have "card (DeliveryIdentity p ` set draws)
        \<le> card (set (map fst (pending ?t)) \<union> set (map fst (terminal_outcomes ?t)))" by simp
    also have "\<dots> \<le> length (pending ?t) + length (terminal_outcomes ?t)"
      by (rule order_trans [OF card_Un_le]) (metis add_mono card_length length_map)
    finally show False using assms(2,3) f(4,6) by (simp add: card_image inj_on_def distinct_card)
  qed
  then show ?thesis
    by (auto simp: enqueue_at_inner_def enqueue_cleared [OF inv] Let_def)
qed

text \<open>
  the back-off computed with a saturated shift is the exact exponential one: the initial
  delay doubled for every attempt after the first, at most 31 times, and cut off at the
  maximum; it never decreases with the attempt.
\<close>

theorem backoff_exponential:
  "delay_for_attempt p a = min (initial_backoff p * 2 ^ min (unat a - 1) 31) (max_backoff p)
   \<and> mono (\<lambda>n. delay_for_attempt p (word_of_nat (min n (2 ^ 32 - 1))))"
proof -
  have eq: "delay_for_attempt p a = min (initial_backoff p * 2 ^ min (unat a - 1) 31) (max_backoff p)" for a
  proof -
    have k: "unat (min (saturating_sub a 1) 31) = min (unat a - 1) 31"
      by (simp add: min_def word_le_nat_alt unat_saturating_sub)
    have "unat (of_nat (2 ^ min (unat a - 1) 31) :: u32) = 2 ^ min (unat a - 1) 31"
      using power_strict_increasing [of "min (unat a - 1) 31" 32 "2 :: nat"] by (subst unat_of_nat) simp
    then have "unat (push_bit (min (unat a - 1) 31) 1 :: u32) = 2 ^ min (unat a - 1) 31"
      by (simp add: push_bit_eq_mult)
    then show ?thesis by (simp add: delay_for_attempt_def Let_def k)
  qed
  have "mono (\<lambda>n. delay_for_attempt p (word_of_nat (min n (2 ^ 32 - 1))))"
    unfolding eq by (intro monoI min.mono mult_le_mono2 power_increasing) (auto simp: unat_of_nat)
  with eq show ?thesis by blast
qed

section \<open>A concrete exchange\<close>

text \<open>One message is queued, leased, its transmission fails, and the peer reconnects.\<close>

definition outbox_start :: "send_event list" where
  "outbox_start = [Enqueue [[7]] ''q'' ''c'' [1, 2] SessionBoundOrdered default_retry_policy 0]"

definition outbox_rest :: "send_event list" where
  "outbox_rest = [BeginSend (Some ''q'') [7] 0, MarkFailed (Some ''q'') (Some 1) [7] 2,
     BeginSend (Some ''q'') [7] 250000002]"

definition outbox_message :: pending_message where
  "outbox_message = \<lparr>pm_message_id = [7], pm_peer = ''q'', pm_channel = ''c'', pm_sequence = 0,
     pm_payload = [1, 2], pm_policy = SessionBoundOrdered, pm_state = Queued, pm_attempts = 0,
     pm_created_at = 0, pm_expires_at = Some 600000000000, pm_recovery_epoch = 0,
     pm_retry_policy = default_retry_policy, pm_next_retry_at = 0, pm_retry_bytes = 0\<rparr>"

lemmas send_eval = enqueue_at_inner_def begin_send_inner_def mark_send_failed_inner_def
  mark_sent_inner_def recover_peer_at_def expired_identities_def resolve_pending_identity_def
  next_message_id_def remove_pending_def record_terminal_def settle_def is_expired_def
  retry_policy_is_valid_def delay_for_attempt_def default_retry_policy_def
  default_delivery_config_def is_valid_peer_id_def is_valid_scope_id_def MAX_SCOPE_ID_BYTES_def
  MAX_TERMINAL_OUTCOMES_def delivery_store_new_def attempt_exhausted_def
  hm_insert_def hm_remove_def hm_modify_def hm_map_def saturating_add_def checked_add_def
  saturating_sub_def Let_def

abbreviation outbox :: delivery_store where
  "outbox \<equiv> fold (send_step default_delivery_config (\<lambda>_. 0)) outbox_start delivery_store_new"

definition outbox_with :: "pending_message \<Rightarrow> delivery_store" where
  "outbox_with m = delivery_store_new\<lparr>pending := [(DeliveryIdentity ''q'' [7], m)], pending_bytes := 2,
     next_sequences := [((''q'', ''c''), 1)]\<rparr>"

definition outbox_later :: "u32 \<Rightarrow> u64 \<Rightarrow> delivery_state \<Rightarrow> instant \<Rightarrow> pending_message" where
  "outbox_later n bytes st t = outbox_message\<lparr>pm_attempts := n, pm_retry_bytes := bytes, pm_state := st,
     pm_next_retry_at := t\<rparr>"

lemma outbox_eq: "outbox = outbox_with outbox_message"
  by (simp add: outbox_start_def outbox_message_def outbox_with_def send_eval)

lemma outbox_pending: "hm_get (pending outbox) (DeliveryIdentity ''q'' [7]) = Some outbox_message"
  by (simp add: outbox_eq outbox_with_def)

lemma outbox_steps:
  "begin_send_inner pick (Some ''q'') [7] 0 (outbox_with outbox_message) =
     (Inr (Some (outbox_later 1 0 Sending 0)), outbox_with (outbox_later 1 0 Sending 0))"
  "mark_send_failed_inner pick (Some ''q'') (Some 1) [7] 2 (outbox_with (outbox_later 1 0 Sending 0)) =
     (RetryAt 250000002, outbox_with (outbox_later 1 0 Queued 250000002))"
  "begin_send_inner pick (Some ''q'') [7] 250000002
       (outbox_with (outbox_later 1 0 Queued 250000002)) =
     (Inr (Some (outbox_later 2 2 Sending 250000002)), outbox_with (outbox_later 2 2 Sending 250000002))"
  by (simp_all add: outbox_message_def outbox_later_def outbox_with_def send_eval) (simp add: word_le_nat_alt)

theorem leases_bounded_and_distinct_witness:
  "let ls = filter (\<lambda>x. identity_of x = DeliveryIdentity ''q'' [7])
       (leases default_delivery_config (\<lambda>_. 0) outbox_rest outbox)
   in map pm_attempts ls = [1, 2] \<and> sorted_wrt (<) (0 # map pm_attempts ls) \<and> length ls \<le> 5"
proof -
  have "map pm_attempts (filter (\<lambda>x. identity_of x = DeliveryIdentity ''q'' [7])
      (leases default_delivery_config (\<lambda>_. 0) outbox_rest outbox)) = [1, 2]"
    unfolding outbox_eq
    by (simp add: outbox_rest_def leased_by_def outbox_steps identity_of_def) (simp add: outbox_later_def outbox_message_def)
  moreover note leases_bounded_and_distinct [OF refl outbox_pending _ _ refl, of outbox_rest]
  ultimately show ?thesis
    unfolding Let_def by (simp add: outbox_rest_def outbox_message_def default_retry_policy_def)
qed

theorem unacknowledged_message_recovered_witness:
  "\<exists>r. keeps_message outbox_message r \<and> r \<in> set (rs_messages (fst (recover_peer_at (\<lambda>_. 0) ''q'' 9
     (fold (send_step default_delivery_config (\<lambda>_. 0)) outbox_rest outbox))))"
proof -
  have "undisturbed default_delivery_config (\<lambda>_. 0) (DeliveryIdentity ''q'' [7]) outbox_rest outbox"
    unfolding outbox_eq
    by (simp add: outbox_rest_def outbox_steps)
       (simp add: outbox_with_def outbox_later_def outbox_message_def is_expired_def attempt_exhausted_def
         default_retry_policy_def saturating_add_def checked_add_def)
  from unacknowledged_message_recovered [OF refl outbox_pending this _ refl, of 9] show ?thesis
    by (auto simp: outbox_message_def is_expired_def)
qed

theorem recovery_batch_exact_witness:
  "set (rs_messages (fst (recover_peer_at (\<lambda>_. 0) ''q'' 9 outbox))) =
     {m. pm_peer m = ''q''
       \<and> hm_get (pending (snd (recover_peer_at (\<lambda>_. 0) ''q'' 9 outbox))) (identity_of m) = Some m}"
  using recovery_batch_exact [OF refl surjective_pairing] by blast

theorem enqueue_returns_witness:
  "\<exists>res s'. enqueue_at_inner default_delivery_config (\<lambda>_. 0) (map (\<lambda>n. replicate n 0) [0..<100000])
     ''q'' ''c'' [3] Acked default_retry_policy 0 outbox = Some (res, s')"
proof (rule enqueue_returns [OF refl])
  show "distinct (map (\<lambda>n. replicate n (0 :: byte)) [0..<100000])"
    by (simp only: distinct_map distinct_upt inj_on_def replicate_eq_replicate) simp
qed (simp add: default_delivery_config_def MAX_TERMINAL_OUTCOMES_def)

text \<open>
  a \<open>LatestState\<close> message is cancelled before the room for its replacement is checked:
  when the replacement does not fit, the caller gets \<open>QueueFull\<close> and the previous state is
  gone too, recorded as cancelled.
\<close>

theorem latest_state_lost_when_full:
  "let cfg = default_delivery_config\<lparr>max_pending_bytes := 3\<rparr>;
       s = fold (send_step cfg (\<lambda>_. 0))
         [Enqueue [[7]] ''q'' ''c'' [1, 2] LatestState default_retry_policy 0] delivery_store_new
   in length (pending s) = 1
      \<and> (case enqueue_at_inner cfg (\<lambda>_. 0) [[8]] ''q'' ''c'' [1, 2, 3, 4] LatestState default_retry_policy 1 s of
           None \<Rightarrow> False
         | Some (res, t) \<Rightarrow> res = Inl QueueFull \<and> pending t = []
             \<and> terminal_outcome ''q'' [7] t = Some OutCancelled)"
  by (simp add: send_eval terminal_outcome_def)

end
