(* ===== verification/Delivery_End_To_End.thy ===== *)
theory Delivery_End_To_End
  imports Delivery_Receive Delivery_Sender
begin

text \<open>
  The two halves of the delivery manager together: one device enqueues on a channel, an
  arbitrary network carries what it sent, the other device releases messages to its
  application.
\<close>

section \<open>What the network may deliver\<close>

text \<open>
  An arriving message is a copy of an accepted one: the id, the sequence number and the payload
  travel in the \<open>DataMessage\<close>, sealed under the session key.
\<close>

definition carries :: "pending_message \<Rightarrow> ordered_message \<Rightarrow> bool" where
  "carries x m \<longleftrightarrow> om_message_id m = pm_message_id x \<and> om_sequence m = pm_sequence x
     \<and> om_payload m = pm_payload x"

lemma accepted_nth:
  assumes "sent = filter (sent_on sc) (accepted cfg pick es delivery_store_new)" "length sent < 2 ^ 64"
    "x \<in> set sent"
  shows "unat (pm_sequence x) < length sent \<and> sent ! unat (pm_sequence x) = x"
proof -
  have seq: "map pm_sequence sent = map seqno [0..<length sent]"
    using accepted_sequences [OF send_inv_new, of sc 0 cfg pick es]
    by (simp add: assms(1) sequence_of_def delivery_store_new_def)
  from assms(3) obtain i where i: "i < length sent" "sent ! i = x" by (auto simp: in_set_conv_nth)
  then have "pm_sequence x = map pm_sequence sent ! i" by simp
  also have "\<dots> = seqno i" using i(1) unfolding seq by simp
  finally have "unat (pm_sequence x) = i" using i(1) assms(2) by (simp add: unat_seqno)
  with i show ?thesis by simp
qed

text \<open>
  C1. end-to-end ordered delivery.  One device enqueues messages for a peer and a channel, with
  any other events in between: attempts, failures, acknowledgements, cancellations, reconnects.
  Everything that arrives at the other device on the ordered channel is a copy of an accepted
  message; the network may lose, repeat, delay and reorder copies, over any number of
  connections.  As long as the receiver does not close the peer, its application is shown a
  prefix of the accepted messages: in order, without gap and without repetition.
\<close>

theorem end_to_end_ordered_delivery:
  assumes sent: "sent = filter (sent_on (p, c)) (accepted cfg pick es delivery_store_new)"
    and arrivals: "\<And>k ep m t1 t2. Arrives k ep m t1 t2 \<in> set rs \<Longrightarrow> on_channel (q, c) m \<Longrightarrow>
      \<exists>x\<in>set sent. carries x m"
    and not_closed: "ClosePeer q \<notin> set rs" and len: "length sent < 2 ^ 64"
  shows "\<exists>n \<le> length sent. map (\<lambda>m. (om_message_id m, om_payload m))
      (filter (on_channel (q, c)) (emitted (fst (receive_run cfg' pick' rs delivery_store_new))))
    = map (\<lambda>x. (pm_message_id x, pm_payload x)) (take n sent)"
proof -
  let ?msgs = "map (\<lambda>x. (pm_message_id x, pm_payload x)) sent"
  define Q where "Q m \<longleftrightarrow> on_channel (q, c) m \<and> unat (om_sequence m) < length ?msgs
    \<and> (om_message_id m, om_payload m) = ?msgs ! unat (om_sequence m)" for m
  obtain eff s' where run: "receive_run cfg' pick' rs delivery_store_new = (eff, s')"
    by (cases "receive_run cfg' pick' rs delivery_store_new")
  have Q: "Q m" if m: "Arrives k ep m t1 t2 \<in> set rs" "on_channel (q, c) m" for k ep m t1 t2
  proof -
    from arrivals [OF m] obtain x where x: "x \<in> set sent" "carries x m" by blast
    with accepted_nth [OF sent len x(1)] m(2) show ?thesis by (simp add: Q_def carries_def)
  qed
  have "progress Q s' (q, c) ([] @ filter (on_channel (q, c)) (emitted eff))"
    by (rule progress_run [OF receive_inv_new progress_new _ _ _ run]) (use Q not_closed in \<open>auto simp: Q_def\<close>)
  then have "map om_sequence (filter (on_channel (q, c)) (emitted eff)) =
      map seqno [0..<length (filter (on_channel (q, c)) (emitted eff))]"
    and "list_all Q (filter (on_channel (q, c)) (emitted eff))"
    by (simp_all add: progress_def)
  then show ?thesis
    using released_prefix [of "filter (on_channel (q, c)) (emitted eff)" ?msgs
        "\<lambda>m. (om_message_id m, om_payload m)"] run len
    by (auto simp: Q_def list_all_iff take_map)
qed

text \<open>A sender of two messages and a receiver that sees the second one first, and both again.\<close>

definition pair_events :: "send_event list" where
  "pair_events = [Enqueue [[0]] ''b'' ''c'' [0] SessionBoundOrdered default_retry_policy 0,
     Enqueue [[1]] ''b'' ''c'' [1] SessionBoundOrdered default_retry_policy 1]"

lemma pair_accepted:
  "map (\<lambda>x. (pm_message_id x, pm_sequence x, pm_payload x))
     (filter (sent_on (''b'', ''c'')) (accepted default_delivery_config (\<lambda>_. 0) pair_events delivery_store_new))
   = [([0], 0, [0]), ([1], 1, [1])]"
  by (simp add: pair_events_def accepted_by_def sent_on_def send_eval)

theorem end_to_end_ordered_delivery_witness:
  "\<exists>n \<le> 2. map (\<lambda>m. (om_message_id m, om_payload m))
      (filter (on_channel (''p'', ''c''))
        (emitted (fst (receive_run default_delivery_config (\<lambda>_. 0) sample_events delivery_store_new))))
    = map (\<lambda>x. (pm_message_id x, pm_payload x)) (take n
        (filter (sent_on (''b'', ''c'')) (accepted default_delivery_config (\<lambda>_. 0) pair_events delivery_store_new)))"
proof -
  let ?sent = "filter (sent_on (''b'', ''c'')) (accepted default_delivery_config (\<lambda>_. 0) pair_events delivery_store_new)"
  obtain x y where xy: "?sent = [x, y]" "pm_message_id x = [0]" "pm_sequence x = 0" "pm_payload x = [0]"
      "pm_message_id y = [1]" "pm_sequence y = 1" "pm_payload y = [1]"
    using pair_accepted by (auto simp: map_eq_Cons_conv)
  have "\<exists>x\<in>set ?sent. carries x m" if "Arrives k ep m t1 t2 \<in> set sample_events" for k ep m t1 t2
    using that xy by (auto simp: sample_events_def sample_message_def carries_def)
  then have "\<exists>n \<le> length ?sent. map (\<lambda>m. (om_message_id m, om_payload m))
      (filter (on_channel (''p'', ''c''))
        (emitted (fst (receive_run default_delivery_config (\<lambda>_. 0) sample_events delivery_store_new))))
    = map (\<lambda>x. (pm_message_id x, pm_payload x)) (take n ?sent)"
    using end_to_end_ordered_delivery [OF refl, where ?rs = sample_events and q = "''p''"
        and cfg = default_delivery_config and pick = "\<lambda>_. 0" and p = "''b''" and c = "''c''" and es = pair_events]
    by (simp add: xy(1)) (simp add: sample_events_def)
  then show ?thesis by (simp add: xy(1) numeral_2_eq_2)
qed

end
