(* ===== verification/Event_Lanes.thy ===== *)
theory Event_Lanes
  imports Containers
begin

text \<open>
  The bounded event lanes between the runtime and its consumer
  (\<open>runtime_event_lanes.rs\<close>): classification of events into three lanes, admission by size,
  byte and slot limits, and the burst schedule of the receiver.  The encoded size of an event
  is computed by the generated Protobuf code and is the argument \<open>encoded_len\<close>; the contents
  of the events the lanes do not look at are of an arbitrary type.  The three bounded
  channels are lists, oldest event first.
\<close>

section \<open>Constants and data\<close>

definition RESULT_EVENT_MAILBOX_CAPACITY :: nat where "RESULT_EVENT_MAILBOX_CAPACITY = 256"
definition CONTROL_EVENT_MAILBOX_CAPACITY :: nat where "CONTROL_EVENT_MAILBOX_CAPACITY = 256"
definition DATA_EVENT_MAILBOX_CAPACITY :: nat where "DATA_EVENT_MAILBOX_CAPACITY = 128"
definition MAX_RESULT_EVENT_QUEUE_BYTES :: nat where "MAX_RESULT_EVENT_QUEUE_BYTES = 4 * 1024 * 1024"
definition MAX_CONTROL_EVENT_QUEUE_BYTES :: nat where "MAX_CONTROL_EVENT_QUEUE_BYTES = 4 * 1024 * 1024"
definition MAX_DATA_EVENT_QUEUE_BYTES :: nat where "MAX_DATA_EVENT_QUEUE_BYTES = 8 * 1024 * 1024"
definition MAX_EVENT_BYTES :: nat where "MAX_EVENT_BYTES = 1024 * 1024"
definition RESULT_EVENT_BURST :: nat where "RESULT_EVENT_BURST = 8"
definition CONTROL_EVENT_BURST :: nat where "CONTROL_EVENT_BURST = 8"
definition DATA_EVENT_BURST :: nat where "DATA_EVENT_BURST = 1"

datatype event_lane = ResultLane | ControlLane | DataLane

fun next_lane :: "event_lane \<Rightarrow> event_lane" where
  "next_lane ResultLane = ControlLane"
| "next_lane ControlLane = DataLane"
| "next_lane DataLane = ResultLane"

fun lane_burst :: "event_lane \<Rightarrow> nat" where
  "lane_burst ResultLane = RESULT_EVENT_BURST"
| "lane_burst ControlLane = CONTROL_EVENT_BURST"
| "lane_burst DataLane = DATA_EVENT_BURST"

datatype event_send_error = LaneClosed | TooLarge | WrongLane

datatype ('r, 'd) event_payload =
    CommandResultV2 'r
  | TransferProgress 'd
  | PeerTransferProgress 'd
  | ChannelMessage 'd
  | SshStreamDataReceived 'd
  | OtherPayload 'd

record ('r, 'd) network_event =
  event_id :: string
  timestamp_ms :: int
  protocol_version :: u32
  payload :: "('r, 'd) event_payload option"

definition classify :: "('r, 'd) network_event \<Rightarrow> event_lane" where
  "classify event =
     (case payload event of
        Some (CommandResultV2 _) \<Rightarrow> ResultLane
      | Some (TransferProgress _) \<Rightarrow> DataLane
      | Some (PeerTransferProgress _) \<Rightarrow> DataLane
      | Some (ChannelMessage _) \<Rightarrow> DataLane
      | Some (SshStreamDataReceived _) \<Rightarrow> DataLane
      | _ \<Rightarrow> ControlLane)"

record ('r, 'd) event_lanes =
  lane_queue :: "event_lane \<Rightarrow> ('r, 'd) network_event list"
  queued_bytes :: "event_lane \<Rightarrow> nat"
  scheduled_lane :: event_lane
  scheduled_burst :: nat
  receiver_gone :: bool

definition event_lanes_channel :: "('r, 'd) event_lanes" where
  "event_lanes_channel =
     \<lparr>lane_queue = (\<lambda>_. []), queued_bytes = (\<lambda>_. 0), scheduled_lane = ResultLane,
      scheduled_burst = 0, receiver_gone = False\<rparr>"

fun lane_capacity :: "event_lane \<Rightarrow> nat" where
  "lane_capacity ResultLane = RESULT_EVENT_MAILBOX_CAPACITY"
| "lane_capacity ControlLane = CONTROL_EVENT_MAILBOX_CAPACITY"
| "lane_capacity DataLane = DATA_EVENT_MAILBOX_CAPACITY"

fun lane_max_bytes :: "event_lane \<Rightarrow> nat" where
  "lane_max_bytes ResultLane = MAX_RESULT_EVENT_QUEUE_BYTES"
| "lane_max_bytes ControlLane = MAX_CONTROL_EVENT_QUEUE_BYTES"
| "lane_max_bytes DataLane = MAX_DATA_EVENT_QUEUE_BYTES"

section \<open>Sending\<close>

text \<open>
  A byte reservation; the compare-and-exchange loop of \<open>try_new\<close> retries until no other task
  interferes, so it is one step.  Dropping an uncommitted reservation gives the bytes back.
\<close>

definition reserve_bytes :: "event_lane \<Rightarrow> nat \<Rightarrow> ('r, 'd) event_lanes \<Rightarrow> ('r, 'd) event_lanes option" where
  "reserve_bytes lane bytes l =
     (let next_bytes = queued_bytes l lane + bytes
      in if next_bytes > lane_max_bytes lane then None
         else Some (l\<lparr>queued_bytes := (queued_bytes l)(lane := next_bytes)\<rparr>))"

definition release_bytes :: "event_lane \<Rightarrow> nat \<Rightarrow> ('r, 'd) event_lanes \<Rightarrow> ('r, 'd) event_lanes" where
  "release_bytes lane bytes l = l\<lparr>queued_bytes := (queued_bytes l)(lane := queued_bytes l lane - bytes)\<rparr>"

text \<open>The \<open>try_send\<close> of a bounded channel: it fails when the channel is full or closed.\<close>

definition try_send :: "event_lane \<Rightarrow> ('r, 'd) network_event \<Rightarrow> ('r, 'd) event_lanes \<Rightarrow> ('r, 'd) event_lanes option" where
  "try_send lane event l =
     (if receiver_gone l \<or> length (lane_queue l lane) \<ge> lane_capacity lane then None
      else Some (l\<lparr>lane_queue := (lane_queue l)(lane := lane_queue l lane @ [event])\<rparr>))"

definition lane_send ::
  "(('r, 'd) network_event \<Rightarrow> nat) \<Rightarrow> ('r, 'd) network_event \<Rightarrow> ('r, 'd) event_lanes
   \<Rightarrow> bool \<times> ('r, 'd) event_lanes" where
  "lane_send encoded_len event l =
     (let bytes = encoded_len event
      in if bytes > MAX_EVENT_BYTES \<or> classify event = ResultLane then (False, l)
         else
           let lane = classify event
           in case reserve_bytes lane bytes l of
                None \<Rightarrow> (False, l)
              | Some reserved \<Rightarrow>
                  (case try_send lane event reserved of
                     None \<Rightarrow> (False, release_bytes lane bytes reserved)
                   | Some l' \<Rightarrow> (True, l')))"

text \<open>
  \<open>send_result\<close> suspends twice: until the bytes can be reserved, and then, holding the
  reservation, until the result channel has a free slot.  \<open>send_result_poll\<close> runs it from one
  of these points until it suspends again or returns.
\<close>

datatype send_phase = NeedBytes | NeedSlot

datatype send_progress = Sent | Suspended send_phase | SendFailed event_send_error

definition send_result_slot ::
  "(('r, 'd) network_event \<Rightarrow> nat) \<Rightarrow> ('r, 'd) network_event \<Rightarrow> ('r, 'd) event_lanes
   \<Rightarrow> send_progress \<times> ('r, 'd) event_lanes" where
  "send_result_slot encoded_len event l =
     (if receiver_gone l then (SendFailed LaneClosed, release_bytes ResultLane (encoded_len event) l)
      else case try_send ResultLane event l of
        None \<Rightarrow> (Suspended NeedSlot, l)
      | Some l' \<Rightarrow> (Sent, l'))"

fun send_result_poll ::
  "(('r, 'd) network_event \<Rightarrow> nat) \<Rightarrow> ('r, 'd) network_event \<Rightarrow> send_phase \<Rightarrow> ('r, 'd) event_lanes
   \<Rightarrow> send_progress \<times> ('r, 'd) event_lanes" where
  "send_result_poll encoded_len event NeedBytes l =
     (case reserve_bytes ResultLane (encoded_len event) l of
        None \<Rightarrow> if receiver_gone l then (SendFailed LaneClosed, l) else (Suspended NeedBytes, l)
      | Some reserved \<Rightarrow> send_result_slot encoded_len event reserved)"
| "send_result_poll encoded_len event NeedSlot l = send_result_slot encoded_len event l"

definition send_result ::
  "(('r, 'd) network_event \<Rightarrow> nat) \<Rightarrow> ('r, 'd) network_event \<Rightarrow> ('r, 'd) event_lanes
   \<Rightarrow> send_progress \<times> ('r, 'd) event_lanes" where
  "send_result encoded_len event l =
     (if classify event \<noteq> ResultLane then (SendFailed WrongLane, l)
      else if encoded_len event > MAX_EVENT_BYTES then (SendFailed TooLarge, l)
      else send_result_poll encoded_len event NeedBytes l)"

section \<open>Receiving\<close>

definition lane_received ::
  "(('r, 'd) network_event \<Rightarrow> nat) \<Rightarrow> event_lane \<Rightarrow> ('r, 'd) network_event \<Rightarrow> ('r, 'd) event_lanes
   \<Rightarrow> ('r, 'd) event_lanes" where
  "lane_received encoded_len lane event l =
     (let l = (if scheduled_lane l \<noteq> lane
               then l\<lparr>scheduled_lane := lane, scheduled_burst := 0\<rparr> else l);
          l = l\<lparr>scheduled_burst := scheduled_burst l + 1\<rparr>
      in release_bytes lane (encoded_len event) l)"

definition advance_schedule :: "('r, 'd) event_lanes \<Rightarrow> ('r, 'd) event_lanes" where
  "advance_schedule l = l\<lparr>scheduled_lane := next_lane (scheduled_lane l), scheduled_burst := 0\<rparr>"

definition try_recv_lane ::
  "(('r, 'd) network_event \<Rightarrow> nat) \<Rightarrow> event_lane \<Rightarrow> ('r, 'd) event_lanes
   \<Rightarrow> ('r, 'd) network_event option \<times> ('r, 'd) event_lanes" where
  "try_recv_lane encoded_len lane l =
     (case lane_queue l lane of
        [] \<Rightarrow> (None, l)
      | event # rest \<Rightarrow>
          (Some event, lane_received encoded_len lane event (l\<lparr>lane_queue := (lane_queue l)(lane := rest)\<rparr>)))"

fun try_recv_loop ::
  "(('r, 'd) network_event \<Rightarrow> nat) \<Rightarrow> nat \<Rightarrow> ('r, 'd) event_lanes
   \<Rightarrow> ('r, 'd) network_event option \<times> ('r, 'd) event_lanes" where
  "try_recv_loop encoded_len 0 l = (None, l)"
| "try_recv_loop encoded_len (Suc n) l =
     (let l = (if scheduled_burst l \<ge> lane_burst (scheduled_lane l) then advance_schedule l else l)
      in case try_recv_lane encoded_len (scheduled_lane l) l of
           (Some event, l) \<Rightarrow> (Some event, l)
         | (None, l) \<Rightarrow> try_recv_loop encoded_len n (advance_schedule l))"

definition try_recv ::
  "(('r, 'd) network_event \<Rightarrow> nat) \<Rightarrow> ('r, 'd) event_lanes
   \<Rightarrow> ('r, 'd) network_event option \<times> ('r, 'd) event_lanes" where
  "try_recv encoded_len = try_recv_loop encoded_len 3"

section \<open>The schedule is work-conserving and fair\<close>

lemmas burst_defs = RESULT_EVENT_BURST_def CONTROL_EVENT_BURST_def DATA_EVENT_BURST_def

text \<open>An upper bound on the number of events other lanes may be served before \<open>lane\<close> is.\<close>

definition turns_before :: "event_lane \<Rightarrow> ('r, 'd) event_lanes \<Rightarrow> nat" where
  "turns_before lane l =
     (let s = scheduled_lane l; left = lane_burst s - scheduled_burst l
      in if s = lane
         then (if left > 0 then 0 else lane_burst (next_lane s) + lane_burst (next_lane (next_lane s)))
         else if next_lane s = lane then left else left + lane_burst (next_lane s))"

lemma turns_before_le: "turns_before lane l \<le> 16"
  by (cases lane; cases "scheduled_lane l") (auto simp: turns_before_def burst_defs Let_def)

definition serves :: "(('r, 'd) network_event \<Rightarrow> nat) \<Rightarrow> event_lane \<Rightarrow> ('r, 'd) event_lanes \<Rightarrow> ('r, 'd) event_lanes \<Rightarrow> bool" where
  "serves encoded_len lane l l' \<longleftrightarrow> lane_queue l lane \<noteq> []
     \<and> lane_queue l' = (lane_queue l)(lane := tl (lane_queue l lane))
     \<and> queued_bytes l' = (queued_bytes l)(lane := queued_bytes l lane - encoded_len (hd (lane_queue l lane)))
     \<and> receiver_gone l' = receiver_gone l
     \<and> scheduled_lane l' = lane \<and> scheduled_burst l' > 0"

lemma try_recv_lane_cases:
  assumes "scheduled_lane l = lane"
  shows "lane_queue l lane = [] \<and> try_recv_lane encoded_len lane l = (None, l)
    \<or> (\<exists>l'. try_recv_lane encoded_len lane l = (Some (hd (lane_queue l lane)), l')
        \<and> serves encoded_len lane l l' \<and> scheduled_burst l' = scheduled_burst l + 1)"
  using assms
  by (cases "lane_queue l lane")
     (auto simp: try_recv_lane_def lane_received_def serves_def release_bytes_def Let_def)

lemma advance_fields [simp]:
  "lane_queue (advance_schedule l) = lane_queue l" "queued_bytes (advance_schedule l) = queued_bytes l"
  "receiver_gone (advance_schedule l) = receiver_gone l"
  "scheduled_lane (advance_schedule l) = next_lane (scheduled_lane l)"
  "scheduled_burst (advance_schedule l) = 0"
  by (simp_all add: advance_schedule_def)

lemma lane_burst_pos [simp]: "0 < lane_burst lane" "lane_burst lane \<noteq> 0"
  by (cases lane; simp add: burst_defs)+

lemma next_lane_cycle [simp]: "next_lane (next_lane (next_lane s)) = s" "next_lane s \<noteq> s" "s \<noteq> next_lane s"
  "next_lane (next_lane s) \<noteq> s" "s \<noteq> next_lane (next_lane s)"
  by (cases s; simp)+

lemma lane_among: "lane = s \<or> lane = next_lane s \<or> lane = next_lane (next_lane s)"
  by (cases lane; cases s; simp)

text \<open>One poll looks at the three lanes in turn, starting where the schedule stands.\<close>

definition first_lane :: "('r, 'd) event_lanes \<Rightarrow> event_lane" where
  "first_lane l = (if scheduled_burst l \<ge> lane_burst (scheduled_lane l)
     then next_lane (scheduled_lane l) else scheduled_lane l)"

definition start_schedule :: "('r, 'd) event_lanes \<Rightarrow> ('r, 'd) event_lanes" where
  "start_schedule l = (if scheduled_burst l \<ge> lane_burst (scheduled_lane l) then advance_schedule l else l)"

lemma start_fields [simp]:
  "lane_queue (start_schedule l) = lane_queue l" "queued_bytes (start_schedule l) = queued_bytes l"
  "receiver_gone (start_schedule l) = receiver_gone l" "scheduled_lane (start_schedule l) = first_lane l"
  by (simp_all add: start_schedule_def first_lane_def)

lemma start_burst: "scheduled_burst (start_schedule l) =
    (if first_lane l = scheduled_lane l then scheduled_burst l else 0)"
  by (simp add: start_schedule_def first_lane_def)

lemma serves_fields:
  "lane_queue l = lane_queue k \<Longrightarrow> queued_bytes l = queued_bytes k \<Longrightarrow> receiver_gone l = receiver_gone k \<Longrightarrow>
     serves encoded_len lane l l' = serves encoded_len lane k l'"
  by (simp add: serves_def)

lemma try_recv_loop_step:
  "try_recv_loop encoded_len (Suc n) l =
     (case try_recv_lane encoded_len (first_lane l) (start_schedule l) of
        (Some event, l') \<Rightarrow> (Some event, l')
      | (None, l') \<Rightarrow> try_recv_loop encoded_len n (advance_schedule l'))"
  unfolding try_recv_loop.simps Let_def start_schedule_def [symmetric] by simp

lemma try_recv_loop_one:
  "(lane_queue l (first_lane l) = []
      \<and> try_recv_loop encoded_len (Suc n) l = try_recv_loop encoded_len n (advance_schedule (start_schedule l)))
   \<or> (\<exists>l'. try_recv_loop encoded_len (Suc n) l = (Some (hd (lane_queue l (first_lane l))), l')
      \<and> serves encoded_len (first_lane l) l l'
      \<and> scheduled_burst l' = (if first_lane l = scheduled_lane l then scheduled_burst l else 0) + 1)"
proof -
  note serves_fields [of "start_schedule l" l, simplified, simp]
  from try_recv_lane_cases [of "start_schedule l" "first_lane l" encoded_len] show ?thesis
    unfolding try_recv_loop_step by (auto simp: start_burst)
qed

lemma first_after_advance [simp]: "first_lane (advance_schedule l) = next_lane (scheduled_lane l)"
  by (simp add: first_lane_def)

lemma try_recv_cases:
  obtains (empty) l' where "try_recv encoded_len l = (None, l')" "lane_queue l' = lane_queue l"
      "queued_bytes l' = queued_bytes l" "receiver_gone l' = receiver_gone l" "\<And>lane. lane_queue l lane = []"
  | (same) l' where "try_recv encoded_len l = (Some (hd (lane_queue l (first_lane l))), l')"
      "serves encoded_len (first_lane l) l l'"
      "scheduled_burst l' = (if first_lane l = scheduled_lane l then scheduled_burst l else 0) + 1"
  | (other) lane l' where "try_recv encoded_len l = (Some (hd (lane_queue l lane)), l')"
      "serves encoded_len lane l l'" "scheduled_burst l' = 1"
      "lane = next_lane (first_lane l) \<or> lane = next_lane (next_lane (first_lane l)) \<and> lane_queue l (next_lane (first_lane l)) = []"
      "lane_queue l (first_lane l) = []"
proof -
  let ?a = "first_lane l" and ?l1 = "advance_schedule (start_schedule l)"
  let ?l2 = "advance_schedule (start_schedule ?l1)"
  let ?l3 = "advance_schedule (start_schedule ?l2)"
  note sf = serves_fields [of ?l1 l, simplified] serves_fields [of ?l2 l, simplified]
  note t1 = try_recv_loop_one [of l encoded_len 2]
  note t2 = try_recv_loop_one [of ?l1 encoded_len 1, simplified sf, simplified]
  note t3 = try_recv_loop_one [of ?l2 encoded_len 0, simplified sf, simplified]
  have "lane_queue l lane = []" if "lane_queue l ?a = []" "lane_queue l (next_lane ?a) = []"
      "lane_queue l (next_lane (next_lane ?a)) = []" for lane
    using that lane_among [of lane ?a] by auto
  then show ?thesis
    using t1 t2 t3 that
    unfolding try_recv_def numeral_3_eq_3 numeral_2_eq_2
    by (auto simp: numeral_2_eq_2)
qed

lemma try_recv_fair:
  assumes "lane_queue l lane \<noteq> []"
  obtains k l' where "try_recv encoded_len l = (Some (hd (lane_queue l k)), l')" "serves encoded_len k l l'"
    "k = lane \<or> turns_before lane l' < turns_before lane l"
proof (cases rule: try_recv_cases [of encoded_len l])
  case (empty l')
  with assms show ?thesis by simp
next
  case (same l')
  have "turns_before lane l' < turns_before lane l" if "first_lane l \<noteq> lane"
    using that same(2,3) lane_among [of lane "scheduled_lane l"]
    by (auto simp: turns_before_def serves_def first_lane_def Let_def split: if_splits)
  with same that show ?thesis by blast
next
  case (other k l')
  have "turns_before lane l' < turns_before lane l" if "k \<noteq> lane"
    using that other assms lane_among [of lane "scheduled_lane l"]
    by (auto simp: turns_before_def serves_def first_lane_def Let_def intro: trans_less_add2 split: if_splits)
  with other that show ?thesis by blast
qed

section \<open>Runs\<close>

text \<open>
  The lanes are used by any number of producers of ordinary events, by the one command worker,
  whose result may be waiting for room, and by one consumer.  The state of a run adds to the
  lanes the waiting result and the history: what was offered by the worker, accepted into
  each lane and delivered from it.
\<close>

datatype ('r, 'd) lane_action =
    Emit "('r, 'd) network_event"
  | EmitResult "('r, 'd) network_event"
  | Resume
  | Poll
  | CloseReceiver

record ('r, 'd) lane_run =
  lanes :: "('r, 'd) event_lanes"
  waiting :: "(('r, 'd) network_event \<times> send_phase) option"
  offered :: "('r, 'd) network_event list"
  admitted :: "event_lane \<Rightarrow> ('r, 'd) network_event list"
  delivered :: "(event_lane \<times> ('r, 'd) network_event) list"

definition lane_run_start :: "('r, 'd) lane_run" where
  "lane_run_start = \<lparr>lanes = event_lanes_channel, waiting = None, offered = [], admitted = (\<lambda>_. []), delivered = []\<rparr>"

definition settle_result ::
  "('r, 'd) network_event \<Rightarrow> send_progress \<times> ('r, 'd) event_lanes \<Rightarrow> ('r, 'd) lane_run \<Rightarrow> ('r, 'd) lane_run" where
  "settle_result event progress r =
     (case progress of
        (Sent, l) \<Rightarrow> r\<lparr>lanes := l, waiting := None,
             admitted := (admitted r)(ResultLane := admitted r ResultLane @ [event])\<rparr>
      | (Suspended phase, l) \<Rightarrow> r\<lparr>lanes := l, waiting := Some (event, phase)\<rparr>
      | (SendFailed _, l) \<Rightarrow> r\<lparr>lanes := l, waiting := None\<rparr>)"

fun lane_step ::
  "(('r, 'd) network_event \<Rightarrow> nat) \<Rightarrow> ('r, 'd) lane_action \<Rightarrow> ('r, 'd) lane_run \<Rightarrow> ('r, 'd) lane_run" where
  "lane_step encoded_len (Emit event) r =
     (case lane_send encoded_len event (lanes r) of
        (True, l) \<Rightarrow> r\<lparr>lanes := l, admitted := (admitted r)(classify event := admitted r (classify event) @ [event])\<rparr>
      | (False, l) \<Rightarrow> r\<lparr>lanes := l\<rparr>)"
| "lane_step encoded_len (EmitResult event) r =
     (if waiting r \<noteq> None then r
      else if classify event \<noteq> ResultLane \<or> encoded_len event > MAX_EVENT_BYTES
      then settle_result event (send_result encoded_len event (lanes r)) r
      else settle_result event (send_result encoded_len event (lanes r)) (r\<lparr>offered := offered r @ [event]\<rparr>))"
| "lane_step encoded_len Resume r =
     (case waiting r of
        None \<Rightarrow> r
      | Some (event, phase) \<Rightarrow> settle_result event (send_result_poll encoded_len event phase (lanes r)) r)"
| "lane_step encoded_len Poll r =
     (case try_recv encoded_len (lanes r) of
        (None, l) \<Rightarrow> r\<lparr>lanes := l\<rparr>
      | (Some event, l) \<Rightarrow> r\<lparr>lanes := l, delivered := delivered r @ [(classify event, event)]\<rparr>)"
| "lane_step encoded_len CloseReceiver r = r\<lparr>lanes := (lanes r)\<lparr>receiver_gone := True\<rparr>\<rparr>"

definition delivered_on :: "event_lane \<Rightarrow> ('r, 'd) lane_run \<Rightarrow> ('r, 'd) network_event list" where
  "delivered_on lane r = map snd (filter (\<lambda>(k, _). k = lane) (delivered r))"

definition held_bytes :: "(('r, 'd) network_event \<Rightarrow> nat) \<Rightarrow> event_lane \<Rightarrow> ('r, 'd) lane_run \<Rightarrow> nat" where
  "held_bytes encoded_len lane r =
     (case waiting r of Some (event, NeedSlot) \<Rightarrow> if lane = ResultLane then encoded_len event else 0 | _ \<Rightarrow> 0)"

definition lane_ok :: "(('r, 'd) network_event \<Rightarrow> nat) \<Rightarrow> event_lane \<Rightarrow> ('r, 'd) lane_run \<Rightarrow> bool" where
  "lane_ok encoded_len lane r \<longleftrightarrow>
     queued_bytes (lanes r) lane =
       sum_list (map encoded_len (lane_queue (lanes r) lane)) + held_bytes encoded_len lane r
     \<and> queued_bytes (lanes r) lane \<le> lane_max_bytes lane
     \<and> length (lane_queue (lanes r) lane) \<le> lane_capacity lane
     \<and> list_all (\<lambda>e. classify e = lane \<and> encoded_len e \<le> MAX_EVENT_BYTES) (lane_queue (lanes r) lane)
     \<and> admitted r lane = delivered_on lane r @ lane_queue (lanes r) lane"

definition waiting_ok :: "(('r, 'd) network_event \<Rightarrow> nat) \<Rightarrow> ('r, 'd) lane_run \<Rightarrow> bool" where
  "waiting_ok encoded_len r \<longleftrightarrow>
     (case waiting r of None \<Rightarrow> True
      | Some (e, _) \<Rightarrow> classify e = ResultLane \<and> encoded_len e \<le> MAX_EVENT_BYTES)
     \<and> (receiver_gone (lanes r) \<or>
          offered r = admitted r ResultLane @ (case waiting r of None \<Rightarrow> [] | Some (e, _) \<Rightarrow> [e]))"

definition lane_inv :: "(('r, 'd) network_event \<Rightarrow> nat) \<Rightarrow> ('r, 'd) lane_run \<Rightarrow> bool" where
  "lane_inv encoded_len r \<longleftrightarrow> (\<forall>lane. lane_ok encoded_len lane r) \<and> waiting_ok encoded_len r"

lemma lane_inv_start: "lane_inv encoded_len lane_run_start"
  by (simp add: lane_inv_def lane_ok_def waiting_ok_def lane_run_start_def event_lanes_channel_def
      delivered_on_def held_bytes_def)

lemma run_updates [simp]:
  "held_bytes encoded_len lane (r\<lparr>lanes := l\<rparr>) = held_bytes encoded_len lane r"
  "held_bytes encoded_len lane (r\<lparr>admitted := a\<rparr>) = held_bytes encoded_len lane r"
  "held_bytes encoded_len lane (r\<lparr>delivered := d\<rparr>) = held_bytes encoded_len lane r"
  "held_bytes encoded_len lane (r\<lparr>offered := o'\<rparr>) = held_bytes encoded_len lane r"
  "delivered_on lane (r\<lparr>lanes := l\<rparr>) = delivered_on lane r"
  "delivered_on lane (r\<lparr>admitted := a\<rparr>) = delivered_on lane r"
  "delivered_on lane (r\<lparr>waiting := w\<rparr>) = delivered_on lane r"
  "delivered_on lane (r\<lparr>offered := o'\<rparr>) = delivered_on lane r"
  by (simp_all add: held_bytes_def delivered_on_def)

lemma held_other [simp]: "lane \<noteq> ResultLane \<Longrightarrow> held_bytes encoded_len lane r = 0"
  by (simp add: held_bytes_def split: option.splits send_phase.splits)

lemma emit_inv:
  assumes inv: "lane_inv encoded_len r"
  shows "lane_inv encoded_len (lane_step encoded_len (Emit event) r)"
proof (cases "fst (lane_send encoded_len event (lanes r))")
  case False
  then have "snd (lane_send encoded_len event (lanes r)) = lanes r"
    by (auto simp: lane_send_def reserve_bytes_def release_bytes_def try_send_def Let_def
        split: if_splits option.splits intro!: event_lanes.equality)
  with False have "lane_step encoded_len (Emit event) r = r"
    by (cases "lane_send encoded_len event (lanes r)") simp
  with inv show ?thesis by simp
next
  case True
  let ?k = "classify event"
  from True have k: "?k \<noteq> ResultLane" "encoded_len event \<le> MAX_EVENT_BYTES"
    and room: "queued_bytes (lanes r) ?k + encoded_len event \<le> lane_max_bytes ?k"
      "length (lane_queue (lanes r) ?k) < lane_capacity ?k"
    and l: "snd (lane_send encoded_len event (lanes r)) = (lanes r)
      \<lparr>queued_bytes := (queued_bytes (lanes r))(?k := queued_bytes (lanes r) ?k + encoded_len event),
       lane_queue := (lane_queue (lanes r))(?k := lane_queue (lanes r) ?k @ [event])\<rparr>"
    by (auto simp: lane_send_def reserve_bytes_def try_send_def Let_def split: if_splits option.splits)
  have step: "lane_step encoded_len (Emit event) r = r\<lparr>lanes := snd (lane_send encoded_len event (lanes r)),
      admitted := (admitted r)(?k := admitted r ?k @ [event])\<rparr>"
    using True by (cases "lane_send encoded_len event (lanes r)") simp
  have "lane_ok encoded_len lane (lane_step encoded_len (Emit event) r)" for lane
    using inv [unfolded lane_inv_def, THEN conjunct1, rule_format, of lane] k room
    unfolding step l by (cases "lane = ?k") (simp_all add: lane_ok_def)
  moreover have "waiting_ok encoded_len (lane_step encoded_len (Emit event) r)"
    using inv k(1) unfolding step l lane_inv_def by (simp add: waiting_ok_def)
  ultimately show ?thesis by (simp add: lane_inv_def)
qed

lemma poll_inv:
  assumes inv: "lane_inv encoded_len r"
  shows "lane_inv encoded_len (lane_step encoded_len Poll r)"
proof -
  have serve: "lane_inv encoded_len (r\<lparr>lanes := l', delivered := delivered r @ [(classify e, e)]\<rparr>)"
    if s: "serves encoded_len k (lanes r) l'" and e: "e = hd (lane_queue (lanes r) k)" for k e l'
  proof -
    obtain rest where q: "lane_queue (lanes r) k = e # rest"
      using s e by (cases "lane_queue (lanes r) k") (simp_all add: serves_def)
    have ok: "lane_ok encoded_len k r" using inv by (simp add: lane_inv_def)
    then have c: "classify e = k" using q by (simp add: lane_ok_def)
    have "lane_ok encoded_len lane (r\<lparr>lanes := l', delivered := delivered r @ [(classify e, e)]\<rparr>)" for lane
    proof (cases "lane = k")
      case True
      with ok q c s show ?thesis
        by (simp add: lane_ok_def serves_def delivered_on_def)
    next
      case False
      have "lane_ok encoded_len lane r" using inv by (simp add: lane_inv_def)
      with False c s show ?thesis
        by (simp add: lane_ok_def serves_def delivered_on_def)
    qed
    moreover have "waiting_ok encoded_len (r\<lparr>lanes := l', delivered := delivered r @ [(classify e, e)]\<rparr>)"
      using inv s by (simp add: lane_inv_def waiting_ok_def serves_def)
    ultimately show ?thesis by (simp add: lane_inv_def)
  qed
  show ?thesis
  proof (cases rule: try_recv_cases [of encoded_len "lanes r"])
    case (empty l')
    then have "lane_ok encoded_len lane (r\<lparr>lanes := l'\<rparr>) = lane_ok encoded_len lane r" for lane
      by (simp add: lane_ok_def)
    with empty inv show ?thesis by (simp add: lane_inv_def waiting_ok_def)
  next
    case (same l')
    with serve [OF same(2) refl] show ?thesis by simp
  next
    case (other k l')
    with serve [OF other(2) refl] show ?thesis by simp
  qed
qed

lemma held_waiting [simp]:
  "held_bytes encoded_len lane (r\<lparr>waiting := None\<rparr>) = 0"
  "held_bytes encoded_len lane (r\<lparr>waiting := Some (e, NeedBytes)\<rparr>) = 0"
  "held_bytes encoded_len ResultLane (r\<lparr>waiting := Some (e, NeedSlot)\<rparr>) = encoded_len e"
  by (simp_all add: held_bytes_def)

lemma slot_inv:
  assumes inv: "lane_inv encoded_len (r\<lparr>waiting := Some (event, NeedSlot)\<rparr>)"
  shows "lane_inv encoded_len (settle_result event (send_result_slot encoded_len event (lanes r)) r)"
proof -
  have ok: "lane_ok encoded_len lane (r\<lparr>waiting := Some (event, NeedSlot)\<rparr>)" for lane
    using inv by (simp add: lane_inv_def)
  have w: "waiting_ok encoded_len (r\<lparr>waiting := Some (event, NeedSlot)\<rparr>)" using inv by (simp add: lane_inv_def)
  consider (gone) "receiver_gone (lanes r)"
    | (full) "\<not> receiver_gone (lanes r)" "length (lane_queue (lanes r) ResultLane) \<ge> lane_capacity ResultLane"
    | (room) "\<not> receiver_gone (lanes r)" "length (lane_queue (lanes r) ResultLane) < lane_capacity ResultLane"
    by linarith
  then show ?thesis
  proof cases
    case gone
    have "lane_ok encoded_len lane (r\<lparr>lanes := release_bytes ResultLane (encoded_len event) (lanes r), waiting := None\<rparr>)" for lane
      using ok [of lane] by (cases "lane = ResultLane") (simp_all add: lane_ok_def release_bytes_def)
    with gone show ?thesis
      by (simp add: send_result_slot_def settle_result_def lane_inv_def waiting_ok_def release_bytes_def)
  next
    case full
    then have "settle_result event (send_result_slot encoded_len event (lanes r)) r = r\<lparr>waiting := Some (event, NeedSlot)\<rparr>"
      by (simp add: send_result_slot_def settle_result_def try_send_def)
    with inv show ?thesis by simp
  next
    case room
    let ?r = "r\<lparr>lanes := (lanes r)\<lparr>lane_queue := (lane_queue (lanes r))(ResultLane := lane_queue (lanes r) ResultLane @ [event])\<rparr>,
      waiting := None, admitted := (admitted r)(ResultLane := admitted r ResultLane @ [event])\<rparr>"
    have "lane_ok encoded_len lane ?r" for lane
      using ok [of lane] room w by (cases "lane = ResultLane") (simp_all add: lane_ok_def waiting_ok_def)
    moreover have "waiting_ok encoded_len ?r" using w room by (simp add: waiting_ok_def)
    ultimately have "lane_inv encoded_len ?r" by (simp add: lane_inv_def)
    with room show ?thesis
      by (simp add: send_result_slot_def settle_result_def try_send_def del: fun_upd_apply lane_capacity.simps)
  qed
qed

lemma result_inv:
  assumes inv: "lane_inv encoded_len (r\<lparr>waiting := Some (event, phase)\<rparr>)"
  shows "lane_inv encoded_len (settle_result event (send_result_poll encoded_len event phase (lanes r)) r)"
proof (cases phase)
  case NeedSlot
  with slot_inv inv show ?thesis by simp
next
  case NeedBytes
  have ok: "lane_ok encoded_len lane (r\<lparr>waiting := Some (event, NeedBytes)\<rparr>)" for lane
    using inv NeedBytes by (simp add: lane_inv_def)
  have w: "waiting_ok encoded_len (r\<lparr>waiting := Some (event, NeedBytes)\<rparr>)"
    using inv NeedBytes by (simp add: lane_inv_def)
  show ?thesis
  proof (cases "reserve_bytes ResultLane (encoded_len event) (lanes r)")
    case None
    have "lane_ok encoded_len lane (r\<lparr>waiting := None\<rparr>)" for lane
      using ok [of lane] by (cases "lane = ResultLane") (simp_all add: lane_ok_def)
    with None NeedBytes inv show ?thesis
      by (auto simp: settle_result_def lane_inv_def waiting_ok_def)
  next
    case (Some l)
    let ?r = "r\<lparr>lanes := l\<rparr>"
    have "lane_ok encoded_len lane (?r\<lparr>waiting := Some (event, NeedSlot)\<rparr>)" for lane
      using ok [of lane] Some
      by (cases "lane = ResultLane") (auto simp: lane_ok_def reserve_bytes_def Let_def split: if_splits)
    moreover have "waiting_ok encoded_len (?r\<lparr>waiting := Some (event, NeedSlot)\<rparr>)"
      using w Some by (auto simp: waiting_ok_def reserve_bytes_def Let_def split: if_splits)
    ultimately have "lane_inv encoded_len (settle_result event (send_result_slot encoded_len event (lanes ?r)) ?r)"
      by (intro slot_inv) (simp add: lane_inv_def)
    moreover have "settle_result event x ?r = settle_result event x r" for x
      by (cases x) (auto simp: settle_result_def split: send_progress.splits)
    ultimately show ?thesis using NeedBytes Some by simp
  qed
qed

lemma lane_step_inv: "lane_inv encoded_len r \<Longrightarrow> lane_inv encoded_len (lane_step encoded_len a r)"
proof (cases a)
  case (EmitResult event)
  assume inv: "lane_inv encoded_len r"
  let ?r = "r\<lparr>offered := offered r @ [event]\<rparr>"
  show ?thesis
  proof (cases "waiting r = None \<and> classify event = ResultLane \<and> encoded_len event \<le> MAX_EVENT_BYTES")
    case True
    have "lane_ok encoded_len lane (?r\<lparr>waiting := Some (event, NeedBytes)\<rparr>)" for lane
    proof -
      have "lane_ok encoded_len lane r" using inv by (simp add: lane_inv_def)
      with True show ?thesis by (simp add: lane_ok_def held_bytes_def)
    qed
    then have "lane_inv encoded_len (?r\<lparr>waiting := Some (event, NeedBytes)\<rparr>)"
      using inv True by (auto simp: lane_inv_def waiting_ok_def)
    from result_inv [OF this] EmitResult True show ?thesis by (simp add: send_result_def not_less)
  next
    case False
    moreover have "r\<lparr>waiting := None\<rparr> = r" if "waiting r = None" using that by (cases r) simp
    ultimately have "lane_step encoded_len a r = r"
      using EmitResult by (cases "waiting r") (auto simp: send_result_def settle_result_def)
    with inv show ?thesis by simp
  qed
next
  case Resume
  assume inv: "lane_inv encoded_len r"
  show ?thesis
  proof (cases "waiting r")
    case (Some w)
    obtain event phase where w: "w = (event, phase)" by (cases w)
    have "r\<lparr>waiting := Some (event, phase)\<rparr> = r" using Some w by simp
    with result_inv [where r = r and event = event and phase = phase] inv Some w Resume show ?thesis by simp
  qed (use inv Resume in simp)
next
  case CloseReceiver
  assume inv: "lane_inv encoded_len r"
  have "lane_ok encoded_len lane (lane_step encoded_len a r) = lane_ok encoded_len lane r" for lane
    using CloseReceiver by (simp add: lane_ok_def)
  with CloseReceiver inv show ?thesis by (simp add: lane_inv_def waiting_ok_def)
qed (use emit_inv poll_inv in blast)+

interpretation lanes: invariant_system "lane_step encoded_len" "lane_inv encoded_len" for encoded_len
  by unfold_locales (rule lane_step_inv)

section \<open>Bounded waiting\<close>

definition polls :: "('r, 'd) lane_action list \<Rightarrow> nat" where
  "polls as = length (filter (\<lambda>a. a = Poll) as)"

definition keeps_turn :: "('r, 'd) event_lanes \<Rightarrow> ('r, 'd) event_lanes \<Rightarrow> bool" where
  "keeps_turn l l' \<longleftrightarrow> scheduled_lane l' = scheduled_lane l \<and> scheduled_burst l' = scheduled_burst l
     \<and> (\<forall>lane. lane_queue l lane \<noteq> [] \<longrightarrow> lane_queue l' lane \<noteq> [])"

lemma keeps_turn_ops:
  "keeps_turn l (snd (lane_send encoded_len event l))"
  "keeps_turn l (snd (send_result_poll encoded_len event phase l))"
  "keeps_turn l (snd (send_result encoded_len event l))"
proof -
  have slot: "keeps_turn l (snd (send_result_slot encoded_len event l'))"
    if "keeps_turn l l'" for l'
    using that by (auto simp: send_result_slot_def keeps_turn_def release_bytes_def try_send_def)
  have res: "keeps_turn l l'" if "reserve_bytes lane n l = Some l'" for lane n l'
    using that by (auto simp: reserve_bytes_def keeps_turn_def Let_def split: if_splits)
  have refl: "keeps_turn l l" by (simp add: keeps_turn_def)
  show poll: "keeps_turn l (snd (send_result_poll encoded_len event phase l))" for phase
    by (cases phase) (auto intro: slot res refl split: option.splits)
  show "keeps_turn l (snd (send_result encoded_len event l))"
    unfolding send_result_def using refl poll by (simp del: send_result_poll.simps)
  show "keeps_turn l (snd (lane_send encoded_len event l))"
    by (auto simp: lane_send_def reserve_bytes_def try_send_def release_bytes_def keeps_turn_def Let_def)
qed

lemma settle_result_lanes [simp]:
  "lanes (settle_result event x r) = snd x" "delivered (settle_result event x r) = delivered r"
  by (cases x; auto simp: settle_result_def split: send_progress.splits)+

lemma not_poll_keeps_turn:
  "a \<noteq> Poll \<Longrightarrow> keeps_turn (lanes r) (lanes (lane_step encoded_len a r))
     \<and> delivered (lane_step encoded_len a r) = delivered r"
proof (cases a)
  case (Emit event)
  then show ?thesis
    using keeps_turn_ops(1) [of "lanes r" encoded_len event]
    by (cases "lane_send encoded_len event (lanes r)") (auto split: bool.splits)
qed (auto simp: keeps_turn_ops split: option.splits, (simp add: keeps_turn_def)+)

lemma poll_delivers:
  assumes inv: "lane_inv encoded_len r" and q: "lane_queue (lanes r) lane \<noteq> []"
  shows "length (delivered_on lane (lane_step encoded_len Poll r)) > length (delivered_on lane r)
    \<or> lane_queue (lanes (lane_step encoded_len Poll r)) lane \<noteq> []
      \<and> turns_before lane (lanes (lane_step encoded_len Poll r)) < turns_before lane (lanes r)
      \<and> delivered_on lane (lane_step encoded_len Poll r) = delivered_on lane r"
  using q
proof (rule try_recv_fair [where encoded_len = encoded_len])
  fix k l'
  assume t: "try_recv encoded_len (lanes r) = (Some (hd (lane_queue (lanes r) k)), l')"
    and s: "serves encoded_len k (lanes r) l'"
    and k: "k = lane \<or> turns_before lane l' < turns_before lane (lanes r)"
  let ?e = "hd (lane_queue (lanes r) k)"
  have "lane_ok encoded_len k r" using inv by (simp add: lane_inv_def)
  then have c: "classify ?e = k"
    using s by (cases "lane_queue (lanes r) k") (simp_all add: lane_ok_def serves_def)
  show ?thesis
    using k q s t c by (cases "k = lane") (auto simp: delivered_on_def serves_def)
qed

lemma delivered_grows:
  "length (delivered_on lane r) \<le> length (delivered_on lane (fold (lane_step encoded_len) as r))"
proof (induction as arbitrary: r)
  case (Cons a as)
  have "length (delivered_on lane r) \<le> length (delivered_on lane (lane_step encoded_len a r))"
  proof (cases "a = Poll")
    case True
    then show ?thesis by (auto simp: delivered_on_def split: prod.splits option.splits)
  next
    case False
    then show ?thesis using not_poll_keeps_turn [OF False, of r encoded_len] by (simp add: delivered_on_def)
  qed
  with Cons [of "lane_step encoded_len a r"] show ?case by simp
qed simp

lemma served_within:
  assumes "lane_inv encoded_len r" "lane_queue (lanes r) lane \<noteq> []" "turns_before lane (lanes r) < polls as"
  shows "length (delivered_on lane (fold (lane_step encoded_len) as r)) > length (delivered_on lane r)"
  using assms
proof (induction as arbitrary: r)
  case (Cons a as)
  let ?r = "lane_step encoded_len a r"
  note inv = lane_step_inv [OF Cons.prems(1), of a]
  show ?case
  proof (cases "a = Poll")
    case True
    from poll_delivers [OF Cons.prems(1,2)] show ?thesis
    proof (elim disjE conjE)
      assume "length (delivered_on lane (lane_step encoded_len Poll r)) > length (delivered_on lane r)"
      with delivered_grows [of lane ?r encoded_len as] True show ?thesis by simp
    next
      assume a: "lane_queue (lanes (lane_step encoded_len Poll r)) lane \<noteq> []"
        "turns_before lane (lanes (lane_step encoded_len Poll r)) < turns_before lane (lanes r)"
        "delivered_on lane (lane_step encoded_len Poll r) = delivered_on lane r"
      have "polls (a # as) = Suc (polls as)" using True by (simp add: polls_def)
      with a Cons.IH [OF inv] Cons.prems(3) True show ?thesis by simp
    qed
  next
    case False
    then have "turns_before lane (lanes ?r) = turns_before lane (lanes r)" "lane_queue (lanes ?r) lane \<noteq> []"
        "delivered_on lane ?r = delivered_on lane r" "polls (a # as) = polls as"
      using not_poll_keeps_turn [OF False, of r encoded_len] Cons.prems(2)
      by (auto simp: keeps_turn_def turns_before_def delivered_on_def polls_def)
    with Cons.IH [OF inv] Cons.prems(3) show ?thesis by simp
  qed
qed (simp add: polls_def)

section \<open>Properties\<close>

lemma lanes_reachable: "lane_inv encoded_len (fold (lane_step encoded_len) as lane_run_start)"
  by (rule lanes.run_inv [OF lane_inv_start])

text \<open>
  C24. the lanes deliver what they accept.  Over any run, on each lane the events delivered so
  far followed by those still queued are exactly the accepted ones, in order; the byte
  counter of a lane is the size of what is queued plus the reservation of a suspended result,
  and neither it nor the number of queued events exceeds the limits of the lane.  As long as
  the consumer exists, no result the worker offered is missing: it is delivered, queued, or
  the one the worker is waiting to send.
\<close>

theorem lanes_deliver_accepted:
  "let r = fold (lane_step encoded_len) as lane_run_start in
     admitted r lane = delivered_on lane r @ lane_queue (lanes r) lane
     \<and> queued_bytes (lanes r) lane =
         sum_list (map encoded_len (lane_queue (lanes r) lane)) + held_bytes encoded_len lane r
     \<and> queued_bytes (lanes r) lane \<le> lane_max_bytes lane
     \<and> length (lane_queue (lanes r) lane) \<le> lane_capacity lane
     \<and> (receiver_gone (lanes r) \<or>
          offered r = delivered_on ResultLane r @ lane_queue (lanes r) ResultLane
            @ (case waiting r of None \<Rightarrow> [] | Some (e, _) \<Rightarrow> [e]))"
proof -
  define r where "r = fold (lane_step encoded_len) as lane_run_start"
  have inv: "lane_inv encoded_len r" unfolding r_def by (rule lanes_reachable)
  then have "lane_ok encoded_len lane r" "lane_ok encoded_len ResultLane r" "waiting_ok encoded_len r"
    by (simp_all add: lane_inv_def)
  then show ?thesis
    unfolding r_def [symmetric] Let_def by (auto simp: lane_ok_def waiting_ok_def)
qed

text \<open>
  C25. bounded fairness.  Whatever the other lanes hold and however much is sent meanwhile, a
  lane that has an event is served within the next seventeen polls.
\<close>

theorem lane_served_within_17_polls:
  assumes "r = fold (lane_step encoded_len) as0 lane_run_start" "lane_queue (lanes r) lane \<noteq> []"
    "polls as \<ge> 17"
  shows "length (delivered_on lane (fold (lane_step encoded_len) as r)) > length (delivered_on lane r)"
proof (rule served_within)
  show "lane_inv encoded_len r" unfolding assms(1) by (rule lanes_reachable)
  show "turns_before lane (lanes r) < polls as" using turns_before_le [of lane "lanes r"] assms(3) by simp
qed (rule assms(2))

theorem lane_served_within_17_polls_witness:
  "let e = \<lparr>event_id = ''e'', timestamp_ms = 0, protocol_version = 2, payload = Some (ChannelMessage ())\<rparr>
           :: (unit, unit) network_event;
       r = fold (lane_step (\<lambda>_. 1)) [Emit e] lane_run_start
   in length (delivered_on DataLane (fold (lane_step (\<lambda>_. 1)) (replicate 17 Poll) r)) > 0"
proof -
  let ?e = "\<lparr>event_id = ''e'', timestamp_ms = 0, protocol_version = 2, payload = Some (ChannelMessage ())\<rparr>
    :: (unit, unit) network_event"
  have "lane_queue (lanes (fold (lane_step (\<lambda>_. 1)) [Emit ?e] lane_run_start)) DataLane \<noteq> []"
    by (simp add: lane_send_def classify_def reserve_bytes_def try_send_def lane_run_start_def
        event_lanes_channel_def MAX_EVENT_BYTES_def MAX_DATA_EVENT_QUEUE_BYTES_def
        DATA_EVENT_MAILBOX_CAPACITY_def Let_def)
  from lane_served_within_17_polls [OF refl this, of "replicate 17 Poll"] show ?thesis
    by (auto simp: Let_def polls_def filter_replicate)
qed

end
