(* ===== verification/Protocol_V2.thy ===== *)
theory Protocol_V2
  imports Event_Lanes
begin

text \<open>
  The command and result messages of Network Protocol V2 (\<open>network-protocol\<close>): one record per
  message struct, one datatype per enumeration and for the command \<open>oneof\<close>.  Enumeration
  fields travel as 32-bit integers (\<open>int\<close> here); \<open>try_from\<close> of the enumerations the runtime
  decodes is written out.  The Protobuf encoding itself is generated code.
\<close>

section \<open>Enumerations\<close>

datatype network_error_code =
    EcUnspecified | EcInvalidArgument | EcAuthenticationFailed | EcNoRoute | EcTimeout
  | EcPeerOffline | EcQuicError | EcNatError | EcRelayError | EcIoError | EcCancelled
  | EcCredentialExpired | EcIdentityConflict | EcConfiguration | EcSecurityPolicyMismatch
  | EcRelayRequiresE2ee | EcPeerNotReady | EcResourceLimit | EcLifecycle | EcProtocolMismatch
  | EcStaleOperation | EcInvalidState | EcPathLost | EcResumeRejected | EcStreamClosed

definition error_codes :: "(network_error_code \<times> int) list" where
  "error_codes =
     [(EcUnspecified, 0), (EcInvalidArgument, 1), (EcAuthenticationFailed, 2), (EcNoRoute, 3),
      (EcTimeout, 4), (EcPeerOffline, 5), (EcQuicError, 6), (EcNatError, 7), (EcRelayError, 8),
      (EcIoError, 10), (EcCancelled, 11), (EcCredentialExpired, 12), (EcIdentityConflict, 13),
      (EcConfiguration, 14), (EcSecurityPolicyMismatch, 15), (EcRelayRequiresE2ee, 16),
      (EcPeerNotReady, 17), (EcResourceLimit, 18), (EcLifecycle, 19), (EcProtocolMismatch, 20),
      (EcStaleOperation, 21), (EcInvalidState, 22), (EcPathLost, 23), (EcResumeRejected, 24),
      (EcStreamClosed, 25)]"

definition error_code_value :: "network_error_code \<Rightarrow> int" where
  "error_code_value c = the (map_of error_codes c)"

definition error_code_try_from :: "int \<Rightarrow> network_error_code option" where
  "error_code_try_from v = map_option fst (find (\<lambda>(_, w). w = v) error_codes)"

datatype e2ee_policy = E2eeRequired | E2eeDisabled

definition e2ee_policy_try_from :: "int \<Rightarrow> e2ee_policy option" where
  "e2ee_policy_try_from v = (if v = 0 then Some E2eeRequired else if v = 1 then Some E2eeDisabled else None)"

datatype command_result_state = CmdSucceeded | CmdFailed | CmdCancelled

fun command_result_state_value :: "command_result_state \<Rightarrow> int" where
  "command_result_state_value CmdSucceeded = 0"
| "command_result_state_value CmdFailed = 1"
| "command_result_state_value CmdCancelled = 2"

datatype communication_class =
    CcUnspecified | CcReliableStream | CcReliableMessage | CcBulkTransfer | CcUnreliableDatagram
  | CcRealtimeMedia

definition communication_class_try_from :: "int \<Rightarrow> communication_class option" where
  "communication_class_try_from v =
     (if v = 0 then Some CcUnspecified else if v = 1 then Some CcReliableStream
      else if v = 2 then Some CcReliableMessage else if v = 3 then Some CcBulkTransfer
      else if v = 4 then Some CcUnreliableDatagram else if v = 5 then Some CcRealtimeMedia
      else None)"

section \<open>Messages\<close>

record network_error =
  ne_code :: int
  ne_message :: string
  ne_operation :: string
  ne_peer_id :: string
  ne_retry_disposition :: int
  ne_retry_after_seconds :: u32

record command_result =
  cr_command_id :: string
  cr_peer_id :: string
  cr_state :: int
  cr_error :: "network_error option"

record connect_peer_command = cp_peer_id :: string cp_intent :: u32 cp_communication_class :: int
record disconnect_peer_command = dp_peer_id :: string
record send_file_command = sf_transfer_id :: string sf_peer_id :: string sf_file_path :: string
record cancel_transfer_command = ct_transfer_id :: string

record configure_runtime_command =
  cf_device_id :: string
  cf_identity_private_key :: "byte list"
  cf_e2e_private_key :: "byte list"
  cf_listen_address :: string
  cf_receive_directory :: string

record upsert_peer_command =
  up_peer_id :: string
  up_endpoint_address :: string
  up_identity_public_key :: "byte list"
  up_e2e_public_key :: "byte list"

record respond_incoming_transfer_command = ri_transfer_id :: string ri_accept :: bool

record peer_config =
  pc_peer_id :: string
  pc_endpoint_address :: string
  pc_identity_public_key :: "byte list"
  pc_e2e_public_key :: "byte list"
  pc_e2ee_policy :: int
  pc_allow_direct :: bool
  pc_allow_relay :: bool

record upsert_peer_v2_command = uv_config :: "peer_config option"
record remove_peer_command = rp_peer_id :: string

record send_message_v2_command =
  mv_peer_id :: string
  mv_message_id :: string
  mv_channel_id :: string
  mv_payload :: "byte list"
  mv_policy :: int
  mv_e2ee_policy :: int

record transfer_command =
  tc_peer_id :: string
  tc_transfer_id :: string
  tc_file_path :: string
  tc_confirmed_offset :: u64
  tc_resume :: bool

record peer_diagnostics_command = pd_peer_id :: string

record network_environment_changed_command =
  nc_generation :: u64
  nc_has_connectivity :: bool
  nc_is_foreground :: bool
  nc_is_metered :: bool

record send_message_command =
  sm_peer_id :: string
  sm_channel_id :: string
  sm_payload :: "byte list"
  sm_policy :: int

record acknowledge_message_command =
  am_peer_id :: string
  am_session_id :: string
  am_channel_id :: string
  am_message_id :: "byte list"

record configure_relay_command =
  rl_relay_url :: string
  rl_relay_credential :: string
  rl_relay_signing_seed :: "byte list"

record start_realtime_session_command = sr_realtime_id :: string sr_peer_id :: string
record stop_realtime_session_command = tr_realtime_id :: string

record send_realtime_signal_command =
  rs_realtime_id :: string
  rs_peer_id :: string
  rs_kind :: int
  rs_revision :: u64
  rs_payload :: "byte list"

record incoming_realtime_offer_command = ro_realtime_id :: string ro_peer_id :: string ro_claim_token :: string

record stream_handle = sh_opener_device_id :: string sh_stream_id :: u32

record ssh_stream_open_command = so_peer_id :: string so_handle :: "stream_handle option" so_service :: string
record ssh_stream_data_command = sd_peer_id :: string sd_handle :: "stream_handle option" sd_data :: "byte list"
record ssh_stream_close_command = sc_peer_id :: string sc_handle :: "stream_handle option"

datatype command_payload =
    ConnectPeer connect_peer_command
  | SendFile send_file_command
  | CancelTransfer cancel_transfer_command
  | ConfigureRuntime configure_runtime_command
  | UpsertPeer upsert_peer_command
  | RespondIncomingTransfer respond_incoming_transfer_command
  | ConfigureRelay configure_relay_command
  | DisconnectPeer disconnect_peer_command
  | DisconnectRelay
  | SendMessage send_message_command
  | AcknowledgeMessage acknowledge_message_command
  | StartRealtimeSession start_realtime_session_command
  | StopRealtimeSession stop_realtime_session_command
  | SendRealtimeSignal send_realtime_signal_command
  | ClaimIncomingRealtimeOffer incoming_realtime_offer_command
  | RejectIncomingRealtimeOffer incoming_realtime_offer_command
  | DiscardIncomingRealtimeOffer incoming_realtime_offer_command
  | SshStreamOpen ssh_stream_open_command
  | SshStreamData ssh_stream_data_command
  | SshStreamClose ssh_stream_close_command
  | UpsertPeerV2 upsert_peer_v2_command
  | RemovePeer remove_peer_command
  | SendMessageV2 send_message_v2_command
  | Transfer transfer_command
  | PeerDiagnostics peer_diagnostics_command
  | NetworkEnvironmentChanged network_environment_changed_command

record network_command =
  nk_command_id :: string
  nk_protocol_version :: u32
  nk_payload :: "command_payload option"

section \<open>The enumerations decode to what was encoded\<close>

lemma error_codes_complete: "map_of error_codes c \<noteq> None"
  by (cases c) (simp_all add: error_codes_def)

lemma error_code_roundtrip: "error_code_try_from (error_code_value c) = Some c"
  by (cases c) (simp_all add: error_code_try_from_def error_code_value_def error_codes_def)

end
