(* ===== verification/Command_Worker.thy ===== *)
theory Command_Worker
  imports Protocol_V2
begin

text \<open>
  The command worker of the runtime (\<open>commands/ledger.rs\<close>, \<open>events/command.rs\<close>): the ledger
  that claims every command id once, the checks and the routing of \<open>dispatch_command\<close>, and
  the terminal result published for every command.  What the subsystems do with a routed
  call is the argument \<open>subsystem\<close>, a function of the call and of the runtime state; the
  encoded size of an event is the argument \<open>encoded_len\<close>, as in \<open>Event_Lanes\<close>.
\<close>

section \<open>The ledger\<close>

definition MAX_COMPLETED_COMMANDS :: nat where "MAX_COMPLETED_COMMANDS = 4096"
definition COMMAND_MAILBOX_CAPACITY :: nat where "COMMAND_MAILBOX_CAPACITY = 256"

record command_ledger =
  led_pending :: "string set"
  led_completed :: "string set"
  led_order :: "string list"

definition ledger_new :: command_ledger where
  "ledger_new = \<lparr>led_pending = {}, led_completed = {}, led_order = []\<rparr>"

datatype claim_error = PendingCommandResults

definition claim :: "string \<Rightarrow> command_ledger \<Rightarrow> (claim_error + bool) \<times> command_ledger" where
  "claim command_id l =
     (if command_id \<in> led_pending l \<or> command_id \<in> led_completed l then (Inr False, l)
      else if card (led_pending l) \<ge> COMMAND_MAILBOX_CAPACITY then (Inl PendingCommandResults, l)
      else (Inr True, l\<lparr>led_pending := insert command_id (led_pending l)\<rparr>))"

fun forget_completed :: "string list \<Rightarrow> string set \<Rightarrow> string list \<times> string set" where
  "forget_completed [] completed = ([], completed)"
| "forget_completed (expired # rest) completed =
     (if length (expired # rest) > MAX_COMPLETED_COMMANDS
      then forget_completed rest (completed - {expired})
      else (expired # rest, completed))"

definition complete :: "string \<Rightarrow> command_ledger \<Rightarrow> command_ledger" where
  "complete command_id l =
     (if command_id \<notin> led_pending l then l
      else
        let new = command_id \<notin> led_completed l;
            completed = insert command_id (led_completed l);
            ord = (if new then led_order l @ [command_id] else led_order l)
        in case forget_completed ord completed of
             (ord, completed) \<Rightarrow>
               l\<lparr>led_pending := led_pending l - {command_id}, led_completed := completed, led_order := ord\<rparr>)"

section \<open>Dispatch\<close>

definition protocol_error :: "network_error_code \<Rightarrow> string \<Rightarrow> network_error" where
  "protocol_error code message =
     \<lparr>ne_code = error_code_value code, ne_message = message, ne_operation = [], ne_peer_id = [],
      ne_retry_disposition = 0, ne_retry_after_seconds = 0\<rparr>"

definition command_peer_id :: "network_command \<Rightarrow> string option" where
  "command_peer_id command =
     (case nk_payload command of
        Some (ConnectPeer c) \<Rightarrow> Some (cp_peer_id c)
      | Some (SendFile c) \<Rightarrow> Some (sf_peer_id c)
      | Some (ConfigureRuntime _) \<Rightarrow> None
      | Some (UpsertPeer c) \<Rightarrow> Some (up_peer_id c)
      | Some (RespondIncomingTransfer _) \<Rightarrow> None
      | Some (ConfigureRelay _) \<Rightarrow> None
      | Some (DisconnectPeer c) \<Rightarrow> Some (dp_peer_id c)
      | Some DisconnectRelay \<Rightarrow> None
      | Some (StartRealtimeSession c) \<Rightarrow> Some (sr_peer_id c)
      | Some (StopRealtimeSession _) \<Rightarrow> None
      | Some (SendRealtimeSignal c) \<Rightarrow> Some (rs_peer_id c)
      | Some (ClaimIncomingRealtimeOffer c) \<Rightarrow> Some (ro_peer_id c)
      | Some (RejectIncomingRealtimeOffer c) \<Rightarrow> Some (ro_peer_id c)
      | Some (DiscardIncomingRealtimeOffer c) \<Rightarrow> Some (ro_peer_id c)
      | Some (UpsertPeerV2 c) \<Rightarrow> map_option pc_peer_id (uv_config c)
      | Some (RemovePeer c) \<Rightarrow> Some (rp_peer_id c)
      | Some (SendMessageV2 c) \<Rightarrow> Some (mv_peer_id c)
      | Some (Transfer c) \<Rightarrow> Some (tc_peer_id c)
      | Some (PeerDiagnostics c) \<Rightarrow> Some (pd_peer_id c)
      | Some (NetworkEnvironmentChanged _) \<Rightarrow> None
      | Some (CancelTransfer _) \<Rightarrow> None
      | Some (SendMessage c) \<Rightarrow> Some (sm_peer_id c)
      | Some (AcknowledgeMessage c) \<Rightarrow> Some (am_peer_id c)
      | Some (SshStreamOpen c) \<Rightarrow> Some (so_peer_id c)
      | Some (SshStreamData c) \<Rightarrow> Some (sd_peer_id c)
      | Some (SshStreamClose c) \<Rightarrow> Some (sc_peer_id c)
      | None \<Rightarrow> None)"

text \<open>The calls the dispatcher makes into the subsystems, with their arguments.\<close>

datatype subsystem_call =
    CallConfigureRuntime configure_runtime_command
  | CallUpsertPeerWithPolicy upsert_peer_command e2ee_policy bool bool
  | CallClosePeerRelayPath string
  | CallStartConnectPeer string string communication_class
  | CallTransfer network_command
  | CallStartSendMessage send_message_command
  | CallAcknowledgeMessage acknowledge_message_command
  | CallStartRealtime start_realtime_session_command
  | CallStopRealtime stop_realtime_session_command
  | CallRealtimeSignal send_realtime_signal_command
  | CallClaimOffer incoming_realtime_offer_command
  | CallRejectOffer incoming_realtime_offer_command
  | CallDiscardOffer incoming_realtime_offer_command
  | CallConfigureRelay configure_relay_command
  | CallDisconnectPeer string
  | CallRemovePeer string
  | CallPeerDiagnostics string
  | CallEnvironmentChanged network_environment_changed_command
  | CallEmitEnvironmentChanged network_environment_changed_command
  | CallDisconnectRelay
  | CallStreamOpen ssh_stream_open_command
  | CallStreamData ssh_stream_data_command
  | CallStreamClose ssh_stream_close_command

text \<open>
  A call returns an error or, from \<open>upsert_peer_with_policy\<close>, the previous route
  authorization (direct, relay) of the peer.
\<close>

type_synonym call_reply = "(bool \<times> bool) option"
type_synonym 's subsystem = "subsystem_call \<Rightarrow> 's \<Rightarrow> (network_error + call_reply) \<times> 's"

definition run_call :: "'s subsystem \<Rightarrow> subsystem_call \<Rightarrow> 's \<Rightarrow> (network_error + unit) \<times> 's" where
  "run_call subsystem call s =
     (case subsystem call s of (Inl e, s) \<Rightarrow> (Inl e, s) | (Inr _, s) \<Rightarrow> (Inr (), s))"

definition decode_communication_class :: "int \<Rightarrow> communication_class" where
  "decode_communication_class value =
     (case communication_class_try_from value of
        Some CcUnspecified \<Rightarrow> CcReliableMessage
      | None \<Rightarrow> CcReliableMessage
      | Some class \<Rightarrow> class)"

definition validate_e2ee_policy :: "int \<Rightarrow> (network_error + unit)" where
  "validate_e2ee_policy value =
     (case e2ee_policy_try_from value of
        Some _ \<Rightarrow> Inr ()
      | None \<Rightarrow> Inl (protocol_error EcInvalidArgument ''unknown E2EE policy''))"

definition dispatch_upsert_v2 :: "'s subsystem \<Rightarrow> upsert_peer_v2_command \<Rightarrow> 's \<Rightarrow> (network_error + unit) \<times> 's" where
  "dispatch_upsert_v2 subsystem command s =
     (case uv_config command of
        None \<Rightarrow> (Inl (protocol_error EcInvalidArgument ''peer config is required''), s)
      | Some config \<Rightarrow>
      case e2ee_policy_try_from (pc_e2ee_policy config) of
        None \<Rightarrow> (Inl (protocol_error EcInvalidArgument ''unknown E2EE policy''), s)
      | Some policy \<Rightarrow>
          if \<not> pc_allow_direct config \<and> pc_allow_relay config
          then (Inl (protocol_error EcInvalidArgument ''relay-only peers are not supported''), s)
          else if \<not> pc_allow_direct config \<and> \<not> pc_allow_relay config
          then (Inl (protocol_error EcInvalidArgument ''peer must authorize at least one route''), s)
          else
            let revoke_relay = \<not> pc_allow_relay config
            in case subsystem (CallUpsertPeerWithPolicy
                      \<lparr>up_peer_id = pc_peer_id config, up_endpoint_address = pc_endpoint_address config,
                       up_identity_public_key = pc_identity_public_key config,
                       up_e2e_public_key = pc_e2e_public_key config\<rparr>
                      policy (pc_allow_direct config) (pc_allow_relay config)) s of
                 (Inl error, s) \<Rightarrow> (Inl error, s)
               | (Inr previous, s) \<Rightarrow>
                   if (case previous of None \<Rightarrow> False | Some (_, relay) \<Rightarrow> relay) \<and> revoke_relay
                   then (Inr (), snd (subsystem (CallClosePeerRelayPath (pc_peer_id config)) s))
                   else (Inr (), s))"

definition dispatch_command_payload :: "'s subsystem \<Rightarrow> network_command \<Rightarrow> 's \<Rightarrow> (network_error + unit) \<times> 's" where
  "dispatch_command_payload subsystem command s =
     (case nk_payload command of
        Some (ConfigureRuntime config) \<Rightarrow> run_call subsystem (CallConfigureRuntime config) s
      | Some (UpsertPeer _) \<Rightarrow>
          (Inl (protocol_error EcInvalidArgument ''legacy peer registration is not supported''), s)
      | Some (UpsertPeerV2 c) \<Rightarrow> dispatch_upsert_v2 subsystem c s
      | Some (ConnectPeer c) \<Rightarrow>
          run_call subsystem (CallStartConnectPeer (nk_command_id command) (cp_peer_id c)
            (decode_communication_class (cp_communication_class c))) s
      | Some (SendFile _) \<Rightarrow> run_call subsystem (CallTransfer command) s
      | Some (CancelTransfer _) \<Rightarrow> run_call subsystem (CallTransfer command) s
      | Some (RespondIncomingTransfer _) \<Rightarrow> run_call subsystem (CallTransfer command) s
      | Some (SendMessage message) \<Rightarrow> run_call subsystem (CallStartSendMessage message) s
      | Some (AcknowledgeMessage ack) \<Rightarrow> run_call subsystem (CallAcknowledgeMessage ack) s
      | Some (StartRealtimeSession c) \<Rightarrow> run_call subsystem (CallStartRealtime c) s
      | Some (StopRealtimeSession c) \<Rightarrow> run_call subsystem (CallStopRealtime c) s
      | Some (SendRealtimeSignal c) \<Rightarrow> run_call subsystem (CallRealtimeSignal c) s
      | Some (ClaimIncomingRealtimeOffer c) \<Rightarrow> run_call subsystem (CallClaimOffer c) s
      | Some (RejectIncomingRealtimeOffer c) \<Rightarrow> run_call subsystem (CallRejectOffer c) s
      | Some (DiscardIncomingRealtimeOffer c) \<Rightarrow> run_call subsystem (CallDiscardOffer c) s
      | Some (ConfigureRelay config) \<Rightarrow> run_call subsystem (CallConfigureRelay config) s
      | Some (DisconnectPeer c) \<Rightarrow> run_call subsystem (CallDisconnectPeer (dp_peer_id c)) s
      | Some (RemovePeer c) \<Rightarrow> run_call subsystem (CallRemovePeer (rp_peer_id c)) s
      | Some (SendMessageV2 m) \<Rightarrow>
          (case validate_e2ee_policy (mv_e2ee_policy m) of
             Inl e \<Rightarrow> (Inl e, s)
           | Inr _ \<Rightarrow> run_call subsystem (CallStartSendMessage
               \<lparr>sm_peer_id = mv_peer_id m, sm_channel_id = mv_channel_id m, sm_payload = mv_payload m,
                sm_policy = mv_policy m\<rparr>) s)
      | Some (Transfer t) \<Rightarrow>
          if tc_peer_id t = [] \<or> tc_transfer_id t = []
          then (Inl (protocol_error EcInvalidArgument ''peer_id and transfer_id are required''), s)
          else run_call subsystem (CallTransfer
            \<lparr>nk_command_id = nk_command_id command, nk_protocol_version = NETWORK_PROTOCOL_VERSION,
             nk_payload = Some (SendFile \<lparr>sf_transfer_id = tc_transfer_id t, sf_peer_id = tc_peer_id t,
               sf_file_path = tc_file_path t\<rparr>)\<rparr>) s
      | Some (PeerDiagnostics c) \<Rightarrow> run_call subsystem (CallPeerDiagnostics (pd_peer_id c)) s
      | Some (NetworkEnvironmentChanged environment) \<Rightarrow>
          (case subsystem (CallEnvironmentChanged environment) s of
             (Inl e, s) \<Rightarrow> (Inl e, s)
           | (Inr _, s) \<Rightarrow> (Inr (), snd (subsystem (CallEmitEnvironmentChanged environment) s)))
      | Some DisconnectRelay \<Rightarrow> run_call subsystem CallDisconnectRelay s
      | Some (SshStreamOpen c) \<Rightarrow> run_call subsystem (CallStreamOpen c) s
      | Some (SshStreamData c) \<Rightarrow> run_call subsystem (CallStreamData c) s
      | Some (SshStreamClose c) \<Rightarrow> run_call subsystem (CallStreamClose c) s
      | None \<Rightarrow> (Inl (protocol_error EcInvalidArgument ''network command payload is required''), s))"

text \<open>Decimal formatting of an unsigned integer.\<close>

fun show_nat :: "nat \<Rightarrow> string" where
  "show_nat n = (if n < 10 then [char_of (48 + n)] else show_nat (n div 10) @ [char_of (48 + n mod 10)])"

declare show_nat.simps [simp del]

definition dispatch_command ::
  "'s subsystem \<Rightarrow> network_command \<Rightarrow> 's \<Rightarrow> (network_error + unit) \<times> 's" where
  "dispatch_command subsystem command s =
     (if nk_protocol_version command \<noteq> NETWORK_PROTOCOL_VERSION
      then (Inl (protocol_error EcInvalidArgument
              (''unsupported network protocol version '' @ show_nat (unat (nk_protocol_version command)))), s)
      else if nk_command_id command = [] \<or> length (nk_command_id command) > 128
      then (Inl (protocol_error EcInvalidArgument ''command_id must contain 1-128 characters''), s)
      else dispatch_command_payload subsystem command s)"

section \<open>The terminal result\<close>

type_synonym 'd cmd_event = "(command_result, 'd) network_event"

definition error_peer :: "network_error + unit \<Rightarrow> string option" where
  "error_peer result =
     (case result of
        Inr _ \<Rightarrow> None
      | Inl error \<Rightarrow> if ne_peer_id error \<noteq> [] then Some (ne_peer_id error) else None)"

definition result_state :: "network_error + unit \<Rightarrow> command_result_state" where
  "result_state result =
     (case result of
        Inr _ \<Rightarrow> CmdSucceeded
      | Inl error \<Rightarrow>
          (case error_code_try_from (ne_code error) of
             Some EcCancelled \<Rightarrow> CmdCancelled
           | Some EcStaleOperation \<Rightarrow> CmdCancelled
           | _ \<Rightarrow> CmdFailed))"

definition result_peer :: "string option \<Rightarrow> network_error + unit \<Rightarrow> string" where
  "result_peer command_peer result =
     (case error_peer result of
        Some p \<Rightarrow> p
      | None \<Rightarrow> (case command_peer of Some p \<Rightarrow> p | None \<Rightarrow> []))"

definition result_event ::
  "int \<Rightarrow> string \<Rightarrow> string \<Rightarrow> command_result_state \<Rightarrow> network_error option \<Rightarrow> 'd cmd_event" where
  "result_event now command_id peer_id state error =
     \<lparr>event_id = command_id @ ''/result'', timestamp_ms = now,
      protocol_version = NETWORK_PROTOCOL_VERSION,
      payload = Some (CommandResultV2 \<lparr>cr_command_id = command_id, cr_peer_id = peer_id,
        cr_state = command_result_state_value state, cr_error = error\<rparr>)\<rparr>"

definition oversize_event :: "int \<Rightarrow> string \<Rightarrow> string \<Rightarrow> 'd cmd_event" where
  "oversize_event now command_id peer_id =
     result_event now command_id peer_id CmdFailed
       (Some (protocol_error EcIoError ''command result exceeded native event limit''))"

text \<open>
  \<open>emit_command_result\<close> returns the event it hands to the result lane.  \<open>send_result\<close> refuses an
  event that is too large, and any event once the consumer is gone; otherwise it waits for
  room (\<open>Event_Lanes\<close>) and succeeds.
\<close>

definition offer_result ::
  "('d cmd_event \<Rightarrow> nat) \<Rightarrow> bool \<Rightarrow> 'd cmd_event \<Rightarrow> event_send_error + 'd cmd_event" where
  "offer_result encoded_len gone event =
     (if classify event \<noteq> ResultLane then Inl WrongLane
      else if encoded_len event > MAX_EVENT_BYTES then Inl TooLarge
      else if gone then Inl LaneClosed else Inr event)"

definition emit_command_result ::
  "('d cmd_event \<Rightarrow> nat) \<Rightarrow> bool \<Rightarrow> int \<Rightarrow> string \<Rightarrow> string option \<Rightarrow> network_error + unit
   \<Rightarrow> event_send_error + 'd cmd_event" where
  "emit_command_result encoded_len gone now command_id command_peer result =
     (let peer_id = result_peer command_peer result;
          error = (case result of Inl e \<Rightarrow> Some e | Inr _ \<Rightarrow> None)
      in case offer_result encoded_len gone (result_event now command_id peer_id (result_state result) error) of
           Inl TooLarge \<Rightarrow> offer_result encoded_len gone (oversize_event now command_id peer_id)
         | r \<Rightarrow> r)"

section \<open>The worker\<close>

text \<open>
  One turn of the worker loop.  It returns the event sent, \<open>None\<close> when the loop breaks because
  the result could not be sent, whether the command was dispatched, and the new state.
\<close>

definition worker_turn ::
  "('d cmd_event \<Rightarrow> nat) \<Rightarrow> 's subsystem \<Rightarrow> bool \<Rightarrow> int \<Rightarrow> network_command \<Rightarrow> command_ledger \<Rightarrow> 's
   \<Rightarrow> 'd cmd_event option \<times> bool \<times> command_ledger \<times> 's" where
  "worker_turn encoded_len subsystem gone now command l s =
     (let command_id = nk_command_id command;
          emit = (\<lambda>result. case emit_command_result encoded_len gone now command_id (command_peer_id command) result of
                    Inl _ \<Rightarrow> None | Inr event \<Rightarrow> Some event)
      in case claim command_id l of
           (Inr False, l) \<Rightarrow>
             (emit (Inl (protocol_error EcInvalidArgument ''command_id has already been completed'')), False, l, s)
         | (Inl _, l) \<Rightarrow>
             (emit (Inl (protocol_error EcIoError ''resource limit exceeded: pending command results'')), False, l, s)
         | (Inr True, l) \<Rightarrow>
             (case dispatch_command subsystem command s of
                (result, s) \<Rightarrow>
                  (case emit result of
                     None \<Rightarrow> (None, True, l, s)
                   | Some event \<Rightarrow> (Some event, True, complete command_id l, s))))"

text \<open>
  The whole loop over the commands of the mailbox, each with the time at which its result is
  built: the events sent, the ids of the dispatched commands, the commands left unread when
  the loop breaks, and the final state.
\<close>

fun command_worker ::
  "('d cmd_event \<Rightarrow> nat) \<Rightarrow> 's subsystem \<Rightarrow> bool \<Rightarrow> (int \<times> network_command) list \<Rightarrow> command_ledger \<Rightarrow> 's
   \<Rightarrow> 'd cmd_event list \<times> string list \<times> (int \<times> network_command) list \<times> command_ledger \<times> 's" where
  "command_worker encoded_len subsystem gone [] l s = ([], [], [], l, s)"
| "command_worker encoded_len subsystem gone ((now, command) # rest) l s =
     (case worker_turn encoded_len subsystem gone now command l s of
        (sent, dispatched, l, s) \<Rightarrow>
          (let ids = (if dispatched then [nk_command_id command] else [])
           in case sent of
                None \<Rightarrow> ([], ids, rest, l, s)
              | Some event \<Rightarrow>
                  (case command_worker encoded_len subsystem gone rest l s of
                     (events, later, unread, l, s) \<Rightarrow> (event # events, ids @ later, unread, l, s))))"

section \<open>The completed ids are a bounded window\<close>

definition ledger_ok :: "command_ledger \<Rightarrow> bool" where
  "ledger_ok l \<longleftrightarrow> led_completed l = set (led_order l) \<and> distinct (led_order l)
     \<and> length (led_order l) \<le> MAX_COMPLETED_COMMANDS \<and> led_pending l = {}"

lemma ledger_ok_new: "ledger_ok ledger_new"
  by (simp add: ledger_ok_def ledger_new_def)

lemma forget_completed_drop:
  "distinct ord \<Longrightarrow> forget_completed ord (set ord) =
     (drop (length ord - MAX_COMPLETED_COMMANDS) ord, set (drop (length ord - MAX_COMPLETED_COMMANDS) ord))"
proof (induction ord)
  case (Cons x ord)
  then have "set (x # ord) - {x} = set ord" by auto
  with Cons show ?case by (auto simp: Suc_diff_le)
qed simp

text \<open>Running a claimed command to its end: the claim and the completion together.\<close>

definition settle_id :: "string \<Rightarrow> command_ledger \<Rightarrow> command_ledger" where
  "settle_id i l = complete i (snd (claim i l))"

lemma claim_ok:
  assumes "ledger_ok l"
  shows "claim i l = (if i \<in> set (led_order l) then (Inr False, l)
    else (Inr True, l\<lparr>led_pending := {i}\<rparr>))"
  using assms by (simp add: claim_def ledger_ok_def COMMAND_MAILBOX_CAPACITY_def)

lemma settle_id_fresh:
  assumes ok: "ledger_ok l" and i: "i \<notin> set (led_order l)"
  shows "ledger_ok (settle_id i l)"
    "led_order (settle_id i l) = drop (length (led_order l) + 1 - MAX_COMPLETED_COMMANDS) (led_order l @ [i])"
proof -
  let ?ord = "led_order l @ [i]"
  have d: "distinct ?ord" using ok i by (simp add: ledger_ok_def)
  have "insert i (led_completed l) = set ?ord" "i \<notin> led_completed l" "led_pending l = {}"
    using ok i by (simp_all add: ledger_ok_def)
  then have eq: "settle_id i l = l\<lparr>led_completed := set (drop (length ?ord - MAX_COMPLETED_COMMANDS) ?ord),
      led_order := drop (length ?ord - MAX_COMPLETED_COMMANDS) ?ord\<rparr>"
    using claim_ok [OF ok, of i] i forget_completed_drop [OF d]
    by (simp add: settle_id_def complete_def Let_def)
  show "led_order (settle_id i l) = drop (length (led_order l) + 1 - MAX_COMPLETED_COMMANDS) (led_order l @ [i])"
    by (simp add: eq)
  show "ledger_ok (settle_id i l)"
    using ok distinct_drop [OF d] by (simp add: eq ledger_ok_def del: drop_append distinct_append)
qed

interpretation ledger: fifo_window led_order "\<lambda>l i. i \<in> led_completed l" settle_id
    "\<lambda>_. MAX_COMPLETED_COMMANDS" ledger_ok
proof unfold_locales
  fix l i assume ok: "ledger_ok l"
  show "i \<in> led_completed l \<longleftrightarrow> i \<in> set (led_order l)" using ok by (simp add: ledger_ok_def)
  assume "i \<notin> led_completed l"
  then have "i \<notin> set (led_order l)" using ok by (simp add: ledger_ok_def)
  with settle_id_fresh [OF ok this] show "ledger_ok (settle_id i l)"
    "led_order (settle_id i l) = drop (length (led_order l) + 1 - MAX_COMPLETED_COMMANDS) (led_order l @ [i])"
    by simp_all
qed (simp_all add: ledger_ok_def MAX_COMPLETED_COMMANDS_def)

section \<open>Runs of the worker\<close>

lemma worker_turn_cases:
  assumes ok: "ledger_ok l" and t: "worker_turn encoded_len subsystem gone now command l s = (sent, dispatched, l', s')"
  obtains (duplicate) "\<not> dispatched" "l' = l" "s' = s" "nk_command_id command \<in> set (led_order l)"
  | (executed) event where "dispatched" "sent = Some event" "l' = settle_id (nk_command_id command) l"
      "nk_command_id command \<notin> set (led_order l)"
  | (broken) "dispatched" "sent = None" "nk_command_id command \<notin> set (led_order l)"
proof (cases "nk_command_id command \<in> set (led_order l)")
  case True
  with t claim_ok [OF ok] duplicate show ?thesis by (auto simp: worker_turn_def Let_def)
next
  case False
  define l1 where "l1 = l\<lparr>led_pending := {nk_command_id command}\<rparr>"
  have c: "claim (nk_command_id command) l = (Inr True, l1)"
    using claim_ok [OF ok] False by (simp add: l1_def)
  obtain res s1 where d: "dispatch_command subsystem command s = (res, s1)"
    by (cases "dispatch_command subsystem command s")
  from t [unfolded worker_turn_def Let_def c d] False show ?thesis
    by (auto simp: settle_id_def c intro: executed broken split: sum.splits option.splits)
qed

lemma command_worker_window:
  assumes "ledger_ok l" "command_worker encoded_len subsystem gone cmds l s = (events, ids, unread, l', s')"
    "j < length ids"
  shows "ids ! j \<notin> set (drop (length (led_order l) + j - MAX_COMPLETED_COMMANDS) (led_order l @ take j ids))"
  using assms
proof (induction cmds arbitrary: l s events ids unread l' s' j)
  case (Cons x cmds)
  obtain now command where x: "x = (now, command)" by (cases x)
  let ?i = "nk_command_id command"
  obtain sent dispatched l1 s1 where
    t: "worker_turn encoded_len subsystem gone now command l s = (sent, dispatched, l1, s1)"
    by (cases "worker_turn encoded_len subsystem gone now command l s")
  obtain ev1 ids1 un1 l2 s2 where r: "command_worker encoded_len subsystem gone cmds l1 s1 = (ev1, ids1, un1, l2, s2)"
    by (cases "command_worker encoded_len subsystem gone cmds l1 s1")
  have ids: "ids = (if dispatched then [?i] else []) @ (if sent = None then [] else ids1)"
    using Cons.prems(2) by (auto simp: x t r Let_def split: option.splits)
  have small: "length (led_order l) - MAX_COMPLETED_COMMANDS = 0"
    using Cons.prems(1) by (simp add: ledger_ok_def)
  from Cons.prems(1) t show ?case
  proof (cases rule: worker_turn_cases)
    case duplicate
    with ids Cons.prems(3) have "ids = ids1" by (auto split: if_splits)
    with Cons.IH [OF Cons.prems(1) r [unfolded duplicate], of j] Cons.prems(3) duplicate show ?thesis
      by simp
  next
    case broken
    with ids small Cons.prems(3) show ?thesis by simp
  next
    case (executed event)
    then have ids: "ids = ?i # ids1" using ids by simp
    show ?thesis
    proof (cases j)
      case 0
      with executed ids small show ?thesis by simp
    next
      case (Suc k)
      let ?d = "length (led_order l) + 1 - MAX_COMPLETED_COMMANDS"
      let ?X = "led_order l @ ?i # take k ids1"
      have l1: "ledger_ok l1" "led_order l1 = drop ?d (led_order l @ [?i])"
        using settle_id_fresh [OF Cons.prems(1) executed(4)] executed(3) by simp_all
      have d: "?d \<le> 1" using small by simp
      then have "led_order l1 @ take k ids1 = drop ?d ?X"
        unfolding l1(2) by (simp add: drop_append) (cases ?d; simp add: MAX_COMPLETED_COMMANDS_def)
      moreover have "length (led_order l1) + k - MAX_COMPLETED_COMMANDS + ?d =
          length (led_order l) + j - MAX_COMPLETED_COMMANDS"
        using d small Suc unfolding l1(2) by auto
      ultimately have "ids1 ! k \<notin> set (drop (length (led_order l) + j - MAX_COMPLETED_COMMANDS) ?X)"
        using Cons.IH [OF l1(1) r, of k] Cons.prems(3) Suc by (simp only: ids drop_drop list.size) simp
      then show ?thesis by (simp add: ids Suc del: drop_append)
    qed
  qed
qed simp

lemma run_call_error:
  "run_call subsystem call s = (Inl e, s') \<Longrightarrow> subsystem call s = (Inl e, s')"
  by (auto simp: run_call_def split: prod.splits sum.splits)

lemma protocol_error_peer [simp]: "ne_peer_id (protocol_error code message) = []"
  by (simp add: protocol_error_def)

lemma dispatch_error_peer:
  assumes sub: "\<And>call s e s'. subsystem call s = (Inl e, s') \<Longrightarrow> length (ne_peer_id e) \<le> n"
    and d: "dispatch_command subsystem command s = (Inl e, s')"
  shows "length (ne_peer_id e) \<le> n"
proof -
  have run: "length (ne_peer_id e) \<le> n" if "run_call subsystem call s = (Inl e, s')" for call
    by (rule sub [OF run_call_error [OF that]])
  have v2: "length (ne_peer_id e) \<le> n" if "dispatch_upsert_v2 subsystem c s = (Inl e, s')" for c
    using that sub by (auto simp: dispatch_upsert_v2_def Let_def split: option.splits if_splits prod.splits sum.splits)
  have "length (ne_peer_id e) \<le> n" if "dispatch_command_payload subsystem command s = (Inl e, s')"
  proof (cases "nk_payload command")
    case (Some p)
    with that run v2 sub show ?thesis
      by (cases p) (auto simp: dispatch_command_payload_def validate_e2ee_policy_def
          split: if_splits prod.splits sum.splits option.splits)
  qed (use that in \<open>auto simp: dispatch_command_payload_def\<close>)
  with d show ?thesis by (auto simp: dispatch_command_def split: if_splits)
qed

lemma classify_result_event [simp]: "classify (result_event now i p st err) = ResultLane"
  by (simp add: classify_def result_event_def)

definition event_command_id :: "'d cmd_event \<Rightarrow> string option" where
  "event_command_id event =
     (case payload event of Some (CommandResultV2 r) \<Rightarrow> Some (cr_command_id r) | _ \<Rightarrow> None)"

lemma event_command_id_result [simp]: "event_command_id (result_event now i p st err) = Some i"
  by (simp add: event_command_id_def result_event_def)

lemma emit_command_result_ok:
  assumes "encoded_len (oversize_event now i (result_peer peer result)) \<le> MAX_EVENT_BYTES"
  obtains event where "emit_command_result encoded_len False now i peer result = Inr event"
    "event_command_id event = Some i" "classify event = ResultLane" "encoded_len event \<le> MAX_EVENT_BYTES"
proof (cases "encoded_len (result_event now i (result_peer peer result) (result_state result)
    (case result of Inl e \<Rightarrow> Some e | Inr _ \<Rightarrow> None)) \<le> MAX_EVENT_BYTES")
  case True
  then show ?thesis
    by (intro that [of "result_event now i (result_peer peer result) (result_state result)
          (case result of Inl e \<Rightarrow> Some e | Inr _ \<Rightarrow> None)"])
       (simp_all add: emit_command_result_def offer_result_def Let_def not_less)
next
  case False
  with assms show ?thesis
    by (intro that [of "oversize_event now i (result_peer peer result)"])
       (simp_all add: emit_command_result_def offer_result_def oversize_event_def Let_def)
qed

definition short_command :: "network_command \<Rightarrow> bool" where
  "short_command c \<longleftrightarrow> length (nk_command_id c) \<le> 128
     \<and> (case command_peer_id c of None \<Rightarrow> True | Some p \<Rightarrow> length p \<le> 128)"

lemma worker_turn_sends:
  assumes ok: "ledger_ok l" and c: "short_command command"
    and enc: "\<And>now i p. length i \<le> 128 \<Longrightarrow> length p \<le> 128 \<Longrightarrow>
      encoded_len (oversize_event now i p :: 'd cmd_event) \<le> MAX_EVENT_BYTES"
    and sub: "\<And>call s e s'. subsystem call s = (Inl e, s') \<Longrightarrow> length (ne_peer_id e) \<le> 128"
  obtains event dispatched l' s' where
    "worker_turn encoded_len subsystem False now command l s = (Some (event :: 'd cmd_event), dispatched, l', s')"
    "event_command_id event = Some (nk_command_id command)" "classify event = ResultLane"
    "encoded_len event \<le> MAX_EVENT_BYTES" "ledger_ok l'"
proof -
  let ?i = "nk_command_id command"
  have emit: "\<exists>event. emit_command_result encoded_len False now ?i (command_peer_id command) result = Inr event
      \<and> event_command_id event = Some ?i \<and> classify event = ResultLane \<and> encoded_len event \<le> MAX_EVENT_BYTES"
    if "\<And>e. result = Inl e \<Longrightarrow> length (ne_peer_id e) \<le> 128" for result
  proof (rule emit_command_result_ok [where result = result])
    show "encoded_len (oversize_event now ?i (result_peer (command_peer_id command) result) :: 'd cmd_event) \<le> MAX_EVENT_BYTES"
      using c that by (intro enc) (auto simp: short_command_def result_peer_def error_peer_def split: option.splits sum.splits)
  qed blast
  show ?thesis
  proof (cases "?i \<in> set (led_order l)")
    case True
    with emit [of "Inl (protocol_error EcInvalidArgument ''command_id has already been completed'')"]
    show ?thesis using claim_ok [OF ok, of ?i] True ok that [of _ False l s]
      by (auto simp: worker_turn_def Let_def)
  next
    case False
    obtain res s1 where d: "dispatch_command subsystem command s = (res, s1)"
      by (cases "dispatch_command subsystem command s")
    have "length (ne_peer_id e) \<le> 128" if "res = Inl e" for e
      by (rule dispatch_error_peer [OF sub, where command = command and s = s and s' = s1]) (use d that in simp_all)
    with emit [of res] obtain event where
      "emit_command_result encoded_len False now ?i (command_peer_id command) res = Inr event"
      "event_command_id event = Some ?i" "classify event = ResultLane" "encoded_len event \<le> MAX_EVENT_BYTES" by blast
    with False that [of event True "settle_id ?i l" s1] settle_id_fresh(1) [OF ok False] show ?thesis
      using claim_ok [OF ok, of ?i] by (simp add: worker_turn_def d Let_def settle_id_def)
  qed
qed

section \<open>Properties\<close>

lemma command_worker_answers:
  assumes "ledger_ok l" "list_all (\<lambda>(_, c). short_command c) cmds"
    and enc: "\<And>now i p. length i \<le> 128 \<Longrightarrow> length p \<le> 128 \<Longrightarrow>
      encoded_len (oversize_event now i p :: 'd cmd_event) \<le> MAX_EVENT_BYTES"
    and sub: "\<And>call s e s'. subsystem call s = (Inl e, s') \<Longrightarrow> length (ne_peer_id e) \<le> 128"
    and "command_worker encoded_len subsystem False cmds l s = (events :: 'd cmd_event list, ids, unread, l', s')"
  shows "unread = [] \<and> map event_command_id events = map (\<lambda>(_, c). Some (nk_command_id c)) cmds
    \<and> list_all (\<lambda>e. classify e = ResultLane \<and> encoded_len e \<le> MAX_EVENT_BYTES) events"
  using assms(1,2,5)
proof (induction cmds arbitrary: l s events ids unread l' s')
  case (Cons x cmds)
  obtain now command where x: "x = (now, command)" by (cases x)
  have short: "short_command command" using Cons.prems(2) x by simp
  obtain event d l1 s1 where
    t: "worker_turn encoded_len subsystem False now command l s = (Some event, d, l1, s1)"
      "event_command_id event = Some (nk_command_id command)" "classify event = ResultLane"
      "encoded_len event \<le> MAX_EVENT_BYTES" "ledger_ok l1"
    using Cons.prems(1) short enc sub by (rule worker_turn_sends)
  obtain ev1 ids1 un1 l2 s2 where r: "command_worker encoded_len subsystem False cmds l1 s1 = (ev1, ids1, un1, l2, s2)"
    by (cases "command_worker encoded_len subsystem False cmds l1 s1")
  have "events = event # ev1" "unread = un1" using Cons.prems(3) by (auto simp: x t(1) r Let_def)
  with Cons.IH [OF t(5) _ r] Cons.prems(2) t x show ?case by simp
qed simp

text \<open>
  C13. every command gets exactly one terminal result.  For commands and subsystem errors whose
  ids are within the 128 bytes the interface allows, and as long as the consumer exists, the
  worker reads all its commands and offers, in order, one result event per command, with the
  id of that command, of the result lane and of an admissible size: a repeated id, a refused
  version, an unknown policy or an oversized error included.
\<close>

theorem one_result_per_command:
  assumes "\<And>now i p. length i \<le> 128 \<Longrightarrow> length p \<le> 128 \<Longrightarrow>
      encoded_len (oversize_event now i p :: 'd cmd_event) \<le> MAX_EVENT_BYTES"
    and "\<And>call s e s'. subsystem call s = (Inl e, s') \<Longrightarrow> length (ne_peer_id e) \<le> 128"
    and "list_all (\<lambda>(_, c). short_command c) cmds"
    and "command_worker encoded_len subsystem False cmds ledger_new s =
      (events :: 'd cmd_event list, ids, unread, l', s')"
  shows "unread = [] \<and> map event_command_id events = map (\<lambda>(_, c). Some (nk_command_id c)) cmds
    \<and> list_all (\<lambda>e. classify e = ResultLane \<and> encoded_len e \<le> MAX_EVENT_BYTES) events"
  by (rule command_worker_answers [OF ledger_ok_new assms(3,1,2,4)])

text \<open>
  C26. a command id is executed once.  Whatever the mailbox holds, two commands the worker
  dispatches have different ids unless at least 4096 other commands were dispatched in
  between.
\<close>

theorem command_executed_once:
  assumes run: "command_worker encoded_len subsystem gone cmds ledger_new s = (events, ids, unread, l', s')"
    and ij: "i < j" "j < length ids" "j - i \<le> 4096"
  shows "ids ! i \<noteq> ids ! j"
proof
  assume eq: "ids ! i = ids ! j"
  have "ids ! j \<notin> set (drop (j - MAX_COMPLETED_COMMANDS) (take j ids))"
    using command_worker_window [OF ledger_ok_new run ij(2)] by (simp add: ledger_new_def)
  moreover have "ids ! i = drop (j - MAX_COMPLETED_COMMANDS) (take j ids) ! (i - (j - MAX_COMPLETED_COMMANDS))"
    using ij by (simp add: MAX_COMPLETED_COMMANDS_def)
  moreover have "i - (j - MAX_COMPLETED_COMMANDS) < length (drop (j - MAX_COMPLETED_COMMANDS) (take j ids))"
    using ij by (simp add: MAX_COMPLETED_COMMANDS_def)
  ultimately show False using eq nth_mem by metis
qed

text \<open>
  C39. an oversized peer id stops the worker.  The replacement for a result that is too large
  repeats the peer id of the command; when that id alone, with the command id that the event
  carries twice, exceeds the event limit, the replacement is refused as well and the loop
  breaks: every later command stays unread.
\<close>

theorem oversized_peer_stops_worker:
  assumes enc: "\<And>now i p st err. encoded_len (result_event now i p st err :: 'd cmd_event) \<ge>
      length (i @ ''/result'') + length i + length p"
    and peer: "command_peer_id command = Some p" "error_peer (fst (dispatch_command subsystem command s)) = None"
    and size: "2 * length (nk_command_id command) + 7 + length p > MAX_EVENT_BYTES"
  shows "\<exists>l' s'. command_worker encoded_len subsystem False ((now, command) # rest) ledger_new s =
    ([] :: 'd cmd_event list, [nk_command_id command], rest, l', s')"
proof -
  let ?i = "nk_command_id command"
  obtain res s1 where d: "dispatch_command subsystem command s = (res, s1)"
    by (cases "dispatch_command subsystem command s")
  have "encoded_len (result_event now ?i p st err :: 'd cmd_event) > MAX_EVENT_BYTES" for st err
    using enc [of ?i p now st err] size by simp
  moreover have "result_peer (command_peer_id command) res = p" using peer d by (simp add: result_peer_def)
  ultimately have "emit_command_result encoded_len False now ?i (command_peer_id command) res =
      (Inl TooLarge :: event_send_error + 'd cmd_event)"
    by (simp add: emit_command_result_def offer_result_def oversize_event_def Let_def)
  then show ?thesis
    by (simp add: worker_turn_def claim_ok [OF ledger_ok_new] d Let_def) (simp add: ledger_new_def)
qed

section \<open>Witnesses\<close>

text \<open>A Protobuf-like size: the strings of the event and a constant overhead.\<close>

definition sample_len :: "unit cmd_event \<Rightarrow> nat" where
  "sample_len e = length (event_id e) + (case payload e of
     Some (CommandResultV2 r) \<Rightarrow> length (cr_command_id r) + length (cr_peer_id r)
       + (case cr_error r of None \<Rightarrow> 0 | Some err \<Rightarrow> length (ne_message err) + length (ne_peer_id err)) + 32
   | _ \<Rightarrow> 0)"

definition sample_subsystem :: "nat subsystem" where
  "sample_subsystem call s =
     (case call of
        CallRemovePeer p \<Rightarrow> (Inl (protocol_error EcNoRoute ''unknown peer''), s)
      | _ \<Rightarrow> (Inr None, s + 1))"

definition sample_command :: "string \<Rightarrow> command_payload \<Rightarrow> int \<times> network_command" where
  "sample_command i p = (0, \<lparr>nk_command_id = i, nk_protocol_version = 2, nk_payload = Some p\<rparr>)"

definition sample_mailbox :: "(int \<times> network_command) list" where
  "sample_mailbox = [sample_command ''a'' DisconnectRelay,
     sample_command ''b'' (RemovePeer \<lparr>rp_peer_id = ''p''\<rparr>), sample_command ''a'' DisconnectRelay]"

lemma sample_subsystem_peer:
  "sample_subsystem call s = (Inl e, s') \<Longrightarrow> length (ne_peer_id e) \<le> 128"
  by (cases call) (auto simp: sample_subsystem_def)

lemmas worker_eval = worker_turn_def claim_def complete_def ledger_new_def dispatch_command_def
  dispatch_command_payload_def run_call_def sample_subsystem_def sample_command_def
  NETWORK_PROTOCOL_VERSION_def COMMAND_MAILBOX_CAPACITY_def MAX_COMPLETED_COMMANDS_def Let_def

theorem one_result_per_command_witness:
  "map event_command_id (fst (command_worker sample_len sample_subsystem False sample_mailbox ledger_new 0)) =
     [Some ''a'', Some ''b'', Some ''a'']"
proof -
  obtain events ids unread l' s' where
    r: "command_worker sample_len sample_subsystem False sample_mailbox ledger_new 0 = (events, ids, unread, l', s')"
    by (cases "command_worker sample_len sample_subsystem False sample_mailbox ledger_new 0")
  have "unread = [] \<and> map event_command_id events = map (\<lambda>(_, c). Some (nk_command_id c)) sample_mailbox
    \<and> list_all (\<lambda>e. classify e = ResultLane \<and> sample_len e \<le> MAX_EVENT_BYTES) events"
  proof (rule one_result_per_command [OF _ sample_subsystem_peer _ r])
    show "sample_len (oversize_event now i p) \<le> MAX_EVENT_BYTES" if "length i \<le> 128" "length p \<le> 128" for now i p
      using that by (simp add: sample_len_def oversize_event_def result_event_def protocol_error_def MAX_EVENT_BYTES_def)
  qed (simp_all add: sample_mailbox_def sample_command_def short_command_def command_peer_id_def)
  with r show ?thesis by (simp add: sample_mailbox_def sample_command_def)
qed

theorem command_executed_once_witness:
  "let ids = fst (snd (command_worker sample_len sample_subsystem False sample_mailbox ledger_new 0))
   in length ids = 2 \<and> ids ! 0 \<noteq> ids ! 1"
proof -
  obtain events ids unread l' s' where
    r: "command_worker sample_len sample_subsystem False sample_mailbox ledger_new 0 = (events, ids, unread, l', s')"
    by (cases "command_worker sample_len sample_subsystem False sample_mailbox ledger_new 0")
  have "fst (snd (command_worker sample_len sample_subsystem False sample_mailbox ledger_new 0)) = [''a'', ''b'']"
    by (simp add: sample_mailbox_def worker_eval emit_command_result_def offer_result_def sample_len_def
        result_event_def classify_def MAX_EVENT_BYTES_def result_peer_def error_peer_def command_peer_id_def
        protocol_error_def)
  with r have "length ids = 2" by simp
  with command_executed_once [OF r, of 0 1] r show ?thesis by simp
qed

theorem oversized_peer_stops_worker_witness:
  "\<exists>l' s'. command_worker sample_len sample_subsystem False
     (sample_command (replicate 128 CHR ''i'') (RemovePeer \<lparr>rp_peer_id = replicate 1048320 CHR ''p''\<rparr>) # sample_mailbox)
     ledger_new 0 = ([], [replicate 128 CHR ''i''], sample_mailbox, l', s')"
proof -
  let ?c = "snd (sample_command (replicate 128 CHR ''i'') (RemovePeer \<lparr>rp_peer_id = replicate 1048320 CHR ''p''\<rparr>))"
  have "\<exists>l' s'. command_worker sample_len sample_subsystem False ((0, ?c) # sample_mailbox) ledger_new 0 =
      ([], [nk_command_id ?c], sample_mailbox, l', s')"
  proof (rule oversized_peer_stops_worker [where p = "replicate 1048320 CHR ''p''"])
    show "error_peer (fst (dispatch_command sample_subsystem ?c 0)) = None"
      by (simp add: worker_eval error_peer_def)
  qed (simp_all add: sample_command_def command_peer_id_def sample_len_def result_event_def MAX_EVENT_BYTES_def)
  then show ?thesis by (simp add: sample_command_def)
qed

end
