(* ===== verification/Nat_Candidate.thy ===== *)
theory Nat_Candidate
  imports Containers
begin

text \<open>
  Connectivity candidates (\<open>network-nat/src/candidate.rs\<close>, the payload half of
  \<open>candidate_v2.rs\<close>): the versioned payload with its validation and normal form, the
  qualification of payloads for direct probes, and the queue of pending probes.  Quality
  samples of the legacy candidate are kept as they are stored; its text id, built from the
  formatted endpoint, is not computed here.
\<close>

section \<open>Socket addresses\<close>

datatype socket_addr =
    SocketV4 u32 u16
  | SocketV6 "128 word" u16 u32 u32

fun ip_is_unspecified :: "socket_addr \<Rightarrow> bool" where
  "ip_is_unspecified (SocketV4 ip _) \<longleftrightarrow> ip = 0"
| "ip_is_unspecified (SocketV6 ip _ _ _) \<longleftrightarrow> ip = 0"

fun sa_port :: "socket_addr \<Rightarrow> u16" where
  "sa_port (SocketV4 _ port) = port"
| "sa_port (SocketV6 _ port _ _) = port"

definition is_ascii_graphic :: "char \<Rightarrow> bool" where
  "is_ascii_graphic c \<longleftrightarrow> 33 \<le> (of_char c :: nat) \<and> (of_char c :: nat) \<le> 126"

section \<open>Candidates\<close>

datatype candidate_kind = Lan | PublicIpv6 | ServerReflexive | PortMapped | RelayKind

datatype candidate_transport = TQuic | TTcp | TWebsocket | TUdpDatagram | TRelay

fun transport_order :: "candidate_transport \<Rightarrow> nat" where
  "transport_order TQuic = 0"
| "transport_order TTcp = 1"
| "transport_order TWebsocket = 2"
| "transport_order TUdpDatagram = 3"
| "transport_order TRelay = 4"

fun candidate_kind_order :: "candidate_kind \<Rightarrow> nat" where
  "candidate_kind_order Lan = 0"
| "candidate_kind_order PublicIpv6 = 1"
| "candidate_kind_order ServerReflexive = 2"
| "candidate_kind_order PortMapped = 3"
| "candidate_kind_order RelayKind = 4"

definition CANDIDATE_PAYLOAD_VERSION :: u32 where "CANDIDATE_PAYLOAD_VERSION = 2"
definition MAX_CANDIDATE_PAYLOAD_ENTRIES :: nat where "MAX_CANDIDATE_PAYLOAD_ENTRIES = 32"
definition MAX_CANDIDATE_PAYLOAD_BYTES :: nat where "MAX_CANDIDATE_PAYLOAD_BYTES = 32 * 1024"
definition MAX_CANDIDATE_ID_BYTES :: nat where "MAX_CANDIDATE_ID_BYTES = 128"
definition MAX_INTERFACE_BYTES :: nat where "MAX_INTERFACE_BYTES = 128"
definition MAX_RETIRED_EPOCHS :: nat where "MAX_RETIRED_EPOCHS = 8"

record candidate_payload =
  cv_version :: u32
  cv_candidate_id :: string
  cv_endpoint :: socket_addr
  cv_kind :: candidate_kind
  cv_transports :: "candidate_transport list"
  cv_priority :: u32
  cv_interface :: string
  cv_generation :: u64

datatype candidate_payload_error =
    UnsupportedVersion u32
  | InvalidIdentity
  | InvalidEndpoint
  | MissingTransportCapability
  | DuplicateTransport
  | DuplicateCandidateId
  | InvalidGeneration
  | SrflxTransportMismatch
  | RelayTransportMismatch
  | CandidateSetTooLarge
  | CandidatePayloadTooLarge
  | MalformedEncoding

fun repeats_transport :: "candidate_transport list \<Rightarrow> candidate_transport list \<Rightarrow> bool" where
  "repeats_transport seen [] \<longleftrightarrow> False"
| "repeats_transport seen (t # ts) \<longleftrightarrow> t \<in> set seen \<or> repeats_transport (seen @ [t]) ts"

definition validate_payload :: "candidate_payload \<Rightarrow> candidate_payload_error + unit" where
  "validate_payload c =
     (if cv_version c \<noteq> CANDIDATE_PAYLOAD_VERSION then Inl (UnsupportedVersion (cv_version c))
      else if cv_candidate_id c = [] \<or> length (cv_candidate_id c) > MAX_CANDIDATE_ID_BYTES
           \<or> \<not> list_all is_ascii_graphic (cv_candidate_id c) then Inl InvalidIdentity
      else if cv_interface c = [] \<or> length (cv_interface c) > MAX_INTERFACE_BYTES
           \<or> \<not> list_all is_ascii_graphic (cv_interface c) then Inl InvalidIdentity
      else if ip_is_unspecified (cv_endpoint c) \<or> sa_port (cv_endpoint c) = 0 then Inl InvalidEndpoint
      else if cv_transports c = [] then Inl MissingTransportCapability
      else if repeats_transport [] (cv_transports c) then Inl DuplicateTransport
      else if cv_generation c = 0 then Inl InvalidGeneration
      else if cv_kind c = ServerReflexive
           \<and> list_ex (\<lambda>t. \<not> (t = TQuic \<or> t = TUdpDatagram)) (cv_transports c)
      then Inl SrflxTransportMismatch
      else if cv_kind c = RelayKind
      then (if list_ex (\<lambda>t. t \<noteq> TRelay) (cv_transports c) then Inl RelayTransportMismatch else Inr ())
      else if TRelay \<in> set (cv_transports c) then Inl RelayTransportMismatch
      else Inr ())"

definition normalized :: "candidate_payload \<Rightarrow> candidate_payload_error + candidate_payload" where
  "normalized c =
     (case validate_payload c of
        Inl e \<Rightarrow> Inl e
      | Inr _ \<Rightarrow> Inr (c\<lparr>cv_transports := sort_key transport_order (cv_transports c)\<rparr>))"

definition direct_transports :: "candidate_payload \<Rightarrow> candidate_transport list" where
  "direct_transports c =
     (if cv_kind c = RelayKind then [] else filter (\<lambda>t. t \<noteq> TRelay) (cv_transports c))"

definition is_direct_probe_eligible :: "candidate_payload \<Rightarrow> bool" where
  "is_direct_probe_eligible c \<longleftrightarrow>
     list_ex (\<lambda>t. t = TQuic \<or> t = TTcp \<or> t = TWebsocket \<or> t = TUdpDatagram) (direct_transports c)"

text \<open>
  The JSON text of a candidate is produced and read by a serialization library: \<open>to_vec\<close> and
  \<open>from_slice\<close>.
\<close>

definition encode_payload ::
  "(candidate_payload \<Rightarrow> byte list option) \<Rightarrow> candidate_payload \<Rightarrow> candidate_payload_error + byte list" where
  "encode_payload to_vec c =
     (case normalized c of
        Inl e \<Rightarrow> Inl e
      | Inr n \<Rightarrow>
          (case to_vec n of
             None \<Rightarrow> Inl MalformedEncoding
           | Some encoded \<Rightarrow>
               if length encoded > MAX_CANDIDATE_PAYLOAD_BYTES then Inl CandidatePayloadTooLarge
               else Inr encoded))"

definition decode_payload ::
  "(byte list \<Rightarrow> candidate_payload option) \<Rightarrow> byte list \<Rightarrow> candidate_payload_error + candidate_payload" where
  "decode_payload from_slice bytes =
     (if length bytes > MAX_CANDIDATE_PAYLOAD_BYTES then Inl CandidatePayloadTooLarge
      else case from_slice bytes of
        None \<Rightarrow> Inl MalformedEncoding
      | Some c \<Rightarrow> normalized c)"

section \<open>Direct probes\<close>

record candidate_attempt_key =
  ak_candidate_id :: string
  ak_endpoint :: socket_addr
  ak_generation :: u64

definition attempt_key :: "candidate_payload \<Rightarrow> candidate_attempt_key" where
  "attempt_key c = \<lparr>ak_candidate_id = cv_candidate_id c, ak_endpoint = cv_endpoint c,
     ak_generation = cv_generation c\<rparr>"

record qualified_candidate =
  qc_candidate :: candidate_payload
  qc_transport :: candidate_transport

definition qc_key :: "qualified_candidate \<Rightarrow> candidate_attempt_key" where
  "qc_key q = attempt_key (qc_candidate q)"

fun qualify_direct_probe ::
  "candidate_payload list \<Rightarrow> candidate_payload_error + qualified_candidate list" where
  "qualify_direct_probe [] = Inr []"
| "qualify_direct_probe (c # cs) =
     (case normalized c of
        Inl e \<Rightarrow> Inl e
      | Inr n \<Rightarrow>
          (case qualify_direct_probe cs of
             Inl e \<Rightarrow> Inl e
           | Inr qs \<Rightarrow>
               if cv_kind n = RelayKind then Inr qs
               else Inr (map (\<lambda>t. \<lparr>qc_candidate = n, qc_transport = t\<rparr>) (direct_transports n) @ qs)))"

record direct_probe_queue =
  dq_pending :: "qualified_candidate list"
  dq_started :: "candidate_attempt_key set"

definition direct_probe_queue_new :: direct_probe_queue where
  "direct_probe_queue_new = \<lparr>dq_pending = [], dq_started = {}\<rparr>"

fun enqueue_probes ::
  "candidate_attempt_key set \<Rightarrow> qualified_candidate list \<Rightarrow> qualified_candidate list \<Rightarrow> qualified_candidate list" where
  "enqueue_probes started [] pending = pending"
| "enqueue_probes started (q # qs) pending =
     enqueue_probes started qs
       (if qc_key q \<notin> started \<and> \<not> list_ex (\<lambda>p. qc_key p = qc_key q) pending then pending @ [q] else pending)"

definition reconcile ::
  "candidate_payload list \<Rightarrow> direct_probe_queue \<Rightarrow> (candidate_payload_error + unit) \<times> direct_probe_queue" where
  "reconcile candidates q =
     (case qualify_direct_probe candidates of
        Inl e \<Rightarrow> (Inl e, q)
      | Inr qualified \<Rightarrow>
          (let snapshot_keys = set (map qc_key qualified);
               kept = filter (\<lambda>p. qc_key p \<in> snapshot_keys) (dq_pending q)
           in (Inr (), q\<lparr>dq_pending := enqueue_probes (dq_started q) qualified kept\<rparr>)))"

definition pop_next :: "direct_probe_queue \<Rightarrow> qualified_candidate option \<times> direct_probe_queue" where
  "pop_next q =
     (case dq_pending q of
        [] \<Rightarrow> (None, q)
      | c # rest \<Rightarrow> (Some c, q\<lparr>dq_pending := rest, dq_started := insert (qc_key c) (dq_started q)\<rparr>))"

section \<open>Valid payloads\<close>

lemma repeats_transport_iff: "repeats_transport seen ts \<longleftrightarrow> \<not> distinct ts \<or> set ts \<inter> set seen \<noteq> {}"
  by (induction ts arbitrary: seen) auto

definition payload_ok :: "candidate_payload \<Rightarrow> bool" where
  "payload_ok c \<longleftrightarrow> validate_payload c = Inr ()"

lemma payload_ok_facts:
  assumes "payload_ok c"
  shows "cv_version c = CANDIDATE_PAYLOAD_VERSION"
    "cv_candidate_id c \<noteq> []" "length (cv_candidate_id c) \<le> MAX_CANDIDATE_ID_BYTES"
    "\<not> ip_is_unspecified (cv_endpoint c)" "sa_port (cv_endpoint c) \<noteq> 0"
    "cv_transports c \<noteq> []" "distinct (cv_transports c)" "cv_generation c \<noteq> 0"
    "cv_kind c = ServerReflexive \<Longrightarrow> set (cv_transports c) \<subseteq> {TQuic, TUdpDatagram}"
    "cv_kind c = RelayKind \<Longrightarrow> cv_transports c = [TRelay]"
    "cv_kind c \<noteq> RelayKind \<Longrightarrow> TRelay \<notin> set (cv_transports c)"
proof -
  from assms have v: "validate_payload c = Inr ()" by (simp add: payload_ok_def)
  then show "cv_version c = CANDIDATE_PAYLOAD_VERSION"
    "cv_candidate_id c \<noteq> []" "length (cv_candidate_id c) \<le> MAX_CANDIDATE_ID_BYTES"
    "\<not> ip_is_unspecified (cv_endpoint c)" "sa_port (cv_endpoint c) \<noteq> 0"
    "cv_transports c \<noteq> []" "cv_generation c \<noteq> 0"
    "cv_kind c = ServerReflexive \<Longrightarrow> set (cv_transports c) \<subseteq> {TQuic, TUdpDatagram}"
    "cv_kind c \<noteq> RelayKind \<Longrightarrow> TRelay \<notin> set (cv_transports c)"
    by (auto simp: validate_payload_def list_ex_iff split: if_splits)
  from v show d: "distinct (cv_transports c)"
    by (auto simp: validate_payload_def repeats_transport_iff split: if_splits)
  assume "cv_kind c = RelayKind"
  with v have "cv_transports c \<noteq> []" "set (cv_transports c) \<subseteq> {TRelay}"
    by (auto simp: validate_payload_def list_ex_iff split: if_splits)
  with d show "cv_transports c = [TRelay]"
    by (cases "cv_transports c"; cases "tl (cv_transports c)") auto
qed

lemma validate_transports_cong:
  assumes "set ts = set (cv_transports c)" "distinct ts = distinct (cv_transports c)"
  shows "validate_payload (c\<lparr>cv_transports := ts\<rparr>) = validate_payload c"
proof -
  have "(ts = []) = (cv_transports c = [])" using assms(1) by (metis set_empty)
  then show ?thesis
    using assms by (auto simp: validate_payload_def repeats_transport_iff list_ex_iff)
qed

lemma normalized_ok:
  assumes "normalized c = Inr n"
  shows "payload_ok c" "n = c\<lparr>cv_transports := sort_key transport_order (cv_transports c)\<rparr>"
    "payload_ok n" "sorted (map transport_order (cv_transports n))" "normalized n = Inr n"
proof -
  show c: "payload_ok c" and n: "n = c\<lparr>cv_transports := sort_key transport_order (cv_transports c)\<rparr>"
    using assms by (auto simp: normalized_def payload_ok_def split: sum.splits)
  show ok: "payload_ok n"
    using c validate_transports_cong [of "sort_key transport_order (cv_transports c)" c]
    by (simp add: payload_ok_def n)
  show s: "sorted (map transport_order (cv_transports n))" by (simp add: n)
  then have "sort_key transport_order (cv_transports n) = cv_transports n"
    by (rule sort_key_id_if_sorted)
  with ok show "normalized n = Inr n"
    by (simp add: normalized_def payload_ok_def)
qed


lemma direct_transports_ok:
  "payload_ok c \<Longrightarrow> cv_kind c \<noteq> RelayKind \<Longrightarrow> direct_transports c = cv_transports c"
  using payload_ok_facts(11) [of c] by (auto simp: direct_transports_def intro!: filter_True)

lemma direct_probe_eligible_iff:
  "payload_ok c \<Longrightarrow> is_direct_probe_eligible c \<longleftrightarrow> cv_kind c \<noteq> RelayKind"
proof (cases "cv_kind c = RelayKind")
  case True
  then show ?thesis by (simp add: is_direct_probe_eligible_def direct_transports_def)
next
  case False
  assume ok: "payload_ok c"
  then have "cv_transports c \<noteq> []" "TRelay \<notin> set (cv_transports c)"
    using payload_ok_facts(6,11) [of c] False by blast+
  moreover from this have "hd (cv_transports c) \<in> set (cv_transports c)" "hd (cv_transports c) \<noteq> TRelay"
    by (metis list.set_sel(1))+
  ultimately show ?thesis
    using False direct_transports_ok [OF ok False]
    by (cases "hd (cv_transports c)") (auto simp: is_direct_probe_eligible_def list_ex_iff)
qed

text \<open>A published payload is read back as its normal form, if the JSON library reads what it writes.\<close>

lemma decode_encode_payload:
  assumes "\<And>c bytes. to_vec c = Some bytes \<Longrightarrow> from_slice bytes = Some c" "encode_payload to_vec c = Inr bytes"
  shows "\<exists>n. normalized c = Inr n \<and> decode_payload from_slice bytes = Inr n"
proof -
  from assms(2) obtain n where n: "normalized c = Inr n" "to_vec n = Some bytes"
    "length bytes \<le> MAX_CANDIDATE_PAYLOAD_BYTES"
    by (auto simp: encode_payload_def split: sum.splits option.splits if_splits)
  with assms(1) [OF n(2)] normalized_ok(5) [OF n(1)] show ?thesis
    by (simp add: decode_payload_def)
qed

section \<open>Qualification\<close>

text \<open>
  The reading of \<open>qualify_direct_probe\<close>: all candidates are valid, and the probes are the
  non-relay candidates in order, each once per transport.
\<close>

definition probes_of :: "candidate_payload \<Rightarrow> qualified_candidate list" where
  "probes_of c =
     (let n = c\<lparr>cv_transports := sort_key transport_order (cv_transports c)\<rparr>
      in map (\<lambda>t. \<lparr>qc_candidate = n, qc_transport = t\<rparr>) (cv_transports n))"

lemma qualify_direct_probe_eq:
  "qualify_direct_probe cs = Inr qs \<longleftrightarrow>
     list_all payload_ok cs \<and> qs = concat (map probes_of (filter (\<lambda>c. cv_kind c \<noteq> RelayKind) cs))"
proof (induction cs arbitrary: qs)
  case (Cons c cs)
  show ?case
  proof (cases "normalized c")
    case (Inl e)
    then have "\<not> payload_ok c" by (auto simp: normalized_def payload_ok_def split: sum.splits)
    with Inl show ?thesis by simp
  next
    case (Inr n)
    note n = normalized_ok [OF Inr]
    have "cv_kind n = cv_kind c" by (simp add: n(2))
    moreover from this have "cv_kind c \<noteq> RelayKind \<Longrightarrow> direct_transports n = cv_transports n"
      using direct_transports_ok [OF n(3)] by simp
    moreover have "probes_of c = map (\<lambda>t. \<lparr>qc_candidate = n, qc_transport = t\<rparr>) (cv_transports n)"
      by (simp add: probes_of_def n(2))
    ultimately show ?thesis
      using Cons.IH n(1) Inr by (cases "qualify_direct_probe cs") auto
  qed
qed auto

lemma qualified_member:
  assumes "qualify_direct_probe cs = Inr qs" "q \<in> set qs"
  shows "\<exists>c \<in> set cs. normalized c = Inr (qc_candidate q) \<and> qc_transport q \<in> set (cv_transports (qc_candidate q))
           \<and> cv_kind (qc_candidate q) \<noteq> RelayKind"
proof -
  from assms obtain c where c: "c \<in> set cs" "cv_kind c \<noteq> RelayKind" "payload_ok c" "q \<in> set (probes_of c)"
    by (auto simp: qualify_direct_probe_eq list_all_iff)
  then show ?thesis
    by (intro bexI [of _ c]) (auto simp: probes_of_def Let_def normalized_def payload_ok_def)
qed

text \<open>What a probe must be: a valid candidate in normal form with a direct transport it advertises.\<close>

definition probe_typed :: "qualified_candidate \<Rightarrow> bool" where
  "probe_typed q \<longleftrightarrow>
     (let c = qc_candidate q; t = qc_transport q
      in normalized c = Inr c \<and> cv_kind c \<noteq> RelayKind \<and> t \<noteq> TRelay \<and> t \<in> set (cv_transports c)
         \<and> (cv_kind c = ServerReflexive \<longrightarrow> t \<in> {TQuic, TUdpDatagram})
         \<and> \<not> ip_is_unspecified (cv_endpoint c) \<and> sa_port (cv_endpoint c) \<noteq> 0 \<and> cv_generation c \<noteq> 0)"

lemma qualified_typed:
  assumes "qualify_direct_probe cs = Inr qs" "q \<in> set qs"
  shows "probe_typed q"
proof -
  from qualified_member [OF assms] obtain c where c: "normalized c = Inr (qc_candidate q)"
    "qc_transport q \<in> set (cv_transports (qc_candidate q))" "cv_kind (qc_candidate q) \<noteq> RelayKind" by blast
  note n = normalized_ok [OF c(1)]
  from payload_ok_facts [OF n(3)] c(2,3) n(5) show ?thesis
    by (auto simp: probe_typed_def Let_def)
qed

text \<open>
  C17. Qualification keeps relay paths out of direct probing.  When a candidate set qualifies,
  every candidate of it is valid, and a probe consists of a candidate of the set in normal
  form, with a usable endpoint and a non-zero generation, and of a transport that candidate
  advertises: never the relay transport, and QUIC or UDP datagrams if the address was learned
  from a STUN server.  The probes are the direct candidates in the order given, each with all
  its transports in the canonical order.
\<close>

theorem qualified_probes_typed:
  assumes "qualify_direct_probe cs = Inr qs"
  shows "list_all payload_ok cs \<and> list_all probe_typed qs
    \<and> map (\<lambda>q. (qc_key q, qc_transport q)) qs =
      concat (map (\<lambda>c. map (Pair (attempt_key c)) (sort_key transport_order (cv_transports c)))
        (filter (\<lambda>c. cv_kind c \<noteq> RelayKind) cs))"
proof -
  from assms have qs: "list_all payload_ok cs" "qs = concat (map probes_of (filter (\<lambda>c. cv_kind c \<noteq> RelayKind) cs))"
    by (simp_all add: qualify_direct_probe_eq)
  moreover have "list_all probe_typed qs"
    using qualified_typed [OF assms] by (simp add: list_all_iff)
  moreover have "map (\<lambda>q. (qc_key q, qc_transport q)) (probes_of c)
      = map (Pair (attempt_key c)) (sort_key transport_order (cv_transports c))" for c
    by (simp add: probes_of_def Let_def qc_key_def attempt_key_def)
  ultimately show ?thesis by (simp add: map_concat comp_def)
qed

definition sample_lan :: candidate_payload where
  "sample_lan = \<lparr>cv_version = 2, cv_candidate_id = ''lan'', cv_endpoint = SocketV4 3232235777 4433, cv_kind = Lan,
     cv_transports = [TTcp, TQuic], cv_priority = 100, cv_interface = ''wlan0'', cv_generation = 7\<rparr>"

definition sample_relay :: candidate_payload where
  "sample_relay = \<lparr>cv_version = 2, cv_candidate_id = ''relay'', cv_endpoint = SocketV4 167772161 443, cv_kind = RelayKind,
     cv_transports = [TRelay], cv_priority = 10, cv_interface = ''relay'', cv_generation = 7\<rparr>"

lemmas payload_eval = validate_payload_def normalized_def payload_ok_def direct_transports_def
  CANDIDATE_PAYLOAD_VERSION_def MAX_CANDIDATE_ID_BYTES_def MAX_INTERFACE_BYTES_def is_ascii_graphic_def

lemma sample_normal_forms:
  "normalized sample_lan = Inr (sample_lan\<lparr>cv_transports := [TQuic, TTcp]\<rparr>)"
  "normalized sample_relay = Inr sample_relay"
  by (simp_all add: payload_eval sample_lan_def sample_relay_def)

theorem qualified_probes_typed_witness:
  "\<exists>qs. qualify_direct_probe [sample_lan, sample_relay] = Inr qs \<and> list_all probe_typed qs
     \<and> map qc_transport qs = [TQuic, TTcp]"
proof -
  obtain qs where q: "qualify_direct_probe [sample_lan, sample_relay] = Inr qs"
    by (simp add: sample_normal_forms) (simp add: sample_lan_def sample_relay_def)
  from qualified_probes_typed [OF q] have t: "list_all probe_typed qs"
    and "map snd (map (\<lambda>q. (qc_key q, qc_transport q)) qs) = [TQuic, TTcp]"
    by (auto simp: sample_lan_def sample_relay_def)
  with q show ?thesis by (simp add: comp_def)
qed

section \<open>The probe queue\<close>

datatype probe_event = Reconcile "candidate_payload list" | PopNext

fun probe_step :: "probe_event \<Rightarrow> direct_probe_queue \<Rightarrow> qualified_candidate list \<times> direct_probe_queue" where
  "probe_step (Reconcile cs) q = ([], snd (reconcile cs q))"
| "probe_step PopNext q = (case pop_next q of (c, q') \<Rightarrow> (case c of None \<Rightarrow> [] | Some x \<Rightarrow> [x], q'))"

fun probe_run :: "probe_event list \<Rightarrow> direct_probe_queue \<Rightarrow> qualified_candidate list \<times> direct_probe_queue" where
  "probe_run [] q = ([], q)"
| "probe_run (e # es) q =
     (case probe_step e q of (xs, q') \<Rightarrow> case probe_run es q' of (ys, q'') \<Rightarrow> (xs @ ys, q''))"

definition queue_inv :: "direct_probe_queue \<Rightarrow> bool" where
  "queue_inv q \<longleftrightarrow> distinct (map qc_key (dq_pending q)) \<and> set (map qc_key (dq_pending q)) \<inter> dq_started q = {}"

lemma enqueue_probes_inv:
  "distinct (map qc_key pending) \<Longrightarrow> set (map qc_key pending) \<inter> started = {} \<Longrightarrow>
     distinct (map qc_key (enqueue_probes started qs pending))
     \<and> set (map qc_key (enqueue_probes started qs pending)) \<inter> started = {}"
proof (induction qs arbitrary: pending)
  case (Cons q qs)
  let ?p = "if qc_key q \<notin> started \<and> \<not> list_ex (\<lambda>p. qc_key p = qc_key q) pending then pending @ [q] else pending"
  have "distinct (map qc_key ?p)" "set (map qc_key ?p) \<inter> started = {}"
    using Cons.prems by (auto simp: list_ex_iff)
  from Cons.IH [OF this] show ?case by simp
qed auto

lemma reconcile_inv: "queue_inv q \<Longrightarrow> queue_inv (snd (reconcile cs q))"
proof (cases "qualify_direct_probe cs")
  case (Inr qs)
  assume inv: "queue_inv q"
  define kept where "kept = filter (\<lambda>p. qc_key p \<in> set (map qc_key qs)) (dq_pending q)"
  have "distinct (map qc_key kept)" "set (map qc_key kept) \<inter> dq_started q = {}"
    using inv by (auto simp: queue_inv_def kept_def distinct_map_filter)
  note k = enqueue_probes_inv [OF this, of qs]
  have "snd (reconcile cs q) = q\<lparr>dq_pending := enqueue_probes (dq_started q) qs kept\<rparr>"
    by (simp add: reconcile_def Inr kept_def)
  with k show ?thesis by (simp add: queue_inv_def)
qed (simp add: reconcile_def)

lemma probe_step_inv: "queue_inv q \<Longrightarrow> queue_inv (snd (probe_step e q))"
proof (cases e)
  case PopNext
  assume "queue_inv q"
  with PopNext show ?thesis by (cases "dq_pending q") (auto simp: pop_next_def queue_inv_def)
qed (simp add: reconcile_inv)

interpretation probes: invariant_system "\<lambda>e q. snd (probe_step e q)" queue_inv
  by unfold_locales (rule probe_step_inv)

lemma probe_step_started:
  "queue_inv q \<Longrightarrow> probe_step e q = (xs, q') \<Longrightarrow>
     dq_started q' = dq_started q \<union> qc_key ` set xs \<and> qc_key ` set xs \<inter> dq_started q = {} \<and> distinct (map qc_key xs)"
  by (cases e) (auto simp: reconcile_def pop_next_def queue_inv_def Let_def split: sum.splits list.splits prod.splits)

text \<open>
  A direct probe is started at most once.  Whatever candidate snapshots are reconciled
  into the queue and whenever probes are taken from it, no two probes taken from it have the
  same candidate id, endpoint and generation.
\<close>

theorem probes_never_repeated:
  "distinct (map qc_key (fst (probe_run es direct_probe_queue_new)))"
proof -
  have "distinct (map qc_key (fst (probe_run es q))) \<and> qc_key ` set (fst (probe_run es q)) \<inter> dq_started q = {}"
    if "queue_inv q" for q
    using that
  proof (induction es arbitrary: q)
    case (Cons e es)
    obtain xs q' where e: "probe_step e q = (xs, q')" by (cases "probe_step e q")
    obtain ys q'' where r: "probe_run es q' = (ys, q'')" by (cases "probe_run es q'")
    have "queue_inv q'" using probes.step_inv [OF Cons.prems, of e] by (simp add: e)
    with Cons.IH r have "distinct (map qc_key ys)" "qc_key ` set ys \<inter> dq_started q' = {}" by fastforce+
    with probe_step_started [OF Cons.prems e] show ?case
      by (auto simp: e r)
  qed simp
  then show ?thesis by (auto simp: queue_inv_def direct_probe_queue_new_def)
qed

text \<open>
  The queue identifies a probe by its candidate and not by its transport: of the probes
  qualification produces for one candidate only the first is queued.
\<close>

lemma reconcile_first_transport_only:
  assumes "payload_ok c" "cv_kind c \<noteq> RelayKind"
  shows "dq_pending (snd (reconcile [c] direct_probe_queue_new)) = [hd (probes_of c)]"
proof -
  obtain p ps where ps: "probes_of c = p # ps" "\<forall>x \<in> set ps. qc_key x = qc_key p"
    using payload_ok_facts(6) [OF assms(1)]
    by (cases "sort_key transport_order (cv_transports c)")
      (auto simp: probes_of_def qc_key_def Let_def simp flip: set_empty)
  have "qualify_direct_probe [c] = Inr (p # ps)"
    using assms by (simp only: qualify_direct_probe_eq) (simp add: ps)
  moreover have "enqueue_probes {} ps [p] = [p]"
    using ps(2) by (induction ps) auto
  ultimately show ?thesis
    by (simp add: reconcile_def direct_probe_queue_new_def ps)
qed

end
