(* ===== verification/Nat_Cache.thy ===== *)
theory Nat_Cache
  imports Nat_Candidate "HOL-Library.List_Lexorder"
begin

text \<open>
  The cache of a remote peer's candidates (\<open>network-nat/src/candidate_v2.rs\<close>, from
  \<open>CandidateFingerprint\<close> on): the order-independent fingerprint of a candidate set, the
  normal form of a resolved snapshot, and the cache with its epoch fence.  The size of the
  JSON text of a snapshot is an argument (\<open>to_vec\<close>); which retired epoch a full hash set
  gives up is decided by \<open>pick\<close>; instants and durations count nanoseconds.
\<close>

section \<open>Fingerprints\<close>

record runtime_epoch =
  re_high :: u64
  re_low :: u64

record fingerprint_entry =
  fe_candidate_id :: string
  fe_endpoint :: socket_addr
  fe_kind :: candidate_kind
  fe_transports :: "candidate_transport list"
  fe_priority :: u32
  fe_interface :: string
  fe_generation :: u64

type_synonym fingerprint = "fingerprint_entry list"

definition fingerprint_entry_of :: "candidate_payload \<Rightarrow> fingerprint_entry" where
  "fingerprint_entry_of c = \<lparr>fe_candidate_id = cv_candidate_id c, fe_endpoint = cv_endpoint c, fe_kind = cv_kind c,
     fe_transports = cv_transports c, fe_priority = cv_priority c, fe_interface = cv_interface c,
     fe_generation = cv_generation c\<rparr>"

text \<open>
  Comparisons of the source chain the comparison of fields: they are comparisons of key
  lists, whose entries are compared lexicographically.  Addresses compare IPv4 before IPv6,
  then address, port, flow information and scope; strings compare byte by byte.
\<close>

fun addr_key :: "socket_addr \<Rightarrow> nat list" where
  "addr_key (SocketV4 ip port) = [0, unat ip, unat port]"
| "addr_key (SocketV6 ip port flowinfo scope_id) = [1, unat ip, unat port, unat flowinfo, unat scope_id]"

definition text_key :: "string \<Rightarrow> nat list" where
  "text_key s = map of_char s"

definition entry_key :: "fingerprint_entry \<Rightarrow> nat list list" where
  "entry_key e = [text_key (fe_candidate_id e), addr_key (fe_endpoint e), [candidate_kind_order (fe_kind e)],
     map transport_order (fe_transports e), [unat (fe_priority e)], text_key (fe_interface e),
     [unat (fe_generation e)]]"

fun fingerprint_entries ::
  "candidate_payload list \<Rightarrow> candidate_payload_error + fingerprint_entry list" where
  "fingerprint_entries [] = Inr []"
| "fingerprint_entries (c # cs) =
     (case normalized c of
        Inl e \<Rightarrow> Inl e
      | Inr n \<Rightarrow>
          (case fingerprint_entries cs of
             Inl e \<Rightarrow> Inl e
           | Inr es \<Rightarrow> Inr (fingerprint_entry_of n # es)))"

definition from_candidates :: "candidate_payload list \<Rightarrow> candidate_payload_error + fingerprint" where
  "from_candidates candidates =
     (case fingerprint_entries candidates of
        Inl e \<Rightarrow> Inl e
      | Inr entries \<Rightarrow> Inr (remdups_adj (sort_key entry_key entries)))"

section \<open>Snapshots\<close>

record resolved_snapshot =
  sn_runtime_epoch :: runtime_epoch
  sn_revision :: u64
  sn_candidates :: "candidate_payload list"
  sn_server_presence_ttl :: "nat option"

definition DEFAULT_REMOTE_CANDIDATE_CACHE_TTL :: nat where
  "DEFAULT_REMOTE_CANDIDATE_CACHE_TTL = 60 * 10 ^ 9"

fun normalize_all :: "candidate_payload list \<Rightarrow> candidate_payload_error + candidate_payload list" where
  "normalize_all [] = Inr []"
| "normalize_all (c # cs) =
     (case normalized c of
        Inl e \<Rightarrow> Inl e
      | Inr n \<Rightarrow> (case normalize_all cs of Inl e \<Rightarrow> Inl e | Inr ns \<Rightarrow> Inr (n # ns)))"

definition snapshot_order :: "candidate_payload \<Rightarrow> nat list list" where
  "snapshot_order c = [addr_key (cv_endpoint c), [candidate_kind_order (cv_kind c)], text_key (cv_candidate_id c)]"

definition snapshot_normalized ::
  "(candidate_payload list \<Rightarrow> byte list option) \<Rightarrow> resolved_snapshot \<Rightarrow> candidate_payload_error + resolved_snapshot" where
  "snapshot_normalized to_vec sn =
     (if length (sn_candidates sn) > MAX_CANDIDATE_PAYLOAD_ENTRIES then Inl CandidateSetTooLarge
      else case normalize_all (sn_candidates sn) of
        Inl e \<Rightarrow> Inl e
      | Inr candidates \<Rightarrow>
          if \<not> distinct (map cv_candidate_id candidates) then Inl DuplicateCandidateId
          else (case to_vec candidates of
                  None \<Rightarrow> Inl CandidatePayloadTooLarge
                | Some encoded \<Rightarrow>
                    if length encoded > MAX_CANDIDATE_PAYLOAD_BYTES then Inl CandidatePayloadTooLarge
                    else Inr (sn\<lparr>sn_candidates := sort_key snapshot_order candidates\<rparr>)))"

definition snapshot_ttl :: "resolved_snapshot \<Rightarrow> nat" where
  "snapshot_ttl sn =
     (case sn_server_presence_ttl sn of
        None \<Rightarrow> DEFAULT_REMOTE_CANDIDATE_CACHE_TTL
      | Some ttl \<Rightarrow> if ttl = 0 then DEFAULT_REMOTE_CANDIDATE_CACHE_TTL else ttl)"

section \<open>The cache\<close>

datatype cache_update = Replaced | Refreshed | IgnoredStale

datatype candidate_cache_error =
    InvalidSnapshot candidate_payload_error
  | SameRevisionDifferentFingerprint

record candidate_cache =
  cc_runtime_epoch :: runtime_epoch
  cc_revision :: u64
  cc_candidates :: "candidate_payload list"
  cc_fingerprint :: fingerprint
  cc_learned_at :: nat
  cc_ttl :: nat
  cc_retired_epochs :: "runtime_epoch list"
  cc_expected_epoch :: "runtime_epoch option"

definition from_snapshot ::
  "(candidate_payload list \<Rightarrow> byte list option) \<Rightarrow> resolved_snapshot \<Rightarrow> nat \<Rightarrow> candidate_cache_error + candidate_cache" where
  "from_snapshot to_vec sn learned_at =
     (case snapshot_normalized to_vec sn of
        Inl e \<Rightarrow> Inl (InvalidSnapshot e)
      | Inr sn \<Rightarrow>
          (case from_candidates (sn_candidates sn) of
             Inl e \<Rightarrow> Inl (InvalidSnapshot e)
           | Inr fp \<Rightarrow> Inr \<lparr>cc_runtime_epoch = sn_runtime_epoch sn, cc_revision = sn_revision sn,
               cc_candidates = sn_candidates sn, cc_fingerprint = fp, cc_learned_at = learned_at,
               cc_ttl = snapshot_ttl sn, cc_retired_epochs = [], cc_expected_epoch = None\<rparr>))"

definition age_at :: "nat \<Rightarrow> candidate_cache \<Rightarrow> nat" where
  "age_at now c = now - cc_learned_at c"

definition is_fresh_at :: "nat \<Rightarrow> candidate_cache \<Rightarrow> bool" where
  "is_fresh_at now c \<longleftrightarrow> cc_candidates c \<noteq> [] \<and> age_at now c \<le> cc_ttl c"

definition stage_a_candidates_at :: "nat \<Rightarrow> candidate_cache \<Rightarrow> candidate_payload list option" where
  "stage_a_candidates_at now c = (if is_fresh_at now c then Some (cc_candidates c) else None)"

definition retire_epoch ::
  "(runtime_epoch list \<Rightarrow> nat) \<Rightarrow> runtime_epoch \<Rightarrow> candidate_cache \<Rightarrow> candidate_cache" where
  "retire_epoch pick epoch c =
     (let retired = cc_retired_epochs c;
          kept = (if length retired \<ge> MAX_RETIRED_EPOCHS \<and> epoch \<notin> set retired
                  then removeAll (retired ! (pick retired mod length retired)) retired else retired)
      in c\<lparr>cc_retired_epochs := List.insert epoch kept\<rparr>)"

definition settle_expected ::
  "(runtime_epoch list \<Rightarrow> nat) \<Rightarrow> runtime_epoch \<Rightarrow> candidate_cache \<Rightarrow> candidate_cache" where
  "settle_expected pick epoch c =
     (case cc_expected_epoch c of
        None \<Rightarrow> c
      | Some expected_epoch \<Rightarrow>
          if epoch = expected_epoch then c\<lparr>cc_expected_epoch := None\<rparr>
          else (retire_epoch pick expected_epoch c)\<lparr>cc_expected_epoch := None\<rparr>)"

definition replace_snapshot ::
  "(runtime_epoch list \<Rightarrow> nat) \<Rightarrow> resolved_snapshot \<Rightarrow> fingerprint \<Rightarrow> nat \<Rightarrow> candidate_cache \<Rightarrow> candidate_cache" where
  "replace_snapshot pick sn fp learned_at c =
     (retire_epoch pick (cc_runtime_epoch c) c)
       \<lparr>cc_runtime_epoch := sn_runtime_epoch sn, cc_revision := sn_revision sn,
        cc_candidates := sn_candidates sn, cc_fingerprint := fp,
        cc_learned_at := max (cc_learned_at c) learned_at, cc_ttl := snapshot_ttl sn\<rparr>"

definition apply_snapshot ::
  "(candidate_payload list \<Rightarrow> byte list option) \<Rightarrow> (runtime_epoch list \<Rightarrow> nat) \<Rightarrow> resolved_snapshot \<Rightarrow> nat
   \<Rightarrow> candidate_cache \<Rightarrow> (candidate_cache_error + cache_update) \<times> candidate_cache" where
  "apply_snapshot to_vec pick sn learned_at c =
     (case snapshot_normalized to_vec sn of
        Inl e \<Rightarrow> (Inl (InvalidSnapshot e), c)
      | Inr sn \<Rightarrow>
          (case from_candidates (sn_candidates sn) of
             Inl e \<Rightarrow> (Inl (InvalidSnapshot e), c)
           | Inr fp \<Rightarrow>
               if sn_runtime_epoch sn \<in> set (cc_retired_epochs c) then (Inr IgnoredStale, c)
               else
                 (let c = settle_expected pick (sn_runtime_epoch sn) c
                  in if sn_runtime_epoch sn = cc_runtime_epoch c then
                       (if sn_revision sn < cc_revision c then (Inr IgnoredStale, c)
                        else if sn_revision sn = cc_revision c then
                          (if fp \<noteq> cc_fingerprint c then (Inl SameRevisionDifferentFingerprint, c)
                           else (Inr Refreshed, c\<lparr>cc_ttl := snapshot_ttl sn,
                                   cc_learned_at := max (cc_learned_at c) learned_at\<rparr>))
                        else (Inr Replaced, replace_snapshot pick sn fp learned_at c))
                     else (Inr Replaced, replace_snapshot pick sn fp learned_at c))))"

definition invalidate_for_remote_epoch ::
  "(runtime_epoch list \<Rightarrow> nat) \<Rightarrow> runtime_epoch \<Rightarrow> nat \<Rightarrow> candidate_cache \<Rightarrow> bool \<times> candidate_cache" where
  "invalidate_for_remote_epoch pick remote_epoch now c =
     (if remote_epoch = cc_runtime_epoch c then (False, c)
      else (True, (retire_epoch pick (cc_runtime_epoch c) c)
        \<lparr>cc_expected_epoch := Some remote_epoch, cc_candidates := [], cc_fingerprint := [],
         cc_learned_at := (if cc_ttl c + 1 \<le> now then now - (cc_ttl c + 1) else now)\<rparr>))"

section \<open>Equal fingerprints\<close>

lemma addr_key_inject: "addr_key a = addr_key b \<longleftrightarrow> a = b"
  by (cases a; cases b) (auto simp: word_unat_eq_iff)

lemma text_key_inject: "text_key s = text_key t \<longleftrightarrow> s = t"
  by (simp add: text_key_def inj_map_eq_map [OF inj_of_char])

lemma kind_order_inject: "candidate_kind_order k = candidate_kind_order l \<longleftrightarrow> k = l"
  by (cases k; cases l) auto

lemma transport_order_inject: "transport_order t = transport_order u \<longleftrightarrow> t = u"
  by (cases t; cases u) auto

lemma inj_entry_key: "inj entry_key"
proof (rule injI)
  have inj: "inj transport_order" by (simp add: inj_def transport_order_inject)
  fix d e assume "entry_key d = entry_key e"
  then show "d = e"
    by (simp add: entry_key_def addr_key_inject text_key_inject kind_order_inject inj_map_eq_map [OF inj]
        word_unat_eq_iff)
qed

lemma distinct_remdups_adj_sorted: "sorted xs \<Longrightarrow> distinct (remdups_adj xs)"
  by (induction xs rule: remdups_adj.induct) (auto dest: order_antisym)

lemma canonical_list_iff:
  assumes "inj k"
  shows "remdups_adj (sort_key k xs) = remdups_adj (sort_key k ys) \<longleftrightarrow> set xs = set ys"
proof
  assume "remdups_adj (sort_key k xs) = remdups_adj (sort_key k ys)"
  from arg_cong [OF this, of set] show "set xs = set ys" by simp
next
  assume eq: "set xs = set ys"
  have s: "map k (remdups_adj (sort_key k zs)) = remdups_adj (map k (sort_key k zs))" for zs
    using assms by (simp add: remdups_adj_map_injective)
  have "map k (remdups_adj (sort_key k xs)) = map k (remdups_adj (sort_key k ys))"
    unfolding s by (rule sorted_distinct_set_unique) (simp_all add: distinct_remdups_adj_sorted sorted_remdups_adj eq)
  then show "remdups_adj (sort_key k xs) = remdups_adj (sort_key k ys)"
    by (simp add: inj_map_eq_map [OF assms])
qed

definition normal_forms :: "candidate_payload list \<Rightarrow> candidate_payload set" where
  "normal_forms cs = {n. \<exists>c \<in> set cs. normalized c = Inr n}"

lemma fingerprint_entries_set:
  "fingerprint_entries cs = Inr es \<Longrightarrow> set es = fingerprint_entry_of ` normal_forms cs"
proof (induction cs arbitrary: es)
  case (Cons c cs)
  from Cons.prems obtain n es' where n: "normalized c = Inr n" "fingerprint_entries cs = Inr es'"
    "es = fingerprint_entry_of n # es'"
    by (auto split: sum.splits)
  have "normal_forms (c # cs) = insert n (normal_forms cs)"
    using n(1) by (auto simp: normal_forms_def)
  with Cons.IH n show ?case by simp
qed (simp add: normal_forms_def)

lemma entry_of_inject:
  "payload_ok c \<Longrightarrow> payload_ok d \<Longrightarrow> fingerprint_entry_of c = fingerprint_entry_of d \<longleftrightarrow> c = d"
  using payload_ok_facts(1) [of c] payload_ok_facts(1) [of d]
  by (auto simp: fingerprint_entry_of_def)

text \<open>
  A fingerprint identifies the candidate set and nothing else.  Two candidate lists have
  the same fingerprint exactly if they contain the same candidates up to the order of the
  transports of a candidate: neither the order nor repetitions of the list matter, and no
  other difference is lost.
\<close>

theorem fingerprint_identifies_candidates:
  assumes "from_candidates cs = Inr f" "from_candidates ds = Inr g"
  shows "f = g \<longleftrightarrow> normal_forms cs = normal_forms ds"
proof -
  obtain es hs where e: "fingerprint_entries cs = Inr es" "f = remdups_adj (sort_key entry_key es)"
    "fingerprint_entries ds = Inr hs" "g = remdups_adj (sort_key entry_key hs)"
    using assms by (auto simp: from_candidates_def split: sum.splits)
  have ok: "payload_ok x" if "x \<in> normal_forms xs" for x xs
    using that normalized_ok(3) by (auto simp: normal_forms_def)
  have "inj_on fingerprint_entry_of (normal_forms cs \<union> normal_forms ds)"
    using ok entry_of_inject by (intro inj_onI) blast
  then have "fingerprint_entry_of ` normal_forms cs = fingerprint_entry_of ` normal_forms ds
      \<longleftrightarrow> normal_forms cs = normal_forms ds"
    by (rule inj_on_image_eq_iff) auto
  with e fingerprint_entries_set show ?thesis
    by (simp add: canonical_list_iff [OF inj_entry_key])
qed

theorem fingerprint_identifies_candidates_witness:
  "\<exists>f. from_candidates [sample_lan, sample_relay] = Inr f \<and> from_candidates [sample_relay, sample_lan, sample_lan] = Inr f"
proof -
  obtain f g where fg: "from_candidates [sample_lan, sample_relay] = Inr f"
    "from_candidates [sample_relay, sample_lan, sample_lan] = Inr g"
    by (simp add: from_candidates_def sample_normal_forms)
  have "normal_forms [sample_lan, sample_relay] = normal_forms [sample_relay, sample_lan, sample_lan]"
    by (auto simp: normal_forms_def)
  with fingerprint_identifies_candidates [OF fg] fg show ?thesis by simp
qed

section \<open>Runs of the cache\<close>

datatype cache_event =
    ApplySnapshot resolved_snapshot nat
  | EpochHint runtime_epoch nat

fun cache_step ::
  "(candidate_payload list \<Rightarrow> byte list option) \<Rightarrow> (runtime_epoch list \<Rightarrow> nat) \<Rightarrow> cache_event
   \<Rightarrow> candidate_cache \<Rightarrow> candidate_cache" where
  "cache_step to_vec pick (ApplySnapshot sn learned_at) c = snd (apply_snapshot to_vec pick sn learned_at c)"
| "cache_step to_vec pick (EpochHint epoch now) c = snd (invalidate_for_remote_epoch pick epoch now c)"

fun event_epoch :: "cache_event \<Rightarrow> runtime_epoch" where
  "event_epoch (ApplySnapshot sn _) = sn_runtime_epoch sn"
| "event_epoch (EpochHint epoch _) = epoch"

fun event_snapshots :: "cache_event \<Rightarrow> resolved_snapshot list" where
  "event_snapshots (ApplySnapshot sn _) = [sn]"
| "event_snapshots (EpochHint _ _) = []"

text \<open>The fields an operation may change besides the snapshot of the cache: the epoch fence.\<close>

definition same_snapshot :: "candidate_cache \<Rightarrow> candidate_cache \<Rightarrow> bool" where
  "same_snapshot c d \<longleftrightarrow> cc_runtime_epoch d = cc_runtime_epoch c \<and> cc_revision d = cc_revision c
     \<and> cc_candidates d = cc_candidates c \<and> cc_fingerprint d = cc_fingerprint c"

lemma retire_epoch_fields [simp]:
  "cc_runtime_epoch (retire_epoch pick e c) = cc_runtime_epoch c"
  "cc_revision (retire_epoch pick e c) = cc_revision c"
  "cc_candidates (retire_epoch pick e c) = cc_candidates c"
  "cc_fingerprint (retire_epoch pick e c) = cc_fingerprint c"
  "cc_learned_at (retire_epoch pick e c) = cc_learned_at c"
  "cc_ttl (retire_epoch pick e c) = cc_ttl c"
  "cc_expected_epoch (retire_epoch pick e c) = cc_expected_epoch c"
  by (simp_all add: retire_epoch_def Let_def)

lemma retired_after_retire: "e \<in> set (cc_retired_epochs (retire_epoch pick e c))"
  by (simp add: retire_epoch_def Let_def)

lemma settle_expected_fields [simp]:
  "cc_runtime_epoch (settle_expected pick e c) = cc_runtime_epoch c"
  "cc_revision (settle_expected pick e c) = cc_revision c"
  "cc_candidates (settle_expected pick e c) = cc_candidates c"
  "cc_fingerprint (settle_expected pick e c) = cc_fingerprint c"
  "cc_learned_at (settle_expected pick e c) = cc_learned_at c"
  "cc_ttl (settle_expected pick e c) = cc_ttl c"
  by (simp_all add: settle_expected_def split: option.splits)

lemma snapshot_normalized_facts:
  assumes "snapshot_normalized to_vec sn = Inr sn'"
  shows "sn_runtime_epoch sn' = sn_runtime_epoch sn" "sn_revision sn' = sn_revision sn"
    "snapshot_ttl sn' = snapshot_ttl sn"
  using assms by (auto simp: snapshot_normalized_def snapshot_ttl_def split: if_splits sum.splits option.splits)

lemma apply_cases:
  assumes "apply_snapshot to_vec pick sn learned_at c = (r, d)"
  obtains
    (kept) "same_snapshot c d" "r \<noteq> Inr Replaced" "r \<noteq> Inr Refreshed"
      "d = c \<or> d = settle_expected pick (sn_runtime_epoch sn) c"
      "cc_ttl d = cc_ttl c" "cc_learned_at d = cc_learned_at c"
  | (refreshed) "r = Inr Refreshed" "same_snapshot c d" "cc_ttl d = snapshot_ttl sn"
      "cc_learned_at d = max (cc_learned_at c) learned_at" "sn_runtime_epoch sn = cc_runtime_epoch c"
      "sn_revision sn = cc_revision c"
      "cc_retired_epochs d = cc_retired_epochs (settle_expected pick (sn_runtime_epoch sn) c)"
  | (replaced) sn' fp where "r = Inr Replaced" "snapshot_normalized to_vec sn = Inr sn'"
      "from_candidates (sn_candidates sn') = Inr fp"
      "sn_runtime_epoch sn \<notin> set (cc_retired_epochs c)"
      "sn_runtime_epoch sn = cc_runtime_epoch c \<longrightarrow> cc_revision c < sn_revision sn"
      "d = replace_snapshot pick sn' fp learned_at (settle_expected pick (sn_runtime_epoch sn) c)"
proof (cases "snapshot_normalized to_vec sn")
  case (Inl e)
  with assms show ?thesis by (intro kept) (auto simp: apply_snapshot_def same_snapshot_def)
next
  case (Inr sn')
  note f = snapshot_normalized_facts [OF Inr]
  show ?thesis
  proof (cases "from_candidates (sn_candidates sn')")
    case (Inl e)
    with Inr assms show ?thesis by (intro kept) (auto simp: apply_snapshot_def same_snapshot_def)
  next
    case fp: (Inr fp)
    let ?c = "settle_expected pick (sn_runtime_epoch sn) c"
    have a: "apply_snapshot to_vec pick sn learned_at c =
      (if sn_runtime_epoch sn \<in> set (cc_retired_epochs c) then (Inr IgnoredStale, c)
       else if sn_runtime_epoch sn = cc_runtime_epoch c then
         (if sn_revision sn < cc_revision c then (Inr IgnoredStale, ?c)
          else if sn_revision sn = cc_revision c then
            (if fp \<noteq> cc_fingerprint c then (Inl SameRevisionDifferentFingerprint, ?c)
             else (Inr Refreshed, ?c\<lparr>cc_ttl := snapshot_ttl sn, cc_learned_at := max (cc_learned_at c) learned_at\<rparr>))
          else (Inr Replaced, replace_snapshot pick sn' fp learned_at ?c))
       else (Inr Replaced, replace_snapshot pick sn' fp learned_at ?c))"
      by (simp add: apply_snapshot_def Inr fp f Let_def)
    consider "sn_runtime_epoch sn \<in> set (cc_retired_epochs c)
        \<or> sn_runtime_epoch sn = cc_runtime_epoch c \<and> sn_revision sn < cc_revision c
        \<or> sn_runtime_epoch sn = cc_runtime_epoch c \<and> sn_revision sn = cc_revision c \<and> fp \<noteq> cc_fingerprint c"
      | "sn_runtime_epoch sn \<notin> set (cc_retired_epochs c)" "sn_runtime_epoch sn = cc_runtime_epoch c"
        "sn_revision sn = cc_revision c" "fp = cc_fingerprint c"
      | "sn_runtime_epoch sn \<notin> set (cc_retired_epochs c)"
        "sn_runtime_epoch sn = cc_runtime_epoch c \<longrightarrow> cc_revision c < sn_revision sn"
      by (metis linorder_neqE)
    then show ?thesis
    proof cases
      case 1
      with assms a show ?thesis by (intro kept) (auto simp: same_snapshot_def split: if_splits)
    next
      case 2
      with assms a show ?thesis by (intro refreshed) (auto simp: same_snapshot_def)
    next
      case 3
      then have "apply_snapshot to_vec pick sn learned_at c = (Inr Replaced, replace_snapshot pick sn' fp learned_at ?c)"
        by (auto simp: a)
      with assms 3 show ?thesis by (intro replaced [OF _ Inr fp]) auto
    qed
  qed
qed

section \<open>What Stage A is served\<close>

lemma normalize_all_ok:
  "normalize_all cs = Inr ns \<Longrightarrow> length ns = length cs \<and> (\<forall>n \<in> set ns. normalized n = Inr n)"
  by (induction cs arbitrary: ns) (fastforce split: sum.splits dest: normalized_ok(5))+

lemma snapshot_normalized_ok:
  assumes "snapshot_normalized to_vec sn = Inr sn'"
  shows "length (sn_candidates sn') \<le> 32" "distinct (map cv_candidate_id (sn_candidates sn'))"
    "list_all (\<lambda>c. normalized c = Inr c) (sn_candidates sn')"
proof -
  from assms obtain ns where ns: "normalize_all (sn_candidates sn) = Inr ns"
    "length (sn_candidates sn) \<le> 32" "distinct (map cv_candidate_id ns)"
    "sn_candidates sn' = sort_key snapshot_order ns"
    by (auto simp: snapshot_normalized_def MAX_CANDIDATE_PAYLOAD_ENTRIES_def split: if_splits sum.splits option.splits)
  note n = normalize_all_ok [OF ns(1)]
  show "length (sn_candidates sn') \<le> 32" using ns n by simp
  show "distinct (map cv_candidate_id (sn_candidates sn'))"
    using ns(3) by (simp add: ns(4) distinct_map)
  show "list_all (\<lambda>c. normalized c = Inr c) (sn_candidates sn')"
    using n by (simp add: ns(4) list_all_iff)
qed

text \<open>The candidates of a cache with origin \<open>seen\<close> come from one of these snapshots, under its epoch and revision.\<close>

definition sourced_from ::
  "(candidate_payload list \<Rightarrow> byte list option) \<Rightarrow> resolved_snapshot list \<Rightarrow> candidate_cache \<Rightarrow> bool" where
  "sourced_from to_vec seen c \<longleftrightarrow>
     cc_candidates c \<noteq> [] \<longrightarrow> cc_expected_epoch c = None \<and>
       (\<exists>sn \<in> set seen. \<exists>sn'. snapshot_normalized to_vec sn = Inr sn' \<and> sn_candidates sn' = cc_candidates c
          \<and> sn_runtime_epoch sn = cc_runtime_epoch c \<and> sn_revision sn = cc_revision c)"

lemma sourced_from_kept:
  assumes "sourced_from to_vec seen c" "same_snapshot c d" "cc_expected_epoch d = None \<or> cc_expected_epoch d = cc_expected_epoch c"
  shows "sourced_from to_vec seen d"
  using assms by (auto simp: sourced_from_def same_snapshot_def)

lemma settle_expected_None: "cc_expected_epoch (settle_expected pick e c) = None"
  by (simp add: settle_expected_def split: option.splits)

lemma apply_expected:
  assumes "apply_snapshot to_vec pick sn t c = (r, d)"
  shows "cc_expected_epoch d = None \<or> cc_expected_epoch d = cc_expected_epoch c"
  using assms by (auto simp: apply_snapshot_def Let_def replace_snapshot_def settle_expected_None
      split: sum.splits if_splits)

lemma cache_step_sourced:
  assumes "sourced_from to_vec seen c"
  shows "sourced_from to_vec (seen @ event_snapshots e) (cache_step to_vec pick e c)"
proof (cases e)
  case (EpochHint epoch now)
  with assms show ?thesis by (auto simp: invalidate_for_remote_epoch_def sourced_from_def)
next
  case (ApplySnapshot sn t)
  have more: "sourced_from to_vec (seen @ [sn]) c" using assms by (auto simp: sourced_from_def)
  obtain r d where a: "apply_snapshot to_vec pick sn t c = (r, d)" by (cases "apply_snapshot to_vec pick sn t c")
  have "sourced_from to_vec (seen @ [sn]) d"
    using a
  proof (cases rule: apply_cases)
    case kept
    with more apply_expected [OF a] show ?thesis by (blast intro: sourced_from_kept)
  next
    case refreshed
    with more apply_expected [OF a] show ?thesis by (blast intro: sourced_from_kept)
  next
    case (replaced sn' fp)
    then show ?thesis using snapshot_normalized_facts [OF replaced(2)]
      by (auto simp: sourced_from_def replace_snapshot_def settle_expected_None)
  qed
  with ApplySnapshot a show ?thesis by simp
qed

lemma cache_run_sourced:
  "sourced_from to_vec seen c \<Longrightarrow>
     sourced_from to_vec (seen @ concat (map event_snapshots es)) (fold (cache_step to_vec pick) es c)"
proof (induction es arbitrary: seen c)
  case (Cons e es)
  from Cons.IH [OF cache_step_sourced [OF Cons.prems]] show ?case by simp
qed simp

lemma from_snapshot_sourced: "from_snapshot to_vec sn t = Inr c \<Longrightarrow> sourced_from to_vec [sn] c"
  using snapshot_normalized_facts
  by (fastforce simp: from_snapshot_def sourced_from_def split: sum.splits)

text \<open>
  C20. What the first connection stage gets from the cache.  However resolved snapshots and
  epoch hints arrive, the candidates handed to it are those of one snapshot that arrived, in
  normal form and with its epoch and revision, between one and thirty-two of them with
  distinct ids; they were learned within the time to live, and no hint of a newer epoch is
  waiting for its snapshot.
\<close>

theorem stage_a_serves_one_snapshot:
  assumes "from_snapshot to_vec sn0 t0 = Inr c0" "c = fold (cache_step to_vec pick) es c0"
    and "stage_a_candidates_at now c = Some cs"
  shows "\<exists>sn \<in> set (sn0 # concat (map event_snapshots es)). \<exists>sn'. snapshot_normalized to_vec sn = Inr sn'
           \<and> cs = sn_candidates sn' \<and> sn_runtime_epoch sn = cc_runtime_epoch c \<and> sn_revision sn = cc_revision c
           \<and> 1 \<le> length cs \<and> length cs \<le> 32 \<and> distinct (map cv_candidate_id cs)
           \<and> list_all (\<lambda>n. normalized n = Inr n) cs
           \<and> cc_expected_epoch c = None \<and> now \<le> cc_learned_at c + cc_ttl c"
proof -
  from assms(3) have fresh: "cs = cc_candidates c" "cs \<noteq> []" "now \<le> cc_learned_at c + cc_ttl c"
    by (auto simp: stage_a_candidates_at_def is_fresh_at_def age_at_def split: if_splits)
  have "sourced_from to_vec ([sn0] @ concat (map event_snapshots es)) c"
    unfolding assms(2) by (rule cache_run_sourced [OF from_snapshot_sourced [OF assms(1)]])
  with fresh obtain sn sn' where s: "sn \<in> set (sn0 # concat (map event_snapshots es))"
    "snapshot_normalized to_vec sn = Inr sn'" "sn_candidates sn' = cs" "cc_expected_epoch c = None"
    "sn_runtime_epoch sn = cc_runtime_epoch c" "sn_revision sn = cc_revision c"
    by (auto simp: sourced_from_def)
  moreover have "1 \<le> length cs" using fresh(2) by (cases cs) auto
  ultimately show ?thesis using snapshot_normalized_ok [OF s(2)] fresh(3) by blast
qed

definition sample_epoch :: "u64 \<Rightarrow> runtime_epoch" where
  "sample_epoch n = \<lparr>re_high = n, re_low = 1\<rparr>"

definition sample_snapshot :: "u64 \<Rightarrow> u64 \<Rightarrow> resolved_snapshot" where
  "sample_snapshot n revision = \<lparr>sn_runtime_epoch = sample_epoch n, sn_revision = revision,
     sn_candidates = [sample_lan], sn_server_presence_ttl = Some 50\<rparr>"

definition sample_fingerprint :: fingerprint where
  "sample_fingerprint = [fingerprint_entry_of (sample_lan\<lparr>cv_transports := [TQuic, TTcp]\<rparr>)]"

definition sample_cache :: candidate_cache where
  "sample_cache = \<lparr>cc_runtime_epoch = sample_epoch 1, cc_revision = 3,
     cc_candidates = [sample_lan\<lparr>cv_transports := [TQuic, TTcp]\<rparr>], cc_fingerprint = sample_fingerprint,
     cc_learned_at = 100, cc_ttl = 50, cc_retired_epochs = [], cc_expected_epoch = None\<rparr>"

abbreviation sample_to_vec :: "candidate_payload list \<Rightarrow> byte list option" where
  "sample_to_vec \<equiv> \<lambda>cs. Some []"

lemma sample_snapshot_normalized:
  "snapshot_normalized sample_to_vec (sample_snapshot n r) =
     Inr ((sample_snapshot n r)\<lparr>sn_candidates := [sample_lan\<lparr>cv_transports := [TQuic, TTcp]\<rparr>]\<rparr>)"
  by (simp add: snapshot_normalized_def sample_snapshot_def sample_normal_forms
      MAX_CANDIDATE_PAYLOAD_ENTRIES_def MAX_CANDIDATE_PAYLOAD_BYTES_def)

lemma sample_fingerprint_eq:
  "from_candidates [sample_lan\<lparr>cv_transports := [TQuic, TTcp]\<rparr>] = Inr sample_fingerprint"
  using normalized_ok(5) [OF sample_normal_forms(1)]
  by (simp add: from_candidates_def sample_fingerprint_def)

lemma sample_from_snapshot: "from_snapshot sample_to_vec (sample_snapshot 1 3) 100 = Inr sample_cache"
  by (simp add: from_snapshot_def sample_snapshot_normalized sample_fingerprint_eq sample_cache_def)
    (simp add: sample_snapshot_def snapshot_ttl_def)

theorem stage_a_serves_one_snapshot_witness:
  "\<exists>cs. stage_a_candidates_at 120 (fold (cache_step sample_to_vec (\<lambda>_. 0))
      [EpochHint (sample_epoch 1) 110] sample_cache) = Some cs \<and> 1 \<le> length cs \<and> length cs \<le> 32"
proof -
  define c where "c = fold (cache_step sample_to_vec (\<lambda>_. 0)) [EpochHint (sample_epoch 1) 110] sample_cache"
  have "c = sample_cache"
    by (simp add: c_def invalidate_for_remote_epoch_def sample_cache_def)
  then have s: "stage_a_candidates_at 120 c = Some (cc_candidates c)"
    by (simp add: stage_a_candidates_at_def is_fresh_at_def age_at_def sample_cache_def)
  from stage_a_serves_one_snapshot [OF sample_from_snapshot c_def s] s show ?thesis
    unfolding c_def by blast
qed

section \<open>The epoch fence\<close>

text \<open>
  C19. A second snapshot of one epoch closes the cache to that epoch.  Replacing a snapshot by a
  newer revision of the same epoch retires that epoch although it stays the current one; all
  further snapshots and hints of it leave the cache unchanged, and once the time to live has
  passed the first connection stage finds no candidates.
\<close>

theorem same_epoch_update_freezes_cache:
  assumes "apply_snapshot to_vec pick sn t c = (Inr Replaced, d)" "sn_runtime_epoch sn = cc_runtime_epoch c"
    and "list_all (\<lambda>e. event_epoch e = sn_runtime_epoch sn) es"
  shows "fold (cache_step to_vec pick) es d = d
    \<and> (cc_learned_at d + cc_ttl d < now \<longrightarrow>
        stage_a_candidates_at now (fold (cache_step to_vec pick) es d) = None)"
proof -
  have d: "cc_runtime_epoch d = sn_runtime_epoch sn" "sn_runtime_epoch sn \<in> set (cc_retired_epochs d)"
    using assms(1)
  proof (atomize (full), cases rule: apply_cases)
    case (replaced sn' fp)
    then show "cc_runtime_epoch d = sn_runtime_epoch sn \<and> sn_runtime_epoch sn \<in> set (cc_retired_epochs d)"
      using assms(2) snapshot_normalized_facts [OF replaced(2)]
      by (simp add: replace_snapshot_def retired_after_retire)
  qed auto
  have step: "cache_step to_vec pick e d = d" if "event_epoch e = sn_runtime_epoch sn" for e
  proof (cases e)
    case (ApplySnapshot sn2 t2)
    with that d(2) show ?thesis
      by (cases "snapshot_normalized to_vec sn2")
        (auto simp: apply_snapshot_def snapshot_normalized_facts split: sum.splits)
  next
    case (EpochHint epoch now)
    with that d(1) show ?thesis by (simp add: invalidate_for_remote_epoch_def)
  qed
  have "fold (cache_step to_vec pick) es d = d"
    using assms(3) by (induction es) (simp_all add: step)
  then show ?thesis
    by (auto simp: stage_a_candidates_at_def is_fresh_at_def age_at_def)
qed

theorem same_epoch_update_freezes_cache_witness:
  "\<exists>d. apply_snapshot sample_to_vec (\<lambda>_. 0) (sample_snapshot 1 4) 110 sample_cache = (Inr Replaced, d)
     \<and> stage_a_candidates_at 170 (fold (cache_step sample_to_vec (\<lambda>_. 0))
         [ApplySnapshot (sample_snapshot 1 5) 150, ApplySnapshot (sample_snapshot 1 6) 160] d) = None"
proof -
  obtain d where d: "apply_snapshot sample_to_vec (\<lambda>_. 0) (sample_snapshot 1 4) 110 sample_cache = (Inr Replaced, d)"
    "cc_learned_at d + cc_ttl d = 160"
    by (simp add: apply_snapshot_def sample_snapshot_normalized sample_fingerprint_eq)
      (simp add: sample_snapshot_def sample_cache_def settle_expected_def replace_snapshot_def snapshot_ttl_def)
  have e: "sn_runtime_epoch (sample_snapshot 1 4) = cc_runtime_epoch sample_cache"
    by (simp add: sample_snapshot_def sample_cache_def)
  have l: "list_all (\<lambda>e. event_epoch e = sn_runtime_epoch (sample_snapshot 1 4))
      [ApplySnapshot (sample_snapshot 1 5) 150, ApplySnapshot (sample_snapshot 1 6) 160]"
    by (simp add: sample_snapshot_def)
  from same_epoch_update_freezes_cache [OF d(1) e l, of 170] d
  show ?thesis by (intro exI [of _ d] conjI) auto
qed

text \<open>
  As long as at most eight epochs occur no retired epoch is given up, so that the cache never
  returns to one.
\<close>

definition fenced :: "runtime_epoch set \<Rightarrow> candidate_cache \<Rightarrow> bool" where
  "fenced E c \<longleftrightarrow> distinct (cc_retired_epochs c) \<and> set (cc_retired_epochs c) \<subseteq> E \<and> cc_runtime_epoch c \<in> E
     \<and> set_option (cc_expected_epoch c) \<subseteq> E"

lemma retire_epoch_fenced:
  assumes "fenced E c" "finite E" "card E \<le> 8" "e \<in> E"
  shows "cc_retired_epochs (retire_epoch pick e c) = List.insert e (cc_retired_epochs c)" "fenced E (retire_epoch pick e c)"
proof -
  have "e \<in> set (cc_retired_epochs c)" if l: "MAX_RETIRED_EPOCHS \<le> length (cc_retired_epochs c)"
  proof -
    have "card E \<le> card (set (cc_retired_epochs c))"
      using assms l by (simp add: fenced_def distinct_card MAX_RETIRED_EPOCHS_def)
    with assms show ?thesis using card_seteq [of E "set (cc_retired_epochs c)"] by (auto simp: fenced_def)
  qed
  then show r: "cc_retired_epochs (retire_epoch pick e c) = List.insert e (cc_retired_epochs c)"
    by (auto simp: retire_epoch_def Let_def)
  show "fenced E (retire_epoch pick e c)" using assms(1,4) by (simp add: fenced_def r)
qed

lemma settle_expected_fenced:
  assumes "fenced E c" "finite E" "card E \<le> 8"
  shows "set (cc_retired_epochs c) \<subseteq> set (cc_retired_epochs (settle_expected pick e c))"
    "fenced E (settle_expected pick e c)"
proof -
  have "set (cc_retired_epochs c) \<subseteq> set (cc_retired_epochs (settle_expected pick e c)) \<and> fenced E (settle_expected pick e c)"
  proof (cases "cc_expected_epoch c")
    case (Some x)
    then have "x \<in> E" using assms(1) by (simp add: fenced_def)
    note f = retire_epoch_fenced [OF assms this, of pick]
    with Some assms(1) show ?thesis
      by (auto simp: settle_expected_def fenced_def)
  qed (use assms(1) in \<open>simp add: settle_expected_def\<close>)
  then show "set (cc_retired_epochs c) \<subseteq> set (cc_retired_epochs (settle_expected pick e c))"
    "fenced E (settle_expected pick e c)" by blast+
qed

text \<open>One step: retired epochs stay, the current epoch is left for good, and under one epoch the revision grows.\<close>

definition advances :: "candidate_cache \<Rightarrow> candidate_cache \<Rightarrow> bool" where
  "advances c d \<longleftrightarrow> set (cc_retired_epochs c) \<subseteq> set (cc_retired_epochs d)
     \<and> (if cc_runtime_epoch d = cc_runtime_epoch c then cc_revision c \<le> cc_revision d
        else cc_runtime_epoch c \<in> set (cc_retired_epochs d) \<and> cc_runtime_epoch d \<notin> set (cc_retired_epochs c))"

lemma cache_step_advances:
  assumes "fenced E c" "finite E" "card E \<le> 8" "event_epoch e \<in> E"
  shows "fenced E (cache_step to_vec pick e c) \<and> advances c (cache_step to_vec pick e c)"
proof (cases e)
  case (EpochHint epoch now)
  have "cc_runtime_epoch c \<in> E" using assms(1) by (simp add: fenced_def)
  note f = retire_epoch_fenced [OF assms(1-3) this, of pick]
  from f EpochHint assms show ?thesis
    by (auto simp: invalidate_for_remote_epoch_def fenced_def advances_def)
next
  case (ApplySnapshot sn t)
  obtain r d where a: "apply_snapshot to_vec pick sn t c = (r, d)" by (cases "apply_snapshot to_vec pick sn t c")
  let ?c = "settle_expected pick (sn_runtime_epoch sn) c"
  note s = settle_expected_fenced [OF assms(1-3), of pick "sn_runtime_epoch sn"]
  have "fenced E d \<and> advances c d"
    using a
  proof (cases rule: apply_cases)
    case kept
    with s assms(1) show ?thesis by (auto simp: advances_def same_snapshot_def)
  next
    case refreshed
    with s assms(1) apply_expected [OF a] show ?thesis by (auto simp: advances_def same_snapshot_def fenced_def)
  next
    case (replaced sn' fp)
    have "cc_runtime_epoch ?c \<in> E" using s(2) by (simp add: fenced_def)
    note f = retire_epoch_fenced [OF s(2) assms(2,3) this, of pick]
    have e: "sn_runtime_epoch sn \<in> E" using assms(4) ApplySnapshot by simp
    show ?thesis
      using f s e replaced(4,5) snapshot_normalized_facts [OF replaced(2)] unfolding replaced(6)
      by (auto simp: replace_snapshot_def fenced_def advances_def)
  qed
  with ApplySnapshot a show ?thesis by simp
qed

lemma left_epoch_stays_left:
  assumes "fenced E c" "finite E" "card E \<le> 8" "event_epoch ` set es \<subseteq> E"
    and "x \<in> set (cc_retired_epochs c)" "cc_runtime_epoch c \<noteq> x"
  shows "cc_runtime_epoch (fold (cache_step to_vec pick) es c) \<noteq> x"
  using assms
proof (induction es arbitrary: c)
  case (Cons e es)
  let ?d = "cache_step to_vec pick e c"
  have d: "fenced E ?d" "advances c ?d" using cache_step_advances Cons.prems by auto
  then have "x \<in> set (cc_retired_epochs ?d)" "cc_runtime_epoch ?d \<noteq> x"
    using Cons.prems(5,6) by (auto simp: advances_def split: if_splits)
  with Cons.IH [OF d(1)] Cons.prems show ?case by simp
qed simp

lemma cache_run_advances:
  assumes "fenced E c" "finite E" "card E \<le> 8" "event_epoch ` set es \<subseteq> E"
    and "cc_runtime_epoch (fold (cache_step to_vec pick) es c) = cc_runtime_epoch c"
  shows "cc_revision c \<le> cc_revision (fold (cache_step to_vec pick) es c)
    \<and> (\<forall>k. cc_runtime_epoch (fold (cache_step to_vec pick) (take k es) c) = cc_runtime_epoch c)"
  using assms
proof (induction es arbitrary: c)
  case (Cons e es)
  let ?d = "cache_step to_vec pick e c"
  have d: "fenced E ?d" "advances c ?d" using cache_step_advances Cons.prems by auto
  have same: "cc_runtime_epoch ?d = cc_runtime_epoch c"
  proof (rule ccontr)
    assume n: "cc_runtime_epoch ?d \<noteq> cc_runtime_epoch c"
    with d(2) have "cc_runtime_epoch c \<in> set (cc_retired_epochs ?d)" by (simp add: advances_def)
    from left_epoch_stays_left [OF d(1) Cons.prems(2,3) _ this n] Cons.prems(4,5) show False by simp
  qed
  with d(2) have "cc_revision c \<le> cc_revision ?d" by (simp add: advances_def)
  moreover have "cc_revision ?d \<le> cc_revision (fold (cache_step to_vec pick) es ?d)
    \<and> (\<forall>k. cc_runtime_epoch (fold (cache_step to_vec pick) (take k es) ?d) = cc_runtime_epoch ?d)"
    using Cons.IH [OF d(1)] Cons.prems same by simp
  ultimately show ?case using same by (auto simp: take_Cons split: nat.splits)
qed simp

text \<open>
  The cache never goes back.  As long as at most eight epochs occur, the cache does not
  return to an epoch it has left: if it holds the same epoch at two points of a run it has
  held it all the time in between, and the revision has not decreased.
\<close>

theorem cache_never_regresses:
  assumes "from_snapshot to_vec sn0 t0 = Inr c0"
    and "card (insert (sn_runtime_epoch sn0) (event_epoch ` set (es1 @ es2))) \<le> 8"
    and "c1 = fold (cache_step to_vec pick) es1 c0" "c2 = fold (cache_step to_vec pick) es2 c1"
    and "cc_runtime_epoch c2 = cc_runtime_epoch c1"
  shows "cc_revision c1 \<le> cc_revision c2
    \<and> (\<forall>k. cc_runtime_epoch (fold (cache_step to_vec pick) (take k es2) c1) = cc_runtime_epoch c1)"
proof -
  define E where "E = insert (sn_runtime_epoch sn0) (event_epoch ` set (es1 @ es2))"
  have E: "finite E" "card E \<le> 8" "event_epoch ` set es1 \<subseteq> E" "event_epoch ` set es2 \<subseteq> E"
    using assms(2) by (auto simp: E_def)
  have c0: "fenced E c0"
    using assms(1) snapshot_normalized_facts
    by (fastforce simp: from_snapshot_def fenced_def E_def split: sum.splits)
  have "fenced E (fold (cache_step to_vec pick) es c)" if "fenced E c" "event_epoch ` set es \<subseteq> E" for es c
    using that cache_step_advances [OF _ E(1,2)] by (induction es arbitrary: c) auto
  then have "fenced E c1" using c0 E(3) by (simp add: assms(3))
  from cache_run_advances [OF this E(1,2,4), of to_vec pick] assms(4,5) show ?thesis by simp
qed

theorem cache_never_regresses_witness:
  "\<exists>c2. c2 = fold (cache_step sample_to_vec (\<lambda>_. 0)) [ApplySnapshot (sample_snapshot 1 3) 120] sample_cache
     \<and> cc_revision sample_cache \<le> cc_revision c2"
proof -
  define c2 where "c2 = fold (cache_step sample_to_vec (\<lambda>_. 0)) [ApplySnapshot (sample_snapshot 1 3) 120] sample_cache"
  have "cc_runtime_epoch c2 = cc_runtime_epoch sample_cache"
    by (simp add: c2_def apply_snapshot_def sample_snapshot_normalized sample_fingerprint_eq)
      (simp add: sample_snapshot_def sample_cache_def settle_expected_def)
  from cache_never_regresses [OF sample_from_snapshot _ _ c2_def this, of "[]"]
  show ?thesis by (simp add: sample_snapshot_def c2_def)
qed

end
