(* ===== verification/Nat_Attempt.thy ===== *)
theory Nat_Attempt
  imports Nat_Cache Complex_Main
begin

text \<open>
  Candidate exchange and the one-shot connectivity attempt
  (\<open>network-nat/src/candidate.rs\<close>, \<open>exchange.rs\<close>, \<open>attempt.rs\<close>): offers and answers with
  their validation, the receive state of a remote candidate generation, and the attempt with
  its lifecycle and its remote candidate set.  The clock is an argument of the operations
  that read it.  Packet loss rates are only stored and copied here; they are real numbers.
\<close>

section \<open>The text of an address\<close>

fun show_base :: "nat \<Rightarrow> nat \<Rightarrow> nat \<Rightarrow> string" where
  "show_base 0 base n = []"
| "show_base (Suc k) base n =
     (if n < base then [''0123456789abcdef'' ! n] else show_base k base (n div base) @ [''0123456789abcdef'' ! (n mod base)])"

definition show_dec :: "nat \<Rightarrow> string" where "show_dec n = show_base (Suc n) 10 n"
definition show_hex :: "nat \<Rightarrow> string" where "show_hex n = show_base (Suc n) 16 n"

fun join_with :: "string \<Rightarrow> string list \<Rightarrow> string" where
  "join_with sep [] = []"
| "join_with sep [s] = s"
| "join_with sep (s # t # ss) = s @ sep @ join_with sep (t # ss)"

definition show_ipv4 :: "u32 \<Rightarrow> string" where
  "show_ipv4 ip = join_with ''.'' (map (show_dec \<circ> unat) (u32_be ip))"

definition ipv6_segments :: "128 word \<Rightarrow> nat list" where
  "ipv6_segments ip = map (\<lambda>i. unat ip div 65536 ^ (7 - i) mod 65536) [0..<8]"

text \<open>The first longest run of zero segments, as (start, length).\<close>

fun longest_zeros :: "nat \<Rightarrow> nat \<times> nat \<Rightarrow> nat \<times> nat \<Rightarrow> nat list \<Rightarrow> nat \<times> nat" where
  "longest_zeros i longest current [] = longest"
| "longest_zeros i longest current (seg # segs) =
     (if seg = 0 then
        (let current = (if snd current = 0 then i else fst current, snd current + 1);
             longest = (if snd current > snd longest then current else longest)
         in longest_zeros (i + 1) longest current segs)
      else longest_zeros (i + 1) longest (0, 0) segs)"

definition show_ipv6 :: "128 word \<Rightarrow> string" where
  "show_ipv6 ip =
     (if unat ip div 2 ^ 32 = 0xFFFF then ''::ffff:'' @ show_ipv4 (of_nat (unat ip mod 2 ^ 32))
      else let segs = ipv6_segments ip; hex = (\<lambda>xs. join_with '':'' (map show_hex xs));
               (start, len) = longest_zeros 0 (0, 0) (0, 0) segs
           in if len > 1 then hex (take start segs) @ ''::'' @ hex (drop (start + len) segs) else hex segs)"

fun show_addr :: "socket_addr \<Rightarrow> string" where
  "show_addr (SocketV4 ip port) = show_ipv4 ip @ '':'' @ show_dec (unat port)"
| "show_addr (SocketV6 ip port flowinfo scope_id) =
     (if scope_id = 0 then ''['' @ show_ipv6 ip @ '']:'' @ show_dec (unat port)
      else ''['' @ show_ipv6 ip @ ''%'' @ show_dec (unat scope_id) @ '']:'' @ show_dec (unat port))"

section \<open>Candidates with quality samples\<close>

record candidate =
  ca_candidate_id :: string
  ca_endpoint :: socket_addr
  ca_interface_name :: string
  ca_kind :: candidate_kind
  ca_priority :: u32
  ca_generation :: u64
  ca_rtt_ms :: u32
  ca_jitter_ms :: u32
  ca_loss_rate :: real
  ca_last_success_timestamp :: u64
  ca_sample_count :: u32

record candidate_advertisement =
  ad_candidate_id :: string
  ad_endpoint :: socket_addr
  ad_kind :: candidate_kind
  ad_priority :: u32
  ad_interface :: string
  ad_generation :: u64

fun base_priority :: "candidate_kind \<Rightarrow> u32" where
  "base_priority Lan = 100"
| "base_priority PublicIpv6 = 80"
| "base_priority PortMapped = 60"
| "base_priority ServerReflexive = 40"
| "base_priority RelayKind = 10"

definition candidate_new :: "socket_addr \<Rightarrow> candidate_kind \<Rightarrow> string \<Rightarrow> candidate" where
  "candidate_new endpoint kind interface_name =
     \<lparr>ca_candidate_id = interface_name @ ''@'' @ show_addr endpoint, ca_endpoint = endpoint,
      ca_interface_name = interface_name, ca_kind = kind, ca_priority = base_priority kind, ca_generation = 0,
      ca_rtt_ms = 0, ca_jitter_ms = 0, ca_loss_rate = 0, ca_last_success_timestamp = 0, ca_sample_count = 0\<rparr>"

definition with_generation :: "u64 \<Rightarrow> candidate \<Rightarrow> candidate" where
  "with_generation generation c = c\<lparr>ca_generation := generation\<rparr>"

definition advertisement :: "candidate \<Rightarrow> candidate_advertisement" where
  "advertisement c = \<lparr>ad_candidate_id = ca_candidate_id c, ad_endpoint = ca_endpoint c, ad_kind = ca_kind c,
     ad_priority = ca_priority c, ad_interface = ca_interface_name c, ad_generation = ca_generation c\<rparr>"

definition from_advertisement :: "candidate_advertisement \<Rightarrow> string + candidate" where
  "from_advertisement ad =
     (if ad_candidate_id ad = [] \<or> length (ad_candidate_id ad) > 128 \<or> ad_interface ad = []
         \<or> length (ad_interface ad) > 128 \<or> ip_is_unspecified (ad_endpoint ad) \<or> sa_port (ad_endpoint ad) = 0
      then Inl ''candidate advertisement contains invalid identity or endpoint''
      else Inr \<lparr>ca_candidate_id = ad_candidate_id ad, ca_endpoint = ad_endpoint ad,
        ca_interface_name = ad_interface ad, ca_kind = ad_kind ad, ca_priority = ad_priority ad,
        ca_generation = ad_generation ad, ca_rtt_ms = 0, ca_jitter_ms = 0, ca_loss_rate = 0,
        ca_last_success_timestamp = 0, ca_sample_count = 0\<rparr>)"

definition payload_from_candidate :: "candidate \<Rightarrow> candidate_transport list \<Rightarrow> candidate_payload" where
  "payload_from_candidate c transports =
     \<lparr>cv_version = CANDIDATE_PAYLOAD_VERSION, cv_candidate_id = ca_candidate_id c, cv_endpoint = ca_endpoint c,
      cv_kind = ca_kind c, cv_transports = transports, cv_priority = ca_priority c,
      cv_interface = ca_interface_name c, cv_generation = ca_generation c\<rparr>"

section \<open>Candidate signals\<close>

definition CANDIDATE_SIGNAL_VERSION :: u32 where "CANDIDATE_SIGNAL_VERSION = 1"
definition MAX_CANDIDATES_PER_SIGNAL :: nat where "MAX_CANDIDATES_PER_SIGNAL = 32"
definition MIN_CONNECT_WINDOW_MS :: u32 where "MIN_CONNECT_WINDOW_MS = 500"
definition MAX_CONNECT_WINDOW_MS :: u32 where "MAX_CONNECT_WINDOW_MS = 8000"
definition MAX_ATTEMPT_ID_BYTES :: nat where "MAX_ATTEMPT_ID_BYTES = 128"

datatype candidate_signal_kind = Offer | Answer

record candidate_signal =
  sg_version :: u32
  sg_kind :: candidate_signal_kind
  sg_generation :: u64
  sg_attempt_id :: string
  sg_connect_window_ms :: u32
  sg_candidates :: "candidate_advertisement list"
  sg_runtime_epoch :: "runtime_epoch option"
  sg_discovery_revision :: "u64 option"

definition offer :: "u64 \<Rightarrow> string \<Rightarrow> u32 \<Rightarrow> candidate_advertisement list \<Rightarrow> candidate_signal" where
  "offer generation attempt_id connect_window_ms candidates =
     \<lparr>sg_version = CANDIDATE_SIGNAL_VERSION, sg_kind = Offer, sg_generation = generation,
      sg_attempt_id = attempt_id, sg_connect_window_ms = connect_window_ms, sg_candidates = candidates,
      sg_runtime_epoch = None, sg_discovery_revision = None\<rparr>"

definition answer :: "u64 \<Rightarrow> string \<Rightarrow> u32 \<Rightarrow> candidate_advertisement list \<Rightarrow> candidate_signal" where
  "answer generation attempt_id connect_window_ms candidates =
     \<lparr>sg_version = CANDIDATE_SIGNAL_VERSION, sg_kind = Answer, sg_generation = generation,
      sg_attempt_id = attempt_id, sg_connect_window_ms = connect_window_ms, sg_candidates = candidates,
      sg_runtime_epoch = None, sg_discovery_revision = None\<rparr>"

definition with_epoch_revision :: "runtime_epoch \<Rightarrow> u64 \<Rightarrow> candidate_signal \<Rightarrow> candidate_signal" where
  "with_epoch_revision epoch revision s =
     s\<lparr>sg_runtime_epoch := Some epoch, sg_discovery_revision := Some revision\<rparr>"

fun validate_advertisements ::
  "u64 \<Rightarrow> string list \<Rightarrow> candidate_advertisement list \<Rightarrow> string + unit" where
  "validate_advertisements generation ids [] = Inr ()"
| "validate_advertisements generation ids (ad # ads) =
     (if ad_generation ad \<noteq> generation \<or> ad_candidate_id ad \<in> set ids
      then Inl ''candidate signal contains duplicate or stale candidates''
      else case from_advertisement ad of
        Inl e \<Rightarrow> Inl e
      | Inr _ \<Rightarrow> validate_advertisements generation (ad_candidate_id ad # ids) ads)"

definition validate_signal :: "candidate_signal \<Rightarrow> string + unit" where
  "validate_signal s =
     (if sg_version s \<noteq> CANDIDATE_SIGNAL_VERSION then Inl ''unsupported candidate signal version''
      else if sg_generation s = 0 \<or> sg_attempt_id s = [] \<or> length (sg_attempt_id s) > MAX_ATTEMPT_ID_BYTES
        \<or> \<not> list_all is_ascii_graphic (sg_attempt_id s)
        \<or> \<not> (MIN_CONNECT_WINDOW_MS \<le> sg_connect_window_ms s \<and> sg_connect_window_ms s \<le> MAX_CONNECT_WINDOW_MS)
        \<or> length (sg_candidates s) > MAX_CANDIDATES_PER_SIGNAL
      then Inl ''candidate signal generation or size is invalid''
      else validate_advertisements (sg_generation s) [] (sg_candidates s))"

section \<open>Exchange state\<close>

record exchange_state =
  xs_generation :: u64
  xs_attempt_id :: "string option"
  xs_connect_window_ms :: u32
  xs_candidates :: "(string, candidate) hmap"

definition exchange_state_default :: exchange_state where
  "exchange_state_default = \<lparr>xs_generation = 0, xs_attempt_id = None, xs_connect_window_ms = 0, xs_candidates = []\<rparr>"

fun insert_advertisements ::
  "candidate_advertisement list \<Rightarrow> exchange_state \<Rightarrow> (string + unit) \<times> exchange_state" where
  "insert_advertisements [] x = (Inr (), x)"
| "insert_advertisements (ad # ads) x =
     (case from_advertisement ad of
        Inl e \<Rightarrow> (Inl e, x)
      | Inr c \<Rightarrow> insert_advertisements ads
          (x\<lparr>xs_candidates := hm_insert (ad_candidate_id ad) c (xs_candidates x)\<rparr>))"

definition exchange_apply :: "candidate_signal \<Rightarrow> exchange_state \<Rightarrow> (string + bool) \<times> exchange_state" where
  "exchange_apply s x =
     (case validate_signal s of
        Inl e \<Rightarrow> (Inl e, x)
      | Inr _ \<Rightarrow>
          if sg_generation s < xs_generation x then (Inr False, x)
          else
            (let is_new_attempt = (case xs_attempt_id x of None \<Rightarrow> False | Some i \<Rightarrow> i \<noteq> sg_attempt_id s);
                 fresh = (sg_generation s > xs_generation x \<or> is_new_attempt \<and> sg_kind s = Offer);
                 incoming_ids = map ad_candidate_id (sg_candidates s);
                 x' = (if fresh
                       then x\<lparr>xs_generation := sg_generation s, xs_attempt_id := Some (sg_attempt_id s),
                              xs_connect_window_ms := sg_connect_window_ms s, xs_candidates := []\<rparr>
                       else x\<lparr>xs_candidates := hm_retain (\<lambda>i _. i \<in> set incoming_ids) (xs_candidates x)\<rparr>)
             in if \<not> fresh \<and> is_new_attempt then (Inr False, x)
                else case insert_advertisements (sg_candidates s) x' of
                  (Inl e, x'') \<Rightarrow> (Inl e, x'')
                | (Inr _, x'') \<Rightarrow>
                    (Inr True,
                     if xs_attempt_id x'' = None
                     then x''\<lparr>xs_attempt_id := Some (sg_attempt_id s), xs_connect_window_ms := sg_connect_window_ms s\<rparr>
                     else x''\<lparr>xs_connect_window_ms := sg_connect_window_ms s\<rparr>)))"

section \<open>Connectivity attempts\<close>

datatype attempt_state = Created | Resolved | Coordinating | Connecting | Succeeded | Failed | Expired

datatype update_disposition = UpdateApplied | UpdateCacheOnly | UpdateIgnoredStale | UpdateTerminal

definition is_terminal :: "attempt_state \<Rightarrow> bool" where
  "is_terminal s \<longleftrightarrow> s = Succeeded \<or> s = Failed \<or> s = Expired"

record connectivity_attempt =
  at_attempt_id :: string
  at_peer_id :: string
  at_local_runtime_epoch :: runtime_epoch
  at_remote_runtime_epoch :: "runtime_epoch option"
  at_remote_discovery_revision :: "u64 option"
  at_local_candidates :: "candidate list"
  at_remote_candidates :: "candidate list"
  at_started_at :: instant
  at_direct_deadline :: "instant option"
  at_state :: attempt_state

definition attempt_new ::
  "string \<Rightarrow> string \<Rightarrow> runtime_epoch \<Rightarrow> instant \<Rightarrow> instant option \<Rightarrow> connectivity_attempt" where
  "attempt_new attempt_id peer_id local_epoch started_at direct_deadline =
     \<lparr>at_attempt_id = attempt_id, at_peer_id = peer_id, at_local_runtime_epoch = local_epoch,
      at_remote_runtime_epoch = None, at_remote_discovery_revision = None, at_local_candidates = [],
      at_remote_candidates = [], at_started_at = started_at, at_direct_deadline = direct_deadline,
      at_state = Created\<rparr>"

definition with_local_candidates :: "candidate list \<Rightarrow> connectivity_attempt \<Rightarrow> connectivity_attempt" where
  "with_local_candidates candidates a = a\<lparr>at_local_candidates := candidates\<rparr>"

definition set_state :: "attempt_state \<Rightarrow> connectivity_attempt \<Rightarrow> bool \<times> connectivity_attempt" where
  "set_state state a = (if is_terminal (at_state a) then (False, a) else (True, a\<lparr>at_state := state\<rparr>))"

definition direct_deadline_elapsed :: "instant \<Rightarrow> connectivity_attempt \<Rightarrow> bool" where
  "direct_deadline_elapsed now a \<longleftrightarrow>
     (case at_direct_deadline a of None \<Rightarrow> False | Some deadline \<Rightarrow> now \<ge> deadline)"

definition all_candidates :: "connectivity_attempt \<Rightarrow> candidate list" where
  "all_candidates a = at_local_candidates a @ at_remote_candidates a"

definition keep_samples :: "candidate \<Rightarrow> candidate \<Rightarrow> candidate" where
  "keep_samples existing c =
     (if ca_sample_count existing > 0
      then c\<lparr>ca_sample_count := ca_sample_count existing, ca_rtt_ms := ca_rtt_ms existing,
             ca_jitter_ms := ca_jitter_ms existing, ca_loss_rate := ca_loss_rate existing,
             ca_last_success_timestamp := ca_last_success_timestamp existing\<rparr>
      else c)"

fun merge_candidate :: "candidate \<Rightarrow> candidate list \<Rightarrow> candidate list" where
  "merge_candidate c [] = [c]"
| "merge_candidate c (existing # rest) =
     (if ca_candidate_id existing = ca_candidate_id c then keep_samples existing c # rest
      else existing # merge_candidate c rest)"

text \<open>The epoch and revision step of an update: \<open>None\<close> for a stale revision.\<close>

definition advance_remote ::
  "runtime_epoch option \<Rightarrow> u64 \<Rightarrow> connectivity_attempt \<Rightarrow> connectivity_attempt option" where
  "advance_remote runtime_epoch revision a =
     (let newer = (case at_remote_discovery_revision a of
                     None \<Rightarrow> Some (a\<lparr>at_remote_discovery_revision := Some revision\<rparr>)
                   | Some current \<Rightarrow>
                       if revision < current then None
                       else if revision > current then Some (a\<lparr>at_remote_discovery_revision := Some revision\<rparr>)
                       else Some a);
          restart = (\<lambda>e. a\<lparr>at_remote_runtime_epoch := Some e, at_remote_discovery_revision := Some revision,
                           at_remote_candidates := []\<rparr>)
      in case runtime_epoch of
           None \<Rightarrow> newer
         | Some e \<Rightarrow>
             (case at_remote_runtime_epoch a of
                None \<Rightarrow> Some (restart e)
              | Some current \<Rightarrow> if e \<noteq> current then Some (restart e) else newer))"

definition apply_remote_unchecked ::
  "runtime_epoch option \<Rightarrow> u64 \<Rightarrow> candidate list \<Rightarrow> connectivity_attempt
   \<Rightarrow> (string + bool) \<times> connectivity_attempt" where
  "apply_remote_unchecked runtime_epoch revision candidates a =
     (if length candidates > MAX_CANDIDATES_PER_SIGNAL
      then (Inl ''remote candidate set exceeds the attempt limit'', a)
      else if \<not> distinct (map ca_candidate_id candidates)
      then (Inl ''remote candidate set contains duplicate ids'', a)
      else case advance_remote runtime_epoch revision a of
        None \<Rightarrow> (Inr False, a)
      | Some a \<Rightarrow>
          (let incoming_ids = set (map ca_candidate_id candidates);
               kept = filter (\<lambda>c. ca_candidate_id c \<in> incoming_ids) (at_remote_candidates a)
           in (Inr True, a\<lparr>at_remote_candidates := fold merge_candidate candidates kept\<rparr>)))"

definition apply_remote_candidates ::
  "instant \<Rightarrow> runtime_epoch option \<Rightarrow> u64 \<Rightarrow> candidate list \<Rightarrow> connectivity_attempt
   \<Rightarrow> (string + bool) \<times> connectivity_attempt" where
  "apply_remote_candidates now runtime_epoch revision candidates a =
     (if is_terminal (at_state a) then (Inr False, a)
      else if direct_deadline_elapsed now a then (Inr False, a)
      else apply_remote_unchecked runtime_epoch revision candidates a)"

fun collect_advertisements :: "candidate_advertisement list \<Rightarrow> string + candidate list" where
  "collect_advertisements [] = Inr []"
| "collect_advertisements (ad # ads) =
     (case from_advertisement ad of
        Inl e \<Rightarrow> Inl e
      | Inr c \<Rightarrow> (case collect_advertisements ads of Inl e \<Rightarrow> Inl e | Inr cs \<Rightarrow> Inr (c # cs)))"

definition apply_signal_unchecked ::
  "candidate_signal \<Rightarrow> connectivity_attempt \<Rightarrow> (string + bool) \<times> connectivity_attempt" where
  "apply_signal_unchecked s a =
     (case validate_signal s of
        Inl e \<Rightarrow> (Inl e, a)
      | Inr _ \<Rightarrow>
          if sg_attempt_id s \<noteq> at_attempt_id a then (Inr False, a)
          else (case collect_advertisements (sg_candidates s) of
                  Inl e \<Rightarrow> (Inl e, a)
                | Inr candidates \<Rightarrow>
                    apply_remote_unchecked (sg_runtime_epoch s)
                      (case sg_discovery_revision s of None \<Rightarrow> sg_generation s | Some r \<Rightarrow> r) candidates a))"

definition apply_signal ::
  "instant \<Rightarrow> candidate_signal \<Rightarrow> connectivity_attempt \<Rightarrow> (string + bool) \<times> connectivity_attempt" where
  "apply_signal now s a = (if direct_deadline_elapsed now a then (Inr False, a) else apply_signal_unchecked s a)"

definition apply_signal_with_deadline ::
  "candidate_signal \<Rightarrow> instant \<Rightarrow> connectivity_attempt \<Rightarrow> (string + update_disposition) \<times> connectivity_attempt" where
  "apply_signal_with_deadline s now a =
     (if is_terminal (at_state a) then (Inr UpdateTerminal, a)
      else if sg_attempt_id s \<noteq> at_attempt_id a then (Inr UpdateIgnoredStale, a)
      else if direct_deadline_elapsed now a then (Inr UpdateCacheOnly, a)
      else case apply_signal_unchecked s a of
        (Inl e, a) \<Rightarrow> (Inl e, a)
      | (Inr True, a) \<Rightarrow> (Inr UpdateApplied, a)
      | (Inr False, a) \<Rightarrow> (Inr UpdateIgnoredStale, a))"

section \<open>Valid signals\<close>

lemma from_advertisement_fields:
  "from_advertisement ad = Inr c \<Longrightarrow> ca_candidate_id c = ad_candidate_id ad"
  by (auto simp: from_advertisement_def split: if_splits)

lemma validate_advertisements_ok:
  "validate_advertisements generation ids ads = Inr () \<longleftrightarrow>
     distinct (map ad_candidate_id ads) \<and> set (map ad_candidate_id ads) \<inter> set ids = {}
     \<and> (\<forall>ad \<in> set ads. ad_generation ad = generation \<and> (\<exists>c. from_advertisement ad = Inr c))"
  by (induction ads arbitrary: ids) (auto split: sum.splits)

lemma validate_signal_ok:
  assumes "validate_signal s = Inr ()"
  shows "0 < sg_generation s" "distinct (map ad_candidate_id (sg_candidates s))"
    "\<forall>ad \<in> set (sg_candidates s). \<exists>c. from_advertisement ad = Inr c"
    "length (sg_candidates s) \<le> MAX_CANDIDATES_PER_SIGNAL"
  using assms by (auto simp: validate_signal_def validate_advertisements_ok word_gt_0 split: if_splits)

section \<open>The exchange state follows the latest signal\<close>

lemma insert_advertisements_ok:
  assumes "distinct (map ad_candidate_id ads)" "\<forall>ad \<in> set ads. \<exists>c. from_advertisement ad = Inr c"
  shows "\<exists>m. insert_advertisements ads x = (Inr (), x\<lparr>xs_candidates := m\<rparr>)
    \<and> (\<forall>i c. hm_get m i = Some c \<longleftrightarrow>
         (\<exists>ad \<in> set ads. ad_candidate_id ad = i \<and> from_advertisement ad = Inr c)
         \<or> i \<notin> ad_candidate_id ` set ads \<and> hm_get (xs_candidates x) i = Some c)"
  using assms
proof (induction ads arbitrary: x)
  case Nil
  show ?case by (intro exI [of _ "xs_candidates x"]) simp
next
  case (Cons ad ads)
  from Cons.prems obtain c where c: "from_advertisement ad = Inr c" by auto
  let ?x = "x\<lparr>xs_candidates := hm_insert (ad_candidate_id ad) c (xs_candidates x)\<rparr>"
  from Cons.IH [of ?x] Cons.prems obtain m where m: "insert_advertisements ads ?x = (Inr (), ?x\<lparr>xs_candidates := m\<rparr>)"
    "\<forall>i c. hm_get m i = Some c \<longleftrightarrow>
         (\<exists>ad \<in> set ads. ad_candidate_id ad = i \<and> from_advertisement ad = Inr c)
         \<or> i \<notin> ad_candidate_id ` set ads \<and> hm_get (xs_candidates ?x) i = Some c" by auto
  have new: "ad_candidate_id ad \<notin> ad_candidate_id ` set ads" using Cons.prems by simp
  have "hm_get m i = Some c' \<longleftrightarrow>
         (\<exists>ad' \<in> set (ad # ads). ad_candidate_id ad' = i \<and> from_advertisement ad' = Inr c')
         \<or> i \<notin> ad_candidate_id ` set (ad # ads) \<and> hm_get (xs_candidates x) i = Some c'" for i c'
    using m(2) [rule_format, of i c'] new c by (cases "i = ad_candidate_id ad") (auto simp: hm_insert_def update_conv')
  with m(1) c show ?case by (intro exI [of _ m]) simp
qed

definition holds_signal :: "candidate_signal \<Rightarrow> exchange_state \<Rightarrow> bool" where
  "holds_signal s x \<longleftrightarrow> xs_generation x = sg_generation s \<and> xs_attempt_id x = Some (sg_attempt_id s)
     \<and> xs_connect_window_ms x = sg_connect_window_ms s
     \<and> (\<forall>i c. hm_get (xs_candidates x) i = Some c \<longleftrightarrow>
          (\<exists>ad \<in> set (sg_candidates s). ad_candidate_id ad = i \<and> from_advertisement ad = Inr c))"

lemma hm_get_retain_keys: "hm_get (hm_retain (\<lambda>i _. i \<in> A) m) i = (if i \<in> A then hm_get m i else None)"
  by (induction m) (auto simp: hm_retain_def)

text \<open>Before the first signal the state has no attempt and generation zero.\<close>

definition exchange_inv :: "exchange_state \<Rightarrow> bool" where
  "exchange_inv x \<longleftrightarrow> (xs_attempt_id x = None \<longrightarrow> xs_generation x = 0)"

lemma exchange_apply_cases:
  assumes "exchange_inv x" "exchange_apply s x = (r, y)"
  shows "(r \<noteq> Inr True \<and> y = x) \<or> (r = Inr True \<and> holds_signal s y \<and> xs_generation x \<le> sg_generation s)"
proof (cases "validate_signal s")
  case (Inl e)
  with assms show ?thesis by (auto simp: exchange_apply_def)
next
  case (Inr u)
  then have v: "validate_signal s = Inr ()" by simp
  note ok = validate_signal_ok [OF v]
  define new where "new \<longleftrightarrow> (case xs_attempt_id x of None \<Rightarrow> False | Some i \<Rightarrow> i \<noteq> sg_attempt_id s)"
  define fresh where "fresh \<longleftrightarrow> sg_generation s > xs_generation x \<or> new \<and> sg_kind s = Offer"
  define x' where "x' = (if fresh
    then x\<lparr>xs_generation := sg_generation s, xs_attempt_id := Some (sg_attempt_id s),
           xs_connect_window_ms := sg_connect_window_ms s, xs_candidates := []\<rparr>
    else x\<lparr>xs_candidates := hm_retain (\<lambda>i _. i \<in> set (map ad_candidate_id (sg_candidates s))) (xs_candidates x)\<rparr>)"
  obtain m where m: "insert_advertisements (sg_candidates s) x' = (Inr (), x'\<lparr>xs_candidates := m\<rparr>)"
    "\<forall>i c. hm_get m i = Some c \<longleftrightarrow>
         (\<exists>ad \<in> set (sg_candidates s). ad_candidate_id ad = i \<and> from_advertisement ad = Inr c)
         \<or> i \<notin> ad_candidate_id ` set (sg_candidates s) \<and> hm_get (xs_candidates x') i = Some c"
    using insert_advertisements_ok [OF ok(2,3)] by blast
  have gone: "i \<notin> ad_candidate_id ` set (sg_candidates s) \<Longrightarrow> hm_get (xs_candidates x') i = None" for i
    by (simp add: x'_def hm_get_retain_keys)
  have run: "exchange_apply s x =
    (if sg_generation s < xs_generation x \<or> (\<not> fresh \<and> new) then (Inr False, x)
     else (Inr True, if xs_attempt_id x' = None
       then x'\<lparr>xs_candidates := m, xs_attempt_id := Some (sg_attempt_id s), xs_connect_window_ms := sg_connect_window_ms s\<rparr>
       else x'\<lparr>xs_candidates := m, xs_connect_window_ms := sg_connect_window_ms s\<rparr>))"
    unfolding exchange_apply_def v Let_def sum.case
    unfolding new_def [symmetric] unfolding fresh_def [symmetric] unfolding x'_def [symmetric] m(1)
    by auto
  show ?thesis
  proof (cases "sg_generation s < xs_generation x \<or> (\<not> fresh \<and> new)")
    case True
    with run assms(2) show ?thesis by auto
  next
    case False
    then have le: "xs_generation x \<le> sg_generation s" using linorder_not_less by blast
    have gen: "xs_generation x' = sg_generation s" "xs_attempt_id x' = Some (sg_attempt_id s)"
      using False ok(1) assms(1) by (auto simp: x'_def fresh_def new_def exchange_inv_def split: option.splits)
    with run False assms(2) have "r = Inr True" "y = x'\<lparr>xs_candidates := m, xs_connect_window_ms := sg_connect_window_ms s\<rparr>"
      by auto
    with gen le m(2) gone show ?thesis by (auto simp: holds_signal_def)
  qed
qed

fun exchange_run :: "candidate_signal list \<Rightarrow> exchange_state \<Rightarrow> candidate_signal list \<times> exchange_state" where
  "exchange_run [] x = ([], x)"
| "exchange_run (s # ss) x =
     (case exchange_apply s x of (r, x') \<Rightarrow>
        case exchange_run ss x' of (accepted, x'') \<Rightarrow> (if r = Inr True then s # accepted else accepted, x''))"

lemma exchange_run_holds:
  assumes "exchange_inv x" "exchange_run ss x = (accepted, y)"
  shows "sorted (map sg_generation accepted) \<and> list_all (\<lambda>s. xs_generation x \<le> sg_generation s) accepted
    \<and> (case accepted of [] \<Rightarrow> y = x | _ \<Rightarrow> holds_signal (last accepted) y)"
  using assms
proof (induction ss arbitrary: x accepted y)
  case (Cons s ss)
  obtain r x' where a: "exchange_apply s x = (r, x')" by (cases "exchange_apply s x")
  obtain acc y' where b: "exchange_run ss x' = (acc, y')" by (cases "exchange_run ss x'")
  from exchange_apply_cases [OF Cons.prems(1) a] show ?case
  proof
    assume "r \<noteq> Inr True \<and> x' = x"
    with Cons.IH [OF Cons.prems(1)] Cons.prems(2) a b show ?thesis by auto
  next
    assume h: "r = Inr True \<and> holds_signal s x' \<and> xs_generation x \<le> sg_generation s"
    then have gen: "xs_generation x' = sg_generation s" "exchange_inv x'"
      by (auto simp: holds_signal_def exchange_inv_def)
    note ih = Cons.IH [OF gen(2) b]
    from Cons.prems(2) a b h have "accepted = s # acc" "y = y'" by auto
    with ih h gen(1) show ?thesis
      by (cases acc) (auto simp: list_all_iff intro: order_trans)
  qed
qed simp

text \<open>
  The receive state is the latest accepted signal.  Whatever offers and answers arrive, in
  whatever order, the accepted ones have non-decreasing generations, and the state holds
  exactly the generation, attempt, window and candidates of the last accepted one; it is
  empty as long as none was accepted.
\<close>

theorem exchange_follows_latest_signal:
  "case exchange_run ss exchange_state_default of (accepted, x) \<Rightarrow>
     sorted (map sg_generation accepted)
     \<and> (case accepted of [] \<Rightarrow> x = exchange_state_default | _ \<Rightarrow> holds_signal (last accepted) x)"
proof -
  have "exchange_inv exchange_state_default" by (simp add: exchange_inv_def exchange_state_default_def)
  from exchange_run_holds [OF this] show ?thesis by (auto split: prod.splits list.splits)
qed

section \<open>Updates of an attempt\<close>

abbreviation candidate_of :: "string \<Rightarrow> candidate list \<Rightarrow> candidate option" where
  "candidate_of i cs \<equiv> find (\<lambda>c. ca_candidate_id c = i) cs"

lemma keep_samples_id [simp]: "ca_candidate_id (keep_samples e c) = ca_candidate_id c"
  by (simp add: keep_samples_def)

lemma candidate_of_None: "candidate_of i cs = None \<longleftrightarrow> i \<notin> ca_candidate_id ` set cs"
  by (auto simp: find_None_iff)

lemma candidate_of_merge:
  "candidate_of i (merge_candidate c xs) =
     (if i = ca_candidate_id c then Some (case candidate_of i xs of None \<Rightarrow> c | Some e \<Rightarrow> keep_samples e c)
      else candidate_of i xs)"
  by (induction xs) auto

lemma merge_candidate_ids:
  "set (map ca_candidate_id (merge_candidate c xs)) = insert (ca_candidate_id c) (set (map ca_candidate_id xs))"
  "distinct (map ca_candidate_id xs) \<Longrightarrow> distinct (map ca_candidate_id (merge_candidate c xs))"
proof -
  show ids: "set (map ca_candidate_id (merge_candidate c xs)) = insert (ca_candidate_id c) (set (map ca_candidate_id xs))" for xs
    by (induction xs) auto
  show "distinct (map ca_candidate_id xs) \<Longrightarrow> distinct (map ca_candidate_id (merge_candidate c xs))"
  proof (induction xs)
    case (Cons x xs)
    then show ?case using ids [of xs] by auto
  qed simp
qed

lemma fold_merge_ids:
  "set (map ca_candidate_id (fold merge_candidate cs xs)) = set (map ca_candidate_id cs) \<union> set (map ca_candidate_id xs)"
  "distinct (map ca_candidate_id xs) \<Longrightarrow> distinct (map ca_candidate_id (fold merge_candidate cs xs))"
proof -
  show "set (map ca_candidate_id (fold merge_candidate cs xs)) = set (map ca_candidate_id cs) \<union> set (map ca_candidate_id xs)"
  proof (induction cs arbitrary: xs)
    case (Cons c cs)
    from Cons.IH [of "merge_candidate c xs"] merge_candidate_ids(1) [of c xs] show ?case by auto
  qed simp
  show "distinct (map ca_candidate_id xs) \<Longrightarrow> distinct (map ca_candidate_id (fold merge_candidate cs xs))"
    by (induction cs arbitrary: xs) (simp_all add: merge_candidate_ids(2))
qed

lemma candidate_of_fold_merge:
  "distinct (map ca_candidate_id cs) \<Longrightarrow>
   candidate_of i (fold merge_candidate cs xs) =
     (case candidate_of i cs of
        None \<Rightarrow> candidate_of i xs
      | Some c \<Rightarrow> Some (case candidate_of i xs of None \<Rightarrow> c | Some e \<Rightarrow> keep_samples e c))"
proof (induction cs arbitrary: xs)
  case (Cons c cs)
  show ?case
  proof (cases "i = ca_candidate_id c")
    case True
    with Cons.prems have "candidate_of i cs = None" by (auto simp: candidate_of_None)
    with Cons True show ?thesis by (simp add: candidate_of_merge)
  next
    case False
    with Cons show ?thesis by (cases "candidate_of i cs") (simp_all add: candidate_of_merge)
  qed
qed simp

lemma candidate_of_filter:
  "candidate_of i (filter (\<lambda>c. ca_candidate_id c \<in> A) xs) = (if i \<in> A then candidate_of i xs else None)"
  by (induction xs) auto

definition restarts :: "runtime_epoch option \<Rightarrow> connectivity_attempt \<Rightarrow> bool" where
  "restarts epoch a \<longleftrightarrow> (case epoch of None \<Rightarrow> False | Some e \<Rightarrow> at_remote_runtime_epoch a \<noteq> Some e)"

lemma advance_remote_Some:
  assumes "advance_remote epoch revision a = Some b"
  shows "at_remote_candidates b = (if restarts epoch a then [] else at_remote_candidates a)"
    "at_remote_discovery_revision b = Some revision"
    "at_remote_runtime_epoch b = (case epoch of None \<Rightarrow> at_remote_runtime_epoch a | Some e \<Rightarrow> Some e)"
    "at_state b = at_state a" "at_attempt_id b = at_attempt_id a"
    "\<not> restarts epoch a \<Longrightarrow> at_remote_discovery_revision a = Some r \<Longrightarrow> r \<le> revision"
  using assms
  by (auto simp: advance_remote_def restarts_def Let_def split: option.splits if_splits)

lemma apply_remote_cases:
  assumes "apply_remote_unchecked epoch revision cs a = (r, b)"
  shows "(r \<noteq> Inr True \<and> b = a) \<or>
    (r = Inr True \<and> length cs \<le> MAX_CANDIDATES_PER_SIGNAL \<and> distinct (map ca_candidate_id cs) \<and>
     (\<exists>a'. advance_remote epoch revision a = Some a' \<and>
        b = a'\<lparr>at_remote_candidates := fold merge_candidate cs
              (filter (\<lambda>c. ca_candidate_id c \<in> set (map ca_candidate_id cs)) (at_remote_candidates a'))\<rparr>))"
  using assms by (auto simp: apply_remote_unchecked_def Let_def split: if_splits option.splits)

text \<open>
  An accepted update replaces the remote candidates exactly.  Afterwards the attempt knows
  a candidate id precisely if the update names it, with the data of the update; quality
  samples of a candidate known before are kept, unless the update comes from another runtime
  epoch than the one known, which discards them.  The attempt's epoch and revision are those of
  the update, and within one epoch the revision never decreases.
\<close>

theorem attempt_update_exact:
  assumes "apply_remote_unchecked epoch revision cs a = (Inr True, b)"
  shows "(\<forall>i. candidate_of i (at_remote_candidates b) =
            (case candidate_of i cs of
               None \<Rightarrow> None
             | Some c \<Rightarrow> Some (case candidate_of i (if restarts epoch a then [] else at_remote_candidates a) of
                            None \<Rightarrow> c | Some e \<Rightarrow> keep_samples e c)))
    \<and> at_remote_discovery_revision b = Some revision
    \<and> at_remote_runtime_epoch b = (case epoch of None \<Rightarrow> at_remote_runtime_epoch a | Some e \<Rightarrow> Some e)
    \<and> (restarts epoch a \<or> (case at_remote_discovery_revision a of None \<Rightarrow> True | Some r \<Rightarrow> r \<le> revision))"
proof -
  from apply_remote_cases [OF assms] obtain a' where a': "distinct (map ca_candidate_id cs)"
    "advance_remote epoch revision a = Some a'"
    "b = a'\<lparr>at_remote_candidates := fold merge_candidate cs
              (filter (\<lambda>c. ca_candidate_id c \<in> set (map ca_candidate_id cs)) (at_remote_candidates a'))\<rparr>"
    by blast
  note adv = advance_remote_Some [OF a'(2)]
  have "candidate_of i (at_remote_candidates b) =
      (case candidate_of i cs of
         None \<Rightarrow> None
       | Some c \<Rightarrow> Some (case candidate_of i (at_remote_candidates a') of None \<Rightarrow> c | Some e \<Rightarrow> keep_samples e c))" for i
  proof (cases "candidate_of i cs")
    case None
    then have "i \<notin> set (map ca_candidate_id cs)" by (simp add: candidate_of_None)
    with None show ?thesis
      by (simp add: a'(3) candidate_of_fold_merge [OF a'(1)] candidate_of_filter del: set_map find_None_iff find_None_iff2)
  next
    case (Some c)
    then have "i \<in> set (map ca_candidate_id cs)" by (metis candidate_of_None option.discI set_map)
    with Some show ?thesis
      by (simp add: a'(3) candidate_of_fold_merge [OF a'(1)] candidate_of_filter del: set_map)
  qed
  with adv show ?thesis
    by (auto simp: a'(3) split: option.splits)
qed

definition sample_candidate :: candidate where
  "sample_candidate = candidate_new (SocketV4 3232235777 4433) Lan ''wlan0''"

definition sample_attempt :: connectivity_attempt where
  "sample_attempt = (attempt_new ''attempt'' ''peer'' (sample_epoch 9) 0 (Some 4000))
     \<lparr>at_remote_runtime_epoch := Some (sample_epoch 1), at_remote_discovery_revision := Some 3,
      at_remote_candidates := [sample_candidate\<lparr>ca_sample_count := 2, ca_rtt_ms := 30\<rparr>]\<rparr>"

theorem attempt_update_exact_witness:
  "\<exists>b. apply_remote_unchecked (Some (sample_epoch 1)) 4 [sample_candidate\<lparr>ca_priority := 7\<rparr>] sample_attempt = (Inr True, b)
     \<and> candidate_of (ca_candidate_id sample_candidate) (at_remote_candidates b) =
         Some (sample_candidate\<lparr>ca_priority := 7, ca_sample_count := 2, ca_rtt_ms := 30\<rparr>)"
proof -
  obtain b where b: "apply_remote_unchecked (Some (sample_epoch 1)) 4 [sample_candidate\<lparr>ca_priority := 7\<rparr>]
      sample_attempt = (Inr True, b)"
    by (simp add: apply_remote_unchecked_def advance_remote_def sample_attempt_def attempt_new_def
        MAX_CANDIDATES_PER_SIGNAL_def Let_def)
  from attempt_update_exact [OF b]
  have "candidate_of (ca_candidate_id sample_candidate) (at_remote_candidates b) =
      Some (keep_samples (sample_candidate\<lparr>ca_sample_count := 2, ca_rtt_ms := 30\<rparr>) (sample_candidate\<lparr>ca_priority := 7\<rparr>))"
    by (simp add: sample_attempt_def attempt_new_def restarts_def)
  moreover have "keep_samples (sample_candidate\<lparr>ca_sample_count := 2, ca_rtt_ms := 30\<rparr>) (sample_candidate\<lparr>ca_priority := 7\<rparr>)
      = sample_candidate\<lparr>ca_priority := 7, ca_sample_count := 2, ca_rtt_ms := 30\<rparr>"
    by (simp add: keep_samples_def sample_candidate_def candidate_new_def)
  ultimately show ?thesis using b by auto
qed

section \<open>Lifecycle of an attempt\<close>

datatype attempt_event =
    SetState attempt_state
  | RemoteCandidates instant "runtime_epoch option" u64 "candidate list"
  | SignalAt candidate_signal instant

fun attempt_step :: "attempt_event \<Rightarrow> connectivity_attempt \<Rightarrow> connectivity_attempt" where
  "attempt_step (SetState state) a = snd (set_state state a)"
| "attempt_step (RemoteCandidates now epoch revision cs) a = snd (apply_remote_candidates now epoch revision cs a)"
| "attempt_step (SignalAt s now) a = snd (apply_signal_with_deadline s now a)"

definition attempt_inv :: "connectivity_attempt \<Rightarrow> bool" where
  "attempt_inv a \<longleftrightarrow> distinct (map ca_candidate_id (at_remote_candidates a)) \<and> length (at_remote_candidates a) \<le> 32"

lemma apply_remote_inv:
  assumes "attempt_inv a" "apply_remote_unchecked epoch revision cs a = (r, b)"
  shows "attempt_inv b"
proof (cases "b = a")
  case False
  with apply_remote_cases [OF assms(2)] obtain a' where a': "advance_remote epoch revision a = Some a'"
    "length cs \<le> 32" "distinct (map ca_candidate_id cs)"
    "at_remote_candidates b = fold merge_candidate cs
       (filter (\<lambda>c. ca_candidate_id c \<in> set (map ca_candidate_id cs)) (at_remote_candidates a'))"
    by (auto simp: MAX_CANDIDATES_PER_SIGNAL_def)
  have "distinct (map ca_candidate_id (at_remote_candidates a'))"
    using advance_remote_Some(1) [OF a'(1)] assms(1) by (simp add: attempt_inv_def)
  then have d: "distinct (map ca_candidate_id (at_remote_candidates b))"
    unfolding a'(4) by (intro fold_merge_ids(2) distinct_map_filter)
  have "set (map ca_candidate_id (at_remote_candidates b)) = set (map ca_candidate_id cs)"
    unfolding a'(4) fold_merge_ids(1) by auto
  then have "length (map ca_candidate_id (at_remote_candidates b)) = length (map ca_candidate_id cs)"
    by (metis d a'(3) distinct_card)
  with d a'(2) show ?thesis by (simp add: attempt_inv_def)
qed (use assms in simp)

lemma apply_signal_inv:
  assumes "attempt_inv a" "apply_signal_unchecked s a = (r, b)"
  shows "attempt_inv b"
proof -
  consider "b = a" | epoch revision cs where "apply_remote_unchecked epoch revision cs a = (r, b)"
    using assms(2) by (auto simp: apply_signal_unchecked_def split: sum.splits if_splits)
  then show ?thesis using apply_remote_inv [OF assms(1)] assms(1) by cases auto
qed

lemma attempt_step_inv: "attempt_inv a \<Longrightarrow> attempt_inv (attempt_step e a)"
proof (cases e)
  case (SignalAt s now)
  assume inv: "attempt_inv a"
  obtain r b where b: "apply_signal_unchecked s a = (r, b)" by (cases "apply_signal_unchecked s a")
  note apply_signal_inv [OF inv b]
  with inv b SignalAt show ?thesis
    by (cases r) (auto simp: apply_signal_with_deadline_def split: bool.splits)
next
  case (RemoteCandidates now epoch revision cs)
  assume inv: "attempt_inv a"
  obtain r b where b: "apply_remote_unchecked epoch revision cs a = (r, b)"
    by (cases "apply_remote_unchecked epoch revision cs a")
  with inv RemoteCandidates apply_remote_inv [OF inv b] show ?thesis by (simp add: apply_remote_candidates_def)
qed (auto simp: set_state_def attempt_inv_def)

interpretation attempt: invariant_system attempt_step attempt_inv
  by unfold_locales (rule attempt_step_inv)

lemma terminal_step: "is_terminal (at_state a) \<Longrightarrow> attempt_step e a = a"
  by (cases e) (simp_all add: set_state_def apply_remote_candidates_def apply_signal_with_deadline_def)

interpretation finished: absorbing_system attempt_step attempt_inv "\<lambda>a. is_terminal (at_state a) \<and> a = b" for b
  by unfold_locales (auto simp: terminal_step)

text \<open>
  An attempt is one-shot.  Whatever states are set and whatever updates and signals arrive,
  its remote candidates have distinct ids and number at most thirty-two, and once it has
  succeeded, failed or expired nothing changes it any more.
\<close>

theorem attempt_is_one_shot:
  assumes "a = fold attempt_step es (attempt_new attempt_id peer_id epoch started_at deadline)"
  shows "distinct (map ca_candidate_id (at_remote_candidates a)) \<and> length (at_remote_candidates a) \<le> 32
    \<and> (is_terminal (at_state a) \<longrightarrow> fold attempt_step es' a = a)"
proof -
  have "attempt_inv (attempt_new attempt_id peer_id epoch started_at deadline)"
    by (simp add: attempt_inv_def attempt_new_def)
  then have inv: "attempt_inv a" unfolding assms by (rule attempt.run_inv)
  moreover have "is_terminal (at_state a) \<Longrightarrow> fold attempt_step es' a = a"
    using finished.run_final [OF inv, of a es'] by simp
  ultimately show ?thesis by (simp add: attempt_inv_def)
qed

theorem attempt_is_one_shot_witness:
  "fold attempt_step [RemoteCandidates 20 None 7 [sample_candidate], SetState Connecting]
     (fold attempt_step [SetState Expired] (attempt_new ''a'' ''p'' (sample_epoch 1) 0 None))
   = (attempt_new ''a'' ''p'' (sample_epoch 1) 0 None)\<lparr>at_state := Expired\<rparr>"
proof -
  have e: "fold attempt_step [SetState Expired] (attempt_new ''a'' ''p'' (sample_epoch 1) 0 None)
      = (attempt_new ''a'' ''p'' (sample_epoch 1) 0 None)\<lparr>at_state := Expired\<rparr>"
    by (simp add: set_state_def attempt_new_def is_terminal_def)
  from attempt_is_one_shot [OF e [symmetric], of "[RemoteCandidates 20 None 7 [sample_candidate], SetState Connecting]"]
  show ?thesis unfolding e by (simp add: is_terminal_def)
qed

end
