(* ===== verification/Nat_Stun.thy ===== *)
theory Nat_Stun
  imports Nat_Attempt
begin

text \<open>
  Server-reflexive addresses (\<open>network-nat/src/stun.rs\<close>): the binding request, the checks on
  the reply and the parser of the XOR-MAPPED-ADDRESS attribute.  What the socket does is an
  argument: whether the request could be sent, and the datagram that arrived in time, if any.
  Reads outside a packet abort the program; the parser returns \<open>None\<close> for that, and
  \<open>Some\<close> of the result otherwise.
\<close>

unbundle bit_operations_syntax

section \<open>Definitions\<close>

definition STUN_MAGIC_COOKIE :: u32 where "STUN_MAGIC_COOKIE = 0x2112A442"
definition BINDING_REQUEST_TYPE :: u16 where "BINDING_REQUEST_TYPE = 1"

definition STUN_SRFLX_TRANSPORTS :: "candidate_transport list" where
  "STUN_SRFLX_TRANSPORTS = [TQuic, TUdpDatagram]"

text \<open>Indexing a packet: outside its bounds the program panics.\<close>

definition bytes_at :: "byte list \<Rightarrow> nat \<Rightarrow> nat \<Rightarrow> byte list option" where
  "bytes_at packet i n = (if i + n \<le> length packet then Some (take n (drop i packet)) else None)"

definition port_mask :: u16 where "port_mask = ucast (drop_bit 16 STUN_MAGIC_COOKIE)"

definition read_mapped_v4 :: "byte list \<Rightarrow> nat \<Rightarrow> u16 \<Rightarrow> socket_addr option option" where
  "read_mapped_v4 packet value_start port =
     (case bytes_at packet (value_start + 4) 4 of
        None \<Rightarrow> None
      | Some x_ip \<Rightarrow> Some (Some (SocketV4 (u32_from_be x_ip XOR STUN_MAGIC_COOKIE) port)))"

definition read_mapped_v6 :: "byte list \<Rightarrow> byte list \<Rightarrow> nat \<Rightarrow> u16 \<Rightarrow> socket_addr option option" where
  "read_mapped_v6 packet transaction_id value_start port =
     (case bytes_at packet (value_start + 4) 16 of
        None \<Rightarrow> None
      | Some bytes \<Rightarrow>
          (let xor_key = u32_be STUN_MAGIC_COOKIE @ transaction_id;
               address = map2 (XOR) bytes xor_key
           in Some (Some (SocketV6 (of_nat (from_be address)) port 0 0))))"

text \<open>The attribute at one position: an address, the end of the search, or the position to go on from.\<close>

datatype attr_step = Found socket_addr | Stop | Continue nat

definition read_attr :: "byte list \<Rightarrow> byte list \<Rightarrow> nat \<Rightarrow> attr_step option" where
  "read_attr packet transaction_id pos =
     (case (bytes_at packet pos 2, bytes_at packet (pos + 2) 2) of
        (Some t, Some l) \<Rightarrow>
          (let attr_type = u16_from_be t; attr_len = unat (u16_from_be l);
               value_start = pos + 4; value_end = value_start + attr_len;
               continue = Continue (value_end + (4 - attr_len mod 4) mod 4)
           in if value_end > length packet then Some Stop
              else if attr_type = 0x20 \<and> attr_len \<ge> 8 then
                (case (bytes_at packet (value_start + 1) 1, bytes_at packet (value_start + 2) 2) of
                   (Some f, Some x_port) \<Rightarrow>
                     (let family = hd f; port = u16_from_be x_port XOR port_mask
                      in if family = 1 \<and> attr_len \<ge> 8
                         then map_option (\<lambda>r. case r of Some a \<Rightarrow> Found a | None \<Rightarrow> Stop) (read_mapped_v4 packet value_start port)
                         else if family = 2 \<and> attr_len \<ge> 20
                         then map_option (\<lambda>r. case r of Some a \<Rightarrow> Found a | None \<Rightarrow> Stop)
                                (read_mapped_v6 packet transaction_id value_start port)
                         else Some continue)
                 | _ \<Rightarrow> None)
              else Some continue)
      | _ \<Rightarrow> None)"

lemma read_attr_progress: "read_attr packet transaction_id pos = Some (Continue p) \<Longrightarrow> pos + 4 \<le> p"
  by (auto simp: read_attr_def Let_def read_mapped_v4_def read_mapped_v6_def split: option.splits if_splits)

function parse_attrs :: "byte list \<Rightarrow> byte list \<Rightarrow> nat \<Rightarrow> socket_addr option option" where
  "parse_attrs packet transaction_id pos =
     (if pos + 4 \<le> length packet then
        (case read_attr packet transaction_id pos of
           None \<Rightarrow> None
         | Some (Found a) \<Rightarrow> Some (Some a)
         | Some Stop \<Rightarrow> Some None
         | Some (Continue p) \<Rightarrow> parse_attrs packet transaction_id p)
      else Some None)"
  by auto
termination
  by (relation "measure (\<lambda>(packet, _, pos). length packet - pos)") (auto dest!: read_attr_progress)

definition parse_xor_mapped_address :: "byte list \<Rightarrow> byte list \<Rightarrow> socket_addr option option" where
  "parse_xor_mapped_address packet transaction_id =
     (if length packet < 20 then Some None
      else case (bytes_at packet 4 4, bytes_at packet 8 12) of
        (Some cookie, Some txid) \<Rightarrow>
          if u32_from_be cookie \<noteq> STUN_MAGIC_COOKIE \<or> txid \<noteq> transaction_id then Some None
          else parse_attrs packet transaction_id 20
      | _ \<Rightarrow> None)"

definition binding_request :: "byte list \<Rightarrow> byte list" where
  "binding_request transaction_id =
     u16_be BINDING_REQUEST_TYPE @ u16_be 0 @ u32_be STUN_MAGIC_COOKIE @ transaction_id"

definition query_stun ::
  "byte list \<Rightarrow> socket_addr \<Rightarrow> bool \<Rightarrow> (byte list \<times> socket_addr) option \<Rightarrow> candidate option option" where
  "query_stun transaction_id stun_server sent received =
     (if \<not> sent then Some None
      else case received of
        None \<Rightarrow> Some None
      | Some (datagram, source) \<Rightarrow>
          (let buf = take 512 datagram
           in if source \<noteq> stun_server \<or> length buf < 20 then Some None
              else case (bytes_at buf 0 2, bytes_at buf 4 4, bytes_at buf 8 12) of
                (Some t, Some cookie, Some txid) \<Rightarrow>
                  if u16_from_be t \<noteq> 0x0101 \<or> u32_from_be cookie \<noteq> STUN_MAGIC_COOKIE \<or> txid \<noteq> transaction_id
                  then Some None
                  else map_option (map_option (\<lambda>endpoint. candidate_new endpoint ServerReflexive ''stun''))
                         (parse_xor_mapped_address buf transaction_id)
              | _ \<Rightarrow> None))"

definition query_stun_v2 ::
  "byte list \<Rightarrow> socket_addr \<Rightarrow> bool \<Rightarrow> (byte list \<times> socket_addr) option \<Rightarrow> u64 \<Rightarrow> candidate_payload option option" where
  "query_stun_v2 transaction_id stun_server sent received generation =
     (if generation = 0 then Some None
      else case query_stun transaction_id stun_server sent received of
        None \<Rightarrow> None
      | Some None \<Rightarrow> Some None
      | Some (Some c) \<Rightarrow>
          (let payload = payload_from_candidate (with_generation generation c) STUN_SRFLX_TRANSPORTS
           in case validate_payload payload of Inl _ \<Rightarrow> Some None | Inr _ \<Rightarrow> Some (Some payload)))"

section \<open>No read leaves the packet\<close>

lemma bytes_at_in_range: "i + n \<le> length packet \<Longrightarrow> bytes_at packet i n = Some (take n (drop i packet))"
  by (simp add: bytes_at_def)

lemma read_attr_no_panic: "pos + 4 \<le> length packet \<Longrightarrow> read_attr packet transaction_id pos \<noteq> None"
  by (auto simp: read_attr_def bytes_at_in_range read_mapped_v4_def read_mapped_v6_def Let_def)

lemma parse_attrs_no_panic: "parse_attrs packet transaction_id pos \<noteq> None"
proof (induction packet transaction_id pos rule: parse_attrs.induct)
  case (1 packet transaction_id pos)
  show ?case
  proof (cases "pos + 4 \<le> length packet")
    case True
    from read_attr_no_panic [OF True, of transaction_id] obtain r where r: "read_attr packet transaction_id pos = Some r" by auto
    show ?thesis
      using 1 [OF True r] True r
      by (subst parse_attrs.simps) (cases r; simp del: parse_attrs.simps)
  qed (subst parse_attrs.simps, simp)
qed

lemma parse_no_panic: "parse_xor_mapped_address packet transaction_id \<noteq> None"
  using parse_attrs_no_panic [of packet transaction_id 20]
  by (auto simp: parse_xor_mapped_address_def bytes_at_in_range simp del: parse_attrs.simps)

text \<open>What a datagram must be to answer a request.\<close>

definition reply_to :: "byte list \<Rightarrow> socket_addr \<Rightarrow> byte list \<times> socket_addr \<Rightarrow> bool" where
  "reply_to transaction_id server r \<longleftrightarrow>
     (case r of (datagram, source) \<Rightarrow> source = server \<and> 20 \<le> length datagram \<and> take 2 datagram = u16_be 0x0101
        \<and> take 4 (drop 4 datagram) = u32_be STUN_MAGIC_COOKIE \<and> take 12 (drop 8 datagram) = transaction_id)"

lemma query_stun_eq:
  "query_stun transaction_id server sent received =
     (case received of
        None \<Rightarrow> Some None
      | Some r \<Rightarrow>
          if sent \<and> reply_to transaction_id server r
          then map_option (map_option (\<lambda>endpoint. candidate_new endpoint ServerReflexive ''stun''))
                 (parse_xor_mapped_address (take 512 (fst r)) transaction_id)
          else Some None)"
proof (cases received)
  case (Some r)
  obtain datagram source where r: "r = (datagram, source)" by (cases r)
  show ?thesis
  proof (cases "20 \<le> length datagram")
    case True
    let ?buf = "take 512 datagram"
    have b: "bytes_at ?buf 0 2 = Some (take 2 datagram)" "bytes_at ?buf 4 4 = Some (take 4 (drop 4 datagram))"
      "bytes_at ?buf 8 12 = Some (take 12 (drop 8 datagram))"
      using True by (simp_all add: bytes_at_def drop_take)
    have "u32_from_be (take 4 (drop 4 datagram)) = STUN_MAGIC_COOKIE \<longleftrightarrow> take 4 (drop 4 datagram) = u32_be STUN_MAGIC_COOKIE"
      "u16_from_be (take 2 datagram) = 0x0101 \<longleftrightarrow> take 2 datagram = u16_be 0x0101"
      using True u32_from_be_inverse [of "take 4 (drop 4 datagram)"] u16_from_be_inverse [of "take 2 datagram"] by auto
    moreover have "\<not> min (length datagram) 512 < 20" using True by simp
    ultimately show ?thesis
      using True by (simp add: query_stun_def Some r Let_def b reply_to_def)
  qed (simp add: query_stun_def Some r Let_def reply_to_def)
qed (simp add: query_stun_def)

text \<open>
  C34. The STUN client is robust against any datagram.  Whatever arrives, from whomever, the
  parser stays within the packet and ends, and a candidate is only produced for a reply of
  the queried server that carries the cookie and the transaction id of the request; as a
  payload it is valid, server-reflexive, of the requested generation, and restricted to QUIC
  and UDP datagrams.
\<close>

theorem stun_client_robust:
  "case query_stun_v2 transaction_id server sent received generation of
     None \<Rightarrow> False
   | Some None \<Rightarrow> True
   | Some (Some payload) \<Rightarrow>
       payload_ok payload \<and> cv_kind payload = ServerReflexive \<and> cv_generation payload = generation
       \<and> cv_transports payload = [TQuic, TUdpDatagram] \<and> sent
       \<and> (case received of
            None \<Rightarrow> False
          | Some r \<Rightarrow> reply_to transaction_id server r
              \<and> parse_xor_mapped_address (take 512 (fst r)) transaction_id = Some (Some (cv_endpoint payload)))"
proof (cases "\<exists>r a. sent \<and> received = Some r \<and> reply_to transaction_id server r
      \<and> parse_xor_mapped_address (take 512 (fst r)) transaction_id = Some (Some a)")
  case True
  then obtain r a where "sent" "received = Some r" "reply_to transaction_id server r"
    "parse_xor_mapped_address (take 512 (fst r)) transaction_id = Some (Some a)" by blast
  then show ?thesis
    by (simp add: query_stun_v2_def query_stun_eq payload_ok_def payload_from_candidate_def with_generation_def
        candidate_new_def STUN_SRFLX_TRANSPORTS_def Let_def split: sum.splits)
next
  case False
  have "parse_xor_mapped_address p transaction_id = Some None"
    if "\<forall>a. parse_xor_mapped_address p transaction_id \<noteq> Some (Some a)" for p
    using that parse_no_panic [of p transaction_id] by (metis not_None_eq)
  with False have "query_stun transaction_id server sent received = Some None"
    by (auto simp: query_stun_eq split: option.splits)
  then show ?thesis by (simp add: query_stun_v2_def)
qed

section \<open>Replies of a server\<close>

text \<open>
  The encoding RFC 5389 prescribes for a binding response: typed attributes padded to four
  bytes, and the mapped address masked with the cookie and the transaction id.
\<close>

definition stun_attr :: "u16 \<times> byte list \<Rightarrow> byte list" where
  "stun_attr a = u16_be (fst a) @ u16_be (of_nat (length (snd a))) @ snd a
     @ replicate ((4 - length (snd a) mod 4) mod 4) 0"

fun xor_mapped_value :: "byte list \<Rightarrow> socket_addr \<Rightarrow> byte list" where
  "xor_mapped_value transaction_id (SocketV4 ip port) =
     [0, 1] @ u16_be (port XOR port_mask) @ u32_be (ip XOR STUN_MAGIC_COOKIE)"
| "xor_mapped_value transaction_id (SocketV6 ip port _ _) =
     [0, 2] @ u16_be (port XOR port_mask)
     @ map2 (XOR) (to_be 16 (unat ip)) (u32_be STUN_MAGIC_COOKIE @ transaction_id)"

definition binding_response :: "byte list \<Rightarrow> (u16 \<times> byte list) list \<Rightarrow> byte list" where
  "binding_response transaction_id attrs =
     (let body = concat (map stun_attr attrs)
      in u16_be 0x0101 @ u16_be (of_nat (length body)) @ u32_be STUN_MAGIC_COOKIE @ transaction_id @ body)"

text \<open>The wire carries neither the flow information nor the scope of an IPv6 address.\<close>

fun on_wire :: "socket_addr \<Rightarrow> socket_addr" where
  "on_wire (SocketV4 ip port) = SocketV4 ip port"
| "on_wire (SocketV6 ip port _ _) = SocketV6 ip port 0 0"

lemma bytes_at_stun_attr:
  fixes pre v rest :: "byte list"
  shows "bytes_at (pre @ stun_attr (t, v) @ rest) (length pre) 2 = Some (u16_be t)"
    "bytes_at (pre @ stun_attr (t, v) @ rest) (length pre + 2) 2 = Some (u16_be (of_nat (length v)))"
    "i + n \<le> length v \<Longrightarrow> bytes_at (pre @ stun_attr (t, v) @ rest) (length pre + 4 + i) n = Some (take n (drop i v))"
  by (simp_all add: bytes_at_def stun_attr_def)

lemma unat_u16_of_nat: "n < 65536 \<Longrightarrow> unat (of_nat n :: u16) = n"
  by (simp add: unat_of_nat)

lemma read_attr_skip:
  assumes "length v < 65536" "t \<noteq> 0x20"
  shows "read_attr (pre @ stun_attr (t, v) @ rest) transaction_id (length pre) = Some (Continue (length (pre @ stun_attr (t, v))))"
  using assms
  by (simp add: read_attr_def Let_def bytes_at_stun_attr(1,2) unat_u16_of_nat del: add_2_eq_Suc')
    (simp add: stun_attr_def)

lemma xor_cancel: "(a XOR b) XOR b = (a :: 'a::len word)"
  by (simp add: xor.assoc)

lemma map2_xor_cancel: "length a = length b \<Longrightarrow> map2 (XOR) (map2 (XOR) a b) b = (a :: byte list)"
  by (induction a b rule: list_induct2) (simp_all add: xor_cancel)

lemma read_attr_mapped:
  assumes "length transaction_id = 12"
  shows "read_attr (pre @ stun_attr (0x20, xor_mapped_value transaction_id a) @ rest) transaction_id (length pre) = Some (Found (on_wire a))"
proof (cases a)
  case (SocketV4 ip port)
  define v where "v = xor_mapped_value transaction_id a"
  have v: "length v = 8" "take 1 (drop 1 v) = [1]" "take 2 (drop 2 v) = u16_be (port XOR port_mask)"
    "take 4 (drop 4 v) = u32_be (ip XOR STUN_MAGIC_COOKIE)"
    by (simp_all add: v_def SocketV4)
  note s = bytes_at_stun_attr [where pre = pre and t = "0x20" and v = v and rest = rest]
  have "bytes_at (pre @ stun_attr (0x20, v) @ rest) (length pre + 4 + 1) 1 = Some [1]"
    "bytes_at (pre @ stun_attr (0x20, v) @ rest) (length pre + 4 + 2) 2 = Some (u16_be (port XOR port_mask))"
    "bytes_at (pre @ stun_attr (0x20, v) @ rest) (length pre + 4 + 4) 4 = Some (u32_be (ip XOR STUN_MAGIC_COOKIE))"
    using s(3) [where i = 1 and n = 1] s(3) [where i = 2 and n = 2] s(3) [where i = 4 and n = 4] v by simp_all
  with s(1,2) v(1) show ?thesis unfolding v_def [symmetric]
    by (simp add: read_attr_def read_mapped_v4_def Let_def stun_attr_def xor_cancel SocketV4 del: add_2_eq_Suc' One_nat_def)
next
  case (SocketV6 ip port flowinfo scope)
  define key where "key = u32_be STUN_MAGIC_COOKIE @ transaction_id"
  define v where "v = xor_mapped_value transaction_id a"
  have key: "length key = 16" using assms by (simp add: key_def)
  have v: "length v = 20" "take 1 (drop 1 v) = [2]" "take 2 (drop 2 v) = u16_be (port XOR port_mask)"
    "take 16 (drop 4 v) = map2 (XOR) (to_be 16 (unat ip)) key"
    by (simp_all add: v_def SocketV6 key flip: key_def)
  note s = bytes_at_stun_attr [where pre = pre and t = "0x20" and v = v and rest = rest]
  have "bytes_at (pre @ stun_attr (0x20, v) @ rest) (length pre + 4 + 1) 1 = Some [2]"
    "bytes_at (pre @ stun_attr (0x20, v) @ rest) (length pre + 4 + 2) 2 = Some (u16_be (port XOR port_mask))"
    "bytes_at (pre @ stun_attr (0x20, v) @ rest) (length pre + 4 + 4) 16 = Some (map2 (XOR) (to_be 16 (unat ip)) key)"
    using s(3) [where i = 1 and n = 1] s(3) [where i = 2 and n = 2] s(3) [where i = 4 and n = 16] v by simp_all
  moreover have "(of_nat (from_be (to_be 16 (unat ip))) :: 128 word) = ip"
    using unat_bound [of ip] by (simp add: from_be_to_be)
  ultimately show ?thesis using s(1,2) v(1) unfolding v_def [symmetric]
    by (simp add: read_attr_def read_mapped_v6_def Let_def stun_attr_def xor_cancel SocketV6 map2_xor_cancel key
        flip: key_def del: add_2_eq_Suc' One_nat_def)
qed

lemma parse_attrs_mapped:
  assumes "length transaction_id = 12" "list_all (\<lambda>(t, v). t \<noteq> 0x20 \<and> length v < 65536) before"
  shows "parse_attrs (pre @ concat (map stun_attr before) @ stun_attr (0x20, xor_mapped_value transaction_id a) @ rest)
      transaction_id (length pre) = Some (Some (on_wire a))"
  using assms(2)
proof (induction before arbitrary: pre)
  case Nil
  have "4 \<le> length (stun_attr (0x20, xor_mapped_value transaction_id a))" by (simp add: stun_attr_def)
  then show ?case
    using read_attr_mapped [OF assms(1), of pre a rest] by (subst parse_attrs.simps) (simp del: parse_attrs.simps)
next
  case (Cons b before)
  obtain t v where b: "b = (t, v)" by (cases b)
  let ?rest = "concat (map stun_attr before) @ stun_attr (0x20, xor_mapped_value transaction_id a) @ rest"
  have "read_attr (pre @ stun_attr (t, v) @ ?rest) transaction_id (length pre) = Some (Continue (length (pre @ stun_attr (t, v))))"
    using Cons.prems b by (intro read_attr_skip) auto
  moreover have "4 \<le> length (stun_attr (t, v))" by (simp add: stun_attr_def)
  moreover have "parse_attrs ((pre @ stun_attr (t, v)) @ ?rest) transaction_id (length (pre @ stun_attr (t, v))) = Some (Some (on_wire a))"
    using Cons.prems by (intro Cons.IH) auto
  ultimately show ?case
    by (subst parse_attrs.simps) (simp add: b del: parse_attrs.simps)
qed

text \<open>
  A well-formed reply is understood.  A binding response in the standard's encoding that
  fits the receive buffer and carries the mapped address, after any number of other
  attributes, yields the server-reflexive candidate with exactly that address and port, for
  IPv4 and IPv6.
\<close>

theorem stun_reply_understood:
  assumes "length transaction_id = 12" "list_all (\<lambda>(t, v). t \<noteq> 0x20 \<and> length v < 65536) before"
    and "reply = binding_response transaction_id (before @ (0x20, xor_mapped_value transaction_id a) # after)"
    and "length reply \<le> 512"
  shows "query_stun transaction_id server True (Some (reply, server)) =
    Some (Some (candidate_new (on_wire a) ServerReflexive ''stun''))"
proof -
  define pre where "pre = u16_be 0x0101 @ u16_be (of_nat (length (concat (map stun_attr (before @ (0x20, xor_mapped_value transaction_id a) # after)))))
      @ u32_be STUN_MAGIC_COOKIE @ transaction_id"
  have pre: "length pre = 20" using assms(1) by (simp add: pre_def)
  have reply: "reply = pre @ concat (map stun_attr before) @ stun_attr (0x20, xor_mapped_value transaction_id a)
      @ concat (map stun_attr after)"
    by (simp add: assms(3) binding_response_def Let_def pre_def)
  have fields: "take 2 reply = u16_be 0x0101" "take 4 (drop 4 reply) = u32_be STUN_MAGIC_COOKIE"
    "take 12 (drop 8 reply) = transaction_id"
    using assms(1) by (simp_all add: reply pre_def)
  have len: "20 \<le> length reply" by (simp add: reply pre)
  have "parse_xor_mapped_address reply transaction_id = Some (Some (on_wire a))"
    using len fields parse_attrs_mapped [OF assms(1,2), of pre a "concat (map stun_attr after)"]
    by (simp add: parse_xor_mapped_address_def bytes_at_in_range pre del: parse_attrs.simps flip: reply)
  with len fields assms(4) show ?thesis
    by (simp add: query_stun_eq reply_to_def)
qed

definition sample_txid :: "byte list" where "sample_txid = replicate 12 7"

theorem stun_reply_understood_witness:
  "query_stun sample_txid (SocketV4 3405803781 3478) True
     (Some (binding_response sample_txid ([(0x8022, [1, 2, 3])] @ (0x20, xor_mapped_value sample_txid (SocketV4 3405803777 50000)) # []),
            SocketV4 3405803781 3478)) =
   Some (Some (candidate_new (SocketV4 3405803777 50000) ServerReflexive ''stun''))"
proof -
  have "length sample_txid = 12" "list_all (\<lambda>(t, v). t \<noteq> 0x20 \<and> length v < 65536) [(0x8022 :: u16, [1 :: byte, 2, 3])]"
    by (simp_all add: sample_txid_def)
  from stun_reply_understood [OF this refl, of "SocketV4 3405803777 50000" "[]" "SocketV4 3405803781 3478"]
  show ?thesis by (simp add: binding_response_def stun_attr_def sample_txid_def)
qed

end
