(* ===== verification/Candidate_Policy.thy ===== *)
theory Candidate_Policy
  imports Nat_Stun
begin

text \<open>
  How the runtime turns published discovery snapshots into direct-connection targets
  (\<open>network-core/src/connect/connectivity_attempt/candidate_snapshot_policy.rs\<close>,
  \<open>relay_control/cache.rs\<close>, \<open>candidate_kind_for\<close> of \<open>peer/direct_race.rs\<close>): the payloads
  of a snapshot, the table of remote candidate caches with its updates and invalidations,
  and the target list of the first connection stage.  Reading an advertisement from its JSON
  text is an argument (\<open>from_slice\<close>), as is the JSON text of a candidate list (\<open>to_vec\<close>).
\<close>

section \<open>Discovery snapshots\<close>

datatype transport_capability =
    CapUnspecified | CapQuic | CapTcp | CapUdpDatagram | CapWebsocket | CapWebrtc | CapRelayData

fun transport_capability_try_from :: "int \<Rightarrow> transport_capability option" where
  "transport_capability_try_from v =
     (if v = 0 then Some CapUnspecified else if v = 1 then Some CapQuic else if v = 2 then Some CapTcp
      else if v = 3 then Some CapUdpDatagram else if v = 4 then Some CapWebsocket
      else if v = 5 then Some CapWebrtc else if v = 6 then Some CapRelayData else None)"

record discovery_snapshot =
  ds_runtime_epoch :: "runtime_epoch option"
  ds_revision :: u32
  ds_transport_capabilities :: "int list"
  ds_candidate_bundle :: "byte list list option"
  ds_published_at_ms :: int

datatype resolved_peer =
    PeerReady "discovery_snapshot option"
  | PeerOffline
  | PeerNotReady u32
  | PeerUnknown

fun resolved_peer_snapshot :: "resolved_peer \<Rightarrow> discovery_snapshot option" where
  "resolved_peer_snapshot (PeerReady discovery) = discovery"
| "resolved_peer_snapshot _ = None"

definition resolved_runtime_epoch :: "resolved_peer \<Rightarrow> runtime_epoch option" where
  "resolved_runtime_epoch resolved =
     (case resolved of PeerReady (Some snapshot) \<Rightarrow> ds_runtime_epoch snapshot | _ \<Rightarrow> None)"

fun capability_transport :: "transport_capability \<Rightarrow> candidate_transport option" where
  "capability_transport CapQuic = Some TQuic"
| "capability_transport CapTcp = Some TTcp"
| "capability_transport CapUdpDatagram = Some TUdpDatagram"
| "capability_transport CapWebsocket = Some TWebsocket"
| "capability_transport CapRelayData = Some TRelay"
| "capability_transport CapUnspecified = None"
| "capability_transport CapWebrtc = None"

definition snapshot_candidate_transports :: "discovery_snapshot \<Rightarrow> candidate_transport list" where
  "snapshot_candidate_transports snapshot =
     List.map_filter capability_transport
       (List.map_filter transport_capability_try_from (ds_transport_capabilities snapshot))"

definition advertised_payload ::
  "candidate_transport list \<Rightarrow> candidate_advertisement \<Rightarrow> candidate_payload option" where
  "advertised_payload advertised_transports ad =
     (let transports = (case ad_kind ad of
            ServerReflexive \<Rightarrow> STUN_SRFLX_TRANSPORTS
          | RelayKind \<Rightarrow> [TRelay]
          | _ \<Rightarrow> filter (\<lambda>t. t \<noteq> TRelay) advertised_transports);
          transports = (if transports = [] \<and> advertised_transports = [] then [TQuic] else transports)
      in if transports = [] then None
         else (let candidate = \<lparr>cv_version = CANDIDATE_PAYLOAD_VERSION, cv_candidate_id = ad_candidate_id ad,
                 cv_endpoint = ad_endpoint ad, cv_kind = ad_kind ad, cv_transports = transports,
                 cv_priority = ad_priority ad, cv_interface = ad_interface ad, cv_generation = ad_generation ad\<rparr>
               in case validate_payload candidate of Inl _ \<Rightarrow> None | Inr _ \<Rightarrow> Some candidate))"

definition snapshot_candidate_payloads ::
  "(byte list \<Rightarrow> candidate_advertisement option) \<Rightarrow> discovery_snapshot \<Rightarrow> candidate_payload list" where
  "snapshot_candidate_payloads from_slice snapshot =
     (let advertised_transports = snapshot_candidate_transports snapshot;
          bundle = (case ds_candidate_bundle snapshot of None \<Rightarrow> [] | Some b \<Rightarrow> b)
      in take MAX_CANDIDATE_PAYLOAD_ENTRIES
           (List.map_filter (advertised_payload advertised_transports) (List.map_filter from_slice bundle)))"

section \<open>Targets\<close>

definition candidate_from_v2 :: "candidate_payload \<Rightarrow> candidate option" where
  "candidate_from_v2 c =
     (if \<not> is_direct_probe_eligible c then None
      else Some ((candidate_new (cv_endpoint c) (cv_kind c) (cv_interface c))
        \<lparr>ca_candidate_id := cv_candidate_id c, ca_priority := cv_priority c, ca_generation := cv_generation c\<rparr>))"

definition candidate_order :: "candidate \<Rightarrow> nat" where
  "candidate_order c =
     (if ca_interface_name c = ''peer-configured'' then 3
      else case ca_kind c of Lan \<Rightarrow> 0 | PublicIpv6 \<Rightarrow> 1 | ServerReflexive \<Rightarrow> 2 | PortMapped \<Rightarrow> 4 | RelayKind \<Rightarrow> 5)"

text \<open>The targets are ordered by their class, then by descending priority, then by id.\<close>

definition target_key :: "candidate \<Rightarrow> nat list list" where
  "target_key c = [[candidate_order c], [2 ^ 32 - unat (ca_priority c)], text_key (ca_candidate_id c)]"

fun is_lan_v4 :: "u32 \<Rightarrow> bool" where
  "is_lan_v4 ip \<longleftrightarrow>
     (let a = unat ip div 2 ^ 24; b = unat ip div 2 ^ 16 mod 256
      in a = 10 \<or> (a = 172 \<and> 16 \<le> b \<and> b \<le> 31) \<or> (a = 192 \<and> b = 168)
         \<or> a = 127
         \<or> (a = 169 \<and> b = 254))"

fun candidate_kind_for :: "socket_addr \<Rightarrow> candidate_kind" where
  "candidate_kind_for (SocketV4 ip _) = (if is_lan_v4 ip then Lan else ServerReflexive)"
| "candidate_kind_for (SocketV6 ip _ _ _) =
     (if ip \<noteq> 1 \<and> unat ip div 2 ^ 118 \<noteq> 0x3FA then PublicIpv6 else ServerReflexive)"

definition append_configured_endpoint :: "socket_addr option \<Rightarrow> candidate list \<Rightarrow> candidate list" where
  "append_configured_endpoint configured candidates =
     (case configured of
        None \<Rightarrow> candidates
      | Some endpoint \<Rightarrow>
          if \<not> list_ex (\<lambda>c. ca_endpoint c = endpoint) candidates
          then candidates @ [candidate_new endpoint (candidate_kind_for endpoint) ''peer-configured'']
          else candidates)"

definition stage_a_direct_candidates ::
  "candidate_cache option \<Rightarrow> socket_addr option \<Rightarrow> instant \<Rightarrow> candidate list \<times> runtime_epoch option" where
  "stage_a_direct_candidates cache configured now =
     (let (candidates, remote_epoch) =
            (case cache of
               None \<Rightarrow> ([], None)
             | Some cache \<Rightarrow>
                 (let fresh = stage_a_candidates_at now cache
                  in (List.map_filter candidate_from_v2 (case fresh of None \<Rightarrow> [] | Some cs \<Rightarrow> cs),
                      map_option (\<lambda>_. cc_runtime_epoch cache) fresh)));
          candidates = append_configured_endpoint configured candidates;
          candidates = filter (\<lambda>c. ca_kind c \<noteq> RelayKind) candidates
      in (sort_key target_key candidates, remote_epoch))"

definition discovery_snapshot_candidates ::
  "(byte list \<Rightarrow> candidate_advertisement option) \<Rightarrow> discovery_snapshot \<Rightarrow> candidate list" where
  "discovery_snapshot_candidates from_slice snapshot =
     List.map_filter candidate_from_v2 (snapshot_candidate_payloads from_slice snapshot)"

definition resolved_candidates ::
  "(byte list \<Rightarrow> candidate_advertisement option) \<Rightarrow> resolved_peer \<Rightarrow> socket_addr option \<Rightarrow> candidate list" where
  "resolved_candidates from_slice resolved configured =
     (let candidates = (case resolved_peer_snapshot resolved of
                          None \<Rightarrow> []
                        | Some snapshot \<Rightarrow> discovery_snapshot_candidates from_slice snapshot)
      in sort_key target_key (append_configured_endpoint configured candidates))"

section \<open>The table of remote candidate caches\<close>

type_synonym cache_table = "(string, candidate_cache) hmap"

definition update_remote_candidate_cache ::
  "(candidate_payload list \<Rightarrow> byte list option) \<Rightarrow> (byte list \<Rightarrow> candidate_advertisement option)
   \<Rightarrow> (runtime_epoch list \<Rightarrow> nat) \<Rightarrow> string \<Rightarrow> discovery_snapshot option \<Rightarrow> duration option \<Rightarrow> instant
   \<Rightarrow> cache_table \<Rightarrow> cache_table" where
  "update_remote_candidate_cache to_vec from_slice pick peer_id snapshot ready_presence_ttl learned_at caches =
     (case snapshot of
        None \<Rightarrow> caches
      | Some snapshot \<Rightarrow>
          (case ds_runtime_epoch snapshot of
             None \<Rightarrow> caches
           | Some epoch \<Rightarrow>
               (let sn = \<lparr>sn_runtime_epoch = epoch, sn_revision = ucast (ds_revision snapshot),
                      sn_candidates = snapshot_candidate_payloads from_slice snapshot,
                      sn_server_presence_ttl = ready_presence_ttl\<rparr>
                in case hm_get caches peer_id of
                     Some existing \<Rightarrow> hm_insert peer_id (snd (apply_snapshot to_vec pick sn learned_at existing)) caches
                   | None \<Rightarrow>
                       (case from_snapshot to_vec sn learned_at of
                          Inr value \<Rightarrow> hm_insert peer_id value caches
                        | Inl _ \<Rightarrow> caches))))"

definition clear_if_ready_ttl_changed ::
  "duration option \<Rightarrow> duration option \<Rightarrow> cache_table \<Rightarrow> cache_table" where
  "clear_if_ready_ttl_changed previous_ttl current_ttl caches = (if previous_ttl = current_ttl then caches else [])"

definition invalidate_for_epoch ::
  "(runtime_epoch list \<Rightarrow> nat) \<Rightarrow> string \<Rightarrow> runtime_epoch \<Rightarrow> instant \<Rightarrow> cache_table \<Rightarrow> cache_table" where
  "invalidate_for_epoch pick peer_id epoch now caches =
     (if re_high epoch = 0 \<and> re_low epoch = 0 then caches
      else case hm_get caches peer_id of
        None \<Rightarrow> caches
      | Some entry \<Rightarrow> hm_insert peer_id (snd (invalidate_for_remote_epoch pick epoch now entry)) caches)"

definition connectivity_offer_candidates ::
  "(byte list \<Rightarrow> candidate_advertisement option) \<Rightarrow> discovery_snapshot option \<Rightarrow> candidate list" where
  "connectivity_offer_candidates from_slice initiator_snapshot =
     (let bundle = (case initiator_snapshot of
                      None \<Rightarrow> []
                    | Some s \<Rightarrow> (case ds_candidate_bundle s of None \<Rightarrow> [] | Some b \<Rightarrow> b))
      in List.map_filter (\<lambda>ad. case from_advertisement ad of Inl _ \<Rightarrow> None | Inr c \<Rightarrow> Some c)
           (List.map_filter from_slice bundle))"

section \<open>Payloads of a snapshot\<close>

lemma advertised_payload_ok:
  assumes "advertised_payload ts ad = Some c"
  shows "payload_ok c" "cv_endpoint c = ad_endpoint ad" "cv_kind c = ad_kind ad"
  using assms by (auto simp: advertised_payload_def payload_ok_def Let_def split: if_splits sum.splits)

lemma snapshot_payloads_ok:
  "list_all payload_ok (snapshot_candidate_payloads from_slice snapshot)"
  "length (snapshot_candidate_payloads from_slice snapshot) \<le> 32"
proof -
  show "length (snapshot_candidate_payloads from_slice snapshot) \<le> 32"
    by (simp add: snapshot_candidate_payloads_def Let_def MAX_CANDIDATE_PAYLOAD_ENTRIES_def)
  have "payload_ok c" if "c \<in> set (List.map_filter (advertised_payload ts) ads)" for c ts ads
    using that advertised_payload_ok(1) by (auto simp: List.map_filter_def)
  then show "list_all payload_ok (snapshot_candidate_payloads from_slice snapshot)"
    by (auto simp: snapshot_candidate_payloads_def Let_def list_all_iff dest: in_set_takeD)
qed

section \<open>Only direct targets\<close>

definition target_of :: "candidate_payload \<Rightarrow> candidate \<Rightarrow> bool" where
  "target_of p c \<longleftrightarrow> payload_ok p \<and> cv_kind p \<noteq> RelayKind \<and> ca_kind c = cv_kind p \<and> ca_endpoint c = cv_endpoint p
     \<and> ca_candidate_id c = cv_candidate_id p \<and> ca_priority c = cv_priority p \<and> ca_generation c = cv_generation p"

lemma candidate_from_v2_target:
  assumes "payload_ok p" "candidate_from_v2 p = Some c"
  shows "target_of p c"
  using assms direct_probe_eligible_iff [OF assms(1)]
  by (auto simp: candidate_from_v2_def target_of_def candidate_new_def split: if_splits)

lemma candidate_from_v2_Some: "payload_ok p \<Longrightarrow> cv_kind p \<noteq> RelayKind \<Longrightarrow> \<exists>c. candidate_from_v2 p = Some c"
  by (simp add: candidate_from_v2_def direct_probe_eligible_iff)

lemma candidate_kind_for_direct: "candidate_kind_for endpoint \<noteq> RelayKind"
  by (cases endpoint) auto

lemma append_configured_member:
  "c \<in> set (append_configured_endpoint configured cs) \<Longrightarrow>
     c \<in> set cs \<or> (\<exists>endpoint. configured = Some endpoint \<and> c = candidate_new endpoint (candidate_kind_for endpoint) ''peer-configured'')"
  by (auto simp: append_configured_endpoint_def split: option.splits if_splits)

lemma append_configured_old: "c \<in> set cs \<Longrightarrow> c \<in> set (append_configured_endpoint configured cs)"
  by (auto simp: append_configured_endpoint_def split: option.splits)

lemma append_configured_endpoints:
  "configured = Some endpoint \<Longrightarrow> \<exists>c \<in> set (append_configured_endpoint configured cs). ca_endpoint c = endpoint"
  by (auto simp: append_configured_endpoint_def list_ex_iff candidate_new_def)

definition caches_ok :: "cache_table \<Rightarrow> bool" where
  "caches_ok caches \<longleftrightarrow> (\<forall>p c. hm_get caches p = Some c \<longrightarrow> list_all payload_ok (cc_candidates c))"

lemma apply_snapshot_payloads:
  assumes "list_all payload_ok (cc_candidates c)"
  shows "list_all payload_ok (cc_candidates (snd (apply_snapshot to_vec pick sn t c)))"
proof -
  obtain r d where a: "apply_snapshot to_vec pick sn t c = (r, d)" by (cases "apply_snapshot to_vec pick sn t c")
  then have "list_all payload_ok (cc_candidates d)"
  proof (cases rule: apply_cases)
    case (replaced sn' fp)
    then show ?thesis using snapshot_normalized_ok(3) [OF replaced(2)] normalized_ok(1)
      by (auto simp: replace_snapshot_def list_all_iff)
  qed (use assms in \<open>auto simp: same_snapshot_def\<close>)
  with a show ?thesis by simp
qed

lemma from_snapshot_payloads: "from_snapshot to_vec sn t = Inr c \<Longrightarrow> list_all payload_ok (cc_candidates c)"
  using snapshot_normalized_ok(3) normalized_ok(1)
  by (fastforce simp: from_snapshot_def list_all_iff split: sum.splits)

lemma caches_ok_insert: "caches_ok caches \<Longrightarrow> list_all payload_ok (cc_candidates c) \<Longrightarrow> caches_ok (hm_insert p c caches)"
  by (auto simp: caches_ok_def hm_insert_def update_conv')

datatype cache_table_event =
    Resolved_Snapshot string "discovery_snapshot option" "duration option" instant
  | Ready_Ttl "duration option" "duration option"
  | Available_Hint string runtime_epoch instant

fun cache_table_step ::
  "(candidate_payload list \<Rightarrow> byte list option) \<Rightarrow> (byte list \<Rightarrow> candidate_advertisement option)
   \<Rightarrow> (runtime_epoch list \<Rightarrow> nat) \<Rightarrow> cache_table_event \<Rightarrow> cache_table \<Rightarrow> cache_table" where
  "cache_table_step to_vec from_slice pick (Resolved_Snapshot p snapshot ttl now) caches =
     update_remote_candidate_cache to_vec from_slice pick p snapshot ttl now caches"
| "cache_table_step to_vec from_slice pick (Ready_Ttl previous current) caches =
     clear_if_ready_ttl_changed previous current caches"
| "cache_table_step to_vec from_slice pick (Available_Hint p epoch now) caches =
     invalidate_for_epoch pick p epoch now caches"

lemma cache_table_step_ok: "caches_ok caches \<Longrightarrow> caches_ok (cache_table_step to_vec from_slice pick e caches)"
proof (cases e)
  case (Resolved_Snapshot p snapshot ttl now)
  assume ok: "caches_ok caches"
  then have old: "hm_get caches p = Some c \<Longrightarrow> list_all payload_ok (cc_candidates c)" for c by (simp add: caches_ok_def)
  from ok old show ?thesis unfolding Resolved_Snapshot
    by (auto simp: update_remote_candidate_cache_def Let_def intro!: caches_ok_insert
        dest: apply_snapshot_payloads from_snapshot_payloads split: option.splits sum.splits)
next
  case (Available_Hint p epoch now)
  assume ok: "caches_ok caches"
  then have "hm_get caches p = Some c \<Longrightarrow>
      list_all payload_ok (cc_candidates (snd (invalidate_for_remote_epoch pick epoch now c)))" for c
    by (auto simp: caches_ok_def invalidate_for_remote_epoch_def)
  with ok show ?thesis unfolding Available_Hint
    by (auto simp: invalidate_for_epoch_def intro!: caches_ok_insert split: option.splits)
qed (auto simp: clear_if_ready_ttl_changed_def caches_ok_def)

interpretation caches: invariant_system "cache_table_step to_vec from_slice pick" caches_ok for to_vec from_slice pick
  by unfold_locales (rule cache_table_step_ok)

text \<open>
  C18. The first connection stage dials direct targets only.  However snapshots, time-to-live
  changes and availability hints arrive, a target for a peer is never a relay address; it
  belongs to a valid direct candidate of the peer's fresh cache entry, or it is the endpoint
  configured for the peer.  Every direct candidate of a fresh entry and the configured endpoint
  are among the targets, which are sorted by class, descending priority and id.
\<close>

theorem stage_a_targets_direct:
  assumes "caches = fold (cache_table_step to_vec from_slice pick) es []"
    and "stage_a_direct_candidates (hm_get caches p) configured now = (targets, epoch)"
    and "fresh = (case hm_get caches p of None \<Rightarrow> [] | Some c \<Rightarrow> if is_fresh_at now c then cc_candidates c else [])"
  shows "list_all (\<lambda>c. ca_kind c \<noteq> RelayKind \<and>
           ((\<exists>payload \<in> set fresh. target_of payload c)
            \<or> (\<exists>endpoint. configured = Some endpoint \<and> ca_endpoint c = endpoint \<and> ca_interface_name c = ''peer-configured''))) targets
    \<and> (\<forall>payload \<in> set fresh. cv_kind payload \<noteq> RelayKind \<longrightarrow> (\<exists>c \<in> set targets. target_of payload c))
    \<and> (\<forall>endpoint. configured = Some endpoint \<longrightarrow> (\<exists>c \<in> set targets. ca_endpoint c = endpoint))
    \<and> sorted (map target_key targets)"
proof -
  have "caches_ok caches" unfolding assms(1) by (rule caches.run_inv) (simp add: caches_ok_def)
  then have fresh: "list_all payload_ok fresh"
    by (auto simp: assms(3) caches_ok_def split: option.splits)
  define cs where "cs = List.map_filter candidate_from_v2 fresh"
  have targets: "targets = sort_key target_key (filter (\<lambda>c. ca_kind c \<noteq> RelayKind) (append_configured_endpoint configured cs))"
    using assms(2,3)
    by (auto simp: stage_a_direct_candidates_def stage_a_candidates_at_def cs_def Let_def List.map_filter_def split: option.splits)
  have cs: "\<exists>payload \<in> set fresh. target_of payload c" if "c \<in> set cs" for c
    using that fresh candidate_from_v2_target by (fastforce simp: cs_def List.map_filter_def list_all_iff)
  have direct: "ca_kind c \<noteq> RelayKind" if "c \<in> set (append_configured_endpoint configured cs)" for c
    using append_configured_member [OF that] cs [of c] candidate_kind_for_direct by (auto simp: target_of_def candidate_new_def)
  have set: "set targets = set (append_configured_endpoint configured cs)"
    using direct by (auto simp: targets)
  have "\<exists>c \<in> set targets. target_of payload c" if p: "payload \<in> set fresh" "cv_kind payload \<noteq> RelayKind" for payload
  proof -
    have ok: "payload_ok payload" using p(1) fresh by (simp add: list_all_iff)
    then obtain c where c: "candidate_from_v2 payload = Some c" using candidate_from_v2_Some p(2) by blast
    then have "c \<in> set cs" using p(1) by (force simp: cs_def List.map_filter_def)
    then show ?thesis using candidate_from_v2_target [OF ok c] append_configured_old set by blast
  qed
  moreover have "list_all (\<lambda>c. ca_kind c \<noteq> RelayKind \<and>
           ((\<exists>payload \<in> set fresh. target_of payload c)
            \<or> (\<exists>endpoint. configured = Some endpoint \<and> ca_endpoint c = endpoint \<and> ca_interface_name c = ''peer-configured''))) targets"
    using cs direct append_configured_member by (fastforce simp: list_all_iff set candidate_new_def)
  ultimately show ?thesis
    using append_configured_endpoints [of configured _ cs] by (auto simp: set) (simp add: targets)
qed

definition sample_advertisement :: candidate_advertisement where
  "sample_advertisement = \<lparr>ad_candidate_id = ''lan'', ad_endpoint = SocketV4 3232235777 4433, ad_kind = Lan,
     ad_priority = 100, ad_interface = ''wlan0'', ad_generation = 7\<rparr>"

definition sample_discovery :: discovery_snapshot where
  "sample_discovery = \<lparr>ds_runtime_epoch = Some (sample_epoch 1), ds_revision = 3, ds_transport_capabilities = [2, 1],
     ds_candidate_bundle = Some [[1]], ds_published_at_ms = 0\<rparr>"

lemma sample_discovery_payloads:
  "snapshot_candidate_payloads (\<lambda>_. Some sample_advertisement) sample_discovery = [sample_lan]"
  by (simp add: snapshot_candidate_payloads_def sample_discovery_def snapshot_candidate_transports_def
      List.map_filter_def advertised_payload_def sample_advertisement_def sample_lan_def payload_eval
      MAX_CANDIDATE_PAYLOAD_ENTRIES_def)

lemma sample_table:
  "fold (cache_table_step sample_to_vec (\<lambda>_. Some sample_advertisement) (\<lambda>_. 0))
     [Resolved_Snapshot ''b'' (Some sample_discovery) (Some 50) 100] [] = [(''b'', sample_cache)]"
proof -
  have "\<lparr>sn_runtime_epoch = sample_epoch 1, sn_revision = 3, sn_candidates = [sample_lan],
      sn_server_presence_ttl = Some 50\<rparr> = sample_snapshot 1 3"
    by (simp add: sample_snapshot_def)
  with sample_from_snapshot sample_discovery_payloads show ?thesis
    by (simp add: update_remote_candidate_cache_def Let_def hm_insert_def) (simp add: sample_discovery_def hm_insert_def)
qed

theorem stage_a_targets_direct_witness:
  "\<exists>targets. stage_a_direct_candidates (hm_get [(''b'', sample_cache)] ''b'') (Some (SocketV4 167772161 4433)) 120
       = (targets, Some (sample_epoch 1))
     \<and> (\<exists>c \<in> set targets. ca_endpoint c = SocketV4 167772161 4433) \<and> sorted (map target_key targets)"
proof -
  obtain targets where t: "stage_a_direct_candidates (hm_get [(''b'', sample_cache)] ''b'') (Some (SocketV4 167772161 4433)) 120
      = (targets, Some (sample_epoch 1))"
    by (simp add: stage_a_direct_candidates_def stage_a_candidates_at_def is_fresh_at_def age_at_def sample_cache_def Let_def)
  from stage_a_targets_direct [OF sample_table [symmetric] t refl] t show ?thesis by blast
qed

end
