(* ===== verification/Media_Qos.thy ===== *)
theory Media_Qos
  imports Containers
begin

text \<open>
  The bounded queues of audio, video and data-channel frames of a WebRTC peer
  (\<open>network-webrtc/src/qos.rs\<close>): admission under the policy of each kind, eviction of expired
  frames, and the choice of the next frame by priority.
\<close>

section \<open>Media frames and policies\<close>

datatype media_kind = Audio | Video | DataChannel

record media_qos_policy =
  qp_max_frames :: nat
  qp_max_bytes :: nat
  qp_ttl :: duration
  qp_priority :: u8
  qp_discard_old :: bool

definition policy_audio :: media_qos_policy where
  "policy_audio = \<lparr>qp_max_frames = 64, qp_max_bytes = 256 * 1024, qp_ttl = 250 * 10 ^ 6, qp_priority = 2, qp_discard_old = True\<rparr>"

definition policy_video :: media_qos_policy where
  "policy_video = \<lparr>qp_max_frames = 4, qp_max_bytes = 4 * 1024 * 1024, qp_ttl = 250 * 10 ^ 6, qp_priority = 1, qp_discard_old = True\<rparr>"

definition policy_data_channel :: media_qos_policy where
  "policy_data_channel = \<lparr>qp_max_frames = 64, qp_max_bytes = 1024 * 1024, qp_ttl = 5 * 10 ^ 9, qp_priority = 3, qp_discard_old = False\<rparr>"

record media_frame =
  mf_kind :: media_kind
  mf_sequence :: u64
  mf_timestamp_ms :: u64
  mf_keyframe :: bool
  mf_expires_at :: instant
  mf_payload :: "byte list"

definition media_frame_new ::
  "media_kind \<Rightarrow> u64 \<Rightarrow> u64 \<Rightarrow> bool \<Rightarrow> byte list \<Rightarrow> instant \<Rightarrow> duration \<Rightarrow> media_frame" where
  "media_frame_new kind sequence timestamp_ms keyframe payload now ttl =
     \<lparr>mf_kind = kind, mf_sequence = sequence, mf_timestamp_ms = timestamp_ms, mf_keyframe = keyframe,
      mf_expires_at = now + ttl, mf_payload = payload\<rparr>"

datatype qos_enqueue_result = QAccepted | QAcceptedAfterDropping nat | QDroppedIncoming

datatype qos_error = QEmptyPayload | QPayloadTooLarge | QQueueFull

record qos_stats =
  qs_enqueued :: u64
  qs_dequeued :: u64
  qs_dropped_expired :: u64
  qs_dropped_overflow :: u64
  qs_dropped_on_disconnect :: u64
  qs_rejected_backpressure :: u64
  qs_keyframe_requests :: u64

text \<open>The three-element arrays of the source are functions of the media kind.\<close>

record media_qos =
  mq_policies :: "media_kind \<Rightarrow> media_qos_policy"
  mq_queues :: "media_kind \<Rightarrow> media_frame list"
  mq_queue_bytes :: "media_kind \<Rightarrow> nat"
  mq_stats :: qos_stats
  mq_keyframe_requested :: bool

definition media_qos_from_config :: "media_qos_policy \<Rightarrow> media_qos_policy \<Rightarrow> media_qos_policy \<Rightarrow> media_qos" where
  "media_qos_from_config audio video data_channel =
     \<lparr>mq_policies = (\<lambda>k. case k of Audio \<Rightarrow> audio | Video \<Rightarrow> video | DataChannel \<Rightarrow> data_channel),
      mq_queues = (\<lambda>_. []), mq_queue_bytes = (\<lambda>_. 0),
      mq_stats = \<lparr>qs_enqueued = 0, qs_dequeued = 0, qs_dropped_expired = 0, qs_dropped_overflow = 0,
        qs_dropped_on_disconnect = 0, qs_rejected_backpressure = 0, qs_keyframe_requests = 0\<rparr>,
      mq_keyframe_requested = False\<rparr>"

section \<open>Operations of the queues\<close>

definition put_queue :: "media_kind \<Rightarrow> media_frame list \<Rightarrow> nat \<Rightarrow> media_qos \<Rightarrow> media_qos" where
  "put_queue k frames bytes q =
     q\<lparr>mq_queues := (mq_queues q)(k := frames), mq_queue_bytes := (mq_queue_bytes q)(k := bytes)\<rparr>"

definition qos_drop_all :: "media_kind \<Rightarrow> media_qos \<Rightarrow> media_qos" where
  "qos_drop_all k q = put_queue k [] 0 q"

fun evict_front :: "instant \<Rightarrow> media_frame list \<Rightarrow> nat \<Rightarrow> u64 \<Rightarrow> media_frame list \<times> nat \<times> u64" where
  "evict_front now [] bytes dropped = ([], bytes, dropped)"
| "evict_front now (f # fs) bytes dropped =
     (if mf_expires_at f \<le> now
      then evict_front now fs (bytes - length (mf_payload f)) (saturating_add dropped 1)
      else (f # fs, bytes, dropped))"

definition evict_kind :: "instant \<Rightarrow> media_kind \<Rightarrow> media_qos \<Rightarrow> media_qos" where
  "evict_kind now k q =
     (case evict_front now (mq_queues q k) (mq_queue_bytes q k) (qs_dropped_expired (mq_stats q)) of
        (frames, bytes, dropped) \<Rightarrow>
          (put_queue k frames bytes q)\<lparr>mq_stats := (mq_stats q)\<lparr>qs_dropped_expired := dropped\<rparr>\<rparr>)"

definition evict_expired :: "instant \<Rightarrow> media_qos \<Rightarrow> media_qos" where
  "evict_expired now q = evict_kind now DataChannel (evict_kind now Video (evict_kind now Audio q))"

text \<open>
  The loop that makes room for a payload: the frames and bytes left, the number of frames
  dropped and the overflow counter; or \<open>None\<close> where the policy refuses to drop.
\<close>

definition over_limit :: "media_qos_policy \<Rightarrow> nat \<Rightarrow> media_frame list \<Rightarrow> nat \<Rightarrow> bool" where
  "over_limit p len frames bytes \<longleftrightarrow> length frames \<ge> qp_max_frames p \<or> bytes + len > qp_max_bytes p"

fun make_room ::
  "media_qos_policy \<Rightarrow> nat \<Rightarrow> media_frame list \<Rightarrow> nat \<Rightarrow> nat \<Rightarrow> u64 \<Rightarrow> (media_frame list \<times> nat \<times> nat \<times> u64) option" where
  "make_room p len [] bytes dropped overflow =
     (if over_limit p len [] bytes \<and> \<not> qp_discard_old p then None else Some ([], bytes, dropped, overflow))"
| "make_room p len (f # fs) bytes dropped overflow =
     (if over_limit p len (f # fs) bytes
      then (if \<not> qp_discard_old p then None
            else make_room p len fs (bytes - length (mf_payload f)) (dropped + 1) (saturating_add overflow 1))
      else Some (f # fs, bytes, dropped, overflow))"

definition qos_enqueue ::
  "media_frame \<Rightarrow> instant \<Rightarrow> media_qos \<Rightarrow> (qos_error + qos_enqueue_result) \<times> media_qos" where
  "qos_enqueue f now q =
     (let k = mf_kind f; p = mq_policies q k; len = length (mf_payload f)
      in if mf_payload f = [] then (Inl QEmptyPayload, q)
         else if len > qp_max_bytes p then (Inl QPayloadTooLarge, q)
         else if mf_expires_at f \<le> now
         then (Inr QDroppedIncoming, q\<lparr>mq_stats := (mq_stats q)\<lparr>qs_dropped_expired :=
                 saturating_add (qs_dropped_expired (mq_stats q)) 1\<rparr>\<rparr>)
         else
           (let q = evict_expired now q
            in if k = Video \<and> \<not> mf_keyframe f \<and> list_ex mf_keyframe (mq_queues q k)
                  \<and> over_limit p len (mq_queues q k) (mq_queue_bytes q k)
               then (Inr QDroppedIncoming, q\<lparr>mq_stats := (mq_stats q)\<lparr>qs_dropped_overflow :=
                       saturating_add (qs_dropped_overflow (mq_stats q)) 1\<rparr>\<rparr>)
               else (let q = (if k = Video \<and> mf_keyframe f then qos_drop_all k q else q) in
                 case make_room p len (mq_queues q k) (mq_queue_bytes q k) 0 (qs_dropped_overflow (mq_stats q)) of
                   None \<Rightarrow> (Inl QQueueFull, q\<lparr>mq_stats := (mq_stats q)\<lparr>qs_rejected_backpressure :=
                             saturating_add (qs_rejected_backpressure (mq_stats q)) 1\<rparr>\<rparr>)
                 | Some (frames, bytes, dropped, overflow) \<Rightarrow>
                     (Inr (if dropped = 0 then QAccepted else QAcceptedAfterDropping dropped),
                      (put_queue k (frames @ [f]) (bytes + len) q)\<lparr>mq_stats := (mq_stats q)\<lparr>qs_dropped_overflow := overflow,
                         qs_enqueued := saturating_add (qs_enqueued (mq_stats q)) 1\<rparr>\<rparr>))))"

text \<open>The non-empty queue of highest priority; among equal priorities the last one counts.\<close>

definition next_kind :: "media_qos \<Rightarrow> media_kind option" where
  "next_kind q =
     fold (\<lambda>k best. if mq_queues q k = [] then best
                    else (case best of
                            None \<Rightarrow> Some k
                          | Some b \<Rightarrow> if qp_priority (mq_policies q b) \<le> qp_priority (mq_policies q k) then Some k else Some b))
       [Audio, Video, DataChannel] None"

definition qos_pop_next :: "instant \<Rightarrow> media_qos \<Rightarrow> media_frame option \<times> media_qos" where
  "qos_pop_next now q =
     (let q = evict_expired now q
      in case next_kind q of
           None \<Rightarrow> (None, q)
         | Some k \<Rightarrow>
             (case mq_queues q k of
                [] \<Rightarrow> (None, q)
              | f # fs \<Rightarrow>
                  (let q = put_queue k fs (mq_queue_bytes q k - length (mf_payload f)) q
                   in (Some f, q\<lparr>mq_stats := (mq_stats q)\<lparr>qs_dequeued := saturating_add (qs_dequeued (mq_stats q)) 1\<rparr>\<rparr>))))"

definition qos_request_keyframe :: "media_qos \<Rightarrow> media_qos" where
  "qos_request_keyframe q =
     (if mq_keyframe_requested q then q
      else q\<lparr>mq_keyframe_requested := True,
             mq_stats := (mq_stats q)\<lparr>qs_keyframe_requests := saturating_add (qs_keyframe_requests (mq_stats q)) 1\<rparr>\<rparr>)"

definition lose_kind :: "media_kind \<Rightarrow> media_qos \<Rightarrow> media_qos" where
  "lose_kind k q =
     (let dropped = length (mq_queues q k)
      in qos_drop_all k (if dropped \<noteq> 0
           then q\<lparr>mq_stats := (mq_stats q)\<lparr>qs_dropped_on_disconnect :=
                  saturating_add (qs_dropped_on_disconnect (mq_stats q)) (of_nat dropped)\<rparr>\<rparr> else q))"

definition qos_on_connection_lost :: "media_qos \<Rightarrow> media_qos" where
  "qos_on_connection_lost q = qos_request_keyframe (lose_kind Video (lose_kind Audio q))"

definition qos_take_keyframe_request :: "media_qos \<Rightarrow> bool \<times> media_qos" where
  "qos_take_keyframe_request q = (mq_keyframe_requested q, q\<lparr>mq_keyframe_requested := False\<rparr>)"

section \<open>Exact accounting and bounds\<close>

definition frame_bytes :: "media_frame list \<Rightarrow> nat" where
  "frame_bytes fs = (\<Sum>f\<leftarrow>fs. length (mf_payload f))"

lemma frame_bytes_simps [simp]:
  "frame_bytes [] = 0" "frame_bytes (f # fs) = length (mf_payload f) + frame_bytes fs"
  "frame_bytes (fs @ gs) = frame_bytes fs + frame_bytes gs"
  by (simp_all add: frame_bytes_def)

text \<open>One queue under its policy: bytes counted exactly, both limits kept, frames of its kind only.\<close>

definition queue_ok :: "media_qos \<Rightarrow> media_kind \<Rightarrow> bool" where
  "queue_ok q k \<longleftrightarrow> mq_queue_bytes q k = frame_bytes (mq_queues q k)
     \<and> frame_bytes (mq_queues q k) \<le> qp_max_bytes (mq_policies q k)
     \<and> length (mq_queues q k) \<le> qp_max_frames (mq_policies q k)
     \<and> list_all (\<lambda>f. mf_kind f = k) (mq_queues q k)"

definition qos_ok :: "media_qos \<Rightarrow> bool" where
  "qos_ok q \<longleftrightarrow> (\<forall>k. queue_ok q k \<and> 0 < qp_max_frames (mq_policies q k))"

lemma put_queue_fields [simp]:
  "mq_queues (put_queue k fs b q) k' = (if k' = k then fs else mq_queues q k')"
  "mq_queue_bytes (put_queue k fs b q) k' = (if k' = k then b else mq_queue_bytes q k')"
  "mq_policies (put_queue k fs b q) = mq_policies q" "mq_stats (put_queue k fs b q) = mq_stats q"
  by (simp_all add: put_queue_def)

lemma put_queue_ok:
  assumes "qos_ok q" "b = frame_bytes fs" "b \<le> qp_max_bytes (mq_policies q k)"
    "length fs \<le> qp_max_frames (mq_policies q k)" "list_all (\<lambda>f. mf_kind f = k) fs"
  shows "qos_ok (put_queue k fs b q)"
  using assms by (simp add: qos_ok_def queue_ok_def)

lemma qos_ok_stats [simp]:
  "qos_ok (q\<lparr>mq_stats := s\<rparr>) = qos_ok q" "qos_ok (q\<lparr>mq_keyframe_requested := b\<rparr>) = qos_ok q"
  by (simp_all add: qos_ok_def queue_ok_def)

text \<open>What eviction leaves: the frames from the first unexpired one on.\<close>

abbreviation unexpired :: "instant \<Rightarrow> media_frame list \<Rightarrow> media_frame list" where
  "unexpired now fs \<equiv> dropWhile (\<lambda>f. mf_expires_at f \<le> now) fs"

lemma evict_front_frames: "fst (evict_front now fs b d) = unexpired now fs"
  by (induction now fs b d rule: evict_front.induct) auto

lemma evict_front_bytes: "fst (snd (evict_front now fs (frame_bytes fs) d)) = frame_bytes (unexpired now fs)"
  by (induction fs arbitrary: d) auto

lemma evict_kind_fields:
  "mq_queues (evict_kind now k q) k' = (if k' = k then unexpired now (mq_queues q k) else mq_queues q k')"
  "mq_policies (evict_kind now k q) = mq_policies q"
  using evict_front_frames [of now "mq_queues q k" "mq_queue_bytes q k" "qs_dropped_expired (mq_stats q)"]
  by (auto simp: evict_kind_def split: prod.splits)

lemma evict_expired_fields:
  "mq_queues (evict_expired now q) k = unexpired now (mq_queues q k)"
  "mq_policies (evict_expired now q) = mq_policies q"
  by (cases k; simp add: evict_expired_def evict_kind_fields)+

lemma dropWhile_suffix: "\<exists>n. dropWhile P xs = drop n xs"
  by (metis dropWhile_eq_drop)

lemma frame_bytes_drop: "frame_bytes (drop n fs) \<le> frame_bytes fs"
  by (metis append_take_drop_id frame_bytes_simps(3) le_add2)

lemma evict_kind_ok:
  assumes "qos_ok q"
  shows "qos_ok (evict_kind now k q)"
proof -
  obtain frames b d where e: "evict_front now (mq_queues q k) (mq_queue_bytes q k) (qs_dropped_expired (mq_stats q)) = (frames, b, d)"
    by (cases "evict_front now (mq_queues q k) (mq_queue_bytes q k) (qs_dropped_expired (mq_stats q))")
  have k: "queue_ok q k" using assms by (simp add: qos_ok_def)
  have fs: "frames = unexpired now (mq_queues q k)" "b = frame_bytes frames"
    using evict_front_frames [of now "mq_queues q k" "mq_queue_bytes q k" "qs_dropped_expired (mq_stats q)"]
      evict_front_bytes [of now "mq_queues q k" "qs_dropped_expired (mq_stats q)"] k e
    by (auto simp: queue_ok_def)
  obtain n where n: "frames = drop n (mq_queues q k)"
    using dropWhile_suffix fs(1) by blast
  have "qos_ok (put_queue k frames b q)"
  proof (rule put_queue_ok)
    show "b \<le> qp_max_bytes (mq_policies q k)"
      using k frame_bytes_drop [of n "mq_queues q k"] n fs(2) by (simp add: queue_ok_def)
    show "list_all (\<lambda>f. mf_kind f = k) frames"
      using k n by (auto simp: queue_ok_def list_all_iff dest: in_set_dropD)
  qed (use assms k n fs in \<open>auto simp: queue_ok_def\<close>)
  then show ?thesis by (simp add: evict_kind_def e)
qed

lemma evict_expired_ok: "qos_ok q \<Longrightarrow> qos_ok (evict_expired now q)"
  by (simp add: evict_expired_def evict_kind_ok)

lemma make_room_eq:
  assumes "make_room p len fs b d v = Some (gs, b', d', v')" "b = frame_bytes fs"
  shows "b' = frame_bytes gs \<and> (\<exists>n. gs = drop n fs) \<and> (gs \<noteq> [] \<longrightarrow> \<not> over_limit p len gs b')"
  using assms
proof (induction p len fs b d v rule: make_room.induct)
  case (2 p len f fs b d v)
  show ?case
  proof (cases "over_limit p len (f # fs) b")
    case True
    with 2 have "b' = frame_bytes gs \<and> (\<exists>n. gs = drop n fs) \<and> (gs \<noteq> [] \<longrightarrow> \<not> over_limit p len gs b')"
      by (auto split: if_splits)
    then show ?thesis by (metis drop_Suc_Cons)
  qed (use 2 in \<open>auto intro: exI [of _ 0]\<close>)
qed (auto split: if_splits)

lemma make_room_push_ok:
  assumes "qos_ok q" "k = mf_kind f" "p = mq_policies q k" "len = length (mf_payload f)" "len \<le> qp_max_bytes p"
    and "make_room p len (mq_queues q k) (mq_queue_bytes q k) d v = Some (frames, b, d', v')"
  shows "qos_ok (put_queue k (frames @ [f]) (b + len) q)"
proof (rule put_queue_ok [OF assms(1)])
  have k: "queue_ok q k" "0 < qp_max_frames p" using assms by (simp_all add: qos_ok_def)
  obtain n where r: "b = frame_bytes frames" "frames = drop n (mq_queues q k)"
    "frames \<noteq> [] \<longrightarrow> \<not> over_limit p len frames b"
    using make_room_eq [OF assms(6)] k by (auto simp: queue_ok_def)
  show "b + len = frame_bytes (frames @ [f])" using r assms by simp
  show "b + len \<le> qp_max_bytes (mq_policies q k)"
    using r assms by (cases frames) (auto simp: over_limit_def)
  show "length (frames @ [f]) \<le> qp_max_frames (mq_policies q k)"
    using r k assms by (cases frames) (auto simp: over_limit_def)
  show "list_all (\<lambda>g. mf_kind g = k) (frames @ [f])"
    using r k assms by (auto simp: queue_ok_def list_all_iff dest: in_set_dropD)
qed

lemma qos_drop_all_ok: "qos_ok q \<Longrightarrow> qos_ok (qos_drop_all k q)"
  by (simp add: qos_drop_all_def put_queue_ok)

lemma qos_enqueue_ok:
  assumes "qos_ok q"
  shows "qos_ok (snd (qos_enqueue f now q))"
proof -
  define q1 where "q1 = (if mf_kind f = Video \<and> mf_keyframe f then qos_drop_all (mf_kind f) (evict_expired now q)
    else evict_expired now q)"
  have q1: "qos_ok q1" "qos_ok (evict_expired now q)"
    using assms by (simp_all add: q1_def evict_expired_ok qos_drop_all_ok)
  have "mq_policies q1 = mq_policies q"
    by (simp add: q1_def evict_expired_fields qos_drop_all_def)
  with assms q1 make_room_push_ok [OF q1(1) refl refl refl]
  show ?thesis
    by (auto simp: qos_enqueue_def Let_def simp flip: q1_def split: option.split prod.split)
qed

section \<open>The next frame\<close>

lemma next_kind_max:
  assumes "next_kind q = Some k"
  shows "mq_queues q k \<noteq> [] \<and> (\<forall>k'. mq_queues q k' \<noteq> [] \<longrightarrow> qp_priority (mq_policies q k') \<le> qp_priority (mq_policies q k))"
proof -
  have "mq_queues q k \<noteq> []"
    using assms by (auto simp: next_kind_def split: if_splits)
  moreover have "qp_priority (mq_policies q k') \<le> qp_priority (mq_policies q k)" if "mq_queues q k' \<noteq> []" for k'
    using assms that by (cases k') (auto simp: next_kind_def split: if_splits)
  ultimately show ?thesis by blast
qed

lemma next_kind_None: "next_kind q = None \<Longrightarrow> mq_queues q k = []"
  by (cases k) (auto simp: next_kind_def split: if_splits)

lemma qos_pop_next_cases:
  assumes "qos_pop_next now q = (r, q')"
  obtains (none) "r = None" "q' = evict_expired now q" "\<And>k. mq_queues q' k = []"
  | (some) f fs k s where "r = Some f" "mq_queues (evict_expired now q) k = f # fs"
      "q' = (put_queue k fs (mq_queue_bytes (evict_expired now q) k - length (mf_payload f)) (evict_expired now q))\<lparr>mq_stats := s\<rparr>"
      "\<And>k'. mq_queues (evict_expired now q) k' \<noteq> [] \<Longrightarrow> qp_priority (mq_policies q k') \<le> qp_priority (mq_policies q k)"
proof (cases "next_kind (evict_expired now q)")
  case None
  with assms show ?thesis by (intro none) (auto simp: qos_pop_next_def next_kind_None)
next
  case (Some k)
  note m = next_kind_max [OF Some]
  then obtain f fs where "mq_queues (evict_expired now q) k = f # fs" by (cases "mq_queues (evict_expired now q) k") auto
  with assms Some m show ?thesis
    by (intro some [of f k fs]) (auto simp: qos_pop_next_def Let_def evict_expired_fields)
qed

lemma qos_pop_next_ok:
  assumes "qos_ok q"
  shows "qos_ok (snd (qos_pop_next now q))"
proof (cases "qos_pop_next now q")
  case (Pair r q')
  note e = evict_expired_ok [OF assms, of now]
  show ?thesis
    using Pair
  proof (cases rule: qos_pop_next_cases)
    case none
    with e Pair show ?thesis by simp
  next
    case (some f fs k s)
    with e have "queue_ok (evict_expired now q) k" by (simp add: qos_ok_def)
    with some e Pair show ?thesis by (auto simp: queue_ok_def intro!: put_queue_ok)
  qed
qed

lemma qos_pop_next_fresh: "qos_pop_next now q = (Some f, q') \<Longrightarrow> now < mf_expires_at f"
  by (erule qos_pop_next_cases) (auto simp: evict_expired_fields dropWhile_eq_Cons_conv)

text \<open>No frame that stays behind is of a more urgent kind than the frame taken.\<close>

lemma qos_pop_next_urgent:
  assumes "qos_ok q" "qos_pop_next now q = (Some f, q')" "g \<in> set (mq_queues q' k)"
  shows "qp_priority (mq_policies q k) \<le> qp_priority (mq_policies q (mf_kind f))"
  using assms(2)
proof (cases rule: qos_pop_next_cases)
  case (some f' fs k' s)
  have "queue_ok (evict_expired now q) k'"
    using evict_expired_ok [OF assms(1), of now] by (simp add: qos_ok_def)
  with some(2) have "mf_kind f' = k'"
    by (simp add: queue_ok_def)
  moreover have "mq_queues (evict_expired now q) k \<noteq> []"
    using some assms(3) by (auto split: if_splits)
  ultimately show ?thesis using some by simp
qed simp

text \<open>
  A queue whose policy does not drop old frames loses frames to expiry only: an enqueue leaves
  its unexpired frames in place, followed by the new one where it was accepted.
\<close>

lemma make_room_keep: "\<not> qp_discard_old p \<Longrightarrow> make_room p len fs b d v = Some (gs, b', d', v') \<Longrightarrow> gs = fs"
  by (cases fs) (auto split: if_splits)

lemma reliable_frames_kept:
  assumes "\<not> qp_discard_old (mq_policies q (mf_kind f))" "mf_kind f \<noteq> Video" "qos_enqueue f now q = (r, q')"
  shows "mq_queues q' (mf_kind f) \<in>
    {mq_queues q (mf_kind f), unexpired now (mq_queues q (mf_kind f)), unexpired now (mq_queues q (mf_kind f)) @ [f]}"
  using assms(2,3)
  by (auto simp: qos_enqueue_def Let_def evict_expired_fields dest: make_room_keep [OF assms(1)]
      split: if_splits option.splits)

section \<open>Runs\<close>

datatype qos_event = QosEnqueue media_frame instant | QosPop instant | QosLost | QosTakeRequest

type_synonym qos_run = "(instant \<times> media_frame) list \<times> media_qos"

fun qos_step :: "qos_event \<Rightarrow> qos_run \<Rightarrow> qos_run" where
  "qos_step (QosEnqueue f now) (popped, q) = (popped, snd (qos_enqueue f now q))"
| "qos_step (QosPop now) (popped, q) =
     (case qos_pop_next now q of (None, q') \<Rightarrow> (popped, q') | (Some f, q') \<Rightarrow> (popped @ [(now, f)], q'))"
| "qos_step QosLost (popped, q) = (popped, qos_on_connection_lost q)"
| "qos_step QosTakeRequest (popped, q) = (popped, snd (qos_take_keyframe_request q))"

definition qos_run_inv :: "(media_kind \<Rightarrow> media_qos_policy) \<Rightarrow> qos_run \<Rightarrow> bool" where
  "qos_run_inv ps r \<longleftrightarrow> qos_ok (snd r) \<and> mq_policies (snd r) = ps \<and> list_all (\<lambda>(now, f). now < mf_expires_at f) (fst r)"

lemma lose_kind_ok: "qos_ok q \<Longrightarrow> qos_ok (lose_kind k q)"
  by (simp add: lose_kind_def Let_def qos_drop_all_ok)

lemma qos_on_connection_lost_ok: "qos_ok q \<Longrightarrow> qos_ok (qos_on_connection_lost q)"
  by (simp add: qos_on_connection_lost_def qos_request_keyframe_def lose_kind_ok)

lemma qos_policies_const:
  "mq_policies (snd (qos_enqueue f now q)) = mq_policies q"
  "mq_policies (snd (qos_pop_next now q)) = mq_policies q"
  "mq_policies (qos_on_connection_lost q) = mq_policies q"
  by (auto simp: qos_enqueue_def qos_pop_next_def qos_on_connection_lost_def qos_request_keyframe_def lose_kind_def
      qos_drop_all_def Let_def evict_expired_fields split: option.split list.split prod.split)

interpretation media: invariant_system qos_step "qos_run_inv ps"
proof unfold_locales
  fix r e
  assume i: "qos_run_inv ps r"
  obtain popped q where r: "r = (popped, q)" by (cases r)
  show "qos_run_inv ps (qos_step e r)"
  proof (cases e)
    case (QosPop now)
    obtain x q' where p: "qos_pop_next now q = (x, q')" by (cases "qos_pop_next now q")
    with i r QosPop qos_pop_next_ok [of q now] qos_policies_const(2) [of now q] qos_pop_next_fresh [of now q]
    show ?thesis by (cases x) (auto simp: qos_run_inv_def)
  qed (use i r in \<open>auto simp: qos_run_inv_def qos_enqueue_ok qos_on_connection_lost_ok qos_policies_const
        qos_take_keyframe_request_def\<close>)
qed

text \<open>
  Queues of media frames.  Whatever frames are offered, taken or lost with the
  connection, each kind's byte counter is exactly the sum of its queued payloads, its
  frames and bytes stay within its policy, it holds frames of its own kind only, and every
  frame ever handed out was still fresh at the moment it was taken.  The policies must
  allow at least one frame: with a limit of zero the loop that makes room gives up and the
  frame is queued above the limit.
\<close>

theorem media_queues_bounded:
  assumes "0 < qp_max_frames audio" "0 < qp_max_frames video" "0 < qp_max_frames data_channel"
    and "fold qos_step es ([], media_qos_from_config audio video data_channel) = (popped, q)"
  shows "mq_queue_bytes q k = frame_bytes (mq_queues q k)
    \<and> mq_queue_bytes q k \<le> qp_max_bytes (mq_policies (media_qos_from_config audio video data_channel) k)
    \<and> length (mq_queues q k) \<le> qp_max_frames (mq_policies (media_qos_from_config audio video data_channel) k)
    \<and> (\<forall>f \<in> set (mq_queues q k). mf_kind f = k)
    \<and> (\<forall>(now, f) \<in> set popped. now < mf_expires_at f)"
proof -
  let ?q0 = "media_qos_from_config audio video data_channel"
  have "qos_run_inv (mq_policies ?q0) ([], ?q0)"
    using assms by (auto simp: qos_run_inv_def qos_ok_def queue_ok_def media_qos_from_config_def split: media_kind.split)
  from media.run_inv [OF this, of es] assms show ?thesis
    by (auto simp: qos_run_inv_def qos_ok_def queue_ok_def list_all_iff)
qed

theorem media_queues_bounded_witness:
  "\<exists>popped q. fold qos_step [QosEnqueue (media_frame_new Video 1 0 True [1, 2] 0 (qp_ttl policy_video)) 0,
       QosEnqueue (media_frame_new Audio 1 0 False [3] 0 (qp_ttl policy_audio)) 0, QosPop 5]
     ([], media_qos_from_config policy_audio policy_video policy_data_channel) = (popped, q)
   \<and> length popped = 1 \<and> mq_queue_bytes q Video = frame_bytes (mq_queues q Video) \<and> mq_queue_bytes q Video = 2"
proof -
  let ?es = "[QosEnqueue (media_frame_new Video 1 0 True [1, 2] 0 (qp_ttl policy_video)) 0,
       QosEnqueue (media_frame_new Audio 1 0 False [3] 0 (qp_ttl policy_audio)) 0, QosPop 5]"
  obtain popped q where r: "fold qos_step ?es ([], media_qos_from_config policy_audio policy_video policy_data_channel) = (popped, q)"
    by (cases "fold qos_step ?es ([], media_qos_from_config policy_audio policy_video policy_data_channel)")
  have "mq_queue_bytes q Video = frame_bytes (mq_queues q Video)"
    using media_queues_bounded [OF _ _ _ r, of Video]
    by (simp add: policy_audio_def policy_video_def policy_data_channel_def)
  moreover have "length popped = 1 \<and> mq_queue_bytes q Video = 2"
    using r
    by (simp add: qos_enqueue_def qos_pop_next_def media_frame_new_def media_qos_from_config_def policy_audio_def policy_video_def
        policy_data_channel_def Let_def evict_expired_def evict_kind_def over_limit_def put_queue_def next_kind_def qos_drop_all_def
        word_le_nat_alt)
      auto
  ultimately show ?thesis using r by blast
qed

end
