(* ===== verification/Media_Signaling.thy ===== *)
theory Media_Signaling
  imports Containers
begin

text \<open>
  The session descriptions and ICE candidates that WebRTC peers exchange, and the state machine
  of one peer's offers and answers (\<open>network-webrtc/src/signaling.rs\<close>).
\<close>

section \<open>Definitions\<close>

definition MAX_SDP_BYTES :: nat where "MAX_SDP_BYTES = 256 * 1024"
definition MAX_ICE_CANDIDATE_BYTES :: nat where "MAX_ICE_CANDIDATE_BYTES = 8 * 1024"

datatype description_type = SdpOffer | SdpAnswer

record session_description =
  sd_kind :: description_type
  sd_sdp :: string

record ice_candidate =
  ic_candidate :: string
  ic_sdp_mid :: "string option"
  ic_sdp_mline_index :: "u16 option"
  ic_username_fragment :: "string option"

datatype signaling_state = SigNew | LocalOffer | RemoteOffer | LocalAnswer | SigConnected | Restarting | SigClosed

datatype signaling_error =
    EmptyDescription
  | DescriptionTooLarge
  | InvalidDescription
  | CandidateTooLarge
  | InvalidCandidate
  | InvalidTransition signaling_state

definition session_description_new :: "description_type \<Rightarrow> string \<Rightarrow> signaling_error + session_description" where
  "session_description_new kind sdp =
     (if sdp = [] then Inl EmptyDescription
      else if length sdp > MAX_SDP_BYTES then Inl DescriptionTooLarge
      else if take 3 sdp \<noteq> ''v=0'' then Inl InvalidDescription
      else Inr \<lparr>sd_kind = kind, sd_sdp = sdp\<rparr>)"

definition ice_candidate_new ::
  "string \<Rightarrow> string option \<Rightarrow> u16 option \<Rightarrow> string option \<Rightarrow> signaling_error + ice_candidate" where
  "ice_candidate_new candidate sdp_mid sdp_mline_index username_fragment =
     (if length candidate > MAX_ICE_CANDIDATE_BYTES then Inl CandidateTooLarge
      else if candidate \<noteq> [] \<and> take 10 candidate \<noteq> ''candidate:'' then Inl InvalidCandidate
      else Inr \<lparr>ic_candidate = candidate, ic_sdp_mid = sdp_mid, ic_sdp_mline_index = sdp_mline_index,
        ic_username_fragment = username_fragment\<rparr>)"

definition end_of_candidates :: ice_candidate where
  "end_of_candidates = \<lparr>ic_candidate = [], ic_sdp_mid = None, ic_sdp_mline_index = None, ic_username_fragment = None\<rparr>"

record signaling =
  sig_state :: signaling_state
  sig_revision :: u64

definition signaling_default :: signaling where
  "signaling_default = \<lparr>sig_state = SigNew, sig_revision = 0\<rparr>"

definition sig_transition ::
  "signaling_state list \<Rightarrow> signaling_state \<Rightarrow> signaling \<Rightarrow> (signaling_error + unit) \<times> signaling" where
  "sig_transition allowed nxt m =
     (if sig_state m \<notin> set allowed then (Inl (InvalidTransition (sig_state m)), m)
      else (Inr (), m\<lparr>sig_state := nxt, sig_revision := saturating_add (sig_revision m) 1\<rparr>))"

definition local_offer :: "signaling \<Rightarrow> (signaling_error + unit) \<times> signaling" where
  "local_offer m = sig_transition [SigNew, SigConnected, Restarting] LocalOffer m"

definition remote_offer :: "signaling \<Rightarrow> (signaling_error + unit) \<times> signaling" where
  "remote_offer m = sig_transition [SigNew, SigConnected, Restarting, LocalAnswer] RemoteOffer m"

definition local_answer :: "signaling \<Rightarrow> (signaling_error + unit) \<times> signaling" where
  "local_answer m = sig_transition [RemoteOffer] LocalAnswer m"

definition remote_answer :: "signaling \<Rightarrow> (signaling_error + unit) \<times> signaling" where
  "remote_answer m = sig_transition [LocalOffer] SigConnected m"

definition sig_restart :: "signaling \<Rightarrow> (signaling_error + unit) \<times> signaling" where
  "sig_restart m =
     (if sig_state m = SigClosed then (Inl (InvalidTransition (sig_state m)), m)
      else (Inr (), m\<lparr>sig_state := Restarting, sig_revision := saturating_add (sig_revision m) 1\<rparr>))"

definition sig_close :: "signaling \<Rightarrow> signaling" where
  "sig_close m = m\<lparr>sig_state := SigClosed\<rparr>"

lemmas signaling_defs = local_offer_def remote_offer_def local_answer_def remote_answer_def sig_restart_def
  sig_close_def sig_transition_def

section \<open>Runs\<close>

datatype sig_event = EvLocalOffer | EvRemoteOffer | EvLocalAnswer | EvRemoteAnswer | EvRestart | EvClose

fun sig_step :: "sig_event \<Rightarrow> signaling \<Rightarrow> signaling" where
  "sig_step EvLocalOffer m = snd (local_offer m)"
| "sig_step EvRemoteOffer m = snd (remote_offer m)"
| "sig_step EvLocalAnswer m = snd (local_answer m)"
| "sig_step EvRemoteAnswer m = snd (remote_answer m)"
| "sig_step EvRestart m = snd (sig_restart m)"
| "sig_step EvClose m = sig_close m"

text \<open>Closing is final, and the revision never goes back.\<close>

interpretation closed: absorbing_system sig_step "\<lambda>_. True" "\<lambda>m. sig_state m = SigClosed"
proof unfold_locales
  fix m :: signaling and e
  assume "sig_state m = SigClosed"
  then show "sig_state (sig_step e m) = SigClosed"
    by (cases e) (simp_all add: signaling_defs)
qed simp

lemma sig_revision_mono: "sig_revision m \<le> sig_revision (sig_step e m)"
  by (cases e) (simp_all add: signaling_defs saturating_add_ge)

text \<open>A peer becomes connected by the answer to an offer of its own, and in no other way.\<close>

lemma connected_only_by_answer:
  "sig_state (sig_step e m) = SigConnected \<Longrightarrow> sig_state m \<noteq> SigConnected \<Longrightarrow>
     e = EvRemoteAnswer \<and> sig_state m = LocalOffer"
  by (cases e) (auto simp: signaling_defs split: if_splits)

lemma offering_only_by_offer:
  "sig_state (sig_step e m) = LocalOffer \<Longrightarrow> sig_state m \<noteq> LocalOffer \<Longrightarrow> e = EvLocalOffer"
  by (cases e) (auto simp: signaling_defs split: if_splits)

end
