(* ===== verification/Video_Queue.thy ===== *)
theory Video_Queue
  imports Containers "HOL-Library.Sublist"
begin

text \<open>
  The queue of encoded screen-video frames (\<open>network-webrtc/src/media/queue.rs\<close>): validation
  of H.264 access units, the bounded keyframe-aware queue with its counters, and the requests
  for a fresh keyframe.
\<close>

section \<open>Frames\<close>

definition MAX_ENCODED_VIDEO_FRAME_BYTES :: nat where "MAX_ENCODED_VIDEO_FRAME_BYTES = 4 * 1024 * 1024"
definition SCREEN_VIDEO_QUEUE_CAPACITY :: nat where "SCREEN_VIDEO_QUEUE_CAPACITY = 3"
definition MAX_SCREEN_VIDEO_WIDTH :: u32 where "MAX_SCREEN_VIDEO_WIDTH = 7680"
definition MAX_SCREEN_VIDEO_HEIGHT :: u32 where "MAX_SCREEN_VIDEO_HEIGHT = 4320"
definition MAX_SCREEN_VIDEO_PIXELS :: u64 where
  "MAX_SCREEN_VIDEO_PIXELS = ucast MAX_SCREEN_VIDEO_WIDTH * ucast MAX_SCREEN_VIDEO_HEIGHT"

datatype video_codec = H264 | Vp8 | Av1

record video_frame =
  vf_codec :: video_codec
  vf_sequence :: u64
  vf_timestamp :: u64
  vf_width :: u32
  vf_height :: u32
  vf_keyframe :: bool
  vf_payload :: "byte list"
  vf_expires_at :: instant

datatype video_enqueue_result = VAccepted | VAcceptedAfterDropping nat | VDroppedIncoming | VDroppedStale

datatype video_frame_error =
    VUnsupportedCodec video_codec
  | VEmptyPayload
  | VPayloadTooLarge
  | VInvalidAccessUnit
  | VTimestampOutOfRange
  | VInvalidResolution

datatype keyframe_request_reason = KfDisconnected | KfDecoderReset | KfIceRestart | KfPacketLoss

record video_media_stats =
  st_enqueued :: u64
  st_dequeued :: u64
  st_dropped_stale :: u64
  st_dropped_overflow :: u64
  st_dropped_unsafe_delta :: u64
  st_dropped_on_disconnect :: u64
  st_keyframe_requests :: u64

section \<open>Annex B\<close>

text \<open>A start code found at an index, with its length; \<open>None\<close> if there is none from there on.\<close>

function next_start_code :: "byte list \<Rightarrow> nat \<Rightarrow> (nat \<times> nat) option" where
  "next_start_code payload index =
     (if index + 3 \<le> length payload then
        (if take 3 (drop index payload) = [0, 0, 1] then Some (index, 3)
         else if index + 4 \<le> length payload \<and> take 4 (drop index payload) = [0, 0, 0, 1] then Some (index, 4)
         else next_start_code payload (index + 1))
      else None)"
  by auto
termination
  by (relation "measure (\<lambda>(payload, index). length payload - index)") auto

declare next_start_code.simps [simp del]

lemma next_start_code_bounds:
  "next_start_code payload index = Some (start, n) \<Longrightarrow> index \<le> start \<and> start + n \<le> length payload \<and> 3 \<le> n"
proof (induction payload index rule: next_start_code.induct)
  case (1 payload index)
  show ?case
  proof (cases "index + 3 \<le> length payload \<and> take 3 (drop index payload) \<noteq> [0, 0, 1]
      \<and> \<not> (index + 4 \<le> length payload \<and> take 4 (drop index payload) = [0, 0, 0, 1])")
    case True
    then have "next_start_code payload (index + 1) = Some (start, n)"
      using 1(2) by (subst (asm) next_start_code.simps) auto
    with 1(1) True show ?thesis by auto
  next
    case False
    with 1(2) show ?thesis by (subst (asm) next_start_code.simps) (auto split: if_splits)
  qed
qed

text \<open>The NAL unit that starts at or after an index: (start, end), or why there is none.\<close>

definition nalu_from :: "byte list \<Rightarrow> nat \<Rightarrow> (nat \<times> nat) option" where
  "nalu_from payload index =
     (case next_start_code payload index of
        None \<Rightarrow> None
      | Some (start, start_code_len) \<Rightarrow>
          (let nalu_start = start + start_code_len
           in if nalu_start \<ge> length payload then None
              else (let nalu_end = (case next_start_code payload nalu_start of
                                      None \<Rightarrow> length payload | Some (next_start, _) \<Rightarrow> next_start)
                    in if nalu_end \<le> nalu_start \<or> and (payload ! nalu_start) 0x1F = 0 then None
                       else Some (nalu_start, nalu_end))))"

lemma nalu_from_progress: "nalu_from payload index = Some (s, e) \<Longrightarrow> index + 3 \<le> s \<and> s < e \<and> s < length payload"
  by (auto simp: nalu_from_def Let_def split: option.splits if_splits dest!: next_start_code_bounds)

function annex_b_loop :: "byte list \<Rightarrow> nat \<Rightarrow> bool \<Rightarrow> bool" where
  "annex_b_loop payload index found_nalu =
     (if index < length payload then
        (case nalu_from payload index of
           None \<Rightarrow> False
         | Some (nalu_start, nalu_end) \<Rightarrow> annex_b_loop payload nalu_end True)
      else found_nalu)"
  by auto
termination
  by (relation "measure (\<lambda>(payload, index, found). length payload - index)") (auto dest!: nalu_from_progress)

declare annex_b_loop.simps [simp del]

definition is_valid_annex_b :: "byte list \<Rightarrow> bool" where
  "is_valid_annex_b payload = annex_b_loop payload 0 False"

section \<open>The queue\<close>

record video_queue =
  vq_frames :: "video_frame list"
  vq_last_sequence :: "u64 option"
  vq_last_timestamp :: "u64 option"
  vq_pending_keyframe_request :: "keyframe_request_reason option"
  vq_stats :: video_media_stats

definition video_media_stats_default :: video_media_stats where
  "video_media_stats_default = \<lparr>st_enqueued = 0, st_dequeued = 0, st_dropped_stale = 0, st_dropped_overflow = 0,
     st_dropped_unsafe_delta = 0, st_dropped_on_disconnect = 0, st_keyframe_requests = 0\<rparr>"

definition video_queue_new :: video_queue where
  "video_queue_new = \<lparr>vq_frames = [], vq_last_sequence = None, vq_last_timestamp = None,
     vq_pending_keyframe_request = None, vq_stats = video_media_stats_default\<rparr>"

definition validate_frame :: "video_frame \<Rightarrow> video_frame_error + unit" where
  "validate_frame f =
     (if vf_codec f \<noteq> H264 then Inl (VUnsupportedCodec (vf_codec f))
      else if vf_payload f = [] then Inl VEmptyPayload
      else if length (vf_payload f) > MAX_ENCODED_VIDEO_FRAME_BYTES then Inl VPayloadTooLarge
      else if vf_timestamp f > 0xFFFFFFFF then Inl VTimestampOutOfRange
      else if vf_width f = 0 \<or> vf_height f = 0 \<or> vf_width f > MAX_SCREEN_VIDEO_WIDTH
           \<or> vf_height f > MAX_SCREEN_VIDEO_HEIGHT
           \<or> (ucast (vf_width f) * ucast (vf_height f) :: u64) > MAX_SCREEN_VIDEO_PIXELS
      then Inl VInvalidResolution
      else if \<not> is_valid_annex_b (vf_payload f) then Inl VInvalidAccessUnit
      else Inr ())"

definition is_non_monotonic :: "video_frame \<Rightarrow> video_queue \<Rightarrow> bool" where
  "is_non_monotonic f q \<longleftrightarrow>
     (case vq_last_sequence q of None \<Rightarrow> False | Some l \<Rightarrow> vf_sequence f \<le> l)
     \<or> (case vq_last_timestamp q of None \<Rightarrow> False | Some l \<Rightarrow> vf_timestamp f \<le> l)"

fun evict_loop :: "instant \<Rightarrow> video_frame list \<Rightarrow> u64 \<Rightarrow> video_frame list \<times> u64" where
  "evict_loop now [] dropped = ([], dropped)"
| "evict_loop now (f # fs) dropped =
     (if vf_expires_at f \<le> now then evict_loop now fs (saturating_add dropped 1) else (f # fs, dropped))"

definition evict_stale :: "instant \<Rightarrow> video_queue \<Rightarrow> video_queue" where
  "evict_stale now q =
     (let (frames, dropped) = evict_loop now (vq_frames q) (st_dropped_stale (vq_stats q))
      in q\<lparr>vq_frames := frames, vq_stats := (vq_stats q)\<lparr>st_dropped_stale := dropped\<rparr>\<rparr>)"

definition count_unsafe :: "video_queue \<Rightarrow> video_queue" where
  "count_unsafe q = q\<lparr>vq_stats := (vq_stats q)\<lparr>st_dropped_unsafe_delta :=
     saturating_add (st_dropped_unsafe_delta (vq_stats q)) 1\<rparr>\<rparr>"

fun remove_first_delta :: "video_frame list \<Rightarrow> video_frame list option" where
  "remove_first_delta [] = None"
| "remove_first_delta (f # fs) =
     (if \<not> vf_keyframe f then Some fs else map_option ((#) f) (remove_first_delta fs))"

definition push_frame :: "video_frame \<Rightarrow> nat \<Rightarrow> video_queue \<Rightarrow> video_enqueue_result \<times> video_queue" where
  "push_frame f dropped q =
     (let q = (if dropped \<noteq> 0 then q\<lparr>vq_stats := (vq_stats q)\<lparr>st_dropped_overflow :=
                 saturating_add (st_dropped_overflow (vq_stats q)) (of_nat dropped)\<rparr>\<rparr> else q)
      in (if dropped = 0 then VAccepted else VAcceptedAfterDropping dropped,
          q\<lparr>vq_last_sequence := Some (vf_sequence f), vq_last_timestamp := Some (vf_timestamp f),
            vq_frames := vq_frames q @ [f],
            vq_stats := (vq_stats q)\<lparr>st_enqueued := saturating_add (st_enqueued (vq_stats q)) 1\<rparr>\<rparr>))"

definition vq_enqueue ::
  "video_frame \<Rightarrow> instant \<Rightarrow> video_queue \<Rightarrow> (video_frame_error + video_enqueue_result) \<times> video_queue" where
  "vq_enqueue f now q =
     (case validate_frame f of
        Inl e \<Rightarrow> (Inl e, q)
      | Inr _ \<Rightarrow>
          (let q = evict_stale now q
           in if vf_expires_at f \<le> now
              then (Inr VDroppedStale, q\<lparr>vq_stats := (vq_stats q)\<lparr>st_dropped_stale :=
                      saturating_add (st_dropped_stale (vq_stats q)) 1\<rparr>\<rparr>)
              else if is_non_monotonic f q then (Inr VDroppedIncoming, count_unsafe q)
              else if vf_keyframe f
              then apfst Inr (push_frame f (length (vq_frames q)) (q\<lparr>vq_frames := []\<rparr>))
              else if length (vq_frames q) \<ge> SCREEN_VIDEO_QUEUE_CAPACITY
              then (case remove_first_delta (vq_frames q) of
                      Some frames \<Rightarrow> apfst Inr (push_frame f 1 (q\<lparr>vq_frames := frames\<rparr>))
                    | None \<Rightarrow> (Inr VDroppedIncoming, count_unsafe q))
              else apfst Inr (push_frame f 0 q)))"

definition vq_pop :: "instant \<Rightarrow> video_queue \<Rightarrow> video_frame option \<times> video_queue" where
  "vq_pop now q =
     (let q = evict_stale now q
      in case vq_frames q of
           [] \<Rightarrow> (None, q)
         | f # fs \<Rightarrow> (Some f, q\<lparr>vq_frames := fs,
             vq_stats := (vq_stats q)\<lparr>st_dequeued := saturating_add (st_dequeued (vq_stats q)) 1\<rparr>\<rparr>))"

definition request_keyframe :: "keyframe_request_reason \<Rightarrow> video_queue \<Rightarrow> video_queue" where
  "request_keyframe reason q =
     (if vq_pending_keyframe_request q = None
      then q\<lparr>vq_pending_keyframe_request := Some reason,
             vq_stats := (vq_stats q)\<lparr>st_keyframe_requests := saturating_add (st_keyframe_requests (vq_stats q)) 1\<rparr>\<rparr>
      else q)"

definition drop_all :: "video_queue \<Rightarrow> video_queue" where
  "drop_all q = q\<lparr>vq_stats := (vq_stats q)\<lparr>st_dropped_on_disconnect :=
       saturating_add (st_dropped_on_disconnect (vq_stats q)) (of_nat (length (vq_frames q)))\<rparr>,
     vq_frames := [], vq_last_sequence := None, vq_last_timestamp := None\<rparr>"

definition vq_on_disconnect :: "video_queue \<Rightarrow> video_queue" where
  "vq_on_disconnect q = request_keyframe KfDisconnected (drop_all q)"

definition vq_on_decoder_reset :: "video_queue \<Rightarrow> video_queue" where
  "vq_on_decoder_reset q =
     request_keyframe KfDecoderReset ((drop_all q)\<lparr>vq_pending_keyframe_request := None\<rparr>)"

definition vq_clear :: "video_queue \<Rightarrow> video_queue" where
  "vq_clear q = q\<lparr>vq_frames := [], vq_last_sequence := None, vq_last_timestamp := None,
     vq_pending_keyframe_request := None\<rparr>"

definition take_keyframe_request :: "video_queue \<Rightarrow> keyframe_request_reason option \<times> video_queue" where
  "take_keyframe_request q = (vq_pending_keyframe_request q, q\<lparr>vq_pending_keyframe_request := None\<rparr>)"

section \<open>Order and freshness of delivered frames\<close>

text \<open>
  A run of the queue since its last reset: what was taken from it, with the time it was
  taken, and the queue.  Disconnects, decoder resets and endpoint releases start afresh.
\<close>

datatype video_event =
    VEnqueue video_frame instant
  | VPop instant
  | VDisconnect
  | VDecoderReset
  | VClear
  | VRequestKeyframe keyframe_request_reason
  | VTakeRequest

type_synonym video_run = "(instant \<times> video_frame) list \<times> video_queue"

fun video_step :: "video_event \<Rightarrow> video_run \<Rightarrow> video_run" where
  "video_step (VEnqueue f now) (popped, q) = (popped, snd (vq_enqueue f now q))"
| "video_step (VPop now) (popped, q) =
     (case vq_pop now q of (None, q') \<Rightarrow> (popped, q') | (Some f, q') \<Rightarrow> (popped @ [(now, f)], q'))"
| "video_step VDisconnect (popped, q) = ([], vq_on_disconnect q)"
| "video_step VDecoderReset (popped, q) = ([], vq_on_decoder_reset q)"
| "video_step VClear (popped, q) = ([], vq_clear q)"
| "video_step (VRequestKeyframe reason) (popped, q) = (popped, request_keyframe reason q)"
| "video_step VTakeRequest (popped, q) = (popped, snd (take_keyframe_request q))"

definition frame_before :: "video_frame \<Rightarrow> video_frame \<Rightarrow> bool" where
  "frame_before f g \<longleftrightarrow> vf_sequence f < vf_sequence g \<and> vf_timestamp f < vf_timestamp g"

text \<open>The frames of a run in order, all at or below the last accepted sequence and timestamp.\<close>

definition ordered_run :: "video_frame list \<Rightarrow> video_queue \<Rightarrow> bool" where
  "ordered_run fs q \<longleftrightarrow> sorted_wrt frame_before fs \<and>
     (\<forall>f \<in> set fs. \<exists>s t. vq_last_sequence q = Some s \<and> vq_last_timestamp q = Some t
        \<and> vf_sequence f \<le> s \<and> vf_timestamp f \<le> t)"

definition video_inv :: "video_run \<Rightarrow> bool" where
  "video_inv r \<longleftrightarrow> (case r of (popped, q) \<Rightarrow>
     ordered_run (map snd popped @ vq_frames q) q
     \<and> length (vq_frames q) \<le> SCREEN_VIDEO_QUEUE_CAPACITY
     \<and> list_all (\<lambda>f. validate_frame f = Inr ()) (map snd popped @ vq_frames q)
     \<and> list_all (\<lambda>f. \<not> vf_keyframe f) (tl (vq_frames q))
     \<and> list_all (\<lambda>(now, f). now < vf_expires_at f) popped)"

lemma subseq_member: "subseq ys xs \<Longrightarrow> y \<in> set ys \<Longrightarrow> y \<in> set xs"
  by (induction rule: list_emb.induct) auto

lemma sorted_wrt_subseq: "subseq ys xs \<Longrightarrow> sorted_wrt P xs \<Longrightarrow> sorted_wrt P ys"
  by (induction rule: list_emb.induct) (auto dest: subseq_member)

lemma ordered_run_sub:
  assumes "ordered_run fs q" "subseq gs fs" "vq_last_sequence r = vq_last_sequence q" "vq_last_timestamp r = vq_last_timestamp q"
  shows "ordered_run gs r"
  using assms sorted_wrt_subseq [OF assms(2)] subseq_member [OF assms(2)] by (simp add: ordered_run_def)

lemma list_all_subseq: "subseq ys xs \<Longrightarrow> list_all P xs \<Longrightarrow> list_all P ys"
  using subseq_member [of ys xs] by (auto simp: list_all_iff)

lemma subseq_drop: "subseq (drop n xs) xs"
  by (metis append_take_drop_id list_emb_append2 subseq_order.order_refl)

lemma subseq_after: "subseq gs fs \<Longrightarrow> subseq (ps @ gs) (ps @ fs)"
  by (intro list_emb_append_mono) auto

text \<open>Eviction and the removal of a delta frame thin the queue out.\<close>

lemma evict_loop_drop: "\<exists>n. fst (evict_loop now fs d) = drop n fs"
proof (induction fs arbitrary: d)
  case (Cons f fs)
  then obtain n where "fst (evict_loop now fs (saturating_add d 1)) = drop n fs" by blast
  then have "fst (evict_loop now (f # fs) d) = drop (if vf_expires_at f \<le> now then Suc n else 0) (f # fs)" by simp
  then show ?case by blast
qed simp

lemma evict_loop_fresh: "fst (evict_loop now fs d) = f # gs \<Longrightarrow> now < vf_expires_at f"
  by (induction fs arbitrary: d) (auto split: if_splits)

lemma evict_stale_frames:
  "\<exists>n. vq_frames (evict_stale now q) = drop n (vq_frames q)"
  "vq_last_sequence (evict_stale now q) = vq_last_sequence q"
  "vq_last_timestamp (evict_stale now q) = vq_last_timestamp q"
  "vq_frames (evict_stale now q) = f # gs \<Longrightarrow> now < vf_expires_at f"
  using evict_loop_drop [of now "vq_frames q" "st_dropped_stale (vq_stats q)"]
    evict_loop_fresh [of now "vq_frames q" "st_dropped_stale (vq_stats q)" f gs]
  by (auto simp: evict_stale_def split: prod.splits)

lemma remove_first_delta_subseq: "remove_first_delta fs = Some gs \<Longrightarrow> subseq gs fs \<and> length fs = Suc (length gs)"
  by (induction fs arbitrary: gs) (auto split: if_splits)

lemma tl_delta_drop:
  assumes "list_all (\<lambda>f. \<not> vf_keyframe f) (tl fs)"
  shows "list_all (\<lambda>f. \<not> vf_keyframe f) (tl (drop n fs))"
proof -
  have "tl (drop n fs) = drop n (tl fs)" by (metis drop_Suc tl_drop)
  with assms show ?thesis by (auto simp: list_all_iff dest: in_set_dropD)
qed

lemma tl_delta_remove:
  assumes "list_all (\<lambda>f. \<not> vf_keyframe f) (tl fs)" "remove_first_delta fs = Some gs"
  shows "list_all (\<lambda>f. \<not> vf_keyframe f) (tl gs)"
proof (cases fs)
  case (Cons a rest)
  show ?thesis
  proof (cases "vf_keyframe a")
    case True
    with Cons assms(2) obtain gs' where "remove_first_delta rest = Some gs'" "gs = a # gs'" by auto
    with remove_first_delta_subseq list_all_subseq assms(1) Cons show ?thesis by fastforce
  next
    case False
    with Cons assms have "gs = rest" "list_all (\<lambda>f. \<not> vf_keyframe f) rest" by auto
    then show ?thesis by (cases rest) auto
  qed
qed (use assms in simp)

text \<open>The two ways frames enter and leave.\<close>

lemma push_frame_fields:
  "vq_frames (snd (push_frame f n q)) = vq_frames q @ [f]"
  "vq_last_sequence (snd (push_frame f n q)) = Some (vf_sequence f)"
  "vq_last_timestamp (snd (push_frame f n q)) = Some (vf_timestamp f)"
  by (simp_all add: push_frame_def Let_def)

lemma count_unsafe_fields [simp]:
  "vq_frames (count_unsafe q) = vq_frames q" "vq_last_sequence (count_unsafe q) = vq_last_sequence q"
  "vq_last_timestamp (count_unsafe q) = vq_last_timestamp q"
  by (simp_all add: count_unsafe_def)

lemma request_keyframe_fields [simp]:
  "vq_frames (request_keyframe r q) = vq_frames q" "vq_last_sequence (request_keyframe r q) = vq_last_sequence q"
  "vq_last_timestamp (request_keyframe r q) = vq_last_timestamp q"
  by (simp_all add: request_keyframe_def)

lemma vq_enqueue_cases:
  assumes "vq_enqueue f now q = (r, q')"
  obtains
    (kept) n where "vq_frames q' = drop n (vq_frames q)" "vq_last_sequence q' = vq_last_sequence q"
      "vq_last_timestamp q' = vq_last_timestamp q"
  | (pushed) fs n where "vq_frames q' = fs @ [f]" "vq_last_sequence q' = Some (vf_sequence f)"
      "vq_last_timestamp q' = Some (vf_timestamp f)" "validate_frame f = Inr ()" "\<not> is_non_monotonic f q"
      "fs = [] \<or> \<not> vf_keyframe f \<and> (fs = drop n (vq_frames q) \<and> length fs < SCREEN_VIDEO_QUEUE_CAPACITY
         \<or> remove_first_delta (drop n (vq_frames q)) = Some fs)"
proof (cases "validate_frame f")
  case (Inl e)
  with assms show ?thesis by (intro kept [of 0]) (auto simp: vq_enqueue_def)
next
  case (Inr u)
  define q1 where "q1 = evict_stale now q"
  obtain n where n: "vq_frames q1 = drop n (vq_frames q)" "vq_last_sequence q1 = vq_last_sequence q"
    "vq_last_timestamp q1 = vq_last_timestamp q"
    using evict_stale_frames [of now q] unfolding q1_def by blast
  have mono: "is_non_monotonic f q1 = is_non_monotonic f q" by (simp add: is_non_monotonic_def n)
  consider "vf_expires_at f \<le> now \<or> is_non_monotonic f q"
    | "now < vf_expires_at f" "\<not> is_non_monotonic f q" "vf_keyframe f"
    | fs where "now < vf_expires_at f" "\<not> is_non_monotonic f q" "\<not> vf_keyframe f"
      "SCREEN_VIDEO_QUEUE_CAPACITY \<le> length (vq_frames q1)" "remove_first_delta (vq_frames q1) = Some fs"
    | "now < vf_expires_at f" "\<not> is_non_monotonic f q" "\<not> vf_keyframe f"
      "SCREEN_VIDEO_QUEUE_CAPACITY \<le> length (vq_frames q1)" "remove_first_delta (vq_frames q1) = None"
    | "now < vf_expires_at f" "\<not> is_non_monotonic f q" "\<not> vf_keyframe f"
      "length (vq_frames q1) < SCREEN_VIDEO_QUEUE_CAPACITY"
    by (metis not_le not_None_eq)
  then show ?thesis
  proof cases
    case 1
    with assms Inr n mono show ?thesis
      by (intro kept [of n]) (auto simp: vq_enqueue_def Let_def simp flip: q1_def split: if_splits)
  next
    case 2
    with assms Inr mono show ?thesis
      by (intro pushed [of "[]" n]) (auto simp: vq_enqueue_def Let_def push_frame_def simp flip: q1_def)
  next
    case (3 fs)
    with assms Inr n mono show ?thesis
      by (intro pushed [of fs n]) (auto simp: vq_enqueue_def Let_def push_frame_def simp flip: q1_def)
  next
    case 4
    with assms Inr n mono show ?thesis
      by (intro kept [of n]) (auto simp: vq_enqueue_def Let_def simp flip: q1_def)
  next
    case 5
    with assms Inr n mono show ?thesis
      by (intro pushed [of "vq_frames q1" n]) (auto simp: vq_enqueue_def Let_def push_frame_def simp flip: q1_def)
  qed
qed

lemma video_inv_intro:
  assumes "video_inv (popped, q)" "subseq (map snd popped' @ vq_frames q') (map snd popped @ vq_frames q)"
    and "vq_last_sequence q' = vq_last_sequence q" "vq_last_timestamp q' = vq_last_timestamp q"
    and "length (vq_frames q') \<le> SCREEN_VIDEO_QUEUE_CAPACITY" "list_all (\<lambda>f. \<not> vf_keyframe f) (tl (vq_frames q'))"
    and "list_all (\<lambda>(now, f). now < vf_expires_at f) popped'"
  shows "video_inv (popped', q')"
  using assms ordered_run_sub [OF _ assms(2-4)] list_all_subseq [OF assms(2)] by (simp add: video_inv_def)

lemma ordered_run_push:
  assumes "ordered_run gs q" "\<not> is_non_monotonic f q" "vq_last_sequence q' = Some (vf_sequence f)"
    "vq_last_timestamp q' = Some (vf_timestamp f)"
  shows "ordered_run (gs @ [f]) q'"
proof -
  have "frame_before g f" if "g \<in> set gs" for g
    using assms(1,2) that by (auto simp: ordered_run_def is_non_monotonic_def frame_before_def not_le dest!: bspec)
  with assms show ?thesis by (auto simp: ordered_run_def sorted_wrt_append frame_before_def intro: order.strict_implies_order)
qed

lemma pushed_frames:
  assumes "length fs0 \<le> SCREEN_VIDEO_QUEUE_CAPACITY" "list_all (\<lambda>f. \<not> vf_keyframe f) (tl fs0)"
    and "fs = [] \<or> \<not> vf_keyframe f \<and> (fs = drop n fs0 \<and> length fs < SCREEN_VIDEO_QUEUE_CAPACITY
         \<or> remove_first_delta (drop n fs0) = Some fs)"
  shows "subseq fs fs0" "length fs < SCREEN_VIDEO_QUEUE_CAPACITY" "list_all (\<lambda>f. \<not> vf_keyframe f) (tl (fs @ [f]))"
proof -
  have "subseq (drop n fs0) fs0" by (rule subseq_drop)
  moreover have "subseq fs (drop n fs0) \<and> length fs < SCREEN_VIDEO_QUEUE_CAPACITY
      \<and> list_all (\<lambda>f. \<not> vf_keyframe f) (tl (fs @ [f]))"
    using assms(3)
  proof (elim disjE conjE)
    assume r: "remove_first_delta (drop n fs0) = Some fs" "\<not> vf_keyframe f"
    note s = remove_first_delta_subseq [OF r(1)]
    have "list_all (\<lambda>f. \<not> vf_keyframe f) (tl fs)" by (rule tl_delta_remove [OF tl_delta_drop [OF assms(2)] r(1)])
    with s r(2) assms(1) show ?thesis by (cases fs) auto
  next
    assume d: "fs = drop n fs0" "length fs < SCREEN_VIDEO_QUEUE_CAPACITY" "\<not> vf_keyframe f"
    have "list_all (\<lambda>f. \<not> vf_keyframe f) (tl fs)" unfolding d(1) by (rule tl_delta_drop [OF assms(2)])
    then have "list_all (\<lambda>f. \<not> vf_keyframe f) (tl (fs @ [f]))" using d(3) by (cases fs) auto
    with d show ?thesis by simp
  qed (simp add: SCREEN_VIDEO_QUEUE_CAPACITY_def)
  ultimately show "subseq fs fs0" "length fs < SCREEN_VIDEO_QUEUE_CAPACITY" "list_all (\<lambda>f. \<not> vf_keyframe f) (tl (fs @ [f]))"
    using subseq_order.order_trans by blast+
qed

lemma enqueue_inv:
  assumes inv: "video_inv (popped, q)" and e: "vq_enqueue f now q = (r, q')"
  shows "video_inv (popped, q')"
  using e
proof (cases rule: vq_enqueue_cases)
  case (kept n)
  have "subseq (map snd popped @ drop n (vq_frames q)) (map snd popped @ vq_frames q)" by (intro subseq_after subseq_drop)
  with inv kept show ?thesis
    by (intro video_inv_intro [OF inv]) (auto simp: video_inv_def intro: tl_delta_drop)
next
  case (pushed fs n)
  from inv have i: "length (vq_frames q) \<le> SCREEN_VIDEO_QUEUE_CAPACITY" "list_all (\<lambda>f. \<not> vf_keyframe f) (tl (vq_frames q))"
    "ordered_run (map snd popped @ vq_frames q) q" "list_all (\<lambda>f. validate_frame f = Inr ()) (map snd popped @ vq_frames q)"
    by (simp_all add: video_inv_def)
  note p = pushed_frames [OF i(1,2) pushed(6)]
  note sub = subseq_after [OF p(1), of "map snd popped"]
  have "ordered_run ((map snd popped @ fs) @ [f]) q'"
    by (rule ordered_run_push [OF ordered_run_sub [OF i(3) sub refl refl] pushed(5,2,3)])
  with inv pushed p(2,3) list_all_subseq [OF sub i(4)] show ?thesis by (simp add: video_inv_def)
qed

lemma pop_inv:
  assumes inv: "video_inv (popped, q)"
  shows "video_inv (video_step (VPop now) (popped, q))"
proof -
  obtain n where n: "vq_frames (evict_stale now q) = drop n (vq_frames q)" using evict_stale_frames(1) by blast
  have sub: "subseq (map snd popped @ drop n (vq_frames q)) (map snd popped @ vq_frames q)" by (intro subseq_after subseq_drop)
  have i: "length (vq_frames q) \<le> SCREEN_VIDEO_QUEUE_CAPACITY" "list_all (\<lambda>f. \<not> vf_keyframe f) (tl (vq_frames q))"
    "list_all (\<lambda>(now, f). now < vf_expires_at f) popped" using inv by (simp_all add: video_inv_def)
  show ?thesis
  proof (cases "vq_frames (evict_stale now q)")
    case Nil
    then have "video_step (VPop now) (popped, q) = (popped, evict_stale now q)" by (simp add: vq_pop_def)
    moreover have "video_inv (popped, evict_stale now q)"
      by (rule video_inv_intro [OF inv]) (use Nil n sub i in \<open>simp_all add: evict_stale_frames(2,3)\<close>)
    ultimately show ?thesis by simp
  next
    case (Cons f fs)
    define q' where "q' = (evict_stale now q)\<lparr>vq_frames := fs, vq_stats := (vq_stats (evict_stale now q))
      \<lparr>st_dequeued := saturating_add (st_dequeued (vq_stats (evict_stale now q))) 1\<rparr>\<rparr>"
    have "video_step (VPop now) (popped, q) = (popped @ [(now, f)], q')"
      by (simp add: vq_pop_def Cons q'_def Let_def)
    moreover have "list_all (\<lambda>f. \<not> vf_keyframe f) (tl (f # fs))" using tl_delta_drop [OF i(2), of n] n Cons by simp
    then have "list_all (\<lambda>f. \<not> vf_keyframe f) (tl fs)" by (cases fs) auto
    moreover have "length (f # fs) \<le> length (vq_frames q)" using n Cons by (metis diff_le_self length_drop)
    moreover have "now < vf_expires_at f" by (rule evict_stale_frames(4) [OF Cons])
    ultimately show ?thesis
      using n Cons sub i by (auto simp: q'_def evict_stale_frames(2,3) intro!: video_inv_intro [OF inv])
  qed
qed

lemma video_step_inv: "video_inv r \<Longrightarrow> video_inv (video_step e r)"
proof -
  assume inv: "video_inv r"
  obtain popped q where r: "r = (popped, q)" by (cases r)
  show ?thesis
  proof (cases e)
    case (VEnqueue f now)
    obtain x q' where "vq_enqueue f now q = (x, q')" by (cases "vq_enqueue f now q")
    with enqueue_inv inv VEnqueue r show ?thesis by fastforce
  next
    case (VPop now)
    with inv r show ?thesis by (simp only: pop_inv)
  qed (use inv r in \<open>auto simp: video_inv_def ordered_run_def vq_on_disconnect_def vq_on_decoder_reset_def
      vq_clear_def drop_all_def take_keyframe_request_def\<close>)
qed

interpretation video: invariant_system video_step video_inv
  by unfold_locales (rule video_step_inv)

text \<open>
  C23. What the video queue hands out.  However frames are offered and taken, between two resets
  the frames taken from the queue followed by those still in it have strictly increasing
  sequence numbers and timestamps; all of them are valid H.264 access units, a frame is never
  handed out after its expiry, at most three frames wait, and only the first of these can be a
  keyframe, so that nothing older than a keyframe is ever decoded after it.
\<close>

theorem video_queue_in_order:
  "case fold video_step es ([], video_queue_new) of (popped, q) \<Rightarrow>
     sorted_wrt frame_before (map snd popped @ vq_frames q)
     \<and> list_all (\<lambda>f. validate_frame f = Inr ()) (map snd popped @ vq_frames q)
     \<and> list_all (\<lambda>(now, f). now < vf_expires_at f) popped
     \<and> length (vq_frames q) \<le> 3 \<and> list_all (\<lambda>f. \<not> vf_keyframe f) (tl (vq_frames q))"
proof -
  have "video_inv ([], video_queue_new)"
    by (simp add: video_inv_def ordered_run_def video_queue_new_def)
  then have "video_inv (fold video_step es ([], video_queue_new))" by (rule video.run_inv)
  then show ?thesis
    by (auto simp: video_inv_def ordered_run_def SCREEN_VIDEO_QUEUE_CAPACITY_def split: prod.splits)
qed

end
