(* ===== verification/Video_Rtp.thy ===== *)
theory Video_Rtp
  imports Video_Queue
begin

text \<open>
  H.264 over RTP (\<open>network-webrtc/src/media/rtp.rs\<close>): the packetizer that numbers and marks the
  packets of an access unit, and the reassembler of one track.  The RFC 6184 payload format
  itself is third-party code: a record of its constants, of the payloader and of the
  depacketizer, both with their internal state, is an argument of the operations.
\<close>

unbundle bit_operations_syntax

section \<open>Definitions\<close>

record ('p, 'd) h264_lib =
  FUA_HEADER_SIZE :: nat
  FUA_NALU_TYPE :: byte
  NALU_TYPE_BITMASK :: byte
  STAPA_NALU_LENGTH_SIZE :: nat
  STAPA_NALU_TYPE :: byte
  payloader_default :: 'p
  payloader_payload :: "'p \<Rightarrow> nat \<Rightarrow> byte list \<Rightarrow> (string + byte list list) \<times> 'p"
  packet_default :: 'd
  depacketize :: "'d \<Rightarrow> byte list \<Rightarrow> (unit + byte list) \<times> 'd"

definition RTP_HEADER_BYTES :: nat where "RTP_HEADER_BYTES = 12"
definition DEFAULT_REMOTE_WIDTH :: u32 where "DEFAULT_REMOTE_WIDTH = 1920"
definition DEFAULT_REMOTE_HEIGHT :: u32 where "DEFAULT_REMOTE_HEIGHT = 1080"
definition RECEIVED_FRAME_TTL :: duration where "RECEIVED_FRAME_TTL = 250 * 10 ^ 6"

datatype rtp_media_error =
    RtpInvalidMtu
  | RtpUnsupportedCodec
  | RtpInvalidAccessUnit
  | RtpTimestampOutOfRange
  | RtpPayloading string
  | RtpMalformedPayload
  | RtpStaleOrDiscontinuous
  | RtpReassembledFrameTooLarge

record rtp_packet =
  pk_version :: byte
  pk_marker :: bool
  pk_payload_type :: byte
  pk_sequence_number :: u16
  pk_timestamp :: u32
  pk_ssrc :: u32
  pk_payload :: "byte list"

record 'p rtp_packetizer =
  pz_mtu :: nat
  pz_payload_type :: byte
  pz_ssrc :: u32
  pz_next_sequence_number :: u16
  pz_payloader :: 'p

definition packetizer_new :: "('p, 'd) h264_lib \<Rightarrow> nat \<Rightarrow> byte \<Rightarrow> u32 \<Rightarrow> u16 \<Rightarrow> 'p rtp_packetizer" where
  "packetizer_new L mtu payload_type ssrc initial_sequence =
     \<lparr>pz_mtu = mtu, pz_payload_type = payload_type, pz_ssrc = ssrc, pz_next_sequence_number = initial_sequence,
      pz_payloader = payloader_default L\<rparr>"

fun number_packets :: "byte \<Rightarrow> u32 \<Rightarrow> u32 \<Rightarrow> u16 \<Rightarrow> byte list list \<Rightarrow> rtp_packet list \<times> u16" where
  "number_packets payload_type ssrc timestamp next_seq [] = ([], next_seq)"
| "number_packets payload_type ssrc timestamp next_seq (p # ps) =
     (let (packets, n) = number_packets payload_type ssrc timestamp (next_seq + 1) ps
      in (\<lparr>pk_version = 2, pk_marker = (ps = []), pk_payload_type = payload_type, pk_sequence_number = next_seq,
           pk_timestamp = timestamp, pk_ssrc = ssrc, pk_payload = p\<rparr> # packets, n))"

definition packetize ::
  "('p, 'd) h264_lib \<Rightarrow> video_frame \<Rightarrow> 'p rtp_packetizer \<Rightarrow> (rtp_media_error + rtp_packet list) \<times> 'p rtp_packetizer" where
  "packetize L f z =
     (if pz_mtu z \<le> RTP_HEADER_BYTES + FUA_HEADER_SIZE L then (Inl RtpInvalidMtu, z)
      else if vf_codec f \<noteq> H264 then (Inl RtpUnsupportedCodec, z)
      else if vf_payload f = [] \<or> length (vf_payload f) > MAX_ENCODED_VIDEO_FRAME_BYTES
           \<or> \<not> is_valid_annex_b (vf_payload f) then (Inl RtpInvalidAccessUnit, z)
      else if vf_timestamp f > 0xFFFFFFFF then (Inl RtpTimestampOutOfRange, z)
      else case payloader_payload L (pz_payloader z) (pz_mtu z - RTP_HEADER_BYTES) (vf_payload f) of
        (Inl e, p) \<Rightarrow> (Inl (RtpPayloading e), z\<lparr>pz_payloader := p\<rparr>)
      | (Inr payloads, p) \<Rightarrow>
          if payloads = [] then (Inl RtpInvalidAccessUnit, z\<lparr>pz_payloader := p\<rparr>)
          else (let (packets, n) = number_packets (pz_payload_type z) (pz_ssrc z) (ucast (vf_timestamp f))
                      (pz_next_sequence_number z) payloads
                in (Inr packets, z\<lparr>pz_payloader := p, pz_next_sequence_number := n\<rparr>)))"

record 'd rtp_reassembler =
  ra_depacketizer :: 'd
  ra_pending_payload :: "byte list"
  ra_pending_timestamp :: "u32 option"
  ra_expected_sequence :: "u16 option"
  ra_last_completed_timestamp :: "u32 option"
  ra_next_frame_sequence :: u64
  ra_width :: u32
  ra_height :: u32

definition with_dimensions :: "('p, 'd) h264_lib \<Rightarrow> u32 \<Rightarrow> u32 \<Rightarrow> 'd rtp_reassembler" where
  "with_dimensions L width height =
     \<lparr>ra_depacketizer = packet_default L, ra_pending_payload = [], ra_pending_timestamp = None,
      ra_expected_sequence = None, ra_last_completed_timestamp = None, ra_next_frame_sequence = 0,
      ra_width = max 1 (min width MAX_SCREEN_VIDEO_WIDTH), ra_height = max 1 (min height MAX_SCREEN_VIDEO_HEIGHT)\<rparr>"

definition reassembler_new :: "('p, 'd) h264_lib \<Rightarrow> 'd rtp_reassembler" where
  "reassembler_new L = with_dimensions L DEFAULT_REMOTE_WIDTH DEFAULT_REMOTE_HEIGHT"

definition reset_pending :: "('p, 'd) h264_lib \<Rightarrow> 'd rtp_reassembler \<Rightarrow> 'd rtp_reassembler" where
  "reset_pending L r = r\<lparr>ra_depacketizer := packet_default L, ra_pending_payload := [],
     ra_pending_timestamp := None, ra_expected_sequence := None\<rparr>"

definition ra_reset :: "('p, 'd) h264_lib \<Rightarrow> 'd rtp_reassembler \<Rightarrow> 'd rtp_reassembler" where
  "ra_reset L r = (reset_pending L r)\<lparr>ra_last_completed_timestamp := None\<rparr>"

definition clear_for_endpoint_release :: "('p, 'd) h264_lib \<Rightarrow> 'd rtp_reassembler \<Rightarrow> 'd rtp_reassembler" where
  "clear_for_endpoint_release L r = (ra_reset L r)\<lparr>ra_next_frame_sequence := 0\<rparr>"

text \<open>The aggregation packets: length-prefixed units from an offset to the end.\<close>

function stapa_units :: "nat \<Rightarrow> byte list \<Rightarrow> nat \<Rightarrow> bool" where
  "stapa_units length_size payload offset =
     (if offset < length payload then
        (if offset + length_size > length payload then False
         else (let nalu_size = unat (payload ! offset) * 256 + unat (payload ! (offset + 1))
               in if nalu_size = 0 \<or> offset + length_size + nalu_size > length payload then False
                  else stapa_units length_size payload (offset + length_size + nalu_size)))
      else offset = length payload)"
  by auto
termination
  by (relation "measure (\<lambda>(n, payload, offset). length payload - offset)") auto

definition is_valid_h264_payload :: "('p, 'd) h264_lib \<Rightarrow> byte list \<Rightarrow> bool" where
  "is_valid_h264_payload L payload =
     (case payload of
        [] \<Rightarrow> False
      | header # _ \<Rightarrow>
          (let t = header AND NALU_TYPE_BITMASK L
           in if 1 \<le> t \<and> t \<le> 23 then length payload > 1
              else if t = FUA_NALU_TYPE L then length payload \<ge> FUA_HEADER_SIZE L
              else if t = STAPA_NALU_TYPE L then stapa_units (STAPA_NALU_LENGTH_SIZE L) payload 1
              else False))"

function contains_idr_loop :: "byte \<Rightarrow> byte list \<Rightarrow> nat \<Rightarrow> bool" where
  "contains_idr_loop bitmask payload index =
     (if index < length payload then
        (case next_start_code payload index of
           None \<Rightarrow> False
         | Some (start, start_code_len) \<Rightarrow>
             (let nalu_start = start + start_code_len
              in if nalu_start < length payload \<and> (payload ! nalu_start) AND bitmask = 5 then True
                 else contains_idr_loop bitmask payload nalu_start))
      else False)"
  by auto
termination
  by (relation "measure (\<lambda>(bitmask, payload, index). length payload - index)") (auto dest!: next_start_code_bounds)

declare contains_idr_loop.simps [simp del]

definition contains_idr_nalu :: "('p, 'd) h264_lib \<Rightarrow> byte list \<Rightarrow> bool" where
  "contains_idr_nalu L payload = contains_idr_loop (NALU_TYPE_BITMASK L) payload 0"

definition is_newer_timestamp :: "u32 \<Rightarrow> u32 \<Rightarrow> bool" where
  "is_newer_timestamp candidate previous \<longleftrightarrow> candidate \<noteq> previous \<and> candidate - previous < 0x80000000"

definition push_at ::
  "('p, 'd) h264_lib \<Rightarrow> rtp_packet \<Rightarrow> instant \<Rightarrow> 'd rtp_reassembler
   \<Rightarrow> (rtp_media_error + video_frame option) \<times> 'd rtp_reassembler" where
  "push_at L packet now r =
     (if pk_version packet \<noteq> 2 \<or> \<not> is_valid_h264_payload L (pk_payload packet)
      then (Inl RtpMalformedPayload, reset_pending L r)
      else if (case ra_last_completed_timestamp r of
                 None \<Rightarrow> False | Some completed \<Rightarrow> \<not> is_newer_timestamp (pk_timestamp packet) completed)
      then (Inl RtpStaleOrDiscontinuous, reset_pending L r)
      else if (case ra_pending_timestamp r of
                 None \<Rightarrow> False
               | Some timestamp \<Rightarrow> timestamp \<noteq> pk_timestamp packet \<or>
                   (case ra_expected_sequence r of
                      None \<Rightarrow> False | Some expected \<Rightarrow> expected \<noteq> pk_sequence_number packet))
      then (Inl RtpStaleOrDiscontinuous, reset_pending L r)
      else
        (let r = (if ra_pending_timestamp r = None then r\<lparr>ra_pending_timestamp := Some (pk_timestamp packet)\<rparr> else r)
         in case depacketize L (ra_depacketizer r) (pk_payload packet) of
              (Inl _, d) \<Rightarrow> (Inl RtpMalformedPayload, reset_pending L r)
            | (Inr payload, d) \<Rightarrow>
                (let r = r\<lparr>ra_depacketizer := d, ra_expected_sequence := Some (pk_sequence_number packet + 1)\<rparr>
                 in if length (ra_pending_payload r) + length payload > MAX_ENCODED_VIDEO_FRAME_BYTES
                    then (Inl RtpReassembledFrameTooLarge, reset_pending L r)
                    else
                      (let r = r\<lparr>ra_pending_payload := ra_pending_payload r @ payload\<rparr>
                       in if \<not> pk_marker packet then (Inr None, r)
                          else if ra_pending_payload r = [] then (Inl RtpMalformedPayload, reset_pending L r)
                          else
                            (let timestamp = the (ra_pending_timestamp r);
                                 frame = \<lparr>vf_codec = H264, vf_sequence = ra_next_frame_sequence r,
                                   vf_timestamp = ucast timestamp, vf_width = ra_width r, vf_height = ra_height r,
                                   vf_keyframe = contains_idr_nalu L (ra_pending_payload r),
                                   vf_payload = ra_pending_payload r, vf_expires_at = now + RECEIVED_FRAME_TTL\<rparr>
                             in (Inr (Some frame),
                                 reset_pending L (r\<lparr>ra_next_frame_sequence := ra_next_frame_sequence r + 1,
                                                   ra_last_completed_timestamp := Some timestamp\<rparr>)))))))"

declare stapa_units.simps [simp del]

section \<open>Runs of packets\<close>

text \<open>Depacketizing a list of payloads in order, from a depacketizer state.\<close>

fun depackets :: "('p, 'd) h264_lib \<Rightarrow> 'd \<Rightarrow> byte list list \<Rightarrow> (byte list \<times> 'd) option" where
  "depackets L d [] = Some ([], d)"
| "depackets L d (p # ps) =
     (case depacketize L d p of
        (Inl _, _) \<Rightarrow> None
      | (Inr x, d') \<Rightarrow> map_option (apfst ((@) x)) (depackets L d' ps))"

text \<open>Packets of one access unit: one timestamp, consecutive sequence numbers, the marker on the last one.\<close>

fun in_run :: "u32 \<Rightarrow> u16 \<Rightarrow> rtp_packet list \<Rightarrow> bool" where
  "in_run ts seq [] \<longleftrightarrow> True"
| "in_run ts seq (p # ps) \<longleftrightarrow> pk_timestamp p = ts \<and> pk_sequence_number p = seq \<and> pk_marker p = (ps = []) \<and> in_run ts (seq + 1) ps"

fun push_all ::
  "('p, 'd) h264_lib \<Rightarrow> instant \<Rightarrow> rtp_packet list \<Rightarrow> 'd rtp_reassembler
   \<Rightarrow> (rtp_media_error + video_frame option) list \<times> 'd rtp_reassembler" where
  "push_all L now [] r = ([], r)"
| "push_all L now (p # ps) r =
     (case push_at L p now r of (x, r') \<Rightarrow> case push_all L now ps r' of (xs, r'') \<Rightarrow> (x # xs, r''))"

lemma number_packets_run:
  "number_packets pt ssrc ts seq ps = (packets, n) \<Longrightarrow>
     in_run ts seq packets \<and> map pk_payload packets = ps \<and> list_all (\<lambda>p. pk_version p = 2) packets \<and> n = seq + of_nat (length ps)"
  by (induction ps arbitrary: seq packets n) (fastforce split: prod.splits simp: Let_def)+

definition frame_of :: "('p, 'd) h264_lib \<Rightarrow> instant \<Rightarrow> u32 \<Rightarrow> byte list \<Rightarrow> 'd rtp_reassembler \<Rightarrow> video_frame" where
  "frame_of L now ts payload r = \<lparr>vf_codec = H264, vf_sequence = ra_next_frame_sequence r, vf_timestamp = ucast ts,
     vf_width = ra_width r, vf_height = ra_height r, vf_keyframe = contains_idr_nalu L payload,
     vf_payload = payload, vf_expires_at = now + RECEIVED_FRAME_TTL\<rparr>"

definition completed :: "('p, 'd) h264_lib \<Rightarrow> u32 \<Rightarrow> 'd rtp_reassembler \<Rightarrow> 'd rtp_reassembler" where
  "completed L ts r = reset_pending L (r\<lparr>ra_next_frame_sequence := ra_next_frame_sequence r + 1,
     ra_last_completed_timestamp := Some ts\<rparr>)"

text \<open>A packet that continues or starts the pending access unit is taken.\<close>

definition admits :: "u32 \<Rightarrow> u16 \<Rightarrow> 'd rtp_reassembler \<Rightarrow> bool" where
  "admits ts seq r \<longleftrightarrow>
     (case ra_last_completed_timestamp r of None \<Rightarrow> True | Some t \<Rightarrow> is_newer_timestamp ts t)
     \<and> (case ra_pending_timestamp r of
          None \<Rightarrow> True
        | Some t \<Rightarrow> t = ts \<and> (case ra_expected_sequence r of None \<Rightarrow> True | Some e \<Rightarrow> e = seq))"

lemma push_at_admitted:
  assumes "pk_version p = 2" "is_valid_h264_payload L (pk_payload p)" "admits (pk_timestamp p) (pk_sequence_number p) r"
    and "depacketize L (ra_depacketizer r) (pk_payload p) = (Inr x, d)"
    and "length (ra_pending_payload r) + length x \<le> MAX_ENCODED_VIDEO_FRAME_BYTES"
  shows "push_at L p now r =
    (if \<not> pk_marker p then
       (Inr None, r\<lparr>ra_pending_timestamp := Some (pk_timestamp p), ra_depacketizer := d,
          ra_expected_sequence := Some (pk_sequence_number p + 1), ra_pending_payload := ra_pending_payload r @ x\<rparr>)
     else if ra_pending_payload r @ x = [] then (Inl RtpMalformedPayload, reset_pending L r)
     else (Inr (Some (frame_of L now (pk_timestamp p) (ra_pending_payload r @ x) r)), completed L (pk_timestamp p) r))"
proof -
  define r1 where "r1 = r\<lparr>ra_pending_timestamp := Some (pk_timestamp p)\<rparr>"
  have r1: "(if ra_pending_timestamp r = None then r\<lparr>ra_pending_timestamp := Some (pk_timestamp p)\<rparr> else r) = r1"
    using assms(3) by (cases "ra_pending_timestamp r") (simp_all add: r1_def admits_def)
  have ok: "\<not> (case ra_last_completed_timestamp r of None \<Rightarrow> False | Some c \<Rightarrow> \<not> is_newer_timestamp (pk_timestamp p) c)"
    "\<not> (case ra_pending_timestamp r of None \<Rightarrow> False
         | Some t \<Rightarrow> t \<noteq> pk_timestamp p \<or> (case ra_expected_sequence r of None \<Rightarrow> False | Some e \<Rightarrow> e \<noteq> pk_sequence_number p))"
    using assms(3) by (auto simp: admits_def split: option.splits)
  have d: "depacketize L (ra_depacketizer r1) (pk_payload p) = (Inr x, d)" using assms(4) by (simp add: r1_def)
  have len: "\<not> length (ra_pending_payload r1) + length x > MAX_ENCODED_VIDEO_FRAME_BYTES" using assms(5) by (simp add: r1_def)
  show ?thesis
    using assms(1,2) ok len unfolding push_at_def Let_def r1
    by (simp add: d) (simp add: r1_def reset_pending_def frame_of_def completed_def)
qed

lemma push_run:
  assumes "ps \<noteq> []" "in_run ts seq ps" "list_all (\<lambda>p. pk_version p = 2 \<and> is_valid_h264_payload L (pk_payload p)) ps"
    and "admits ts seq r" "depackets L (ra_depacketizer r) (map pk_payload ps) = Some (rest, d)"
    and "ra_pending_payload r @ rest \<noteq> []" "length (ra_pending_payload r @ rest) \<le> MAX_ENCODED_VIDEO_FRAME_BYTES"
  shows "push_all L now ps r =
    (replicate (length ps - 1) (Inr None) @ [Inr (Some (frame_of L now ts (ra_pending_payload r @ rest) r))], completed L ts r)"
  using assms
proof (induction ps arbitrary: seq r rest)
  case (Cons p ps)
  from Cons.prems(5) obtain x d' rest' where x: "depacketize L (ra_depacketizer r) (pk_payload p) = (Inr x, d')"
    "depackets L d' (map pk_payload ps) = Some (rest', d)" "rest = x @ rest'"
    by (auto split: prod.splits sum.splits)
  have p: "pk_timestamp p = ts" "pk_sequence_number p = seq" "pk_marker p = (ps = [])" using Cons.prems(2) by auto
  have len: "length (ra_pending_payload r) + length x \<le> MAX_ENCODED_VIDEO_FRAME_BYTES" using Cons.prems(7) x(3) by simp
  have push: "push_at L p now r =
    (if \<not> pk_marker p then
       (Inr None, r\<lparr>ra_pending_timestamp := Some ts, ra_depacketizer := d',
          ra_expected_sequence := Some (seq + 1), ra_pending_payload := ra_pending_payload r @ x\<rparr>)
     else if ra_pending_payload r @ x = [] then (Inl RtpMalformedPayload, reset_pending L r)
     else (Inr (Some (frame_of L now ts (ra_pending_payload r @ x) r)), completed L ts r))"
    using push_at_admitted [OF _ _ _ x(1) len, of now] Cons.prems(3,4) p by simp
  show ?case
  proof (cases "ps = []")
    case True
    with x push p Cons.prems(6) show ?thesis by simp
  next
    case False
    define r' where "r' = r\<lparr>ra_pending_timestamp := Some ts, ra_depacketizer := d',
          ra_expected_sequence := Some (seq + 1), ra_pending_payload := ra_pending_payload r @ x\<rparr>"
    have "push_all L now ps r' =
      (replicate (length ps - 1) (Inr None) @ [Inr (Some (frame_of L now ts (ra_pending_payload r' @ rest') r'))], completed L ts r')"
      using Cons.prems(2-4,6,7) False x by (intro Cons.IH [of "seq + 1"]) (auto simp: r'_def admits_def)
    moreover have "frame_of L now ts (ra_pending_payload r' @ rest') r' = frame_of L now ts (ra_pending_payload r @ rest) r"
      "completed L ts r' = completed L ts r"
      by (simp_all add: r'_def frame_of_def completed_def reset_pending_def x(3))
    moreover obtain n where "length ps = Suc n" using False by (cases ps) auto
    ultimately show ?thesis using push p(3) False by (simp add: r'_def)
  qed
qed simp

section \<open>Frames survive the transport\<close>

lemma packetize_run:
  assumes "packetize L f z = (Inr packets, z')"
  shows "packets \<noteq> [] \<and> in_run (ucast (vf_timestamp f)) (pz_next_sequence_number z) packets
    \<and> list_all (\<lambda>p. pk_version p = 2) packets
    \<and> pz_next_sequence_number z' = pz_next_sequence_number z + of_nat (length packets)
    \<and> length (vf_payload f) \<le> MAX_ENCODED_VIDEO_FRAME_BYTES \<and> vf_payload f \<noteq> [] \<and> vf_timestamp f \<le> 0xFFFFFFFF
    \<and> is_valid_annex_b (vf_payload f)"
proof -
  from assms obtain payloads p n where n: "payloads \<noteq> []"
    "number_packets (pz_payload_type z) (pz_ssrc z) (ucast (vf_timestamp f)) (pz_next_sequence_number z) payloads = (packets, n)"
    "z' = z\<lparr>pz_payloader := p, pz_next_sequence_number := n\<rparr>"
    "length (vf_payload f) \<le> MAX_ENCODED_VIDEO_FRAME_BYTES" "vf_payload f \<noteq> []" "vf_timestamp f \<le> 0xFFFFFFFF"
    "is_valid_annex_b (vf_payload f)"
    by (auto simp: packetize_def Let_def split: if_splits prod.splits sum.splits)
  from number_packets_run [OF n(2)] n show ?thesis by (auto simp flip: length_map [of pk_payload])
qed

lemma ucast_timestamp: "t \<le> 0xFFFFFFFF \<Longrightarrow> ucast (ucast (t :: u64) :: u32) = t"
proof -
  assume "t \<le> 0xFFFFFFFF"
  then have "unat t < 2 ^ 32" by (simp add: word_le_nat_alt)
  then show ?thesis by (simp add: word_unat_eq_iff unsigned_ucast_eq unsigned_take_bit_eq take_bit_nat_eq_self)
qed

text \<open>A reassembler between two access units whose last one was older.\<close>

definition idle_before :: "('p, 'd) h264_lib \<Rightarrow> u64 \<Rightarrow> 'd rtp_reassembler \<Rightarrow> bool" where
  "idle_before L ts r \<longleftrightarrow> reset_pending L r = r \<and>
     (case ra_last_completed_timestamp r of None \<Rightarrow> True | Some t \<Rightarrow> is_newer_timestamp (ucast ts) t)"

lemma idle_admits: "idle_before L ts r \<Longrightarrow> admits (ucast ts) seq r \<and> ra_pending_payload r = [] \<and> ra_depacketizer r = packet_default L"
  by (metis (no_types, lifting) admits_def idle_before_def option.simps(4) reset_pending_def
      rtp_reassembler.select_convs(1-3) rtp_reassembler.surjective rtp_reassembler.update_convs(1-4))

lemma in_run_suffix: "in_run ts seq (ps @ qs) \<Longrightarrow> qs \<noteq> [] \<Longrightarrow> in_run ts (seq + of_nat (length ps)) qs"
proof (induction ps arbitrary: seq)
  case (Cons p ps)
  from Cons.IH [of "seq + 1"] Cons.prems show ?case by (auto simp: add.assoc)
qed simp

text \<open>The packets of one access unit, in order, fed to a reassembler between two access units.\<close>

lemma access_unit_reassembled:
  assumes "packetize L f z = (Inr packets, z')" "idle_before L (vf_timestamp f) r"
    and "depackets L (packet_default L) (map pk_payload packets) = Some (vf_payload f, d)"
    and "list_all (\<lambda>p. is_valid_h264_payload L (pk_payload p)) packets"
  shows "push_all L now packets r = (replicate (length packets - 1) (Inr None) @
      [Inr (Some (frame_of L now (ucast (vf_timestamp f)) (vf_payload f) r))], completed L (ucast (vf_timestamp f)) r)"
proof -
  note p = packetize_run [OF assms(1)]
  note i = idle_admits [OF assms(2), of "pz_next_sequence_number z"]
  have "push_all L now packets r = (replicate (length packets - 1) (Inr None) @
      [Inr (Some (frame_of L now (ucast (vf_timestamp f)) (ra_pending_payload r @ vf_payload f) r))],
      completed L (ucast (vf_timestamp f)) r)"
    using p i assms(3,4) by (intro push_run) (auto simp: list_all_iff)
  with i show ?thesis by simp
qed

text \<open>
  An access unit survives the transport.  If the payload format reads back what it wrote for
  this access unit, a reassembler between two frames turns the packets of the packetizer, in
  order, into exactly one frame with the last packet: the same payload and timestamp, and a
  keyframe exactly if it contains an IDR unit; all earlier packets give no frame and no error,
  across the wrap-around of the 16-bit sequence numbers.
\<close>

theorem frame_survives_rtp:
  assumes "packetize L f z = (Inr packets, z')" "idle_before L (vf_timestamp f) r"
    and "depackets L (packet_default L) (map pk_payload packets) = Some (vf_payload f, d)"
    and "list_all (\<lambda>p. is_valid_h264_payload L (pk_payload p)) packets"
  shows "\<exists>g r'. push_all L now packets r = (replicate (length packets - 1) (Inr None) @ [Inr (Some g)], r')
    \<and> vf_payload g = vf_payload f \<and> vf_timestamp g = vf_timestamp f \<and> vf_codec g = H264
    \<and> vf_keyframe g = contains_idr_nalu L (vf_payload f)
    \<and> vf_sequence g = ra_next_frame_sequence r \<and> vf_expires_at g = now + RECEIVED_FRAME_TTL
    \<and> ra_next_frame_sequence r' = ra_next_frame_sequence r + 1 \<and> reset_pending L r' = r'"
  using access_unit_reassembled [OF assms, of now] packetize_run [OF assms(1)] ucast_timestamp
  by (auto simp: frame_of_def completed_def reset_pending_def)

text \<open>
  C37. Loss at the start of an access unit goes unnoticed.  If leading packets of an access unit
  are lost and the remaining ones can be depacketized on their own, the reassembler reports no
  error and delivers the truncated access unit as a complete frame: the sequence number it
  expects is forgotten with every completed frame.
\<close>

theorem lost_leading_packets_unnoticed:
  assumes "packetize L f z = (Inr (lost @ rest), z')" "rest \<noteq> []" "idle_before L (vf_timestamp f) r"
    and "depackets L (packet_default L) (map pk_payload rest) = Some (tail, d)" "tail \<noteq> []"
    and "length tail \<le> MAX_ENCODED_VIDEO_FRAME_BYTES"
    and "list_all (\<lambda>p. is_valid_h264_payload L (pk_payload p)) rest"
  shows "\<exists>g r'. push_all L now rest r = (replicate (length rest - 1) (Inr None) @ [Inr (Some g)], r')
    \<and> vf_payload g = tail \<and> vf_timestamp g = vf_timestamp f"
proof -
  note p = packetize_run [OF assms(1)]
  note run = in_run_suffix [of "ucast (vf_timestamp f)" "pz_next_sequence_number z" lost rest]
  note i = idle_admits [OF assms(3), of "pz_next_sequence_number z + of_nat (length lost)"]
  have "push_all L now rest r = (replicate (length rest - 1) (Inr None) @
      [Inr (Some (frame_of L now (ucast (vf_timestamp f)) (ra_pending_payload r @ tail) r))],
      completed L (ucast (vf_timestamp f)) r)"
    using p run i assms(2,4-7) by (intro push_run) (auto simp: list_all_iff)
  with i p ucast_timestamp show ?thesis by (auto simp: frame_of_def)
qed

text \<open>An instance: one packet per NAL unit, which depacketizes to a start code and the unit.\<close>

definition sample_access_unit :: "byte list" where
  "sample_access_unit = [0, 0, 0, 1, 0x67, 1, 0, 0, 0, 1, 0x65, 2]"

definition single_nal_lib :: "(unit, unit) h264_lib" where
  "single_nal_lib = \<lparr>FUA_HEADER_SIZE = 2, FUA_NALU_TYPE = 28, NALU_TYPE_BITMASK = 0x1F, STAPA_NALU_LENGTH_SIZE = 2,
     STAPA_NALU_TYPE = 24, payloader_default = (),
     payloader_payload = (\<lambda>_ _ bytes. (if bytes = sample_access_unit then Inr [[0x67, 1], [0x65, 2]] else Inr [], ())),
     packet_default = (), depacketize = (\<lambda>_ p. (Inr ([0, 0, 0, 1] @ p), ()))\<rparr>"

definition sample_frame :: video_frame where
  "sample_frame = \<lparr>vf_codec = H264, vf_sequence = 4, vf_timestamp = 90000, vf_width = 640, vf_height = 480,
     vf_keyframe = True, vf_payload = sample_access_unit, vf_expires_at = 100\<rparr>"

definition sample_packet :: "u16 \<Rightarrow> bool \<Rightarrow> byte list \<Rightarrow> rtp_packet" where
  "sample_packet seq marker payload = \<lparr>pk_version = 2, pk_marker = marker, pk_payload_type = 102,
     pk_sequence_number = seq, pk_timestamp = 90000, pk_ssrc = 7, pk_payload = payload\<rparr>"

lemma sample_access_unit_valid: "is_valid_annex_b sample_access_unit"
  by code_simp

lemma sample_packetize:
  "\<exists>z. packetize single_nal_lib sample_frame (packetizer_new single_nal_lib 1200 102 7 65535) =
     (Inr [sample_packet 65535 False [0x67, 1], sample_packet 0 True [0x65, 2]], z)"
proof -
  have "(0xFFFFFFFF :: u64) \<ge> 90000" by code_simp
  moreover have "sample_access_unit \<noteq> []" "length sample_access_unit \<le> MAX_ENCODED_VIDEO_FRAME_BYTES"
    by (simp_all add: sample_access_unit_def MAX_ENCODED_VIDEO_FRAME_BYTES_def)
  ultimately show ?thesis
    using sample_access_unit_valid
    by (simp add: packetize_def packetizer_new_def single_nal_lib_def sample_frame_def sample_packet_def
        RTP_HEADER_BYTES_def Let_def)
qed

lemma sample_idle: "idle_before single_nal_lib 90000 (reassembler_new single_nal_lib)"
  by (simp add: idle_before_def reassembler_new_def with_dimensions_def reset_pending_def)

lemma sample_payloads_valid:
  "is_valid_h264_payload single_nal_lib [0x67, 1]" "is_valid_h264_payload single_nal_lib [0x65, 2]"
  by code_simp+

theorem frame_survives_rtp_witness:
  "\<exists>g r'. push_all single_nal_lib 50 [sample_packet 65535 False [0x67, 1], sample_packet 0 True [0x65, 2]]
      (reassembler_new single_nal_lib) = ([Inr None, Inr (Some g)], r') \<and> vf_payload g = sample_access_unit"
proof -
  obtain z where z: "packetize single_nal_lib sample_frame (packetizer_new single_nal_lib 1200 102 7 65535) =
     (Inr [sample_packet 65535 False [0x67, 1], sample_packet 0 True [0x65, 2]], z)" using sample_packetize by blast
  have i: "idle_before single_nal_lib (vf_timestamp sample_frame) (reassembler_new single_nal_lib)"
    using sample_idle by (simp add: sample_frame_def)
  have d: "depackets single_nal_lib (packet_default single_nal_lib)
      (map pk_payload [sample_packet 65535 False [0x67, 1], sample_packet 0 True [0x65, 2]]) = Some (vf_payload sample_frame, ())"
    by (simp add: single_nal_lib_def sample_packet_def sample_frame_def sample_access_unit_def)
  have v: "list_all (\<lambda>p. is_valid_h264_payload single_nal_lib (pk_payload p))
      [sample_packet 65535 False [0x67, 1], sample_packet 0 True [0x65, 2]]"
    using sample_payloads_valid by (simp add: sample_packet_def)
  from frame_survives_rtp [OF z i d v, of 50] show ?thesis by (auto simp: sample_frame_def)
qed

theorem lost_leading_packets_unnoticed_witness:
  "\<exists>g r'. push_all single_nal_lib 50 [sample_packet 0 True [0x65, 2]] (reassembler_new single_nal_lib)
      = ([Inr (Some g)], r') \<and> vf_payload g = [0, 0, 0, 1, 0x65, 2]"
proof -
  obtain z where z: "packetize single_nal_lib sample_frame (packetizer_new single_nal_lib 1200 102 7 65535) =
     (Inr ([sample_packet 65535 False [0x67, 1]] @ [sample_packet 0 True [0x65, 2]]), z)" using sample_packetize by auto
  have i: "idle_before single_nal_lib (vf_timestamp sample_frame) (reassembler_new single_nal_lib)"
    using sample_idle by (simp add: sample_frame_def)
  have d: "depackets single_nal_lib (packet_default single_nal_lib) (map pk_payload [sample_packet 0 True [0x65, 2]])
      = Some ([0, 0, 0, 1, 0x65, 2], ())"
    by (simp add: single_nal_lib_def sample_packet_def)
  have v: "list_all (\<lambda>p. is_valid_h264_payload single_nal_lib (pk_payload p)) [sample_packet 0 True [0x65, 2]]"
    using sample_payloads_valid by (simp add: sample_packet_def)
  from lost_leading_packets_unnoticed [OF z _ i d _ _ v, of 50]
  show ?thesis by (auto simp: MAX_ENCODED_VIDEO_FRAME_BYTES_def)
qed

section \<open>Delivered frames are contiguous\<close>

datatype rtp_event = RtpPush rtp_packet instant | RtpReset | RtpRelease

fun rtp_step :: "('p, 'd) h264_lib \<Rightarrow> rtp_event \<Rightarrow> 'd rtp_reassembler \<Rightarrow> 'd rtp_reassembler" where
  "rtp_step L (RtpPush p now) r = snd (push_at L p now r)"
| "rtp_step L RtpReset r = ra_reset L r"
| "rtp_step L RtpRelease r = clear_for_endpoint_release L r"

definition pushed :: "rtp_event list \<Rightarrow> rtp_packet list" where
  "pushed es = List.map_filter (\<lambda>e. case e of RtpPush p _ \<Rightarrow> Some p | _ \<Rightarrow> None) es"

fun open_run :: "u32 \<Rightarrow> u16 \<Rightarrow> rtp_packet list \<Rightarrow> bool" where
  "open_run ts seq [] \<longleftrightarrow> True"
| "open_run ts seq (p # ps) \<longleftrightarrow> pk_timestamp p = ts \<and> pk_sequence_number p = seq \<and> \<not> pk_marker p \<and> open_run ts (seq + 1) ps"

lemma open_run_snoc:
  "open_run ts seq (ps @ [p]) \<longleftrightarrow>
     open_run ts seq ps \<and> pk_timestamp p = ts \<and> pk_sequence_number p = seq + of_nat (length ps) \<and> \<not> pk_marker p"
  by (induction ps arbitrary: seq) (auto simp: add.assoc)

lemma in_run_snoc:
  "open_run ts seq ps \<Longrightarrow> pk_timestamp p = ts \<Longrightarrow> pk_sequence_number p = seq + of_nat (length ps) \<Longrightarrow> pk_marker p
   \<Longrightarrow> in_run ts seq (ps @ [p])"
  by (induction ps arbitrary: seq) (auto simp: add.assoc)

lemma depackets_snoc:
  "depackets L d (ps @ [p]) =
     (case depackets L d ps of
        None \<Rightarrow> None
      | Some (xs, d') \<Rightarrow> (case depacketize L d' p of (Inl _, _) \<Rightarrow> None | (Inr y, d'') \<Rightarrow> Some (xs @ y, d'')))"
  by (induction ps arbitrary: d) (auto split: option.splits prod.splits sum.splits)

lemma reset_pending_idem [simp]: "reset_pending L (reset_pending L r) = reset_pending L r"
  by (simp add: reset_pending_def)

lemma push_at_outcome:
  assumes "push_at L p now r = (x, r')"
  obtains
    (rejected) e where "x = Inl e" "reset_pending L r' = r'"
  | (taken) y d where "admits (pk_timestamp p) (pk_sequence_number p) r"
      "depacketize L (ra_depacketizer r) (pk_payload p) = (Inr y, d)"
      "length (ra_pending_payload r @ y) \<le> MAX_ENCODED_VIDEO_FRAME_BYTES"
      "if pk_marker p
       then x = Inr (Some (frame_of L now (pk_timestamp p) (ra_pending_payload r @ y) r)) \<and> reset_pending L r' = r'
       else x = Inr None \<and> r' = r\<lparr>ra_pending_timestamp := Some (pk_timestamp p), ra_depacketizer := d,
          ra_expected_sequence := Some (pk_sequence_number p + 1), ra_pending_payload := ra_pending_payload r @ y\<rparr>"
proof (cases "pk_version p = 2 \<and> is_valid_h264_payload L (pk_payload p) \<and> admits (pk_timestamp p) (pk_sequence_number p) r")
  case True
  show ?thesis
  proof (cases "depacketize L (ra_depacketizer r) (pk_payload p)")
    case (Pair res d)
    show ?thesis
    proof (cases "\<exists>y. res = Inr y \<and> length (ra_pending_payload r) + length y \<le> MAX_ENCODED_VIDEO_FRAME_BYTES")
      case True
      then obtain y where y: "res = Inr y" "length (ra_pending_payload r) + length y \<le> MAX_ENCODED_VIDEO_FRAME_BYTES" by blast
      have q: "push_at L p now r =
        (if \<not> pk_marker p then
           (Inr None, r\<lparr>ra_pending_timestamp := Some (pk_timestamp p), ra_depacketizer := d,
              ra_expected_sequence := Some (pk_sequence_number p + 1), ra_pending_payload := ra_pending_payload r @ y\<rparr>)
         else if ra_pending_payload r @ y = [] then (Inl RtpMalformedPayload, reset_pending L r)
         else (Inr (Some (frame_of L now (pk_timestamp p) (ra_pending_payload r @ y) r)), completed L (pk_timestamp p) r))"
        using \<open>pk_version p = 2 \<and> _\<close> by (intro push_at_admitted [OF _ _ _ Pair [unfolded y(1)] y(2)]) auto
      show ?thesis
      proof (cases "pk_marker p \<and> ra_pending_payload r @ y = []")
        case True
        with q assms have "x = Inl RtpMalformedPayload" "reset_pending L r' = r'" by auto
        then show ?thesis by (rule rejected)
      next
        case False
        show ?thesis
        proof (rule taken)
          show "admits (pk_timestamp p) (pk_sequence_number p) r" using \<open>pk_version p = 2 \<and> _\<close> by blast
          show "depacketize L (ra_depacketizer r) (pk_payload p) = (Inr y, d)" using Pair y(1) by simp
          show "length (ra_pending_payload r @ y) \<le> MAX_ENCODED_VIDEO_FRAME_BYTES" using y(2) by simp
        qed (use q assms False in \<open>auto simp: completed_def split: if_splits\<close>)
      qed
    next
      case False
      with True assms Pair have "\<exists>e. x = Inl e \<and> reset_pending L r' = r'"
        by (auto simp: push_at_def Let_def admits_def split: option.splits if_splits sum.splits)
      then show ?thesis using rejected by blast
    qed
  qed
next
  case False
  then have "\<exists>e. x = Inl e \<and> reset_pending L r' = r'"
    using assms unfolding push_at_def Let_def
    by (auto simp: admits_def split: option.splits if_splits)
  then show ?thesis using rejected by blast
qed

definition pending_from :: "('p, 'd) h264_lib \<Rightarrow> rtp_packet list \<Rightarrow> 'd rtp_reassembler \<Rightarrow> bool" where
  "pending_from L history r \<longleftrightarrow>
     (\<exists>ts seq run. suffix run history \<and> open_run ts seq run
        \<and> depackets L (packet_default L) (map pk_payload run) = Some (ra_pending_payload r, ra_depacketizer r)
        \<and> (if run = [] then ra_pending_timestamp r = None
           else ra_pending_timestamp r = Some ts \<and> ra_expected_sequence r = Some (seq + of_nat (length run))))"

lemma pending_from_idle: "reset_pending L r = r \<Longrightarrow> pending_from L history r"
proof -
  assume "reset_pending L r = r"
  then have "ra_pending_payload r = []" "ra_depacketizer r = packet_default L" "ra_pending_timestamp r = None"
    by (metis reset_pending_def rtp_reassembler.select_convs(1-3) rtp_reassembler.surjective rtp_reassembler.update_convs(1-4))+
  then show ?thesis unfolding pending_from_def
    by (intro exI [of _ 0] exI [of _ "0 :: u16"] exI [of _ "[]"]) auto
qed

lemma pending_admits:
  assumes "pending_from L history r" "admits (pk_timestamp p) (pk_sequence_number p) r"
  obtains seq run where "suffix run history" "open_run (pk_timestamp p) seq run"
    "depackets L (packet_default L) (map pk_payload run) = Some (ra_pending_payload r, ra_depacketizer r)"
    "pk_sequence_number p = seq + of_nat (length run)"
proof -
  from assms(1) obtain ts seq run where r: "suffix run history" "open_run ts seq run"
    "depackets L (packet_default L) (map pk_payload run) = Some (ra_pending_payload r, ra_depacketizer r)"
    "if run = [] then ra_pending_timestamp r = None
     else ra_pending_timestamp r = Some ts \<and> ra_expected_sequence r = Some (seq + of_nat (length run))"
    unfolding pending_from_def by blast
  show thesis
  proof (cases "run = []")
    case True
    with r show thesis by (intro that [of "[]" "pk_sequence_number p"]) auto
  next
    case False
    with r assms(2) have "ts = pk_timestamp p" "pk_sequence_number p = seq + of_nat (length run)"
      by (auto simp: admits_def)
    with r show thesis by (intro that [of run seq]) auto
  qed
qed

lemma pending_push:
  assumes "pending_from L history r" "push_at L p now r = (x, r')"
  shows "pending_from L (history @ [p]) r'"
  using assms(2)
proof (cases rule: push_at_outcome)
  case (taken y d)
  obtain seq run where run: "suffix run history" "open_run (pk_timestamp p) seq run"
    "depackets L (packet_default L) (map pk_payload run) = Some (ra_pending_payload r, ra_depacketizer r)"
    "pk_sequence_number p = seq + of_nat (length run)"
    using pending_admits [OF assms(1) taken(1)] by blast
  show ?thesis
  proof (cases "pk_marker p")
    case False
    have "suffix (run @ [p]) (history @ [p])" using run(1) by (auto simp: suffix_def)
    moreover have "depackets L (packet_default L) (map pk_payload (run @ [p])) = Some (ra_pending_payload r @ y, d)"
      using run(3) taken(2) by (simp add: depackets_snoc)
    ultimately show ?thesis
      using False taken(4) run unfolding pending_from_def
      by (intro exI [of _ "pk_timestamp p"] exI [of _ seq] exI [of _ "run @ [p]"]) (auto simp: open_run_snoc add.assoc)
  qed (use taken(4) in \<open>auto intro: pending_from_idle\<close>)
qed (rule pending_from_idle)

lemma pushed_snoc:
  "pushed (es @ [RtpPush p now]) = pushed es @ [p]" "pushed (es @ [RtpReset]) = pushed es" "pushed (es @ [RtpRelease]) = pushed es"
  by (simp_all add: pushed_def List.map_filter_def)

lemma pending_run: "pending_from L (pushed es) (fold (rtp_step L) es (reassembler_new L))"
proof (induction es rule: rev_induct)
  case Nil
  show ?case by (rule pending_from_idle) (simp add: reassembler_new_def with_dimensions_def reset_pending_def)
next
  case (snoc e es)
  let ?r = "fold (rtp_step L) es (reassembler_new L)"
  show ?case
  proof (cases e)
    case (RtpPush p now)
    obtain x r' where "push_at L p now ?r = (x, r')" by (cases "push_at L p now ?r")
    with pending_push [OF snoc] RtpPush show ?thesis by (simp add: pushed_snoc)
  next
    case RtpReset
    have "pending_from L (pushed es) (ra_reset L ?r)"
      by (rule pending_from_idle) (simp add: ra_reset_def reset_pending_def)
    with RtpReset show ?thesis by (simp add: pushed_snoc)
  next
    case RtpRelease
    have "pending_from L (pushed es) (clear_for_endpoint_release L ?r)"
      by (rule pending_from_idle) (simp add: clear_for_endpoint_release_def ra_reset_def reset_pending_def)
    with RtpRelease show ?thesis by (simp add: pushed_snoc)
  qed
qed

text \<open>
  A delivered frame is never stitched together.  Whatever packets arrive, in whatever order
  and with whatever losses, a frame the reassembler delivers is the depacketized content of the
  packets that arrived last, in their order: they have consecutive sequence numbers, the
  timestamp of the frame, and the marker exactly on the last one; and it fits the size limit.
\<close>

theorem delivered_frame_contiguous:
  assumes "push_at L p now (fold (rtp_step L) es (reassembler_new L)) = (Inr (Some f), r')"
  shows "\<exists>seq run d. suffix run (pushed es @ [p]) \<and> run \<noteq> [] \<and> in_run (pk_timestamp p) seq run
    \<and> depackets L (packet_default L) (map pk_payload run) = Some (vf_payload f, d)
    \<and> vf_timestamp f = ucast (pk_timestamp p) \<and> length (vf_payload f) \<le> MAX_ENCODED_VIDEO_FRAME_BYTES"
  using assms
proof (cases rule: push_at_outcome)
  case (taken y d)
  let ?r = "fold (rtp_step L) es (reassembler_new L)"
  obtain seq run where run: "suffix run (pushed es)" "open_run (pk_timestamp p) seq run"
    "depackets L (packet_default L) (map pk_payload run) = Some (ra_pending_payload ?r, ra_depacketizer ?r)"
    "pk_sequence_number p = seq + of_nat (length run)"
    using pending_admits [OF pending_run taken(1)] by blast
  have m: "pk_marker p" "f = frame_of L now (pk_timestamp p) (ra_pending_payload ?r @ y) ?r"
    using taken(4) by (auto split: if_splits)
  have "suffix (run @ [p]) (pushed es @ [p])" using run(1) by (auto simp: suffix_def)
  moreover have "in_run (pk_timestamp p) seq (run @ [p])" using in_run_snoc [OF run(2) refl run(4) m(1)] .
  moreover have "depackets L (packet_default L) (map pk_payload (run @ [p])) = Some (vf_payload f, d)"
    using run(3) taken(2) by (simp add: depackets_snoc m(2) frame_of_def)
  ultimately show ?thesis using taken(3)
    by (intro exI [of _ seq] exI [of _ "run @ [p]"] exI [of _ d]) (auto simp: m(2) frame_of_def)
qed simp

theorem delivered_frame_contiguous_witness:
  "\<exists>f r'. push_at single_nal_lib (sample_packet 0 True [0x65, 2]) 50
      (fold (rtp_step single_nal_lib) [RtpReset] (reassembler_new single_nal_lib)) = (Inr (Some f), r')
    \<and> length (vf_payload f) \<le> MAX_ENCODED_VIDEO_FRAME_BYTES"
proof -
  obtain f r' where f: "push_at single_nal_lib (sample_packet 0 True [0x65, 2]) 50
      (fold (rtp_step single_nal_lib) [RtpReset] (reassembler_new single_nal_lib)) = (Inr (Some f), r')"
    using push_at_admitted [of "sample_packet 0 True [0x65, 2]" single_nal_lib "ra_reset single_nal_lib (reassembler_new single_nal_lib)"
        "[0, 0, 0, 1, 0x65, 2]" "()" 50] sample_payloads_valid(2)
    by (simp add: sample_packet_def admits_def reassembler_new_def with_dimensions_def ra_reset_def reset_pending_def
        single_nal_lib_def MAX_ENCODED_VIDEO_FRAME_BYTES_def)
  from delivered_frame_contiguous [OF this] f show ?thesis by blast
qed

end
