(* ===== verification/Video_Screen.thy ===== *)
theory Video_Screen
  imports Video_Rtp
begin

text \<open>
  The state of one peer's H.264 screen video (\<open>network-webrtc/src/media/video.rs\<close>, the struct
  \<open>H264ScreenVideo\<close> and its methods): the two frame queues, the packetizer and reassembler,
  the loss and jitter accounting of the inbound track, and the counters.
\<close>

section \<open>Definitions\<close>

definition H264_RTP_PAYLOAD_TYPE :: byte where "H264_RTP_PAYLOAD_TYPE = 102"
definition H264_RTP_MTU :: nat where "H264_RTP_MTU = 1200"
definition MIN_PLI_INTERVAL :: duration where "MIN_PLI_INTERVAL = 10 ^ 9"
definition RTP_REORDER_WINDOW :: u64 where "RTP_REORDER_WINDOW = 128"

datatype adaptation_reason = Steady | Congestion | Recovery

record adaptation_target =
  at_bitrate_kbps :: u32
  at_framerate :: u32
  at_width :: u32
  at_height :: u32
  at_reason :: adaptation_reason

definition MIN_BITRATE_KBPS :: u32 where "MIN_BITRATE_KBPS = 256"
definition MAX_BITRATE_KBPS :: u32 where "MAX_BITRATE_KBPS = 3 * 1024"
definition MIN_FRAMERATE :: u32 where "MIN_FRAMERATE = 5"
definition MAX_FRAMERATE :: u32 where "MAX_FRAMERATE = 30"

definition adaptation_is_valid :: "adaptation_target \<Rightarrow> bool" where
  "adaptation_is_valid t \<longleftrightarrow>
     at_bitrate_kbps t \<ge> MIN_BITRATE_KBPS \<and> at_bitrate_kbps t \<le> MAX_BITRATE_KBPS
     \<and> at_framerate t \<ge> MIN_FRAMERATE \<and> at_framerate t \<le> MAX_FRAMERATE
     \<and> (at_width t = 0 \<and> at_height t = 0
        \<or> at_width t > 0 \<and> at_height t > 0 \<and> at_width t \<le> MAX_SCREEN_VIDEO_WIDTH \<and> at_height t \<le> MAX_SCREEN_VIDEO_HEIGHT)"

record ('p, 'd) screen_video =
  sv_sender_id :: "nat option"
  sv_outbound :: video_queue
  sv_inbound :: video_queue
  sv_packetizer :: "'p rtp_packetizer option"
  sv_reassembler :: "'d rtp_reassembler"
  sv_accepts_inbound :: bool
  sv_inbound_track_id :: "string option"
  sv_inbound_receiver_id :: "nat option"
  sv_inbound_media_ssrc :: "u32 option"
  sv_adaptation_target :: adaptation_target
  sv_packets_sent :: u64
  sv_packets_received :: u64
  sv_packets_lost :: u64
  sv_frames_recovered :: u64
  sv_recovery_pending :: bool
  sv_highest_inbound :: "u64 option"
  sv_finalized_inbound :: "u64 option"
  sv_received_sequences :: "u64 set"
  sv_last_inbound_timestamp :: "u32 option"
  sv_last_inbound_arrival :: "instant option"
  sv_jitter_rtp_units :: u64
  sv_last_pli_emit :: "instant option"

definition screen_video_new ::
  "('p, 'd) h264_lib \<Rightarrow> nat option \<Rightarrow> u32 option \<Rightarrow> bool \<Rightarrow> ('p, 'd) screen_video" where
  "screen_video_new L sender_id ssrc accepts_inbound =
     \<lparr>sv_sender_id = sender_id, sv_outbound = video_queue_new, sv_inbound = video_queue_new,
      sv_packetizer = map_option (\<lambda>ssrc. packetizer_new L H264_RTP_MTU H264_RTP_PAYLOAD_TYPE ssrc (ucast ssrc + 1)) ssrc,
      sv_reassembler = reassembler_new L, sv_accepts_inbound = accepts_inbound, sv_inbound_track_id = None,
      sv_inbound_receiver_id = None, sv_inbound_media_ssrc = None,
      sv_adaptation_target = \<lparr>at_bitrate_kbps = MAX_BITRATE_KBPS, at_framerate = MAX_FRAMERATE, at_width = 0,
        at_height = 0, at_reason = Steady\<rparr>,
      sv_packets_sent = 0, sv_packets_received = 0, sv_packets_lost = 0, sv_frames_recovered = 0,
      sv_recovery_pending = False, sv_highest_inbound = None, sv_finalized_inbound = None,
      sv_received_sequences = {}, sv_last_inbound_timestamp = None, sv_last_inbound_arrival = None,
      sv_jitter_rtp_units = 0, sv_last_pli_emit = None\<rparr>"

definition sv_on_ice_restart :: "('p, 'd) screen_video \<Rightarrow> ('p, 'd) screen_video" where
  "sv_on_ice_restart v = v\<lparr>sv_outbound := request_keyframe KfIceRestart (sv_outbound v)\<rparr>"

definition reset_inbound_timing :: "('p, 'd) screen_video \<Rightarrow> ('p, 'd) screen_video" where
  "reset_inbound_timing v = v\<lparr>sv_highest_inbound := None, sv_finalized_inbound := None, sv_received_sequences := {},
     sv_last_inbound_timestamp := None, sv_last_inbound_arrival := None, sv_jitter_rtp_units := 0\<rparr>"

definition reset_inbound_endpoint :: "('p, 'd) screen_video \<Rightarrow> ('p, 'd) screen_video" where
  "reset_inbound_endpoint v = (reset_inbound_timing v)\<lparr>sv_packets_lost := 0\<rparr>"

definition sv_on_connection_lost :: "('p, 'd) h264_lib \<Rightarrow> ('p, 'd) screen_video \<Rightarrow> ('p, 'd) screen_video" where
  "sv_on_connection_lost L v =
     (reset_inbound_timing (v\<lparr>sv_outbound := vq_on_disconnect (sv_outbound v), sv_inbound := vq_on_disconnect (sv_inbound v),
        sv_reassembler := ra_reset L (sv_reassembler v), sv_inbound_track_id := None, sv_inbound_receiver_id := None,
        sv_inbound_media_ssrc := None\<rparr>))\<lparr>sv_recovery_pending := sv_accepts_inbound v, sv_last_pli_emit := None\<rparr>"

definition mark_recovery_needed :: "('p, 'd) screen_video \<Rightarrow> ('p, 'd) screen_video" where
  "mark_recovery_needed v = v\<lparr>sv_recovery_pending := True, sv_inbound := request_keyframe KfPacketLoss (sv_inbound v)\<rparr>"

text \<open>The 16-bit number closest to the highest one seen so far, as a 64-bit number.\<close>

definition extend_inbound_sequence :: "('p, 'd) screen_video \<Rightarrow> u16 \<Rightarrow> u64" where
  "extend_inbound_sequence v sequence =
     (case sv_highest_inbound v of
        None \<Rightarrow> ucast sequence
      | Some highest \<Rightarrow>
          (let delta = sint (sequence - ucast highest)
           in if delta \<ge> 0 then saturating_add highest (of_int delta) else saturating_sub highest (of_int \<bar>delta\<bar>)))"

text \<open>The loss accounting of one packet, its extended number given.\<close>

definition observe_sequence :: "u64 \<Rightarrow> ('p, 'd) screen_video \<Rightarrow> ('p, 'd) screen_video" where
  "observe_sequence extended v =
     (case sv_highest_inbound v of
        None \<Rightarrow> v\<lparr>sv_highest_inbound := Some extended, sv_finalized_inbound := Some extended,
                  sv_received_sequences := insert extended (sv_received_sequences v)\<rparr>
      | Some highest0 \<Rightarrow>
          (let highest = (if extended > highest0 then extended else highest0);
               finalized = the (sv_finalized_inbound v);
               seqs = (if extended > finalized then insert extended (sv_received_sequences v) else sv_received_sequences v);
               lower_bound = saturating_sub highest RTP_REORDER_WINDOW;
               finalize_through = saturating_sub lower_bound 1;
               v = v\<lparr>sv_highest_inbound := Some highest, sv_received_sequences := seqs\<rparr>
           in if finalize_through > finalized
              then (let start = saturating_add finalized 1;
                        expected = saturating_add (saturating_sub finalize_through start) 1;
                        received = of_nat (card (Set.filter (\<lambda>s. start \<le> s \<and> s \<le> finalize_through) seqs))
                    in v\<lparr>sv_packets_lost := saturating_add (sv_packets_lost v) (saturating_sub expected received),
                         sv_received_sequences :=
                           (if finalize_through = - 1 then {}
                            else Set.filter (\<lambda>s. saturating_add finalize_through 1 \<le> s) seqs),
                         sv_finalized_inbound := Some finalize_through\<rparr>)
              else v))"

text \<open>
  The interarrival jitter.  The nanoseconds between two arrivals are 128-bit in the code, the
  product with the clock rate saturates, and the ticks are cut to 64 bits.
\<close>

definition arrival_ticks :: "instant \<Rightarrow> instant \<Rightarrow> nat" where
  "arrival_ticks now previous = min (min ((now - previous) * 90000) (2 ^ 128 - 1) div 10 ^ 9) (2 ^ 64 - 1)"

definition next_jitter :: "u64 \<Rightarrow> u64 \<Rightarrow> u64" where
  "next_jitter jitter absolute_delta =
     (if absolute_delta \<ge> jitter then saturating_add jitter ((absolute_delta - jitter) div 16)
      else saturating_sub jitter (saturating_add (jitter - absolute_delta) 15 div 16))"

definition observe_timing :: "u32 \<Rightarrow> instant \<Rightarrow> ('p, 'd) screen_video \<Rightarrow> ('p, 'd) screen_video" where
  "observe_timing timestamp now v =
     (case (sv_last_inbound_timestamp v, sv_last_inbound_arrival v) of
        (Some previous_timestamp, Some previous_arrival) \<Rightarrow>
          (let timestamp_delta = timestamp - previous_timestamp
           in if timestamp_delta > 0 \<and> timestamp_delta \<le> 0x7FFFFFFF
              then (let transit_delta = int (arrival_ticks now previous_arrival) - uint timestamp_delta
                    in v\<lparr>sv_jitter_rtp_units := next_jitter (sv_jitter_rtp_units v) (of_int \<bar>transit_delta\<bar>),
                         sv_last_inbound_timestamp := Some timestamp, sv_last_inbound_arrival := Some now\<rparr>)
              else v)
      | _ \<Rightarrow> v\<lparr>sv_last_inbound_timestamp := Some timestamp, sv_last_inbound_arrival := Some now\<rparr>)"

definition observe_inbound_packet :: "rtp_packet \<Rightarrow> instant \<Rightarrow> ('p, 'd) screen_video \<Rightarrow> ('p, 'd) screen_video" where
  "observe_inbound_packet packet now v =
     (let v = v\<lparr>sv_packets_received := saturating_add (sv_packets_received v) 1\<rparr>;
          v = observe_sequence (extend_inbound_sequence v (pk_sequence_number packet)) v
      in observe_timing (pk_timestamp packet) now v)"

definition jitter_ms :: "('p, 'd) screen_video \<Rightarrow> u64" where
  "jitter_ms v = of_nat (min (unat (sv_jitter_rtp_units v) * 1000) (2 ^ 64 - 1)) div 90000"

section \<open>Statistics\<close>

record screen_video_stats =
  ss_enqueued :: u64
  ss_dequeued :: u64
  ss_dropped :: u64
  ss_keyframe_requests :: u64
  ss_packets_sent :: u64
  ss_packets_received :: u64
  ss_packets_lost :: u64
  ss_frames_recovered :: u64
  ss_jitter_ms :: u64
  ss_rtt_ms :: u64
  ss_queue_depth :: u32
  ss_queue_capacity :: u32

definition from_direction :: "('p, 'd) screen_video \<Rightarrow> video_queue \<Rightarrow> bool \<Rightarrow> screen_video_stats" where
  "from_direction v queue send =
     (let s = vq_stats queue
      in \<lparr>ss_enqueued = st_enqueued s, ss_dequeued = st_dequeued s,
          ss_dropped = saturating_add (saturating_add (saturating_add (st_dropped_stale s) (st_dropped_overflow s))
            (st_dropped_unsafe_delta s)) (st_dropped_on_disconnect s),
          ss_keyframe_requests = st_keyframe_requests s,
          ss_packets_sent = (if send then sv_packets_sent v else 0),
          ss_packets_received = (if send then 0 else sv_packets_received v),
          ss_packets_lost = (if send then 0 else sv_packets_lost v),
          ss_frames_recovered = (if send then 0 else sv_frames_recovered v),
          ss_jitter_ms = (if send then 0 else jitter_ms v), ss_rtt_ms = 0,
          ss_queue_depth = of_nat (min (length (vq_frames queue)) SCREEN_VIDEO_QUEUE_CAPACITY),
          ss_queue_capacity = of_nat SCREEN_VIDEO_QUEUE_CAPACITY\<rparr>)"

section \<open>Extended sequence numbers\<close>

lemma sint_difference:
  assumes "n < h + 2 ^ 15" "h \<le> n + 2 ^ 15"
  shows "sint (of_nat n - of_nat h :: u16) = int n - int h"
proof -
  have "(of_nat n - of_nat h :: u16) = of_int (int n - int h)" by simp
  then have "sint (of_nat n - of_nat h :: u16) = signed_take_bit 15 (int n - int h)"
    by (simp only: signed_of_int) simp
  also have "\<dots> = int n - int h"
    using assms by (intro signed_take_bit_int_eq_self) auto
  finally show ?thesis .
qed

text \<open>A number within half the 16-bit range of the highest one is recovered from its low 16 bits.\<close>

lemma extend_exact:
  assumes "sv_highest_inbound v = Some highest" "n < 2 ^ 64" "n < unat highest + 2 ^ 15" "unat highest \<le> n + 2 ^ 15"
  shows "unat (extend_inbound_sequence v (of_nat n)) = n"
proof -
  define d where "d = int n - int (unat highest)"
  have ext: "extend_inbound_sequence v (of_nat n) =
    (if d \<ge> 0 then saturating_add highest (of_int d) else saturating_sub highest (of_int \<bar>d\<bar>))"
    using sint_difference [OF assms(3,4)] assms(1) by (simp add: extend_inbound_sequence_def d_def of_nat_unat)
  show ?thesis
  proof (cases "unat highest \<le> n")
    case True
    then have d: "d = int (n - unat highest)" by (simp add: d_def)
    then have "unat (of_int d :: u64) = n - unat highest"
      using assms(2) by (simp only: of_int_of_nat_eq) (simp add: unat_of_nat)
    moreover have "0 \<le> d" by (simp add: d)
    ultimately show ?thesis
      using True assms by (simp add: ext unat_saturating_add)
  next
    case False
    then have d: "d = - int (unat highest - n)" by (simp add: d_def)
    then have "\<bar>d\<bar> = int (unat highest - n)" by simp
    then have "unat (of_int \<bar>d\<bar> :: u64) = unat highest - n"
      using unat_bound [of highest] by (simp only: of_int_of_nat_eq) (simp add: unat_of_nat)
    moreover have "\<not> 0 \<le> d" using False unfolding d by linarith
    ultimately show ?thesis
      using False by (simp add: ext unat_saturating_sub)
  qed
qed

section \<open>Loss accounting\<close>

text \<open>
  The packets of a stream by their true numbers: each at most 128 behind and less than half the
  16-bit range ahead of the highest one before it.
\<close>

fun reordered_within :: "nat \<Rightarrow> nat list \<Rightarrow> bool" where
  "reordered_within h [] \<longleftrightarrow> True"
| "reordered_within h (n # ns) \<longleftrightarrow> n < h + 2 ^ 15 \<and> h \<le> n + 128 \<and> reordered_within (max h n) ns"

text \<open>
  After the packets \<open>R\<close>, the first one being \<open>a\<close> and the highest one \<open>h\<close>: everything up to
  \<open>h - 129\<close> is final and counted, what arrived above it is remembered.
\<close>

definition loss_state :: "nat \<Rightarrow> nat \<Rightarrow> nat \<Rightarrow> nat set \<Rightarrow> ('p, 'd) screen_video \<Rightarrow> bool" where
  "loss_state lost0 a h R v \<longleftrightarrow>
     (\<exists>hw fw. sv_highest_inbound v = Some hw \<and> sv_finalized_inbound v = Some fw
        \<and> unat hw = h \<and> unat fw = max a (h - 129) \<and> a \<in> R \<and> finite R \<and> a \<le> h
        \<and> unat ` sv_received_sequences v = {x \<in> R. max a (h - 129) < x \<or> x = a \<and> h - 129 \<le> a}
        \<and> unat (sv_packets_lost v) = lost0 + card ({a<..h - 129} - R))"

lemma count_in_range:
  "card (Set.filter (\<lambda>s. x \<le> s \<and> s \<le> y) (S :: 'a::len word set)) = card (unat ` S \<inter> {unat x..unat y})"
proof -
  have "unat ` Set.filter (\<lambda>s. x \<le> s \<and> s \<le> y) S = unat ` S \<inter> {unat x..unat y}"
    by (auto simp: word_le_nat_alt)
  moreover have "inj_on unat (Set.filter (\<lambda>s. x \<le> s \<and> s \<le> y) S)"
    by (rule inj_onI) (simp add: word_unat_eq_iff)
  ultimately show ?thesis by (metis card_image)
qed

text \<open>The numbers that become final together: those that arrived and those that are missing.\<close>

lemma missing_split:
  fixes R :: "nat set"
  assumes "a \<le> F" "F \<le> F'"
  shows "card ({a<..F'} - R) = card ({a<..F} - R) + (F' - F - card (R \<inter> {F<..F'}))"
proof -
  have "card ({a<..F'} - R) = card ({a<..F} - R) + card ({F<..F'} - R)"
    using assms by (subst card_Un_disjoint [symmetric]) (auto intro: arg_cong [where f = card])
  moreover have "card ({F<..F'} - R) = F' - F - card (R \<inter> {F<..F'})"
    by (simp add: card_Diff_subset_Int Int_commute)
  ultimately show ?thesis by simp
qed

lemma observe_sequence_within:
  assumes v: "sv_highest_inbound v = Some hw" "sv_finalized_inbound v = Some fw" "unat hw = h" "unat fw = F"
    and n: "unat extended = n" "max h n - 129 \<le> F"
  shows "\<exists>hw'. observe_sequence extended v = v\<lparr>sv_highest_inbound := Some hw', sv_received_sequences :=
      (if n > F then insert extended (sv_received_sequences v) else sv_received_sequences v)\<rparr> \<and> unat hw' = max h n"
proof -
  let ?hw = "if extended > hw then extended else hw"
  have hw: "unat ?hw = max h n" using v n by (auto simp: word_less_nat_alt)
  have "unat (saturating_sub (saturating_sub ?hw RTP_REORDER_WINDOW) 1) = max h n - 129"
    by (simp only: unat_saturating_sub hw) (simp add: RTP_REORDER_WINDOW_def)
  then have "\<not> saturating_sub (saturating_sub ?hw RTP_REORDER_WINDOW) 1 > fw"
    using v n by (simp add: word_less_nat_alt)
  then have "observe_sequence extended v = v\<lparr>sv_highest_inbound := Some ?hw, sv_received_sequences :=
      (if n > F then insert extended (sv_received_sequences v) else sv_received_sequences v)\<rparr>"
    using v n by (simp add: observe_sequence_def Let_def word_less_nat_alt)
  with hw show ?thesis by blast
qed

lemma observe_sequence_beyond:
  assumes v: "sv_highest_inbound v = Some hw" "sv_finalized_inbound v = Some fw" "unat hw = h" "unat fw = F"
    and n: "unat extended = n" "F < n - 129" "h \<le> n"
    and lost: "unat (sv_packets_lost v) + (n - 129 - F) < 2 ^ 64"
  defines "S \<equiv> insert n (unat ` sv_received_sequences v)"
  shows "\<exists>v'. observe_sequence extended v = v' \<and> sv_highest_inbound v' = Some extended
    \<and> (\<exists>fw'. sv_finalized_inbound v' = Some fw' \<and> unat fw' = n - 129)
    \<and> unat ` sv_received_sequences v' = S \<inter> {n - 129<..}
    \<and> unat (sv_packets_lost v') = unat (sv_packets_lost v) + (n - 129 - F - card (S \<inter> {F<..n - 129}))"
proof -
  define ft where "ft = saturating_sub (saturating_sub extended RTP_REORDER_WINDOW) 1"
  define seqs where "seqs = insert extended (sv_received_sequences v)"
  define k where "k = card (S \<inter> {F<..n - 129})"
  have ft: "unat ft = n - 129" by (simp add: ft_def unat_saturating_sub n RTP_REORDER_WINDOW_def)
  have bound: "n < 2 ^ 64" using n(1) unat_bound [of extended] by simp
  have k: "k \<le> n - 129 - F"
    using card_mono [of "{F<..n - 129}" "S \<inter> {F<..n - 129}"] by (simp add: k_def)
  have start: "unat (saturating_add fw 1) = F + 1"
    using v(4) n bound by (simp add: unat_saturating_add)
  have "card (Set.filter (\<lambda>s. saturating_add fw 1 \<le> s \<and> s \<le> ft) seqs) = k"
    unfolding count_in_range start ft k_def
    by (rule arg_cong [where f = card]) (auto simp: seqs_def S_def n)
  then have received: "unat (of_nat (card (Set.filter (\<lambda>s. saturating_add fw 1 \<le> s \<and> s \<le> ft) seqs)) :: u64) = k"
    using k bound by (simp add: unat_of_nat)
  have expected: "unat (saturating_add (saturating_sub ft (saturating_add fw 1)) 1) = n - 129 - F"
    unfolding unat_saturating_add [of "saturating_sub ft (saturating_add fw 1)"] unat_saturating_sub start ft
    using n(2) bound by simp
  have hw: "(if extended > hw then extended else hw) = extended"
    using v n by (auto simp: word_less_nat_alt word_unat_eq_iff)
  have gt: "extended > fw" "ft > fw" "ft \<noteq> - 1"
    using v n ft bound unat_max_word [where 'a = 64] by (auto simp: word_less_nat_alt)
  have "unat (saturating_add ft 1) = n - 129 + 1"
    using bound by (simp add: unat_saturating_add ft)
  then have kept: "unat ` Set.filter (\<lambda>s. saturating_add ft 1 \<le> s) seqs = S \<inter> {n - 129<..}"
    by (auto simp: seqs_def S_def word_le_nat_alt simp flip: n(1))
  show ?thesis
    using v(1,2) gt hw received expected k kept lost ft
    by (simp add: observe_sequence_def Let_def unat_saturating_add unat_saturating_sub
        flip: ft_def seqs_def k_def)
qed

lemma loss_step:
  assumes "loss_state lost0 a h R v" "unat extended = n" "h \<le> n + 128" "lost0 + max h n < 2 ^ 64"
  shows "loss_state lost0 a (max h n) (insert n R) (observe_sequence extended v)"
proof -
  from assms(1) obtain hw fw where v: "sv_highest_inbound v = Some hw" "sv_finalized_inbound v = Some fw"
      "unat hw = h" "unat fw = max a (h - 129)"
    and R: "a \<in> R" "finite R" "a \<le> h" "unat ` sv_received_sequences v = {x \<in> R. max a (h - 129) < x \<or> x = a \<and> h - 129 \<le> a}"
    and lost: "unat (sv_packets_lost v) = lost0 + card ({a<..h - 129} - R)"
    unfolding loss_state_def by blast
  define F where "F = max a (h - 129)"
  show ?thesis
  proof (cases "max h n - 129 \<le> F")
    case True
    from observe_sequence_within [OF v(1-3) _ assms(2), of F] True v(4) obtain hw' where o:
      "observe_sequence extended v = v\<lparr>sv_highest_inbound := Some hw', sv_received_sequences :=
        (if n > F then insert extended (sv_received_sequences v) else sv_received_sequences v)\<rparr>" "unat hw' = max h n"
      by (auto simp: F_def)
    have F: "max a (max h n - 129) = F" using True by (simp add: F_def)
    consider "F = a" "h - 129 \<le> a" "max h n - 129 \<le> a" | "a < h - 129" "F = h - 129" "max h n - 129 = h - 129"
      using True by (cases "h - 129 \<le> a") (simp_all add: F_def)
    then have "{a<..max h n - 129} - insert n R = {a<..h - 129} - R
      \<and> unat ` sv_received_sequences (observe_sequence extended v) = {x \<in> insert n R. F < x \<or> x = a \<and> max h n - 129 \<le> a}"
    proof cases
      case 1
      then have "unat ` sv_received_sequences v = {x \<in> R. a < x \<or> x = a}" using R(4) by simp
      then show ?thesis using 1 R(1) assms(2) by (simp add: o(1)) blast
    next
      case 2
      then have "F < n" using assms(3) by linarith
      moreover have "unat ` sv_received_sequences v = {x \<in> R. F < x}" using 2 R(4) by (simp add: max_def)
      ultimately show ?thesis using 2 assms(2) by (simp add: o(1)) auto
    qed
    then show ?thesis
      using v(2) R(1-3) o lost v(4) unfolding loss_state_def F by (auto simp: F_def [symmetric])
  next
    case False
    then have n: "F < n - 129" "h \<le> n" "a \<le> F" "max h n = n" by (auto simp: F_def)
    define S where "S = insert n (unat ` sv_received_sequences v)"
    have empty: "{a<..F} = {a<..h - 129}" by (auto simp: F_def)
    have S: "S = insert n {x \<in> R. F < x \<or> x = a \<and> h - 129 \<le> a}" by (simp only: S_def R(4) F_def)
    have cnt: "insert n R \<inter> {F<..n - 129} = S \<inter> {F<..n - 129}" and late: "insert n R \<inter> {n - 129<..} = S \<inter> {n - 129<..}"
      using n(1,3) unfolding S by auto
    have "card ({a<..h - 129} - R) \<le> F - a"
      using card_mono [of "{a<..h - 129}" "{a<..h - 129} - R"] by (simp add: F_def max_def)
    with lost n assms(4) have room: "unat (sv_packets_lost v) + (n - 129 - F) < 2 ^ 64" by simp
    from observe_sequence_beyond [OF v(1-3) _ assms(2) n(1,2) room] v(4) obtain fw' where o:
      "sv_highest_inbound (observe_sequence extended v) = Some extended"
      "sv_finalized_inbound (observe_sequence extended v) = Some fw'" "unat fw' = n - 129"
      "unat ` sv_received_sequences (observe_sequence extended v) = S \<inter> {n - 129<..}"
      "unat (sv_packets_lost (observe_sequence extended v)) =
         unat (sv_packets_lost v) + (n - 129 - F - card (S \<inter> {F<..n - 129}))"
      by (auto simp: F_def S_def)
    have "card ({a<..n - 129} - insert n R) = card ({a<..F} - insert n R) + (n - 129 - F - card (S \<inter> {F<..n - 129}))"
      using missing_split [of a F "n - 129" "insert n R"] n cnt by simp
    moreover have "{a<..F} - insert n R = {a<..h - 129} - R" using n empty by auto
    ultimately have "unat (sv_packets_lost (observe_sequence extended v)) = lost0 + card ({a<..n - 129} - insert n R)"
      using o(5) lost by simp
    moreover have "S \<inter> {n - 129<..} = {x \<in> insert n R. max a (n - 129) < x \<or> x = a \<and> n - 129 \<le> a}"
      using late n by auto
    ultimately show ?thesis
      using o R n assms(2) by (simp add: loss_state_def)
  qed
qed

lemma observe_timing_fields [simp]:
  "sv_highest_inbound (observe_timing ts now v) = sv_highest_inbound v"
  "sv_finalized_inbound (observe_timing ts now v) = sv_finalized_inbound v"
  "sv_received_sequences (observe_timing ts now v) = sv_received_sequences v"
  "sv_packets_lost (observe_timing ts now v) = sv_packets_lost v"
  by (simp_all add: observe_timing_def Let_def split: option.split)

lemma loss_state_timing [simp]: "loss_state lost0 a h R (observe_timing ts now v) = loss_state lost0 a h R v"
  by (simp add: loss_state_def)

lemma observe_first:
  assumes "sv_highest_inbound v = None" "sv_received_sequences v = {}" "a < 2 ^ 16" "pk_sequence_number p = of_nat a"
  shows "loss_state (unat (sv_packets_lost v)) a a {a} (observe_inbound_packet p now v)"
proof -
  have "unat (ucast (of_nat a :: u16) :: u64) = a"
    using assms(3) by (simp add: unsigned_ucast_eq unsigned_take_bit_eq take_bit_nat_eq_self unat_of_nat)
  with assms show ?thesis
    by (auto simp: observe_inbound_packet_def Let_def extend_inbound_sequence_def observe_sequence_def loss_state_def)
qed

lemma observe_next:
  assumes "loss_state lost0 a h R v" "n < h + 2 ^ 15" "h \<le> n + 128" "lost0 + max h n < 2 ^ 64"
    "pk_sequence_number p = of_nat n"
  shows "loss_state lost0 a (max h n) (insert n R) (observe_inbound_packet p now v)"
proof -
  define w where "w = v\<lparr>sv_packets_received := saturating_add (sv_packets_received v) 1\<rparr>"
  have w: "loss_state lost0 a h R w" using assms(1) by (simp add: w_def loss_state_def)
  then obtain hw where "sv_highest_inbound w = Some hw" "unat hw = h" by (auto simp: loss_state_def)
  then have "unat (extend_inbound_sequence w (of_nat n)) = n"
    using assms by (intro extend_exact) auto
  from loss_step [OF w this assms(3,4)] assms(5) show ?thesis
    by (simp add: observe_inbound_packet_def Let_def w_def)
qed

lemma observe_run:
  assumes "loss_state lost0 a h R v" "reordered_within h ns" "\<forall>n \<in> insert h (set ns). lost0 + n < 2 ^ 64"
    "map (\<lambda>x. pk_sequence_number (fst x)) obs = map of_nat ns"
  shows "loss_state lost0 a (fold max ns h) (R \<union> set ns) (fold (\<lambda>(p, now). observe_inbound_packet p now) obs v)"
  using assms
proof (induction ns arbitrary: h R v obs)
  case (Cons n ns)
  then obtain p now obs' where obs: "obs = (p, now) # obs'" "pk_sequence_number p = of_nat n"
    "map (\<lambda>x. pk_sequence_number (fst x)) obs' = map of_nat ns"
    by (cases obs) auto
  have "loss_state lost0 a (max h n) (insert n R) (observe_inbound_packet p now v)"
    using Cons.prems obs by (intro observe_next) (auto simp: max_def)
  from Cons.IH [OF this _ _ obs(3)] Cons.prems obs show ?case
    by (auto simp: max_def max.commute insert_commute split: if_splits)
qed simp

text \<open>
  C22. The loss counter is exact.  Starting with a fresh track, whatever 16-bit numbers the packets
  carry and however they are reordered by at most 128, across any number of wrap-arounds, the
  counter grows by exactly the number of packets after the first one that never arrived and
  that lie more than 128 below the highest one; packets that may still arrive are not
  counted.  At most 130 numbers are remembered.
\<close>

theorem loss_counter_exact:
  assumes "sv_highest_inbound v = None" "sv_received_sequences v = {}" "a < 2 ^ 16" "reordered_within a ns"
    and "\<forall>n \<in> insert a (set ns). unat (sv_packets_lost v) + n < 2 ^ 64"
    and "map (\<lambda>x. pk_sequence_number (fst x)) obs = map of_nat (a # ns)"
    and "v' = fold (\<lambda>(p, now). observe_inbound_packet p now) obs v"
  shows "unat (sv_packets_lost v') = unat (sv_packets_lost v) + card ({a<..Max (insert a (set ns)) - 129} - set ns)
    \<and> card (sv_received_sequences v') \<le> 130"
proof -
  obtain p now obs' where obs: "obs = (p, now) # obs'" "pk_sequence_number p = of_nat a"
    "map (\<lambda>x. pk_sequence_number (fst x)) obs' = map of_nat ns"
    using assms(6) by (cases obs) auto
  define h where "h = Max (insert a (set ns))"
  have h: "fold max ns a = h" by (simp add: h_def Max.set_eq_fold [symmetric])
  have "loss_state (unat (sv_packets_lost v)) a h ({a} \<union> set ns) v'"
    using observe_run [OF observe_first [OF assms(1-3) obs(2)] assms(4,5) obs(3)] by (simp add: assms(7) obs(1) h)
  then have lost: "unat (sv_packets_lost v') = unat (sv_packets_lost v) + card ({a<..h - 129} - ({a} \<union> set ns))"
    and seqs: "unat ` sv_received_sequences v' = {x \<in> {a} \<union> set ns. max a (h - 129) < x \<or> x = a \<and> h - 129 \<le> a}"
    by (auto simp: loss_state_def)
  have "{a<..h - 129} - ({a} \<union> set ns) = {a<..h - 129} - set ns" by auto
  moreover have "\<forall>x \<in> {a} \<union> set ns. x \<le> h" by (auto simp: h_def)
  with seqs have "unat ` sv_received_sequences v' \<subseteq> {max a (h - 129)..h}" by auto
  then have "card (unat ` sv_received_sequences v') \<le> card {max a (h - 129)..h}" by (intro card_mono) auto
  moreover have "card (unat ` sv_received_sequences v') = card (sv_received_sequences v')"
    by (intro card_image inj_onI) (simp add: word_unat_eq_iff)
  moreover have "card {max a (h - 129)..h} \<le> 130" by simp
  ultimately show ?thesis using lost by (simp add: h_def)
qed

theorem loss_counter_exact_witness:
  "unat (sv_packets_lost (fold (\<lambda>(p, now). observe_inbound_packet p now)
     [(sample_packet 65534 True [], 0), (sample_packet 0 True [], 1), (sample_packet 264 True [], 2)]
     (screen_video_new single_nal_lib None None True))) = 136"
proof -
  let ?v = "screen_video_new single_nal_lib None None True"
  have "unat (sv_packets_lost (fold (\<lambda>(p, now). observe_inbound_packet p now)
     [(sample_packet 65534 True [], 0), (sample_packet 0 True [], 1), (sample_packet 264 True [], 2)] ?v))
     = unat (sv_packets_lost ?v) + card ({65534<..Max (insert 65534 (set [65536, 65800 :: nat])) - 129} - set [65536, 65800])"
    by (rule loss_counter_exact [OF _ _ _ _ _ _ refl, THEN conjunct1]) (simp_all add: screen_video_new_def sample_packet_def)
  moreover have "{65534<..65671} - {65536, 65800 :: nat} = {65534<..65671} - {65536}" by auto
  ultimately show ?thesis by (simp add: screen_video_new_def card_Diff_singleton)
qed

end
