(* ===== verification/Webrtc_Peer.thy ===== *)
theory Webrtc_Peer
  imports Media_Qos Media_Signaling Video_Screen
begin

text \<open>
  A WebRTC peer (\<open>network-webrtc/src/peer.rs\<close>) with its screen video
  (\<open>network-webrtc/src/media/video.rs\<close>, the methods of \<open>WebRtcPeer\<close>).  The peer connection of the
  rtc crate is third-party code: its state is a type variable, its operations are the fields of
  a record, and both are arguments of the operations.
\<close>

section \<open>The peer connection\<close>

datatype media_direction = Sendrecv | Sendonly | Recvonly

record ice_server_config =
  is_urls :: "string list"
  is_username :: "string option"
  is_credential :: "string option"

record rtc_ice_server =
  ri_urls :: "string list"
  ri_username :: string
  ri_credential :: string

record data_channel_reliability =
  dr_ordered :: bool
  dr_max_packet_life_time :: "u16 option"
  dr_max_retransmits :: "u16 option"

record 'c rtc_lib =
  rtc_mime_h264 :: string
  rtc_register_codecs :: "string + unit"
  rtc_build :: "rtc_ice_server list \<Rightarrow> bool \<Rightarrow> string + 'c"
  rtc_create_offer :: "'c \<Rightarrow> (string + string) \<times> 'c"
  rtc_create_answer :: "'c \<Rightarrow> (string + string) \<times> 'c"
  rtc_set_local :: "description_type \<Rightarrow> string \<Rightarrow> 'c \<Rightarrow> (string + unit) \<times> 'c"
  rtc_parse_description :: "description_type \<Rightarrow> string \<Rightarrow> string + unit"
  rtc_set_remote :: "description_type \<Rightarrow> string \<Rightarrow> 'c \<Rightarrow> (string + unit) \<times> 'c"
  rtc_add_remote_candidate :: "ice_candidate \<Rightarrow> 'c \<Rightarrow> (string + unit) \<times> 'c"
  rtc_add_local_candidate :: "ice_candidate \<Rightarrow> 'c \<Rightarrow> (string + unit) \<times> 'c"
  rtc_restart_ice :: "'c \<Rightarrow> 'c"
  rtc_add_transceiver :: "media_kind \<Rightarrow> media_direction \<Rightarrow> u32 option \<Rightarrow> bool \<Rightarrow> 'c \<Rightarrow> (string + unit) \<times> 'c"
  rtc_last_sender :: "'c \<Rightarrow> nat option"
  rtc_has_sender :: "nat \<Rightarrow> 'c \<Rightarrow> bool"
  rtc_write_rtp :: "nat \<Rightarrow> rtp_packet \<Rightarrow> 'c \<Rightarrow> (string + unit) \<times> 'c"
  rtc_receiver_codecs :: "nat \<Rightarrow> 'c \<Rightarrow> string list option"
  rtc_write_pli :: "nat \<Rightarrow> u32 \<Rightarrow> 'c \<Rightarrow> (string + unit) \<times> 'c"
  rtc_create_channel :: "string \<Rightarrow> data_channel_reliability \<Rightarrow> 'c \<Rightarrow> (string + nat) \<times> 'c"
  rtc_has_channel :: "nat \<Rightarrow> 'c \<Rightarrow> bool"
  rtc_channel_send :: "nat \<Rightarrow> byte list \<Rightarrow> 'c \<Rightarrow> (string + unit) \<times> 'c"
  rtc_close :: "'c \<Rightarrow> (string + unit) \<times> 'c"

definition MAX_DATA_CHANNEL_PAYLOAD_BYTES :: nat where "MAX_DATA_CHANNEL_PAYLOAD_BYTES = 64 * 1024"

datatype webrtc_error =
    InvalidConfiguration string
  | WebRtcIo string
  | Rtc string
  | Signaling signaling_error
  | DataChannelNotFound nat
  | DataChannelPayloadTooLarge
  | ScreenVideoNotConfigured
  | ScreenVideoNotReady
  | ScreenVideoAlreadyConfigured
  | VideoFrame video_frame_error
  | RtpMedia rtp_media_error

record ('c, 'p, 'd) webrtc_peer =
  wp_peer :: 'c
  wp_signaling :: signaling
  wp_qos :: media_qos
  wp_screen_video :: "('p, 'd) screen_video option"

text \<open>
  A call into the connection whose error is wrapped (\<open>map_err(rtc_error)\<close>) and a transition of
  the signaling state.
\<close>

definition rtc_do ::
  "('c \<Rightarrow> (string + 'a) \<times> 'c) \<Rightarrow> ('c, 'p, 'd) webrtc_peer \<Rightarrow> (webrtc_error + 'a) \<times> ('c, 'p, 'd) webrtc_peer" where
  "rtc_do f w = (case f (wp_peer w) of (r, c) \<Rightarrow> (map_sum Rtc id r, w\<lparr>wp_peer := c\<rparr>))"

definition sig_do ::
  "(signaling \<Rightarrow> (signaling_error + unit) \<times> signaling) \<Rightarrow> ('c, 'p, 'd) webrtc_peer
   \<Rightarrow> (webrtc_error + unit) \<times> ('c, 'p, 'd) webrtc_peer" where
  "sig_do f w = (case f (wp_signaling w) of (r, m) \<Rightarrow> (map_sum Signaling id r, w\<lparr>wp_signaling := m\<rparr>))"

section \<open>Operations of the peer\<close>

definition to_rtc_ice_server :: "ice_server_config \<Rightarrow> webrtc_error + rtc_ice_server" where
  "to_rtc_ice_server c =
     (if is_urls c = [] \<or> list_ex (\<lambda>url. url = [] \<or> length url > 2048) (is_urls c)
      then Inl (InvalidConfiguration ''each ICE server must have 1-2048 byte URL entries'')
      else Inr \<lparr>ri_urls = is_urls c, ri_username = case_option [] id (is_username c),
                 ri_credential = case_option [] id (is_credential c)\<rparr>)"

fun collect_servers :: "ice_server_config list \<Rightarrow> webrtc_error + rtc_ice_server list" where
  "collect_servers [] = Inr []"
| "collect_servers (c # cs) =
     (case to_rtc_ice_server c of
        Inl e \<Rightarrow> Inl e
      | Inr s \<Rightarrow> map_sum id ((#) s) (collect_servers cs))"

definition h264_media_engine :: "'c rtc_lib \<Rightarrow> webrtc_error + unit" where
  "h264_media_engine R = map_sum Rtc id (rtc_register_codecs R)"

definition webrtc_peer_new ::
  "'c rtc_lib \<Rightarrow> ice_server_config list \<Rightarrow> bool \<Rightarrow> media_qos_policy \<Rightarrow> media_qos_policy \<Rightarrow> media_qos_policy
   \<Rightarrow> webrtc_error + ('c, 'p, 'd) webrtc_peer" where
  "webrtc_peer_new R ice_servers relay_only audio video data_channel =
     (if length ice_servers > 8 then Inl (InvalidConfiguration ''at most eight ICE servers are supported'')
      else case collect_servers ice_servers of
        Inl e \<Rightarrow> Inl e
      | Inr servers \<Rightarrow>
          (case h264_media_engine R of
             Inl e \<Rightarrow> Inl e
           | Inr _ \<Rightarrow>
               (case rtc_build R servers relay_only of
                  Inl e \<Rightarrow> Inl (Rtc e)
                | Inr c \<Rightarrow> Inr \<lparr>wp_peer = c, wp_signaling = signaling_default,
                    wp_qos = media_qos_from_config audio video data_channel, wp_screen_video = None\<rparr>)))"

definition create_offer ::
  "'c rtc_lib \<Rightarrow> ('c, 'p, 'd) webrtc_peer \<Rightarrow> (webrtc_error + session_description) \<times> ('c, 'p, 'd) webrtc_peer" where
  "create_offer R w =
     and_then (rtc_do (rtc_create_offer R) w) (\<lambda>sdp w.
     and_then (rtc_do (rtc_set_local R SdpOffer sdp) w) (\<lambda>_ w.
     and_then (map_sum Signaling id (session_description_new SdpOffer sdp), w) (\<lambda>description w.
     and_then (sig_do local_offer w) (\<lambda>_ w. (Inr description, w)))))"

definition accept_remote_offer ::
  "'c rtc_lib \<Rightarrow> session_description \<Rightarrow> ('c, 'p, 'd) webrtc_peer \<Rightarrow> (webrtc_error + unit) \<times> ('c, 'p, 'd) webrtc_peer" where
  "accept_remote_offer R description w =
     (if sd_kind description \<noteq> SdpOffer then (Inl (InvalidConfiguration ''remote offer must have type offer''), w)
      else and_then (map_sum Rtc id (rtc_parse_description R SdpOffer (sd_sdp description)), w) (\<lambda>_ w.
           and_then (rtc_do (rtc_set_remote R SdpOffer (sd_sdp description)) w) (\<lambda>_ w.
           sig_do remote_offer w)))"

definition create_answer ::
  "'c rtc_lib \<Rightarrow> ('c, 'p, 'd) webrtc_peer \<Rightarrow> (webrtc_error + session_description) \<times> ('c, 'p, 'd) webrtc_peer" where
  "create_answer R w =
     and_then (rtc_do (rtc_create_answer R) w) (\<lambda>sdp w.
     and_then (rtc_do (rtc_set_local R SdpAnswer sdp) w) (\<lambda>_ w.
     and_then (map_sum Signaling id (session_description_new SdpAnswer sdp), w) (\<lambda>description w.
     and_then (sig_do local_answer w) (\<lambda>_ w. (Inr description, w)))))"

definition accept_remote_answer ::
  "'c rtc_lib \<Rightarrow> session_description \<Rightarrow> ('c, 'p, 'd) webrtc_peer \<Rightarrow> (webrtc_error + unit) \<times> ('c, 'p, 'd) webrtc_peer" where
  "accept_remote_answer R description w =
     (if sd_kind description \<noteq> SdpAnswer then (Inl (InvalidConfiguration ''remote answer must have type answer''), w)
      else and_then (map_sum Rtc id (rtc_parse_description R SdpAnswer (sd_sdp description)), w) (\<lambda>_ w.
           and_then (rtc_do (rtc_set_remote R SdpAnswer (sd_sdp description)) w) (\<lambda>_ w.
           sig_do remote_answer w)))"

definition add_remote_ice_candidate ::
  "'c rtc_lib \<Rightarrow> ice_candidate \<Rightarrow> ('c, 'p, 'd) webrtc_peer \<Rightarrow> (webrtc_error + unit) \<times> ('c, 'p, 'd) webrtc_peer" where
  "add_remote_ice_candidate R candidate w = rtc_do (rtc_add_remote_candidate R candidate) w"

definition add_local_ice_candidate ::
  "'c rtc_lib \<Rightarrow> ice_candidate \<Rightarrow> ('c, 'p, 'd) webrtc_peer \<Rightarrow> (webrtc_error + unit) \<times> ('c, 'p, 'd) webrtc_peer" where
  "add_local_ice_candidate R candidate w = rtc_do (rtc_add_local_candidate R candidate) w"

definition restart_ice :: "'c rtc_lib \<Rightarrow> ('c, 'p, 'd) webrtc_peer \<Rightarrow> (webrtc_error + unit) \<times> ('c, 'p, 'd) webrtc_peer" where
  "restart_ice R w =
     and_then (sig_do sig_restart (w\<lparr>wp_peer := rtc_restart_ice R (wp_peer w)\<rparr>))
       (\<lambda>_ w. (Inr (), w\<lparr>wp_screen_video := map_option sv_on_ice_restart (wp_screen_video w)\<rparr>))"

definition add_media_transceiver_with_codec ::
  "'c rtc_lib \<Rightarrow> media_kind \<Rightarrow> media_direction \<Rightarrow> u32 option \<Rightarrow> bool \<Rightarrow> ('c, 'p, 'd) webrtc_peer
   \<Rightarrow> (webrtc_error + unit) \<times> ('c, 'p, 'd) webrtc_peer" where
  "add_media_transceiver_with_codec R kind direction ssrc codec w =
     (if kind = DataChannel then (Inl (InvalidConfiguration ''DataChannel is not an RTP media transceiver''), w)
      else if direction \<noteq> Recvonly \<and> ssrc = None
      then (Inl (InvalidConfiguration ''an SSRC is required for a sending media transceiver''), w)
      else rtc_do (rtc_add_transceiver R kind direction (if direction = Recvonly then None else ssrc) codec) w)"

definition create_data_channel ::
  "'c rtc_lib \<Rightarrow> string \<Rightarrow> data_channel_reliability \<Rightarrow> ('c, 'p, 'd) webrtc_peer
   \<Rightarrow> (webrtc_error + nat) \<times> ('c, 'p, 'd) webrtc_peer" where
  "create_data_channel R label reliability w =
     (if label = [] \<or> length label > 256
      then (Inl (InvalidConfiguration ''data channel label must contain 1-256 bytes''), w)
      else if dr_max_packet_life_time reliability \<noteq> None \<and> dr_max_retransmits reliability \<noteq> None
      then (Inl (InvalidConfiguration ''data channel lifetime and retransmit limits are mutually exclusive''), w)
      else rtc_do (rtc_create_channel R label reliability) w)"

definition send_data ::
  "'c rtc_lib \<Rightarrow> nat \<Rightarrow> byte list \<Rightarrow> ('c, 'p, 'd) webrtc_peer \<Rightarrow> (webrtc_error + unit) \<times> ('c, 'p, 'd) webrtc_peer" where
  "send_data R channel_id payload w =
     (if payload = [] then (Inl (InvalidConfiguration ''data channel payload must not be empty''), w)
      else if length payload > MAX_DATA_CHANNEL_PAYLOAD_BYTES then (Inl DataChannelPayloadTooLarge, w)
      else if \<not> rtc_has_channel R channel_id (wp_peer w) then (Inl (DataChannelNotFound channel_id), w)
      else rtc_do (rtc_channel_send R channel_id payload) w)"

definition enqueue_frame ::
  "media_frame \<Rightarrow> instant \<Rightarrow> ('c, 'p, 'd) webrtc_peer \<Rightarrow> (qos_error + qos_enqueue_result) \<times> ('c, 'p, 'd) webrtc_peer" where
  "enqueue_frame f now w = (case qos_enqueue f now (wp_qos w) of (r, q) \<Rightarrow> (r, w\<lparr>wp_qos := q\<rparr>))"

definition pop_frame :: "instant \<Rightarrow> ('c, 'p, 'd) webrtc_peer \<Rightarrow> media_frame option \<times> ('c, 'p, 'd) webrtc_peer" where
  "pop_frame now w = (case qos_pop_next now (wp_qos w) of (r, q) \<Rightarrow> (r, w\<lparr>wp_qos := q\<rparr>))"

definition peer_on_connection_lost :: "('p, 'd) h264_lib \<Rightarrow> ('c, 'p, 'd) webrtc_peer \<Rightarrow> ('c, 'p, 'd) webrtc_peer" where
  "peer_on_connection_lost L w = w\<lparr>wp_qos := qos_on_connection_lost (wp_qos w),
     wp_screen_video := map_option (sv_on_connection_lost L) (wp_screen_video w)\<rparr>"

definition peer_take_keyframe_request :: "('c, 'p, 'd) webrtc_peer \<Rightarrow> bool \<times> ('c, 'p, 'd) webrtc_peer" where
  "peer_take_keyframe_request w =
     (case qos_take_keyframe_request (wp_qos w) of (r, q) \<Rightarrow> (r, w\<lparr>wp_qos := q\<rparr>))"

definition webrtc_close ::
  "'c rtc_lib \<Rightarrow> ('p, 'd) h264_lib \<Rightarrow> ('c, 'p, 'd) webrtc_peer \<Rightarrow> (webrtc_error + unit) \<times> ('c, 'p, 'd) webrtc_peer" where
  "webrtc_close R L w =
     rtc_do (rtc_close R) (peer_on_connection_lost L (w\<lparr>wp_signaling := sig_close (wp_signaling w)\<rparr>))"

end
