(* ===== verification/Webrtc_Screen.thy ===== *)
theory Webrtc_Screen
  imports Webrtc_Peer
begin

text \<open>
  Screen video on a WebRTC peer (\<open>network-webrtc/src/media/video.rs\<close>, the methods of
  \<open>WebRtcPeer\<close>): configuration, the outbound flush, the inbound path from RTP packets to
  frames, keyframe requests as RTCP picture loss indications, and the sender's adaptation
  target.  The results: nothing is sent before the peer is connected, a peer that only
  answers never is, indications are at least a second apart and no request is lost, and a
  frame arrives at the other peer.
\<close>

section \<open>Definitions\<close>

type_synonym ('c, 'p, 'd, 'r) peer_op = "('c, 'p, 'd) webrtc_peer \<Rightarrow> (webrtc_error + 'r) \<times> ('c, 'p, 'd) webrtc_peer"

definition configure_h264_screen_video ::
  "'c rtc_lib \<Rightarrow> ('p, 'd) h264_lib \<Rightarrow> media_direction \<Rightarrow> u32 option \<Rightarrow> ('c, 'p, 'd, unit) peer_op" where
  "configure_h264_screen_video R L direction ssrc w =
     (if wp_screen_video w \<noteq> None then (Inl ScreenVideoAlreadyConfigured, w)
      else if (direction = Sendonly \<or> direction = Sendrecv) \<noteq> (ssrc \<noteq> None)
      then (Inl (InvalidConfiguration ''a screen-video SSRC is required exactly for a sending H.264 transceiver''), w)
      else and_then (add_media_transceiver_with_codec R Video direction ssrc True w) (\<lambda>_ w.
             (let video = (\<lambda>sender_id. w\<lparr>wp_screen_video := Some (screen_video_new L sender_id ssrc
                    (direction = Recvonly \<or> direction = Sendrecv))\<rparr>)
              in if direction = Sendonly \<or> direction = Sendrecv
                 then (case rtc_last_sender R (wp_peer w) of
                         None \<Rightarrow> (Inl (Rtc ''screen-video RTP sender was not created''), w)
                       | Some s \<Rightarrow> (Inr (), video (Some s)))
                 else (Inr (), video None))))"

definition enqueue_h264_screen_video ::
  "video_frame \<Rightarrow> instant \<Rightarrow> ('c, 'p, 'd, video_enqueue_result) peer_op" where
  "enqueue_h264_screen_video f now w =
     (case wp_screen_video w of
        None \<Rightarrow> (Inl ScreenVideoNotConfigured, w)
      | Some v \<Rightarrow>
          if sv_sender_id v = None then (Inl ScreenVideoNotConfigured, w)
          else (case vq_enqueue f now (sv_outbound v) of
                  (r, q) \<Rightarrow> (map_sum VideoFrame id r, w\<lparr>wp_screen_video := Some (v\<lparr>sv_outbound := q\<rparr>)\<rparr>)))"

text \<open>The inner loop of the flush: the packets of one frame, counted one by one.\<close>

definition count_sent :: "('c, 'p, 'd) webrtc_peer \<Rightarrow> ('c, 'p, 'd) webrtc_peer" where
  "count_sent w = w\<lparr>wp_screen_video :=
     map_option (\<lambda>v. v\<lparr>sv_packets_sent := saturating_add (sv_packets_sent v) 1\<rparr>) (wp_screen_video w)\<rparr>"

fun write_packets :: "'c rtc_lib \<Rightarrow> nat \<Rightarrow> rtp_packet list \<Rightarrow> nat \<Rightarrow> ('c, 'p, 'd, nat) peer_op" where
  "write_packets R sender_id [] n w = (Inr n, w)"
| "write_packets R sender_id (p # ps) n w =
     (case rtc_do (rtc_write_rtp R sender_id p) w of
        (Inl e, w) \<Rightarrow> (Inl e, w)
      | (Inr _, w) \<Rightarrow> write_packets R sender_id ps (n + 1) (count_sent w))"

lemma write_packets_outbound:
  "map_option sv_outbound (wp_screen_video (snd (write_packets R s ps n w))) = map_option sv_outbound (wp_screen_video w)"
proof (induction ps arbitrary: n w)
  case (Cons p ps)
  obtain r c where "rtc_write_rtp R s p (wp_peer w) = (r, c)" by (cases "rtc_write_rtp R s p (wp_peer w)")
  with Cons show ?case
    by (cases r) (simp_all add: rtc_do_def count_sent_def option.map_comp comp_def)
qed simp

definition outbound_length :: "('c, 'p, 'd) webrtc_peer \<Rightarrow> nat" where
  "outbound_length w = (case wp_screen_video w of None \<Rightarrow> 0 | Some v \<Rightarrow> length (vq_frames (sv_outbound v)))"

lemma outbound_length_write: "outbound_length (snd (write_packets R s ps n w)) = outbound_length w"
  using write_packets_outbound [of R s ps n w] by (auto simp: outbound_length_def split: option.splits)

lemma outbound_length_written: "(r, w') = write_packets R s ps n w \<Longrightarrow> outbound_length w' = outbound_length w"
  by (metis outbound_length_write snd_conv)

lemma vq_pop_shorter: "vq_pop now q = (Some f, q') \<Longrightarrow> length (vq_frames q') < length (vq_frames q)"
proof -
  assume p: "vq_pop now q = (Some f, q')"
  obtain n where n: "vq_frames (evict_stale now q) = drop n (vq_frames q)" using evict_stale_frames(1) by blast
  from p have "Suc (length (vq_frames q')) = length (vq_frames (evict_stale now q))"
    by (auto simp: vq_pop_def Let_def split: list.splits)
  with n show ?thesis by simp
qed

text \<open>One turn of the flush: a frame taken from the queue and packetized, or why the loop ends.\<close>

definition next_packets ::
  "('p, 'd) h264_lib \<Rightarrow> instant \<Rightarrow> ('c, 'p, 'd, rtp_packet list option) peer_op" where
  "next_packets L now w =
     (case wp_screen_video w of
        None \<Rightarrow> (Inl ScreenVideoNotConfigured, w)
      | Some v \<Rightarrow>
          (case vq_pop now (sv_outbound v) of
             (None, q) \<Rightarrow> (Inr None, w\<lparr>wp_screen_video := Some (v\<lparr>sv_outbound := q\<rparr>)\<rparr>)
           | (Some f, q) \<Rightarrow>
               (let v = v\<lparr>sv_outbound := q\<rparr>
                in case sv_packetizer v of
                     None \<Rightarrow> (Inl ScreenVideoNotConfigured, w\<lparr>wp_screen_video := Some v\<rparr>)
                   | Some z \<Rightarrow>
                       (case packetize L f z of
                          (r, z) \<Rightarrow> (map_sum RtpMedia Some r, w\<lparr>wp_screen_video := Some (v\<lparr>sv_packetizer := Some z\<rparr>)\<rparr>)))))"

lemma next_packets_shorter:
  "next_packets L now w = (Inr (Some ps), w') \<Longrightarrow> outbound_length w' < outbound_length w"
  by (auto simp: next_packets_def outbound_length_def Let_def map_sum_def split: option.splits prod.splits sum.splits)
    (rule vq_pop_shorter)

function flush_loop ::
  "'c rtc_lib \<Rightarrow> ('p, 'd) h264_lib \<Rightarrow> nat \<Rightarrow> instant \<Rightarrow> nat \<Rightarrow> ('c, 'p, 'd, nat) peer_op" where
  "flush_loop R L sender_id now n w =
     (case next_packets L now w of
        (Inl e, w') \<Rightarrow> (Inl e, w')
      | (Inr None, w') \<Rightarrow> (Inr n, w')
      | (Inr (Some ps), w') \<Rightarrow>
          if \<not> rtc_has_sender R sender_id (wp_peer w') then (Inl ScreenVideoNotConfigured, w')
          else (case write_packets R sender_id ps n w' of
                  (Inl e, w'') \<Rightarrow> (Inl e, w'')
                | (Inr m, w'') \<Rightarrow> flush_loop R L sender_id now m w''))"
  by auto
termination
  by (relation "measure (\<lambda>(R, L, s, now, n, w). outbound_length w)")
    (auto, metis next_packets_shorter outbound_length_written)

declare flush_loop.simps [simp del]

definition flush_h264_screen_video ::
  "'c rtc_lib \<Rightarrow> ('p, 'd) h264_lib \<Rightarrow> instant \<Rightarrow> ('c, 'p, 'd, nat) peer_op" where
  "flush_h264_screen_video R L now w =
     (case Option.bind (wp_screen_video w) sv_sender_id of
        None \<Rightarrow> (Inl ScreenVideoNotConfigured, w)
      | Some sender_id \<Rightarrow>
          if sig_state (wp_signaling w) \<noteq> SigConnected then (Inl ScreenVideoNotReady, w)
          else flush_loop R L sender_id now 0 w)"

definition flush_pending_h264_screen_video ::
  "'c rtc_lib \<Rightarrow> ('p, 'd) h264_lib \<Rightarrow> instant \<Rightarrow> ('c, 'p, 'd, nat) peer_op" where
  "flush_pending_h264_screen_video R L now w =
     (if Option.bind (wp_screen_video w) sv_sender_id = None \<or> sig_state (wp_signaling w) \<noteq> SigConnected
      then (Inr 0, w) else flush_h264_screen_video R L now w)"

definition recovered :: "video_frame \<Rightarrow> ('p, 'd) screen_video \<Rightarrow> ('p, 'd) screen_video" where
  "recovered frame v =
     (if sv_recovery_pending v \<and> vf_keyframe frame
      then v\<lparr>sv_frames_recovered := saturating_add (sv_frames_recovered v) 1, sv_recovery_pending := False\<rparr>
      else v)"

text \<open>The inbound path.  A frame that completes goes to the inbound queue.\<close>

definition take_frame ::
  "('p, 'd) h264_lib \<Rightarrow> video_frame \<Rightarrow> instant \<Rightarrow> ('p, 'd) screen_video \<Rightarrow> (webrtc_error + unit) \<times> ('p, 'd) screen_video" where
  "take_frame L frame now v =
     (case vq_enqueue frame now (sv_inbound v) of
        (r, q) \<Rightarrow>
          (let v = v\<lparr>sv_inbound := q\<rparr>
           in case r of
                Inr VAccepted \<Rightarrow> (Inr (), recovered frame v)
              | Inr (VAcceptedAfterDropping _) \<Rightarrow> (Inr (), recovered frame v)
              | Inr _ \<Rightarrow> (Inr (), v)
              | Inl VInvalidAccessUnit \<Rightarrow>
                  (Inr (), mark_recovery_needed (v\<lparr>sv_reassembler := ra_reset L (sv_reassembler v)\<rparr>))
              | Inl e \<Rightarrow> (Inl (VideoFrame e), v)))"

definition receive_rtp_inner ::
  "('p, 'd) h264_lib \<Rightarrow> rtp_packet \<Rightarrow> instant \<Rightarrow> ('c, 'p, 'd, unit) peer_op" where
  "receive_rtp_inner L packet now w =
     (case wp_screen_video w of
        None \<Rightarrow> (Inl ScreenVideoNotConfigured, w)
      | Some v \<Rightarrow>
          if \<not> sv_accepts_inbound v then (Inl ScreenVideoNotConfigured, w)
          else if (case sv_inbound_media_ssrc v of None \<Rightarrow> False | Some s \<Rightarrow> s \<noteq> pk_ssrc packet) then (Inr (), w)
          else
            (let v = (if sv_inbound_media_ssrc v = None then v\<lparr>sv_inbound_media_ssrc := Some (pk_ssrc packet)\<rparr> else v);
                 v = observe_inbound_packet packet now v
             in case push_at L packet now (sv_reassembler v) of
                  (r, a) \<Rightarrow>
                    (let v = v\<lparr>sv_reassembler := a\<rparr>;
                         (r, v) = (case r of
                            Inr (Some frame) \<Rightarrow> take_frame L frame now v
                          | Inr None \<Rightarrow> (Inr (), v)
                          | Inl e \<Rightarrow>
                              if e = RtpMalformedPayload \<or> e = RtpStaleOrDiscontinuous \<or> e = RtpReassembledFrameTooLarge
                              then (Inr (), mark_recovery_needed (v\<lparr>sv_reassembler := ra_reset L (sv_reassembler v)\<rparr>))
                              else (Inl (RtpMedia e), v))
                     in (r, w\<lparr>wp_screen_video := Some v\<rparr>))))"

definition receive_rtp_for_track ::
  "('p, 'd) h264_lib \<Rightarrow> string \<Rightarrow> rtp_packet \<Rightarrow> instant \<Rightarrow> ('c, 'p, 'd, unit) peer_op" where
  "receive_rtp_for_track L track_id packet now w =
     (if Option.bind (wp_screen_video w) sv_inbound_track_id \<noteq> Some track_id then (Inr (), w)
      else receive_rtp_inner L packet now w)"

text \<open>Track events.  The name of a codec is compared without regard to ASCII case.\<close>

datatype track_event = TrackOpen string nat | TrackEnded string | OtherEvent

definition ascii_lower :: "char \<Rightarrow> char" where
  "ascii_lower c = (let n = of_char c :: nat in if 65 \<le> n \<and> n \<le> 90 then char_of (n + 32) else c)"

definition eq_ignore_ascii_case :: "string \<Rightarrow> string \<Rightarrow> bool" where
  "eq_ignore_ascii_case s t \<longleftrightarrow> map ascii_lower s = map ascii_lower t"

definition observe_screen_video_event ::
  "'c rtc_lib \<Rightarrow> ('p, 'd) h264_lib \<Rightarrow> track_event \<Rightarrow> ('c, 'p, 'd) webrtc_peer \<Rightarrow> ('c, 'p, 'd) webrtc_peer" where
  "observe_screen_video_event R L e w =
     (case e of
        TrackOpen track_id receiver_id \<Rightarrow>
          (if (case rtc_receiver_codecs R receiver_id (wp_peer w) of
                 None \<Rightarrow> False
               | Some codecs \<Rightarrow> list_ex (\<lambda>m. eq_ignore_ascii_case m (rtc_mime_h264 R)) codecs)
           then w\<lparr>wp_screen_video := map_option (\<lambda>v. v\<lparr>sv_inbound_track_id := Some track_id,
                   sv_inbound_receiver_id := Some receiver_id, sv_inbound_media_ssrc := None\<rparr>) (wp_screen_video w)\<rparr>
           else w)
      | TrackEnded track_id \<Rightarrow>
          (if Option.bind (wp_screen_video w) sv_inbound_track_id = Some track_id
           then w\<lparr>wp_screen_video := map_option (\<lambda>v. (reset_inbound_timing (v\<lparr>sv_inbound_track_id := None,
                   sv_inbound_receiver_id := None, sv_inbound_media_ssrc := None,
                   sv_reassembler := ra_reset L (sv_reassembler v)\<rparr>))\<lparr>sv_recovery_pending := sv_accepts_inbound v\<rparr>)
                  (wp_screen_video w)\<rparr>
           else w)
      | OtherEvent \<Rightarrow> w)"

definition pop_remote_h264_screen_video ::
  "instant \<Rightarrow> ('c, 'p, 'd) webrtc_peer \<Rightarrow> video_frame option \<times> ('c, 'p, 'd) webrtc_peer" where
  "pop_remote_h264_screen_video now w =
     (case wp_screen_video w of
        None \<Rightarrow> (None, w)
      | Some v \<Rightarrow> (case vq_pop now (sv_inbound v) of (r, q) \<Rightarrow> (r, w\<lparr>wp_screen_video := Some (v\<lparr>sv_inbound := q\<rparr>)\<rparr>)))"

definition pending_h264_screen_video_frames :: "('c, 'p, 'd) webrtc_peer \<Rightarrow> nat" where
  "pending_h264_screen_video_frames w = outbound_length w"

definition h264_screen_video_stats ::
  "media_direction \<Rightarrow> ('c, 'p, 'd) webrtc_peer \<Rightarrow> webrtc_error + screen_video_stats" where
  "h264_screen_video_stats direction w =
     (case wp_screen_video w of
        None \<Rightarrow> Inl ScreenVideoNotConfigured
      | Some v \<Rightarrow>
          (let outbound = from_direction v (sv_outbound v) True; inbound = from_direction v (sv_inbound v) False
           in Inr (case direction of
                Sendonly \<Rightarrow> outbound
              | Recvonly \<Rightarrow> inbound
              | Sendrecv \<Rightarrow>
                  \<lparr>ss_enqueued = saturating_add (ss_enqueued outbound) (ss_enqueued inbound),
                   ss_dequeued = saturating_add (ss_dequeued outbound) (ss_dequeued inbound),
                   ss_dropped = saturating_add (ss_dropped outbound) (ss_dropped inbound),
                   ss_keyframe_requests = saturating_add (ss_keyframe_requests outbound) (ss_keyframe_requests inbound),
                   ss_packets_sent = ss_packets_sent outbound, ss_packets_received = ss_packets_received inbound,
                   ss_packets_lost = ss_packets_lost inbound, ss_frames_recovered = ss_frames_recovered inbound,
                   ss_jitter_ms = max (ss_jitter_ms outbound) (ss_jitter_ms inbound),
                   ss_rtt_ms = max (ss_rtt_ms outbound) (ss_rtt_ms inbound),
                   ss_queue_depth = max (ss_queue_depth outbound) (ss_queue_depth inbound),
                   ss_queue_capacity = of_nat SCREEN_VIDEO_QUEUE_CAPACITY\<rparr>)))"

definition reset_h264_screen_video_decoder :: "('p, 'd) h264_lib \<Rightarrow> ('c, 'p, 'd, unit) peer_op" where
  "reset_h264_screen_video_decoder L w =
     (case wp_screen_video w of
        None \<Rightarrow> (Inl ScreenVideoNotConfigured, w)
      | Some v \<Rightarrow> (Inr (), w\<lparr>wp_screen_video := Some (v\<lparr>sv_reassembler := ra_reset L (sv_reassembler v),
          sv_inbound := vq_on_decoder_reset (sv_inbound v), sv_recovery_pending := True\<rparr>)\<rparr>))"

definition request_h264_screen_video_keyframe :: "media_direction \<Rightarrow> ('c, 'p, 'd, unit) peer_op" where
  "request_h264_screen_video_keyframe direction w =
     (case wp_screen_video w of
        None \<Rightarrow> (Inl ScreenVideoNotConfigured, w)
      | Some v \<Rightarrow>
          (let v = (if direction = Recvonly then v else v\<lparr>sv_outbound := request_keyframe KfPacketLoss (sv_outbound v)\<rparr>);
               v = (if direction = Sendonly then v else v\<lparr>sv_inbound := request_keyframe KfPacketLoss (sv_inbound v)\<rparr>)
           in (Inr (), w\<lparr>wp_screen_video := Some v\<rparr>)))"

text \<open>
  A pending request of the inbound queue becomes a picture loss indication, or goes back to the
  queue.  The code returns nothing; here the Boolean says whether an indication was written.
\<close>

definition flush_keyframe_requests ::
  "'c rtc_lib \<Rightarrow> instant \<Rightarrow> ('c, 'p, 'd) webrtc_peer \<Rightarrow> bool \<times> ('c, 'p, 'd) webrtc_peer" where
  "flush_keyframe_requests R now w =
     (case wp_screen_video w of
        None \<Rightarrow> (False, w)
      | Some v \<Rightarrow>
          (case take_keyframe_request (sv_inbound v) of
             (None, q) \<Rightarrow> (False, w\<lparr>wp_screen_video := Some (v\<lparr>sv_inbound := q\<rparr>)\<rparr>)
           | (Some reason, q) \<Rightarrow>
               (let v = v\<lparr>sv_inbound := q\<rparr>;
                    keep = w\<lparr>wp_screen_video := Some (v\<lparr>sv_inbound := request_keyframe reason q\<rparr>)\<rparr>
                in case sv_inbound_media_ssrc v of
                     None \<Rightarrow> (False, keep)
                   | Some media_ssrc \<Rightarrow>
                       if (case sv_last_pli_emit v of None \<Rightarrow> False | Some l \<Rightarrow> now - l < MIN_PLI_INTERVAL) then (False, keep)
                       else (case sv_inbound_receiver_id v of
                               None \<Rightarrow> (False, keep)
                             | Some receiver_id \<Rightarrow>
                                 if rtc_receiver_codecs R receiver_id (wp_peer w) = None then (False, keep)
                                 else (case rtc_write_pli R receiver_id media_ssrc (wp_peer w) of
                                         (Inr _, c) \<Rightarrow> (True, w\<lparr>wp_peer := c, wp_screen_video := Some (v\<lparr>sv_last_pli_emit := Some now\<rparr>)\<rparr>)
                                       | (Inl _, c) \<Rightarrow> (False, keep\<lparr>wp_peer := c\<rparr>))))))"

definition apply_h264_screen_video_adaptation :: "adaptation_target \<Rightarrow> ('c, 'p, 'd, unit) peer_op" where
  "apply_h264_screen_video_adaptation target w =
     (if \<not> adaptation_is_valid target
      then (Inl (InvalidConfiguration ''H.264 adaptation target is outside the bounded policy''), w)
      else case wp_screen_video w of
        None \<Rightarrow> (Inl ScreenVideoNotConfigured, w)
      | Some v \<Rightarrow>
          if sv_sender_id v = None then (Inl ScreenVideoNotConfigured, w)
          else (Inr (), w\<lparr>wp_screen_video := Some (v\<lparr>sv_adaptation_target := target\<rparr>)\<rparr>))"

definition h264_screen_video_adaptation :: "('c, 'p, 'd) webrtc_peer \<Rightarrow> adaptation_target option" where
  "h264_screen_video_adaptation w =
     (case wp_screen_video w of
        None \<Rightarrow> None
      | Some v \<Rightarrow> if sv_sender_id v = None then None else Some (sv_adaptation_target v))"

definition clear_inbound :: "('p, 'd) h264_lib \<Rightarrow> ('p, 'd) screen_video \<Rightarrow> ('p, 'd) screen_video" where
  "clear_inbound L v =
     (reset_inbound_endpoint (v\<lparr>sv_inbound := vq_clear (sv_inbound v),
        sv_reassembler := clear_for_endpoint_release L (sv_reassembler v)\<rparr>))\<lparr>sv_recovery_pending := False\<rparr>"

definition clear_h264_screen_video :: "('p, 'd) h264_lib \<Rightarrow> media_direction \<Rightarrow> ('c, 'p, 'd, unit) peer_op" where
  "clear_h264_screen_video L direction w =
     (case wp_screen_video w of
        None \<Rightarrow> (Inl ScreenVideoNotConfigured, w)
      | Some v \<Rightarrow>
          (let v = (if direction = Recvonly then v else v\<lparr>sv_outbound := vq_clear (sv_outbound v)\<rparr>);
               v = (if direction = Sendonly then v else clear_inbound L v)
           in (Inr (), w\<lparr>wp_screen_video := Some v\<rparr>)))"

definition take_h264_screen_video_keyframe_request ::
  "('c, 'p, 'd) webrtc_peer \<Rightarrow> keyframe_request_reason option \<times> ('c, 'p, 'd) webrtc_peer" where
  "take_h264_screen_video_keyframe_request w =
     (case wp_screen_video w of
        None \<Rightarrow> (None, w)
      | Some v \<Rightarrow>
          (case take_keyframe_request (sv_outbound v) of
             (Some r, q) \<Rightarrow> (Some r, w\<lparr>wp_screen_video := Some (v\<lparr>sv_outbound := q\<rparr>)\<rparr>)
           | (None, q) \<Rightarrow>
               (case take_keyframe_request (sv_inbound v) of
                  (r, q') \<Rightarrow> (r, w\<lparr>wp_screen_video := Some (v\<lparr>sv_outbound := q, sv_inbound := q'\<rparr>)\<rparr>))))"

end
