(* ===== verification/Webrtc_Runs.thy ===== *)
theory Webrtc_Runs
  imports Webrtc_Screen
begin

text \<open>
  Runs of a WebRTC peer: any sequence of its operations, with any behaviour of the peer
  connection.  The signaling state of the peer follows the signaling machine, so that closing
  is final and only the offering side is ever connected; picture loss indications are rate
  limited.
\<close>

section \<open>Steps\<close>

datatype peer_event =
    PConfigure media_direction "u32 option"
  | PCreateOffer
  | PRemoteOffer session_description
  | PCreateAnswer
  | PRemoteAnswer session_description
  | PRemoteCandidate ice_candidate
  | PLocalCandidate ice_candidate
  | PRestart
  | PTransceiver media_kind media_direction "u32 option"
  | PCreateChannel string data_channel_reliability
  | PSendData nat "byte list"
  | PEnqueueMedia media_frame instant
  | PPopMedia instant
  | PTakeMediaRequest
  | PEnqueue video_frame instant
  | PFlush instant
  | PFlushPending instant
  | PRtp rtp_packet instant
  | PRtpTrack string rtp_packet instant
  | PTrack track_event
  | PPop instant
  | PReset
  | PRequest media_direction
  | PFlushKeyframes instant
  | PAdapt adaptation_target
  | PClear media_direction
  | PTakeRequest
  | PLost
  | PClose

fun peer_step ::
  "'c rtc_lib \<Rightarrow> ('p, 'd) h264_lib \<Rightarrow> peer_event \<Rightarrow> ('c, 'p, 'd) webrtc_peer \<Rightarrow> ('c, 'p, 'd) webrtc_peer" where
  "peer_step R L (PConfigure direction ssrc) w = snd (configure_h264_screen_video R L direction ssrc w)"
| "peer_step R L PCreateOffer w = snd (create_offer R w)"
| "peer_step R L (PRemoteOffer d) w = snd (accept_remote_offer R d w)"
| "peer_step R L PCreateAnswer w = snd (create_answer R w)"
| "peer_step R L (PRemoteAnswer d) w = snd (accept_remote_answer R d w)"
| "peer_step R L (PRemoteCandidate c) w = snd (add_remote_ice_candidate R c w)"
| "peer_step R L (PLocalCandidate c) w = snd (add_local_ice_candidate R c w)"
| "peer_step R L PRestart w = snd (restart_ice R w)"
| "peer_step R L (PTransceiver k direction ssrc) w = snd (add_media_transceiver_with_codec R k direction ssrc False w)"
| "peer_step R L (PCreateChannel label r) w = snd (create_data_channel R label r w)"
| "peer_step R L (PSendData c payload) w = snd (send_data R c payload w)"
| "peer_step R L (PEnqueueMedia f now) w = snd (enqueue_frame f now w)"
| "peer_step R L (PPopMedia now) w = snd (pop_frame now w)"
| "peer_step R L PTakeMediaRequest w = snd (peer_take_keyframe_request w)"
| "peer_step R L (PEnqueue f now) w = snd (enqueue_h264_screen_video f now w)"
| "peer_step R L (PFlush now) w = snd (flush_h264_screen_video R L now w)"
| "peer_step R L (PFlushPending now) w = snd (flush_pending_h264_screen_video R L now w)"
| "peer_step R L (PRtp p now) w = snd (receive_rtp_inner L p now w)"
| "peer_step R L (PRtpTrack t p now) w = snd (receive_rtp_for_track L t p now w)"
| "peer_step R L (PTrack e) w = observe_screen_video_event R L e w"
| "peer_step R L (PPop now) w = snd (pop_remote_h264_screen_video now w)"
| "peer_step R L PReset w = snd (reset_h264_screen_video_decoder L w)"
| "peer_step R L (PRequest direction) w = snd (request_h264_screen_video_keyframe direction w)"
| "peer_step R L (PFlushKeyframes now) w = snd (flush_keyframe_requests R now w)"
| "peer_step R L (PAdapt t) w = snd (apply_h264_screen_video_adaptation t w)"
| "peer_step R L (PClear direction) w = snd (clear_h264_screen_video L direction w)"
| "peer_step R L PTakeRequest w = snd (take_h264_screen_video_keyframe_request w)"
| "peer_step R L PLost w = peer_on_connection_lost L w"
| "peer_step R L PClose w = snd (webrtc_close R L w)"

section \<open>What the operations leave alone\<close>

lemma rtc_do_fields [simp]:
  "wp_signaling (snd (rtc_do f w)) = wp_signaling w" "wp_screen_video (snd (rtc_do f w)) = wp_screen_video w"
  "wp_qos (snd (rtc_do f w)) = wp_qos w"
  by (simp_all add: rtc_do_def split: prod.split)

lemma sig_do_fields [simp]:
  "wp_signaling (snd (sig_do f w)) = snd (f (wp_signaling w))" "wp_screen_video (snd (sig_do f w)) = wp_screen_video w"
  "wp_qos (snd (sig_do f w)) = wp_qos w"
  by (simp_all add: sig_do_def split: prod.split)

text \<open>The last indication of the screen video, if any.\<close>

definition last_pli :: "('c, 'p, 'd) webrtc_peer \<Rightarrow> instant option" where
  "last_pli w = Option.bind (wp_screen_video w) sv_last_pli_emit"

lemma last_pli_cong: "wp_screen_video w = wp_screen_video w' \<Longrightarrow> last_pli w = last_pli w'"
  by (simp add: last_pli_def)

lemma write_packets_fields:
  "wp_signaling (snd (write_packets R s ps n w)) = wp_signaling w \<and> last_pli (snd (write_packets R s ps n w)) = last_pli w"
proof (induction ps arbitrary: n w)
  case (Cons p ps)
  obtain r w' where d: "rtc_do (rtc_write_rtp R s p) w = (r, w')" by (cases "rtc_do (rtc_write_rtp R s p) w")
  have w': "wp_signaling w' = wp_signaling w" "wp_screen_video w' = wp_screen_video w"
    using rtc_do_fields [of "rtc_write_rtp R s p" w] d by simp_all
  then have "wp_signaling (count_sent w') = wp_signaling w" "last_pli (count_sent w') = last_pli w" "last_pli w' = last_pli w"
    by (simp_all add: count_sent_def last_pli_def map_option_case split: option.split)
  with Cons d w' show ?case
    by (cases r) simp_all
qed simp

lemma next_packets_fields:
  "wp_signaling (snd (next_packets L now w)) = wp_signaling w" "last_pli (snd (next_packets L now w)) = last_pli w"
  by (auto simp: next_packets_def last_pli_def Let_def split: option.split prod.split)

lemma flush_loop_fields:
  "wp_signaling (snd (flush_loop R L s now n w)) = wp_signaling w \<and> last_pli (snd (flush_loop R L s now n w)) = last_pli w"
proof (induction R L s now n w rule: flush_loop.induct)
  case (1 R L s now n w)
  obtain r w' where p: "next_packets L now w = (r, w')" by (cases "next_packets L now w")
  have w': "wp_signaling w' = wp_signaling w" "last_pli w' = last_pli w"
    using next_packets_fields [of L now w] p by simp_all
  show ?case
  proof (cases "\<exists>ps. r = Inr (Some ps) \<and> rtc_has_sender R s (wp_peer w')")
    case True
    then obtain ps where ps: "r = Inr (Some ps)" "rtc_has_sender R s (wp_peer w')" by blast
    obtain x w'' where q: "write_packets R s ps n w' = (x, w'')" by (cases "write_packets R s ps n w'")
    have w'': "wp_signaling w'' = wp_signaling w'" "last_pli w'' = last_pli w'"
      using write_packets_fields [of R s ps n w'] q by simp_all
    have IH: "x = Inr m \<Longrightarrow> wp_signaling (snd (flush_loop R L s now m w'')) = wp_signaling w''
        \<and> last_pli (snd (flush_loop R L s now m w'')) = last_pli w''" for m
      using 1 p ps q by auto
    show ?thesis
      using p ps q w' w'' IH by (subst (1 2) flush_loop.simps) (auto split: sum.split)
  next
    case False
    with p w' show ?thesis by (subst (1 2) flush_loop.simps) (auto split: sum.split option.split)
  qed
qed

lemma flush_fields:
  "wp_signaling (snd (flush_h264_screen_video R L now w)) = wp_signaling w"
  "last_pli (snd (flush_h264_screen_video R L now w)) = last_pli w"
  "wp_signaling (snd (flush_pending_h264_screen_video R L now w)) = wp_signaling w"
  "last_pli (snd (flush_pending_h264_screen_video R L now w)) = last_pli w"
  by (simp_all add: flush_h264_screen_video_def flush_pending_h264_screen_video_def flush_loop_fields split: option.split)

lemma observe_pli [simp]: "sv_last_pli_emit (observe_inbound_packet p now v) = sv_last_pli_emit v"
  by (simp add: observe_inbound_packet_def observe_sequence_def observe_timing_def Let_def split: option.split)

lemma take_frame_pli [simp]: "sv_last_pli_emit (snd (take_frame L f now v)) = sv_last_pli_emit v"
  by (simp add: take_frame_def recovered_def mark_recovery_needed_def Let_def
      split: prod.split sum.split video_enqueue_result.split video_frame_error.split)

lemma receive_fields:
  "wp_signaling (snd (receive_rtp_inner L p now w)) = wp_signaling w"
  "last_pli (snd (receive_rtp_inner L p now w)) = last_pli w"
proof -
  have t: "take_frame L f now v = (r, v') \<Longrightarrow> sv_last_pli_emit v' = sv_last_pli_emit v" for f r and v v' :: "('b, 'c) screen_video"
    using take_frame_pli [of L f now v] by simp
  show "wp_signaling (snd (receive_rtp_inner L p now w)) = wp_signaling w"
    "last_pli (snd (receive_rtp_inner L p now w)) = last_pli w"
    by (auto simp: receive_rtp_inner_def last_pli_def mark_recovery_needed_def Let_def
        split: option.splits prod.splits sum.splits dest!: t)
qed

section \<open>The signaling machine\<close>

text \<open>Each operation performs at most one transition, and only an offer of its own is an offer of the machine.\<close>

fun sig_event_of :: "peer_event \<Rightarrow> sig_event option" where
  "sig_event_of PCreateOffer = Some EvLocalOffer"
| "sig_event_of (PRemoteOffer d) = Some EvRemoteOffer"
| "sig_event_of PCreateAnswer = Some EvLocalAnswer"
| "sig_event_of (PRemoteAnswer d) = Some EvRemoteAnswer"
| "sig_event_of PRestart = Some EvRestart"
| "sig_event_of PClose = Some EvClose"
| "sig_event_of _ = None"

lemma peer_follows_signaling:
  "wp_signaling (peer_step R L e w) = wp_signaling w
   \<or> (\<exists>se. sig_event_of e = Some se \<and> wp_signaling (peer_step R L e w) = sig_step se (wp_signaling w))"
  by (cases e)
    (auto simp: configure_h264_screen_video_def create_offer_def accept_remote_offer_def create_answer_def
      accept_remote_answer_def add_remote_ice_candidate_def add_local_ice_candidate_def restart_ice_def
      add_media_transceiver_with_codec_def create_data_channel_def send_data_def enqueue_frame_def pop_frame_def
      peer_take_keyframe_request_def enqueue_h264_screen_video_def flush_fields receive_fields receive_rtp_for_track_def
      observe_screen_video_event_def pop_remote_h264_screen_video_def reset_h264_screen_video_decoder_def
      request_h264_screen_video_keyframe_def flush_keyframe_requests_def apply_h264_screen_video_adaptation_def
      clear_h264_screen_video_def take_h264_screen_video_keyframe_request_def peer_on_connection_lost_def webrtc_close_def
      snd_and_then Let_def split: sum.split option.split prod.split track_event.split)

interpretation peer_closed: absorbing_system "peer_step R L" "\<lambda>_. True" "\<lambda>w. sig_state (wp_signaling w) = SigClosed"
proof unfold_locales
  fix w :: "('a, 'b, 'c) webrtc_peer" and e
  assume "sig_state (wp_signaling w) = SigClosed"
  with peer_follows_signaling [of R L e w] show "sig_state (wp_signaling (peer_step R L e w)) = SigClosed"
    using closed.step_final by metis
qed simp

text \<open>A peer that makes no offer of its own is neither offering nor connected.\<close>

lemma answering_state:
  assumes "PCreateOffer \<notin> set es" "sig_state (wp_signaling w) \<notin> {LocalOffer, SigConnected}"
  shows "sig_state (wp_signaling (fold (peer_step R L) es w)) \<notin> {LocalOffer, SigConnected}"
  using assms
proof (induction es arbitrary: w)
  case (Cons e es)
  have "sig_event_of e \<noteq> Some EvLocalOffer" using Cons.prems(1) by (cases e) auto
  with Cons.prems(2) have "sig_state (wp_signaling (peer_step R L e w)) \<notin> {LocalOffer, SigConnected}"
    using peer_follows_signaling [of R L e w] connected_only_by_answer [of _ "wp_signaling w"]
      offering_only_by_offer [of _ "wp_signaling w"]
    by auto
  with Cons show ?case by simp
qed simp

text \<open>A peer connection for the witnesses: it accepts everything and records the packets it was given.\<close>

definition recording_lib :: "rtp_packet list rtc_lib" where
  "recording_lib = \<lparr>rtc_mime_h264 = ''video/H264'', rtc_register_codecs = Inr (), rtc_build = (\<lambda>_ _. Inr []),
     rtc_create_offer = (\<lambda>c. (Inr ''v=0'', c)), rtc_create_answer = (\<lambda>c. (Inr ''v=0'', c)),
     rtc_set_local = (\<lambda>_ _ c. (Inr (), c)), rtc_parse_description = (\<lambda>_ _. Inr ()), rtc_set_remote = (\<lambda>_ _ c. (Inr (), c)),
     rtc_add_remote_candidate = (\<lambda>_ c. (Inr (), c)), rtc_add_local_candidate = (\<lambda>_ c. (Inr (), c)), rtc_restart_ice = id,
     rtc_add_transceiver = (\<lambda>_ _ _ _ c. (Inr (), c)), rtc_last_sender = (\<lambda>_. Some 0), rtc_has_sender = (\<lambda>_ _. True),
     rtc_write_rtp = (\<lambda>_ p c. (Inr (), c @ [p])), rtc_receiver_codecs = (\<lambda>_ _. Some [''video/h264'']),
     rtc_write_pli = (\<lambda>_ _ c. (Inr (), c)), rtc_create_channel = (\<lambda>_ _ c. (Inr 0, c)), rtc_has_channel = (\<lambda>_ _. True),
     rtc_channel_send = (\<lambda>_ _ c. (Inr (), c)), rtc_close = (\<lambda>c. (Inr (), c))\<rparr>"

definition sample_peer :: "(rtp_packet list, unit, unit) webrtc_peer" where
  "sample_peer = \<lparr>wp_peer = [], wp_signaling = signaling_default,
     wp_qos = media_qos_from_config policy_audio policy_video policy_data_channel, wp_screen_video = None\<rparr>"

lemma sample_peer_new:
  "webrtc_peer_new recording_lib [] False policy_audio policy_video policy_data_channel = Inr sample_peer"
  by (simp add: webrtc_peer_new_def recording_lib_def sample_peer_def h264_media_engine_def)

text \<open>
  C38. A peer that only answers never sends screen video.  From a new peer, after any operations
  and any behaviour of the connection, as long as it made no offer of its own it is not
  connected: every flush of its outbound screen video is refused and changes nothing, and
  the driver's flush reports that there is nothing to do, even after its answer has completed
  the negotiation and with frames waiting.
\<close>

theorem answering_peer_never_sends:
  assumes "webrtc_peer_new R servers relay_only audio video data_channel = Inr w0" "PCreateOffer \<notin> set es"
    and "w = fold (peer_step R L) es w0"
  shows "sig_state (wp_signaling w) \<noteq> SigConnected
    \<and> flush_h264_screen_video R L now w \<in> {(Inl ScreenVideoNotConfigured, w), (Inl ScreenVideoNotReady, w)}
    \<and> flush_pending_h264_screen_video R L now w = (Inr 0, w)"
proof -
  have "wp_signaling w0 = signaling_default"
    using assms(1) by (auto simp: webrtc_peer_new_def split: if_splits sum.splits)
  then have "sig_state (wp_signaling w) \<noteq> SigConnected"
    using answering_state [OF assms(2), of w0 R L] assms(3) by (simp add: signaling_default_def)
  then show ?thesis
    by (simp add: flush_h264_screen_video_def flush_pending_h264_screen_video_def split: option.split)
qed

definition answering_run :: "peer_event list" where
  "answering_run = [PConfigure Sendrecv (Some 7), PRemoteOffer \<lparr>sd_kind = SdpOffer, sd_sdp = ''v=0''\<rparr>, PCreateAnswer]"

lemma answering_run_negotiated:
  "sig_state (wp_signaling (fold (peer_step recording_lib single_nal_lib) answering_run sample_peer)) = LocalAnswer"
  by (simp add: answering_run_def configure_h264_screen_video_def accept_remote_offer_def create_answer_def
      add_media_transceiver_with_codec_def rtc_do_def sig_do_def recording_lib_def sample_peer_def
      session_description_new_def MAX_SDP_BYTES_def remote_offer_def local_answer_def sig_transition_def signaling_default_def)

theorem answering_peer_never_sends_witness:
  "sig_state (wp_signaling (fold (peer_step recording_lib single_nal_lib) answering_run sample_peer)) = LocalAnswer
   \<and> flush_pending_h264_screen_video recording_lib single_nal_lib 50
       (fold (peer_step recording_lib single_nal_lib) answering_run sample_peer)
     = (Inr 0, fold (peer_step recording_lib single_nal_lib) answering_run sample_peer)"
  using answering_peer_never_sends [OF sample_peer_new, of answering_run _ single_nal_lib 50] answering_run_negotiated
  by (simp add: answering_run_def)

section \<open>Picture loss indications\<close>

type_synonym ('c, 'p, 'd) pli_run = "instant list \<times> ('c, 'p, 'd) webrtc_peer"

text \<open>The times of the indications written since the connection was last lost.\<close>

fun pli_step :: "'c rtc_lib \<Rightarrow> ('p, 'd) h264_lib \<Rightarrow> peer_event \<Rightarrow> ('c, 'p, 'd) pli_run \<Rightarrow> ('c, 'p, 'd) pli_run" where
  "pli_step R L (PFlushKeyframes now) (log, w) =
     (case flush_keyframe_requests R now w of (sent, w') \<Rightarrow> (if sent then log @ [now] else log, w'))"
| "pli_step R L PLost (log, w) = ([], peer_step R L PLost w)"
| "pli_step R L PClose (log, w) = ([], peer_step R L PClose w)"
| "pli_step R L e (log, w) = (log, peer_step R L e w)"

definition pli_inv :: "('c, 'p, 'd) pli_run \<Rightarrow> bool" where
  "pli_inv r \<longleftrightarrow> (case r of (log, w) \<Rightarrow>
     sorted_wrt (\<lambda>s t. s + MIN_PLI_INTERVAL \<le> t) log \<and> (log \<noteq> [] \<longrightarrow> last_pli w = Some (last log)))"

lemma bind_map_pli:
  "(\<And>v. sv_last_pli_emit (f v) = sv_last_pli_emit v) \<Longrightarrow> Option.bind (map_option f x) sv_last_pli_emit = Option.bind x sv_last_pli_emit"
  by (cases x) simp_all

lemmas pli_fields = flush_fields(2,4) [unfolded last_pli_def] receive_fields(2) [unfolded last_pli_def]

lemma peer_step_pli:
  assumes "\<And>now. e \<noteq> PFlushKeyframes now" "e \<noteq> PLost" "e \<noteq> PClose"
  shows "last_pli w = None \<or> last_pli (peer_step R L e w) = last_pli w"
  using assms
  by (cases e)
    (auto simp: configure_h264_screen_video_def create_offer_def accept_remote_offer_def create_answer_def
      accept_remote_answer_def add_remote_ice_candidate_def add_local_ice_candidate_def restart_ice_def sv_on_ice_restart_def
      add_media_transceiver_with_codec_def create_data_channel_def send_data_def enqueue_frame_def pop_frame_def
      peer_take_keyframe_request_def enqueue_h264_screen_video_def pli_fields receive_rtp_for_track_def
      observe_screen_video_event_def pop_remote_h264_screen_video_def reset_h264_screen_video_decoder_def bind_map_pli
      request_h264_screen_video_keyframe_def apply_h264_screen_video_adaptation_def clear_inbound_def
      clear_h264_screen_video_def take_h264_screen_video_keyframe_request_def reset_inbound_timing_def reset_inbound_endpoint_def
      last_pli_def snd_and_then Let_def split: sum.split option.split prod.split track_event.split)

lemma flush_keyframes_cases:
  assumes "flush_keyframe_requests R now w = (sent, w')"
  shows "if sent then last_pli w' = Some now \<and> (\<forall>l. last_pli w = Some l \<longrightarrow> l + MIN_PLI_INTERVAL \<le> now)
         else last_pli w' = last_pli w"
proof -
  have "0 < MIN_PLI_INTERVAL" by (simp add: MIN_PLI_INTERVAL_def)
  with assms show ?thesis
    by (auto simp: flush_keyframe_requests_def last_pli_def take_keyframe_request_def Let_def
        split: option.splits if_splits prod.splits sum.splits)
qed

text \<open>A request that is pending is answered with an indication or stays pending, with its reason.\<close>

lemma flush_keyframes_keeps:
  assumes "wp_screen_video w = Some v" "vq_pending_keyframe_request (sv_inbound v) = Some reason"
    and "flush_keyframe_requests R now w = (False, w')"
  shows "\<exists>v'. wp_screen_video w' = Some v' \<and> vq_pending_keyframe_request (sv_inbound v') = Some reason"
  using assms
  by (auto simp: flush_keyframe_requests_def take_keyframe_request_def request_keyframe_def Let_def
      split: option.splits if_splits prod.splits sum.splits)

text \<open>With every attempt that is put off the counter of requests grows, although the request is the same.\<close>

lemma deferred_request_counted_again:
  assumes "wp_screen_video w = Some v" "vq_pending_keyframe_request (sv_inbound v) = Some reason"
    and "flush_keyframe_requests R now w = (False, w')"
  shows "\<exists>v'. wp_screen_video w' = Some v' \<and> st_keyframe_requests (vq_stats (sv_inbound v')) =
    saturating_add (st_keyframe_requests (vq_stats (sv_inbound v))) 1"
  using assms
  by (auto simp: flush_keyframe_requests_def take_keyframe_request_def request_keyframe_def Let_def
      split: option.splits if_splits prod.splits sum.splits)

lemma sorted_wrt_snoc:
  assumes "sorted_wrt (\<lambda>s t. s + d \<le> t) log" "log \<noteq> [] \<longrightarrow> last log + d \<le> (t :: nat)"
  shows "sorted_wrt (\<lambda>s t. s + d \<le> t) (log @ [t])"
proof -
  have "s \<le> last log" if "s \<in> set log" for s
    using assms(1) that
  proof (induction log)
    case (Cons a log)
    have "a + d \<le> last log" if "log \<noteq> []" using Cons.prems(1) that by simp
    then have "a \<le> last log" if "log \<noteq> []" using that by simp
    with Cons show ?case by (cases "log = []") auto
  qed simp
  with assms show ?thesis by (fastforce simp: sorted_wrt_append)
qed

interpretation pli: invariant_system "pli_step R L" pli_inv
proof unfold_locales
  fix r :: "('a, 'b, 'c) pli_run" and e
  assume inv: "pli_inv r"
  obtain log w where r: "r = (log, w)" by (cases r)
  show "pli_inv (pli_step R L e r)"
  proof (cases "(\<exists>now. e = PFlushKeyframes now) \<or> e = PLost \<or> e = PClose")
    case False
    then have "pli_step R L e (log, w) = (log, peer_step R L e w)" by (cases e) auto
    moreover have "last_pli w = None \<or> last_pli (peer_step R L e w) = last_pli w"
      using False by (intro peer_step_pli) auto
    ultimately show ?thesis using inv by (auto simp: pli_inv_def r)
  next
    case True
    then consider now where "e = PFlushKeyframes now" | "e = PLost" | "e = PClose" by blast
    then show ?thesis
    proof cases
      case (1 now)
      obtain sent w' where f: "flush_keyframe_requests R now w = (sent, w')" by (cases "flush_keyframe_requests R now w")
      from flush_keyframes_cases [OF f] inv show ?thesis
        by (auto simp: pli_inv_def r 1 f intro!: sorted_wrt_snoc split: if_splits)
    qed (simp_all add: pli_inv_def r)
  qed
qed

text \<open>
  C36. Keyframe requests become picture loss indications.  In every run the indications written
  between two losses of the connection are at least one second apart, whatever the clock
  readings; and a flush of a pending request either writes an indication or leaves exactly
  that request pending.
\<close>

theorem pli_rate_limited:
  assumes "fold (pli_step R L) es ([], w0) = (log, w)"
  shows "sorted_wrt (\<lambda>s t. s + 10 ^ 9 \<le> t) log
    \<and> (\<forall>now v reason. wp_screen_video w = Some v \<longrightarrow> vq_pending_keyframe_request (sv_inbound v) = Some reason \<longrightarrow>
         fst (flush_keyframe_requests R now w)
         \<or> map_option (\<lambda>v. vq_pending_keyframe_request (sv_inbound v)) (wp_screen_video (snd (flush_keyframe_requests R now w)))
           = Some (Some reason))"
proof -
  have "pli_inv ([], w0)" by (simp add: pli_inv_def)
  from pli.run_inv [OF this, of R L es] assms have "sorted_wrt (\<lambda>s t. s + 10 ^ 9 \<le> t) log"
    by (simp add: pli_inv_def MIN_PLI_INTERVAL_def)
  moreover have "fst (flush_keyframe_requests R now w)
      \<or> map_option (\<lambda>v. vq_pending_keyframe_request (sv_inbound v)) (wp_screen_video (snd (flush_keyframe_requests R now w)))
        = Some (Some reason)"
    if "wp_screen_video w = Some v" "vq_pending_keyframe_request (sv_inbound v) = Some reason" for now v reason
    using flush_keyframes_keeps [OF that, of R now] by (cases "flush_keyframe_requests R now w") auto
  ultimately show ?thesis by blast
qed

definition pli_sample_run :: "peer_event list" where
  "pli_sample_run = [PConfigure Recvonly None, PTrack (TrackOpen ''screen'' 3), PRtp (sample_packet 1 True []) 0,
     PFlushKeyframes 0, PRequest Recvonly, PFlushKeyframes 5, PFlushKeyframes 1000000000]"

lemma pli_sample_log: "fst (fold (pli_step recording_lib single_nal_lib) pli_sample_run ([], sample_peer)) = [0, 1000000000]"
proof -
  have h264: "eq_ignore_ascii_case ''video/h264'' ''video/H264''"
    by code_simp
  show ?thesis
    by (simp add: pli_sample_run_def configure_h264_screen_video_def add_media_transceiver_with_codec_def rtc_do_def
        recording_lib_def sample_peer_def observe_screen_video_event_def h264 receive_rtp_inner_def screen_video_new_def
        push_at_def sample_packet_def is_valid_h264_payload_def mark_recovery_needed_def flush_keyframe_requests_def
        request_h264_screen_video_keyframe_def take_keyframe_request_def request_keyframe_def video_queue_new_def
        observe_inbound_packet_def observe_sequence_def observe_timing_def Let_def MIN_PLI_INTERVAL_def)
qed

theorem pli_rate_limited_witness:
  "\<exists>log w. fold (pli_step recording_lib single_nal_lib) pli_sample_run ([], sample_peer) = (log, w)
     \<and> log = [0, 1000000000] \<and> sorted_wrt (\<lambda>s t. s + 10 ^ 9 \<le> t) log"
proof -
  obtain log w where r: "fold (pli_step recording_lib single_nal_lib) pli_sample_run ([], sample_peer) = (log, w)"
    by (cases "fold (pli_step recording_lib single_nal_lib) pli_sample_run ([], sample_peer)")
  with pli_sample_log pli_rate_limited [OF r] show ?thesis by simp
qed

end
