(* ===== verification/Webrtc_Delivery.thy ===== *)
theory Webrtc_Delivery
  imports Webrtc_Runs
begin

text \<open>
  Screen video from one peer to the other: the frames enqueued and flushed by a connected
  sender, carried as RTP packets in order, are the frames the receiver hands out.
\<close>

section \<open>The sender\<close>

text \<open>What the connection promises for one RTP sender: it exists and takes every packet, in order.\<close>

definition sends_packets :: "'c rtc_lib \<Rightarrow> nat \<Rightarrow> ('c \<Rightarrow> rtp_packet list) \<Rightarrow> bool" where
  "sends_packets R s sent \<longleftrightarrow>
     (\<forall>c. rtc_has_sender R s c) \<and> (\<forall>p c. \<exists>c'. rtc_write_rtp R s p c = (Inr (), c') \<and> sent c' = sent c @ [p])"

lemma write_packets_sent:
  assumes "sends_packets R s sent"
  shows "\<exists>w'. write_packets R s ps n w = (Inr (n + length ps), w') \<and> sent (wp_peer w') = sent (wp_peer w) @ ps
    \<and> wp_signaling w' = wp_signaling w
    \<and> (\<forall>v. wp_screen_video w = Some v \<longrightarrow> (\<exists>k. wp_screen_video w' = Some (v\<lparr>sv_packets_sent := k\<rparr>)))"
proof (induction ps arbitrary: n w)
  case Nil
  have "\<exists>k. v = v\<lparr>sv_packets_sent := k\<rparr>" for v :: "('b, 'c) screen_video"
    by (rule exI [of _ "sv_packets_sent v"]) simp
  then show ?case by simp
next
  case (Cons p ps)
  obtain c where c: "rtc_write_rtp R s p (wp_peer w) = (Inr (), c)" "sent c = sent (wp_peer w) @ [p]"
    using assms by (meson sends_packets_def)
  let ?w = "count_sent (w\<lparr>wp_peer := c\<rparr>)"
  obtain w' where w': "write_packets R s ps (n + 1) ?w = (Inr (n + 1 + length ps), w')"
    "sent (wp_peer w') = sent (wp_peer ?w) @ ps" "wp_signaling w' = wp_signaling ?w"
    "\<forall>v. wp_screen_video ?w = Some v \<longrightarrow> (\<exists>k. wp_screen_video w' = Some (v\<lparr>sv_packets_sent := k\<rparr>))"
    using Cons by blast
  have "write_packets R s (p # ps) n w = (Inr (n + length (p # ps)), w')"
    using c w'(1) by (simp add: rtc_do_def)
  moreover have "\<exists>k. wp_screen_video w' = Some (v\<lparr>sv_packets_sent := k\<rparr>)" if "wp_screen_video w = Some v" for v
    using w'(4) that by (auto simp: count_sent_def)
  ultimately show ?case
    using w'(2,3) c(2) by (auto simp: count_sent_def)
qed

text \<open>A connected sender between two frames that takes frames after a sequence number and a timestamp.\<close>

definition sender_ready ::
  "nat \<Rightarrow> u32 \<Rightarrow> (video_queue \<Rightarrow> bool) \<Rightarrow> ('c, 'p, 'd) webrtc_peer \<Rightarrow> bool" where
  "sender_ready s ssrc accepts w \<longleftrightarrow> sig_state (wp_signaling w) = SigConnected
     \<and> (\<exists>v z. wp_screen_video w = Some v \<and> sv_sender_id v = Some s \<and> sv_packetizer v = Some z \<and> pz_mtu z = H264_RTP_MTU
          \<and> pz_ssrc z = ssrc \<and> vq_frames (sv_outbound v) = [] \<and> accepts (sv_outbound v))"

lemma enqueue_empty:
  assumes "validate_frame f = Inr ()" "now < vf_expires_at f" "\<not> is_non_monotonic f q" "vq_frames q = []"
  shows "\<exists>q'. vq_enqueue f now q = (Inr VAccepted, q') \<and> vq_frames q' = [f]
    \<and> vq_last_sequence q' = Some (vf_sequence f) \<and> vq_last_timestamp q' = Some (vf_timestamp f)"
proof -
  have e: "vq_frames (evict_stale now q) = []" using assms(4) by (simp add: evict_stale_def)
  have "is_non_monotonic f (evict_stale now q) = is_non_monotonic f q"
    by (simp add: is_non_monotonic_def evict_stale_frames(2,3))
  with assms e show ?thesis
    by (simp add: vq_enqueue_def Let_def push_frame_def SCREEN_VIDEO_QUEUE_CAPACITY_def)
qed

lemma pop_single:
  assumes "vq_frames q = [f]" "now < vf_expires_at f"
  shows "\<exists>q'. vq_pop now q = (Some f, q') \<and> vq_frames q' = [] \<and> vq_last_sequence q' = vq_last_sequence q
    \<and> vq_last_timestamp q' = vq_last_timestamp q"
proof -
  have "vq_frames (evict_stale now q) = [f]" using assms by (simp add: evict_stale_def)
  then show ?thesis by (simp add: vq_pop_def Let_def evict_stale_frames(2,3))
qed

lemma pop_empty: "vq_frames q = [] \<Longrightarrow> \<exists>q'. vq_pop now q = (None, q') \<and> vq_frames q' = []
    \<and> vq_last_sequence q' = vq_last_sequence q \<and> vq_last_timestamp q' = vq_last_timestamp q"
  by (simp add: vq_pop_def Let_def evict_stale_frames(2,3) evict_stale_def)

text \<open>After a frame, the queue takes frames that come later.\<close>

definition after_frame :: "video_frame \<Rightarrow> video_queue \<Rightarrow> bool" where
  "after_frame f q \<longleftrightarrow> vq_last_sequence q = Some (vf_sequence f) \<and> vq_last_timestamp q = Some (vf_timestamp f)"

lemma after_frame_monotonic: "after_frame f q \<Longrightarrow> frame_before f g \<Longrightarrow> \<not> is_non_monotonic g q"
  by (auto simp: after_frame_def frame_before_def is_non_monotonic_def)

lemma flush_one_frame:
  assumes "sends_packets R s sent" "sender_ready s ssrc (\<lambda>q. \<not> is_non_monotonic f q) w"
    and "validate_frame f = Inr ()" "now < vf_expires_at f"
    and "\<And>z. pz_mtu z = H264_RTP_MTU \<Longrightarrow> pz_ssrc z = ssrc \<Longrightarrow>
           \<exists>ps z'. packetize L f z = (Inr ps, z') \<and> pz_mtu z' = H264_RTP_MTU \<and> pz_ssrc z' = ssrc \<and> P ps"
    and "enqueue_h264_screen_video f now w = (r, w1)" "flush_h264_screen_video R L now w1 = (r', w2)"
  shows "\<exists>ps z z'. r = Inr VAccepted \<and> r' = Inr (length ps) \<and> packetize L f z = (Inr ps, z') \<and> P ps
    \<and> sent (wp_peer w2) = sent (wp_peer w) @ ps \<and> sender_ready s ssrc (after_frame f) w2"
proof -
  from assms(2) obtain v z where v: "wp_screen_video w = Some v" "sv_sender_id v = Some s" "sv_packetizer v = Some z"
      "pz_mtu z = H264_RTP_MTU" "vq_frames (sv_outbound v) = []" "\<not> is_non_monotonic f (sv_outbound v)"
      "sig_state (wp_signaling w) = SigConnected" "pz_ssrc z = ssrc"
    unfolding sender_ready_def by blast
  obtain q1 where q1: "vq_enqueue f now (sv_outbound v) = (Inr VAccepted, q1)" "vq_frames q1 = [f]" "after_frame f q1"
    using enqueue_empty [OF assms(3,4) v(6,5)] by (auto simp: after_frame_def)
  have w1: "r = Inr VAccepted" "w1 = w\<lparr>wp_screen_video := Some (v\<lparr>sv_outbound := q1\<rparr>)\<rparr>"
    using assms(6) v(1,2) q1(1) by (auto simp: enqueue_h264_screen_video_def)
  obtain q2 where q2: "vq_pop now q1 = (Some f, q2)" "vq_frames q2 = []" "after_frame f q2"
    using pop_single [OF q1(2) assms(4)] q1(3) by (auto simp: after_frame_def)
  obtain ps z' where z': "packetize L f z = (Inr ps, z')" "pz_mtu z' = H264_RTP_MTU" "P ps" "pz_ssrc z' = ssrc"
    using assms(5) [OF v(4,8)] by blast
  define v2 where "v2 = v\<lparr>sv_outbound := q2, sv_packetizer := Some z'\<rparr>"
  have n: "next_packets L now w1 = (Inr (Some ps), w\<lparr>wp_screen_video := Some v2\<rparr>)"
    using q2(1) v(3) z'(1) by (simp add: next_packets_def w1 v2_def Let_def)
  obtain w' k where w': "write_packets R s ps 0 (w\<lparr>wp_screen_video := Some v2\<rparr>) = (Inr (length ps), w')"
    "sent (wp_peer w') = sent (wp_peer w) @ ps" "wp_signaling w' = wp_signaling w"
    "wp_screen_video w' = Some (v2\<lparr>sv_packets_sent := k\<rparr>)"
    using write_packets_sent [OF assms(1), of ps 0 "w\<lparr>wp_screen_video := Some v2\<rparr>"] by auto
  obtain q3 where q3: "vq_pop now q2 = (None, q3)" "vq_frames q3 = []" "after_frame f q3"
    using pop_empty [OF q2(2)] q2(3) by (auto simp: after_frame_def)
  define w3 where "w3 = w'\<lparr>wp_screen_video := Some (v2\<lparr>sv_packets_sent := k, sv_outbound := q3\<rparr>)\<rparr>"
  have n2: "next_packets L now w' = (Inr None, w3)"
    using w'(4) q3(1) by (simp add: next_packets_def w3_def v2_def)
  have "flush_loop R L s now 0 w1 = flush_loop R L s now (length ps) w'"
    using n w'(1) assms(1) by (subst flush_loop.simps) (simp add: sends_packets_def)
  also have "\<dots> = (Inr (length ps), w3)"
    using n2 by (subst flush_loop.simps) simp
  finally have "flush_h264_screen_video R L now w1 = (Inr (length ps), w3)"
    using v(2,7) by (simp add: flush_h264_screen_video_def w1)
  with assms(7) have r: "r' = Inr (length ps)" "w2 = w3" by simp_all
  have "sender_ready s ssrc (after_frame f) w3"
    using v(2,7) w'(3) q3(2,3) z'(2,4) by (simp add: sender_ready_def w3_def v2_def)
  with r w1(1) z' w'(2) show ?thesis by (auto simp: w3_def)
qed

section \<open>The receiver\<close>

definition receive_all :: "('p, 'd) h264_lib \<Rightarrow> instant \<Rightarrow> rtp_packet list \<Rightarrow> ('c, 'p, 'd) webrtc_peer \<Rightarrow> ('c, 'p, 'd) webrtc_peer" where
  "receive_all L now ps u = fold (\<lambda>p u. snd (receive_rtp_inner L p now u)) ps u"

lemma receive_all_simps [simp]:
  "receive_all L now [] u = u" "receive_all L now (p # ps) u = receive_all L now ps (snd (receive_rtp_inner L p now u))"
  by (simp_all add: receive_all_def)

lemma observe_keeps [simp]:
  "sv_reassembler (observe_inbound_packet p now v) = sv_reassembler v" "sv_inbound (observe_inbound_packet p now v) = sv_inbound v"
  "sv_accepts_inbound (observe_inbound_packet p now v) = sv_accepts_inbound v"
  "sv_inbound_media_ssrc (observe_inbound_packet p now v) = sv_inbound_media_ssrc v"
  by (simp_all add: observe_inbound_packet_def observe_sequence_def observe_timing_def Let_def split: option.split)

text \<open>The screen video of a peer that receives one stream, by what a packet depends on.\<close>

definition receives ::
  "u32 \<Rightarrow> 'd rtp_reassembler \<Rightarrow> video_queue \<Rightarrow> ('c, 'p, 'd) webrtc_peer \<Rightarrow> bool" where
  "receives ssrc a q u \<longleftrightarrow> (\<exists>v. wp_screen_video u = Some v \<and> sv_accepts_inbound v \<and> sv_inbound_media_ssrc v \<in> {None, Some ssrc}
     \<and> sv_reassembler v = a \<and> sv_inbound v = q)"

lemma receive_part:
  assumes "receives ssrc a q u" "pk_ssrc p = ssrc" "push_at L p now a = (Inr None, a')"
  shows "receives ssrc a' q (snd (receive_rtp_inner L p now u))"
  using assms by (auto simp: receives_def receive_rtp_inner_def Let_def)

lemma receive_whole:
  assumes "receives ssrc a q u" "pk_ssrc p = ssrc" "push_at L p now a = (Inr (Some g), a')"
    and "vq_enqueue g now q = (Inr VAccepted, q')"
  shows "receives ssrc a' q' (snd (receive_rtp_inner L p now u))"
  using assms by (auto simp: receives_def receive_rtp_inner_def take_frame_def recovered_def Let_def)

lemma receive_access_unit:
  assumes "receives ssrc a q u" "list_all (\<lambda>p. pk_ssrc p = ssrc) ps" "ps \<noteq> []"
    and "push_all L now ps a = (replicate (length ps - 1) (Inr None) @ [Inr (Some g)], a')"
    and "vq_enqueue g now q = (Inr VAccepted, q')"
  shows "receives ssrc a' q' (receive_all L now ps u)"
  using assms
proof (induction ps arbitrary: a u)
  case (Cons p ps)
  obtain x b where p: "push_at L p now a = (x, b)" by (cases "push_at L p now a")
  show ?case
  proof (cases "ps = []")
    case True
    with Cons.prems p have "x = Inr (Some g)" "b = a'" by auto
    with Cons.prems p True receive_whole [of ssrc a q u p L now g a' q'] show ?thesis by simp
  next
    case False
    then obtain n where n: "length ps = Suc n" by (cases ps) auto
    with Cons.prems p have x: "x = Inr None" and rest: "push_all L now ps b = (replicate (length ps - 1) (Inr None) @ [Inr (Some g)], a')"
      by (auto split: prod.splits)
    have "receives ssrc b q (snd (receive_rtp_inner L p now u))"
      using Cons.prems p x by (intro receive_part) auto
    from Cons.IH [OF this _ False rest Cons.prems(5)] Cons.prems show ?thesis by simp
  qed
qed simp

text \<open>
  A receiver between two frames: an idle reassembler of the default dimensions, an empty queue
  whose last frame is older than what comes.
\<close>

definition receiver_ready :: "('p, 'd) h264_lib \<Rightarrow> u32 \<Rightarrow> u64 \<Rightarrow> nat \<Rightarrow> ('c, 'p, 'd) webrtc_peer \<Rightarrow> bool" where
  "receiver_ready L ssrc ts k u \<longleftrightarrow> (\<exists>a q. receives ssrc a q u \<and> idle_before L ts a
     \<and> ra_width a = DEFAULT_REMOTE_WIDTH \<and> ra_height a = DEFAULT_REMOTE_HEIGHT \<and> vq_frames q = []
     \<and> unat (ra_next_frame_sequence a) + k < 2 ^ 64
     \<and> (case vq_last_sequence q of None \<Rightarrow> True | Some n \<Rightarrow> n < ra_next_frame_sequence a)
     \<and> (case vq_last_timestamp q of None \<Rightarrow> True | Some t \<Rightarrow> t < ts))"

lemma received_frame_valid:
  assumes "ra_width a = DEFAULT_REMOTE_WIDTH" "ra_height a = DEFAULT_REMOTE_HEIGHT" "payload \<noteq> []"
    "length payload \<le> MAX_ENCODED_VIDEO_FRAME_BYTES" "is_valid_annex_b payload"
  shows "validate_frame (frame_of L now ts payload a) = Inr ()"
proof -
  have "(ucast ts :: u64) \<le> 0xFFFFFFFF"
    using unat_bound [of ts] by (simp add: word_le_nat_alt unsigned_ucast_eq unsigned_take_bit_eq take_bit_nat_eq_self)
  moreover have "(ucast DEFAULT_REMOTE_WIDTH * ucast DEFAULT_REMOTE_HEIGHT :: u64) \<le> MAX_SCREEN_VIDEO_PIXELS"
    by code_simp
  moreover have "DEFAULT_REMOTE_WIDTH \<le> MAX_SCREEN_VIDEO_WIDTH" "DEFAULT_REMOTE_HEIGHT \<le> MAX_SCREEN_VIDEO_HEIGHT"
    "DEFAULT_REMOTE_WIDTH \<noteq> 0" "DEFAULT_REMOTE_HEIGHT \<noteq> 0"
    by code_simp+
  ultimately show ?thesis
    using assms by (simp add: validate_frame_def frame_of_def linorder_not_less)
qed

lemma completed_idle: "reset_pending L (completed L ts a) = completed L ts a"
  by (simp add: completed_def)

lemma receive_one_frame:
  assumes "receiver_ready L ssrc (vf_timestamp f) (Suc k) u" "packetize L f z = (Inr ps, z')"
    and "depackets L (packet_default L) (map pk_payload ps) = Some (vf_payload f, d)"
    and "list_all (\<lambda>p. is_valid_h264_payload L (pk_payload p) \<and> pk_ssrc p = ssrc) ps"
    and "pop_remote_h264_screen_video now (receive_all L now ps u) = (r, u')"
  shows "\<exists>g. r = Some g \<and> vf_payload g = vf_payload f \<and> vf_timestamp g = vf_timestamp f
    \<and> (\<forall>ts. vf_timestamp f < ts \<longrightarrow> is_newer_timestamp (ucast ts) (ucast (vf_timestamp f)) \<longrightarrow> receiver_ready L ssrc ts k u')"
proof -
  from assms(1) obtain a q where a: "receives ssrc a q u" "idle_before L (vf_timestamp f) a"
      "ra_width a = DEFAULT_REMOTE_WIDTH" "ra_height a = DEFAULT_REMOTE_HEIGHT" "vq_frames q = []"
      "unat (ra_next_frame_sequence a) + Suc k < 2 ^ 64"
    and last: "case vq_last_sequence q of None \<Rightarrow> True | Some n \<Rightarrow> n < ra_next_frame_sequence a"
      "case vq_last_timestamp q of None \<Rightarrow> True | Some t \<Rightarrow> t < vf_timestamp f"
    unfolding receiver_ready_def by blast
  define g where "g = frame_of L now (ucast (vf_timestamp f)) (vf_payload f) a"
  define a' where "a' = completed L (ucast (vf_timestamp f)) a"
  note p = packetize_run [OF assms(2)]
  have g: "vf_payload g = vf_payload f" "vf_timestamp g = vf_timestamp f" "vf_sequence g = ra_next_frame_sequence a"
    "vf_expires_at g = now + RECEIVED_FRAME_TTL"
    using p ucast_timestamp by (simp_all add: g_def frame_of_def)
  have push: "push_all L now ps a = (replicate (length ps - 1) (Inr None) @ [Inr (Some g)], a')"
    unfolding g_def a'_def using assms(4) by (intro access_unit_reassembled [OF assms(2) a(2) assms(3)]) (simp add: list_all_iff)
  have fresh: "now < vf_expires_at g" by (simp add: g RECEIVED_FRAME_TTL_def)
  have mono: "\<not> is_non_monotonic g q"
    using last by (auto simp: is_non_monotonic_def g split: option.splits)
  have valid: "validate_frame g = Inr ()"
    unfolding g_def using a p by (intro received_frame_valid) simp_all
  obtain q' where q': "vq_enqueue g now q = (Inr VAccepted, q')" "vq_frames q' = [g]" "after_frame g q'"
    using enqueue_empty [OF valid fresh mono a(5)] by (auto simp: after_frame_def)
  have "receives ssrc a' q' (receive_all L now ps u)"
    using assms(4) p by (intro receive_access_unit [OF a(1) _ _ push q'(1)]) (simp_all add: list_all_iff)
  then obtain v where v: "wp_screen_video (receive_all L now ps u) = Some v" "sv_accepts_inbound v"
      "sv_inbound_media_ssrc v \<in> {None, Some ssrc}" "sv_reassembler v = a'" "sv_inbound v = q'"
    unfolding receives_def by blast
  obtain q'' where q'': "vq_pop now q' = (Some g, q'')" "vq_frames q'' = []" "after_frame g q''"
    using pop_single [OF q'(2) fresh] q'(3) by (auto simp: after_frame_def)
  have r: "r = Some g" "receives ssrc a' q'' u'"
    using assms(5) v q''(1) by (auto simp: pop_remote_h264_screen_video_def receives_def)
  have next_seq: "ra_next_frame_sequence a' = ra_next_frame_sequence a + 1" "unat (ra_next_frame_sequence a + 1) = unat (ra_next_frame_sequence a) + 1"
    using a(6) by (simp_all add: a'_def completed_def reset_pending_def unat_word_ariths)
  have "receiver_ready L ssrc ts k u'"
    if "vf_timestamp f < ts" "is_newer_timestamp (ucast ts) (ucast (vf_timestamp f))" for ts
    unfolding receiver_ready_def
  proof (intro exI conjI)
    show "idle_before L ts a'"
      using that(2) by (simp add: idle_before_def a'_def completed_def reset_pending_def)
    show "case vq_last_sequence q'' of None \<Rightarrow> True | Some n \<Rightarrow> n < ra_next_frame_sequence a'"
      using q''(3) next_seq g by (simp add: after_frame_def word_less_nat_alt)
    show "case vq_last_timestamp q'' of None \<Rightarrow> True | Some t \<Rightarrow> t < ts"
      using q''(3) g that(1) by (simp add: after_frame_def)
    show "unat (ra_next_frame_sequence a') + k < 2 ^ 64"
      using next_seq a(6) by simp
  qed (use r q'' a in \<open>simp_all add: a'_def completed_def reset_pending_def\<close>)
  with r g show ?thesis by blast
qed

section \<open>From peer to peer\<close>

text \<open>
  What the payload format promises for one access unit: whatever its internal state, it splits
  the unit into valid payloads that a fresh depacketizer puts together again.
\<close>

definition codec_carries :: "('p, 'd) h264_lib \<Rightarrow> byte list \<Rightarrow> bool" where
  "codec_carries L bytes \<longleftrightarrow>
     (\<forall>p. \<exists>ps p' d. payloader_payload L p (H264_RTP_MTU - RTP_HEADER_BYTES) bytes = (Inr ps, p') \<and> ps \<noteq> []
        \<and> depackets L (packet_default L) ps = Some (bytes, d) \<and> list_all (is_valid_h264_payload L) ps)"

lemma number_packets_ssrc:
  "number_packets pt ssrc ts n ps = (packets, m) \<Longrightarrow> list_all (\<lambda>p. pk_ssrc p = ssrc) packets"
  by (induction ps arbitrary: n packets m) (fastforce split: prod.splits simp: Let_def)+

lemma packetize_carried:
  assumes "codec_carries L (vf_payload f)" "validate_frame f = Inr ()" "RTP_HEADER_BYTES + FUA_HEADER_SIZE L < H264_RTP_MTU"
    and "pz_mtu z = H264_RTP_MTU"
  shows "\<exists>ps z'. packetize L f z = (Inr ps, z') \<and> pz_mtu z' = H264_RTP_MTU \<and> pz_ssrc z' = pz_ssrc z
    \<and> (\<exists>d. depackets L (packet_default L) (map pk_payload ps) = Some (vf_payload f, d))
    \<and> list_all (\<lambda>p. is_valid_h264_payload L (pk_payload p) \<and> pk_ssrc p = pz_ssrc z) ps"
proof -
  obtain payloads p d where c: "payloader_payload L (pz_payloader z) (H264_RTP_MTU - RTP_HEADER_BYTES) (vf_payload f) = (Inr payloads, p)"
    "payloads \<noteq> []" "depackets L (packet_default L) payloads = Some (vf_payload f, d)" "list_all (is_valid_h264_payload L) payloads"
    using assms(1) unfolding codec_carries_def by blast
  obtain ps n where n: "number_packets (pz_payload_type z) (pz_ssrc z) (ucast (vf_timestamp f)) (pz_next_sequence_number z) payloads = (ps, n)"
    by (cases "number_packets (pz_payload_type z) (pz_ssrc z) (ucast (vf_timestamp f)) (pz_next_sequence_number z) payloads")
  have f: "vf_codec f = H264" "vf_payload f \<noteq> []" "length (vf_payload f) \<le> MAX_ENCODED_VIDEO_FRAME_BYTES"
    "is_valid_annex_b (vf_payload f)" "\<not> vf_timestamp f > 0xFFFFFFFF"
    using assms(2) by (auto simp: validate_frame_def split: if_splits)
  have "packetize L f z = (Inr ps, z\<lparr>pz_payloader := p, pz_next_sequence_number := n\<rparr>)"
    using f c(1,2) n assms(3,4) by (simp add: packetize_def)
  moreover have "map pk_payload ps = payloads" "list_all (\<lambda>p. pk_ssrc p = pz_ssrc z) ps"
    using number_packets_run [OF n] number_packets_ssrc [OF n] by simp_all
  moreover have "list_all (\<lambda>p. is_valid_h264_payload L (pk_payload p)) ps"
    using c(4) calculation(2) by (auto simp: list_all_iff)
  ultimately show ?thesis
    using c(3) assms(4) by (simp add: list_all_iff)
qed

text \<open>
  A session: each frame is enqueued and flushed, the packets the sender wrote are received in
  order, and the receiver takes what is there.
\<close>

fun exchange ::
  "'c rtc_lib \<Rightarrow> ('p, 'd) h264_lib \<Rightarrow> ('c \<Rightarrow> rtp_packet list) \<Rightarrow> (video_frame \<times> instant) list
   \<Rightarrow> ('c, 'p, 'd) webrtc_peer \<Rightarrow> ('c, 'p, 'd) webrtc_peer \<Rightarrow> video_frame option list" where
  "exchange R L sent [] w u = []"
| "exchange R L sent ((f, now) # fs) w u =
     (let w' = snd (flush_h264_screen_video R L now (snd (enqueue_h264_screen_video f now w)));
          packets = drop (length (sent (wp_peer w))) (sent (wp_peer w'));
          (g, u') = pop_remote_h264_screen_video now (receive_all L now packets u)
      in g # exchange R L sent fs w' u')"

text \<open>Consecutive frames: later sequence number and timestamp, by less than half the 32-bit range.\<close>

definition follows :: "video_frame \<Rightarrow> video_frame \<Rightarrow> bool" where
  "follows f g \<longleftrightarrow> frame_before f g \<and> is_newer_timestamp (ucast (vf_timestamp g)) (ucast (vf_timestamp f))"

lemma sender_ready_mono:
  "sender_ready s ssrc A w \<Longrightarrow> (\<And>q. A q \<Longrightarrow> B q) \<Longrightarrow> sender_ready s ssrc B w"
  by (fastforce simp: sender_ready_def)

lemma exchange_delivers:
  assumes "sends_packets R s sent" "RTP_HEADER_BYTES + FUA_HEADER_SIZE L < H264_RTP_MTU"
    and "\<forall>(f, now) \<in> set fs. validate_frame f = Inr () \<and> now < vf_expires_at f \<and> codec_carries L (vf_payload f)"
    and "successively follows (map fst fs)"
    and "fs \<noteq> [] \<longrightarrow> sender_ready s ssrc (\<lambda>q. \<not> is_non_monotonic (fst (hd fs)) q) w"
    and "fs \<noteq> [] \<longrightarrow> receiver_ready L ssrc (vf_timestamp (fst (hd fs))) (length fs) u"
  shows "map (map_option (\<lambda>g. (vf_payload g, vf_timestamp g))) (exchange R L sent fs w u) =
    map (\<lambda>(f, now). Some (vf_payload f, vf_timestamp f)) fs"
  using assms(3-6)
proof (induction fs arbitrary: w u)
  case (Cons x fs)
  obtain f now where x: "x = (f, now)" by (cases x)
  have f: "validate_frame f = Inr ()" "now < vf_expires_at f" "codec_carries L (vf_payload f)"
    using Cons.prems(1) x by auto
  obtain r w1 where w1: "enqueue_h264_screen_video f now w = (r, w1)" by (cases "enqueue_h264_screen_video f now w")
  obtain r' w2 where w2: "flush_h264_screen_video R L now w1 = (r', w2)" by (cases "flush_h264_screen_video R L now w1")
  have ready: "sender_ready s ssrc (\<lambda>q. \<not> is_non_monotonic f q) w" "receiver_ready L ssrc (vf_timestamp f) (Suc (length fs)) u"
    using Cons.prems(3,4) x by simp_all
  let ?P = "\<lambda>ps. (\<exists>d. depackets L (packet_default L) (map pk_payload ps) = Some (vf_payload f, d))
    \<and> list_all (\<lambda>p. is_valid_h264_payload L (pk_payload p) \<and> pk_ssrc p = ssrc) ps"
  obtain ps z z' d where ps: "packetize L f z = (Inr ps, z')" "sent (wp_peer w2) = sent (wp_peer w) @ ps"
    "sender_ready s ssrc (after_frame f) w2" "depackets L (packet_default L) (map pk_payload ps) = Some (vf_payload f, d)"
    "list_all (\<lambda>p. is_valid_h264_payload L (pk_payload p) \<and> pk_ssrc p = ssrc) ps"
    using flush_one_frame [OF assms(1) ready(1) f(1,2) _ w1 w2, of ?P] packetize_carried [OF f(3,1) assms(2)]
    by blast
  obtain y u' where u': "pop_remote_h264_screen_video now (receive_all L now ps u) = (y, u')"
    by (cases "pop_remote_h264_screen_video now (receive_all L now ps u)")
  obtain g where g: "y = Some g" "vf_payload g = vf_payload f" "vf_timestamp g = vf_timestamp f"
    "\<And>ts. vf_timestamp f < ts \<Longrightarrow> is_newer_timestamp (ucast ts) (ucast (vf_timestamp f)) \<Longrightarrow> receiver_ready L ssrc ts (length fs) u'"
    using receive_one_frame [OF ready(2) ps(1,4,5) u'] by blast
  have step: "fs \<noteq> [] \<Longrightarrow> follows f (fst (hd fs))" "successively follows (map fst fs)"
    using Cons.prems(2) x by (cases fs; simp)+
  have "map (map_option (\<lambda>g. (vf_payload g, vf_timestamp g))) (exchange R L sent fs w2 u') =
    map (\<lambda>(f, now). Some (vf_payload f, vf_timestamp f)) fs"
  proof (rule Cons.IH)
    show "fs \<noteq> [] \<longrightarrow> sender_ready s ssrc (\<lambda>q. \<not> is_non_monotonic (fst (hd fs)) q) w2"
      using step(1) after_frame_monotonic by (auto simp: follows_def intro: sender_ready_mono [OF ps(3)])
    show "fs \<noteq> [] \<longrightarrow> receiver_ready L ssrc (vf_timestamp (fst (hd fs))) (length fs) u'"
      using step(1) g(4) by (auto simp: follows_def frame_before_def)
  qed (use Cons.prems step in auto)
  with g u' ps(2) w1 w2 x show ?case by simp
qed simp


text \<open>An instance: an offering peer that sends, a peer that only receives, one frame of two packets.\<close>

definition offering_run :: "peer_event list" where
  "offering_run = [PConfigure Sendonly (Some 7), PCreateOffer, PRemoteAnswer \<lparr>sd_kind = SdpAnswer, sd_sdp = ''v=0''\<rparr>]"

lemma offering_run_connected:
  "sig_state (wp_signaling (fold (peer_step recording_lib single_nal_lib) offering_run sample_peer)) = SigConnected
   \<and> wp_screen_video (fold (peer_step recording_lib single_nal_lib) offering_run sample_peer)
     = Some (screen_video_new single_nal_lib (Some 0) (Some 7) False)"
  by (simp add: offering_run_def configure_h264_screen_video_def accept_remote_answer_def create_offer_def
      add_media_transceiver_with_codec_def rtc_do_def sig_do_def recording_lib_def sample_peer_def
      session_description_new_def MAX_SDP_BYTES_def local_offer_def remote_answer_def sig_transition_def signaling_default_def)

lemma receiving_run_configured:
  "wp_screen_video (peer_step recording_lib single_nal_lib (PConfigure Recvonly None) sample_peer)
     = Some (screen_video_new single_nal_lib None None True)"
  by (simp add: configure_h264_screen_video_def add_media_transceiver_with_codec_def rtc_do_def recording_lib_def sample_peer_def)

lemma recording_sends: "sends_packets recording_lib s id"
  by (simp add: sends_packets_def recording_lib_def)

lemma sample_carried: "codec_carries single_nal_lib sample_access_unit"
  using sample_payloads_valid
  by (auto simp: codec_carries_def single_nal_lib_def sample_access_unit_def)

lemma sample_frame_valid: "validate_frame sample_frame = Inr ()"
proof -
  have "sample_access_unit \<noteq> []" "length sample_access_unit = 12" by (simp_all add: sample_access_unit_def)
  then show ?thesis
    by (simp add: validate_frame_def sample_frame_def sample_access_unit_valid MAX_SCREEN_VIDEO_WIDTH_def
        MAX_SCREEN_VIDEO_HEIGHT_def MAX_SCREEN_VIDEO_PIXELS_def MAX_ENCODED_VIDEO_FRAME_BYTES_def word_less_nat_alt)
qed


end
