(* ===== verification/Webrtc_Driver.thy ===== *)
theory Webrtc_Driver
  imports Webrtc_Runs Nat_Attempt
begin

text \<open>
  The I/O driver of a WebRTC peer (\<open>network-webrtc/src/driver.rs\<close>): the critical section of
  one turn of its loop, the translation of connection events and the policy for lost
  connections.  The socket, the timer and the event channel are I/O; what the connection hands
  out in a turn is an argument.
\<close>

section \<open>Definitions\<close>

definition DEFAULT_TIMEOUT :: duration where "DEFAULT_TIMEOUT = 10 ^ 9"
definition HOST_CANDIDATE_PRIORITY :: nat where "HOST_CANDIDATE_PRIORITY = 2130706431"

datatype realtime_io_event =
    IceConnected
  | IceFailed
  | PeerConnected
  | PeerDisconnected
  | PeerFailed
  | DataChannelOpened nat
  | DataChannelClosed nat
  | LocalIceCandidate ice_candidate
  | DataChannelMessage nat bool "byte list"

datatype ice_connection_state = IceStateConnected | IceStateCompleted | IceStateFailed | IceStateOther
datatype peer_connection_state = PcConnected | PcDisconnected | PcClosed | PcFailed | PcOther

text \<open>Connection events; a gathered candidate comes as its JSON form or the error of making it.\<close>

datatype connection_event =
    OnIceCandidate "string + string \<times> string option \<times> u16 option \<times> string option"
  | OnIceState ice_connection_state
  | OnPeerState peer_connection_state
  | OnChannelOpen nat
  | OnChannelClose nat
  | OnTrack track_event
  | OnOther

datatype connection_message = RtcDataMessage nat bool "byte list" | RtcRtpPacket string rtp_packet | RtcOtherMessage

record udp_packet =
  up_is_udp :: bool
  up_peer_addr :: socket_addr
  up_message :: "byte list"

datatype ip_addr = IpV4 u32 | IpV6 "128 word"

fun sa_ip :: "socket_addr \<Rightarrow> ip_addr" where
  "sa_ip (SocketV4 ip _) = IpV4 ip"
| "sa_ip (SocketV6 ip _ _ _) = IpV6 ip"

fun show_ip :: "ip_addr \<Rightarrow> string" where
  "show_ip (IpV4 ip) = show_ipv4 ip"
| "show_ip (IpV6 ip) = show_ipv6 ip"

definition host_candidate :: "ip_addr \<Rightarrow> u16 \<Rightarrow> string" where
  "host_candidate ip port =
     ''candidate:1 1 udp '' @ show_dec HOST_CANDIDATE_PRIORITY @ '' '' @ show_ip ip @ '' '' @ show_dec (unat port) @ '' typ host''"

text \<open>After the socket is bound: the candidate of its address, 127.0.0.1 where the address is unspecified.\<close>

definition register_host_candidate ::
  "'c rtc_lib \<Rightarrow> socket_addr \<Rightarrow> ip_addr option \<Rightarrow> ('c, 'p, 'd, unit) peer_op" where
  "register_host_candidate R local_addr advertised_ip w =
     (let candidate_ip = (case advertised_ip of
            Some ip \<Rightarrow> ip
          | None \<Rightarrow> if \<not> ip_is_unspecified local_addr then sa_ip local_addr else IpV4 0x7F000001)
      in and_then (map_sum Signaling id (ice_candidate_new (host_candidate candidate_ip (sa_port local_addr)) (Some ''0'') (Some 0) None), w)
           (\<lambda>candidate w. add_local_ice_candidate R candidate w))"

definition map_peer_event :: "connection_event \<Rightarrow> webrtc_error + realtime_io_event list" where
  "map_peer_event e =
     (case e of
        OnIceCandidate (Inl err) \<Rightarrow> Inl (Rtc (''failed to serialize local ICE candidate: '' @ err))
      | OnIceCandidate (Inr (candidate, mid, index, fragment)) \<Rightarrow>
          map_sum Signaling (\<lambda>c. [LocalIceCandidate c]) (ice_candidate_new candidate mid index fragment)
      | OnIceState s \<Rightarrow>
          Inr (case s of IceStateConnected \<Rightarrow> [IceConnected] | IceStateCompleted \<Rightarrow> [IceConnected]
                       | IceStateFailed \<Rightarrow> [IceFailed] | IceStateOther \<Rightarrow> [])
      | OnPeerState s \<Rightarrow>
          Inr (case s of PcConnected \<Rightarrow> [PeerConnected] | PcDisconnected \<Rightarrow> [PeerDisconnected]
                       | PcClosed \<Rightarrow> [PeerDisconnected] | PcFailed \<Rightarrow> [PeerFailed] | PcOther \<Rightarrow> [])
      | OnChannelOpen c \<Rightarrow> Inr [DataChannelOpened c]
      | OnChannelClose c \<Rightarrow> Inr [DataChannelClosed c]
      | OnTrack _ \<Rightarrow> Inr []
      | OnOther \<Rightarrow> Inr [])"

definition apply_terminal_media_policy ::
  "('p, 'd) h264_lib \<Rightarrow> realtime_io_event \<Rightarrow> ('c, 'p, 'd) webrtc_peer \<Rightarrow> ('c, 'p, 'd) webrtc_peer" where
  "apply_terminal_media_policy L e w =
     (if e = IceFailed \<or> e = PeerDisconnected \<or> e = PeerFailed then peer_on_connection_lost L w else w)"

fun collect_outbound :: "udp_packet list \<Rightarrow> webrtc_error + (socket_addr \<times> byte list) list" where
  "collect_outbound [] = Inr []"
| "collect_outbound (p # ps) =
     (if \<not> up_is_udp p then Inl (WebRtcIo ''WebRTC driver received a non-UDP packet from rtc'')
      else map_sum id ((#) (up_peer_addr p, up_message p)) (collect_outbound ps))"

definition track_event_of :: "connection_event \<Rightarrow> track_event" where
  "track_event_of e = (case e of OnTrack t \<Rightarrow> t | _ \<Rightarrow> OtherEvent)"

fun drain_peer_events ::
  "'c rtc_lib \<Rightarrow> ('p, 'd) h264_lib \<Rightarrow> connection_event list \<Rightarrow> ('c, 'p, 'd, realtime_io_event list) peer_op" where
  "drain_peer_events R L [] w = (Inr [], w)"
| "drain_peer_events R L (e # es) w =
     (let w = observe_screen_video_event R L (track_event_of e) w
      in case map_peer_event e of
           Inl err \<Rightarrow> (Inl err, w)
         | Inr mapped \<Rightarrow>
             and_then (drain_peer_events R L es (fold (apply_terminal_media_policy L) mapped w))
               (\<lambda>rest w. (Inr (mapped @ rest), w)))"

fun drain_peer_messages ::
  "('p, 'd) h264_lib \<Rightarrow> instant \<Rightarrow> connection_message list \<Rightarrow> ('c, 'p, 'd, realtime_io_event list) peer_op" where
  "drain_peer_messages L now [] w = (Inr [], w)"
| "drain_peer_messages L now (m # ms) w =
     (case m of
        RtcDataMessage channel is_string payload \<Rightarrow>
          and_then (drain_peer_messages L now ms w) (\<lambda>rest w. (Inr (DataChannelMessage channel is_string payload # rest), w))
      | RtcRtpPacket track packet \<Rightarrow>
          and_then (receive_rtp_for_track L track packet now w) (\<lambda>_ w. drain_peer_messages L now ms w)
      | RtcOtherMessage \<Rightarrow> drain_peer_messages L now ms w)"

text \<open>One turn up to the I/O: the datagrams to send and the events to report.\<close>

definition driver_turn ::
  "'c rtc_lib \<Rightarrow> ('p, 'd) h264_lib \<Rightarrow> instant \<Rightarrow> instant \<Rightarrow> udp_packet list \<Rightarrow> connection_event list \<Rightarrow> connection_message list
   \<Rightarrow> ('c, 'p, 'd, (socket_addr \<times> byte list) list \<times> realtime_io_event list) peer_op" where
  "driver_turn R L now pli_now packets events messages w =
     and_then (flush_pending_h264_screen_video R L now w) (\<lambda>_ w.
     let w = snd (flush_keyframe_requests R pli_now w) in
     and_then (collect_outbound packets, w) (\<lambda>outbound w.
     and_then (drain_peer_events R L events w) (\<lambda>first w.
     and_then (drain_peer_messages L now messages w) (\<lambda>second w.
     (Inr (outbound, first @ second), w)))))"

section \<open>A turn is a run of peer operations\<close>

definition run_of :: "'c rtc_lib \<Rightarrow> ('p, 'd) h264_lib \<Rightarrow> ('c, 'p, 'd) webrtc_peer \<Rightarrow> ('c, 'p, 'd) webrtc_peer \<Rightarrow> bool" where
  "run_of R L w w' \<longleftrightarrow> (\<exists>es. PCreateOffer \<notin> set es \<and> w' = fold (peer_step R L) es w)"

lemma run_of_refl [simp]: "run_of R L w w"
  unfolding run_of_def by (rule exI [of _ "[]"]) simp

lemma run_of_trans: "run_of R L w w' \<Longrightarrow> run_of R L w' w'' \<Longrightarrow> run_of R L w w''"
proof (unfold run_of_def, elim exE conjE)
  fix es es'
  assume "PCreateOffer \<notin> set es" "w' = fold (peer_step R L) es w" "PCreateOffer \<notin> set es'" "w'' = fold (peer_step R L) es' w'"
  then show "\<exists>es. PCreateOffer \<notin> set es \<and> w'' = fold (peer_step R L) es w"
    by (intro exI [of _ "es @ es'"]) simp
qed

lemma run_of_step: "e \<noteq> PCreateOffer \<Longrightarrow> run_of R L w (peer_step R L e w)"
  unfolding run_of_def by (rule exI [of _ "[e]"]) simp

lemma run_of_and_then:
  "run_of R L w (snd x) \<Longrightarrow> (\<And>a w'. run_of R L w' (snd (k a w'))) \<Longrightarrow> run_of R L w (snd (and_then x k))"
  by (auto simp: snd_and_then split: sum.split intro: run_of_trans)

lemma terminal_policy_run: "run_of R L w (fold (apply_terminal_media_policy L) es w)"
proof (induction es arbitrary: w)
  case (Cons e es)
  have "run_of R L w (apply_terminal_media_policy L e w)"
    using run_of_step [of PLost R L w] by (simp add: apply_terminal_media_policy_def)
  with Cons [of "apply_terminal_media_policy L e w"] show ?case by (simp add: run_of_trans)
qed simp

lemma drain_peer_events_run: "run_of R L w (snd (drain_peer_events R L es w))"
proof (induction es arbitrary: w)
  case (Cons e es)
  let ?w = "observe_screen_video_event R L (track_event_of e) w"
  have "run_of R L w ?w" using run_of_step [of "PTrack (track_event_of e)" R L w] by simp
  moreover have "run_of R L ?w (snd (and_then (drain_peer_events R L es (fold (apply_terminal_media_policy L) mapped ?w))
      (\<lambda>rest w. (Inr (mapped @ rest), w))))" for mapped
    by (rule run_of_and_then [OF run_of_trans [OF terminal_policy_run Cons]]) simp
  ultimately show ?case
    using run_of_trans by (simp add: Let_def split: sum.split) blast
qed simp

lemma drain_peer_messages_run: "run_of R L w (snd (drain_peer_messages L now ms w))"
proof (induction ms arbitrary: w)
  case (Cons m ms)
  show ?case
  proof (cases m)
    case (RtcDataMessage channel is_string payload)
    then show ?thesis by (simp add: run_of_and_then [OF Cons])
  next
    case (RtcRtpPacket track packet)
    have "run_of R L w (snd (receive_rtp_for_track L track packet now w))"
      using run_of_step [of "PRtpTrack track packet now" R L w] by simp
    from run_of_and_then [OF this Cons] RtcRtpPacket show ?thesis by simp
  qed (simp add: Cons)
qed simp

lemma driver_turn_run: "run_of R L w (snd (driver_turn R L now pli_now packets events messages w))"
proof -
  have f: "run_of R L w (snd (flush_pending_h264_screen_video R L now w))" for w
    using run_of_step [of "PFlushPending now" R L w] by simp
  have k: "run_of R L w (snd (flush_keyframe_requests R pli_now w))" for w
    using run_of_step [of "PFlushKeyframes pli_now" R L w] by simp
  have inner: "run_of R L v (snd (and_then (collect_outbound packets, v) (\<lambda>outbound w.
      and_then (drain_peer_events R L events w) (\<lambda>first w.
      and_then (drain_peer_messages L now messages w) (\<lambda>second w. (Inr (outbound, first @ second), w))))))" for v
  proof (rule run_of_and_then)
    fix outbound w'
    show "run_of R L w' (snd (and_then (drain_peer_events R L events w') (\<lambda>first w.
        and_then (drain_peer_messages L now messages w) (\<lambda>second w. (Inr (outbound, first @ second), w)))))"
      by (rule run_of_and_then [OF drain_peer_events_run run_of_and_then [OF drain_peer_messages_run]]) simp
  qed simp
  show ?thesis
    unfolding driver_turn_def Let_def by (rule run_of_and_then [OF f run_of_trans [OF k inner]])
qed

end
