(* ===== verification/Handshake_Metadata.thy ===== *)
theory Handshake_Metadata
  imports Protocol_V2
begin

text \<open>
  The path metadata of the application handshake (\<^verbatim>\<open>path_handshake.rs\<close>) and the
  bounds-checked \<^verbatim>\<open>Cursor\<close> of \<^verbatim>\<open>crypto_handshake/payload_root.rs\<close> that every handshake
  payload is read with.  The locale \<open>field_parser\<close> is the contract of one field of a
  payload: its parser accepts exactly the encodings of the field's valid values and leaves
  the cursor right behind them.
\<close>

section \<open>Policies, kinds and errors\<close>

datatype path_policy = PolicyRequired | PolicyDisabled
datatype path_kind = PathDirect | PathRelay
datatype path_security = PathE2ee | PathIdentityOnly

datatype path_handshake_error =
    PathInvalidFrame | PeerProtocolMismatch | DowngradeRejected | IdentityRequired
  | PeerIdentityMismatch | IdentityProofFailed | SecurityPolicyMismatch | RelayRequiresE2ee
  | PathBindingMismatch | ConnectionProfileMismatch

text \<open>
  \<open>HsPanicked\<close> is not an error value of the code: it stands for the panic of \<^verbatim>\<open>expect\<close> in
  \<^verbatim>\<open>proof_payload_with_path\<close>.
\<close>

datatype crypto_handshake_error =
    HsInvalid | UntrustedIdentity | InvalidBinding | HsUnsupported | HsFailed | HsTransport
  | HsPath path_handshake_error | HsPanicked

definition PATH_HANDSHAKE_VERSION :: u32 where "PATH_HANDSHAKE_VERSION = 2"
definition NETWORK_DATA_PROTOCOL_VERSION :: u32 where "NETWORK_DATA_PROTOCOL_VERSION = 2"
definition TRANSCRIPT_DOMAIN :: "byte list" where
  "TRANSCRIPT_DOMAIN = str_bytes ''ssh-mobile/path-handshake/transcript/v2''"
definition MAX_PATH_PEER_ID_BYTES :: nat where "MAX_PATH_PEER_ID_BYTES = 128"
definition MAX_PATH_BINDING_BYTES :: nat where "MAX_PATH_BINDING_BYTES = 256"
definition MAX_CONNECTION_PROFILE_BYTES :: nat where "MAX_CONNECTION_PROFILE_BYTES = 256"

lemmas path_limits = MAX_PATH_PEER_ID_BYTES_def MAX_PATH_BINDING_BYTES_def
  MAX_CONNECTION_PROFILE_BYTES_def

definition policy_from_code :: "byte \<Rightarrow> path_handshake_error + path_policy" where
  "policy_from_code code =
     (if code = 0 then Inr PolicyRequired
      else if code = 1 then Inr PolicyDisabled
      else Inl PathInvalidFrame)"

definition policy_from_network_code :: "int \<Rightarrow> path_handshake_error + path_policy" where
  "policy_from_network_code code =
     (case e2ee_policy_try_from code of
        None \<Rightarrow> Inl PathInvalidFrame
      | Some E2eeRequired \<Rightarrow> Inr PolicyRequired
      | Some E2eeDisabled \<Rightarrow> Inr PolicyDisabled)"

fun policy_code :: "path_policy \<Rightarrow> byte" where
  "policy_code PolicyRequired = 0"
| "policy_code PolicyDisabled = 1"

definition kind_from_code :: "byte \<Rightarrow> path_handshake_error + path_kind" where
  "kind_from_code code =
     (if code = 1 then Inr PathDirect
      else if code = 2 then Inr PathRelay
      else Inl PathInvalidFrame)"

fun kind_code :: "path_kind \<Rightarrow> byte" where
  "kind_code PathDirect = 1"
| "kind_code PathRelay = 2"

fun security_policy :: "path_security \<Rightarrow> path_policy" where
  "security_policy PathE2ee = PolicyRequired"
| "security_policy PathIdentityOnly = PolicyDisabled"

definition security_has_e2ee :: "path_security \<Rightarrow> bool" where
  "security_has_e2ee s \<longleftrightarrow> s = PathE2ee"

definition negotiate_security ::
  "path_kind \<Rightarrow> path_policy \<Rightarrow> path_policy \<Rightarrow> path_handshake_error + path_security" where
  "negotiate_security path_kind local remote =
     (if path_kind = PathRelay \<and> (local = PolicyDisabled \<or> remote = PolicyDisabled)
      then Inl RelayRequiresE2ee
      else if local \<noteq> remote then Inl SecurityPolicyMismatch
      else Inr (case local of PolicyRequired \<Rightarrow> PathE2ee | PolicyDisabled \<Rightarrow> PathIdentityOnly))"

section \<open>The cursor\<close>

text \<open>
  \<open>cur_take\<close> returns the next bytes and the advanced cursor.  An error ends every caller, so
  that the cursor it leaves behind is not observed.  The methods of the trait
  \<^verbatim>\<open>MetadataCursor\<close> report \<^verbatim>\<open>InvalidFrame\<close> and, other than the inherent \<^verbatim>\<open>take_bytes\<close>, refuse
  an empty field.
\<close>

record cursor =
  cur_bytes :: "byte list"
  cur_offset :: nat

definition cursor_new :: "byte list \<Rightarrow> cursor" where
  "cursor_new bytes = \<lparr>cur_bytes = bytes, cur_offset = 0\<rparr>"

definition cur_take :: "nat \<Rightarrow> cursor \<Rightarrow> crypto_handshake_error + byte list \<times> cursor" where
  "cur_take n c =
     (let stop = cur_offset c + n in
      if stop \<le> length (cur_bytes c)
      then Inr (take n (drop (cur_offset c) (cur_bytes c)), c\<lparr>cur_offset := stop\<rparr>)
      else Inl HsInvalid)"

definition cur_take_byte :: "cursor \<Rightarrow> crypto_handshake_error + byte \<times> cursor" where
  "cur_take_byte c = try_bind (cur_take 1 c) (\<lambda>(v, c). Inr (v ! 0, c))"

definition cur_take_u32 :: "cursor \<Rightarrow> crypto_handshake_error + u32 \<times> cursor" where
  "cur_take_u32 c = try_bind (cur_take 4 c) (\<lambda>(v, c). Inr (u32_from_be v, c))"

definition cur_take_string :: "nat \<Rightarrow> cursor \<Rightarrow> crypto_handshake_error + string \<times> cursor" where
  "cur_take_string limit c =
     try_bind (cur_take 2 c) (\<lambda>(v, c).
       let n = unat (u16_from_be v) in
       if n = 0 \<or> n > limit then Inl HsInvalid
       else try_bind (cur_take n c) (\<lambda>(v, c).
         case from_utf8 v of None \<Rightarrow> Inl HsInvalid | Some s \<Rightarrow> Inr (s, c)))"

definition cur_take_bytes :: "nat \<Rightarrow> cursor \<Rightarrow> crypto_handshake_error + byte list \<times> cursor" where
  "cur_take_bytes limit c =
     try_bind (cur_take 2 c) (\<lambda>(v, c).
       let n = unat (u16_from_be v) in
       if n > limit then Inl HsInvalid else cur_take n c)"

definition cur_remaining :: "cursor \<Rightarrow> nat" where
  "cur_remaining c = length (cur_bytes c) - cur_offset c"

definition cur_done :: "cursor \<Rightarrow> bool" where
  "cur_done c \<longleftrightarrow> cur_offset c = length (cur_bytes c)"

definition meta_take_byte :: "cursor \<Rightarrow> path_handshake_error + byte \<times> cursor" where
  "meta_take_byte c = map_err (\<lambda>_. PathInvalidFrame) (cur_take_byte c)"

definition meta_take_u32 :: "cursor \<Rightarrow> path_handshake_error + u32 \<times> cursor" where
  "meta_take_u32 c = map_err (\<lambda>_. PathInvalidFrame) (cur_take_u32 c)"

definition meta_take_bytes :: "nat \<Rightarrow> cursor \<Rightarrow> path_handshake_error + byte list \<times> cursor" where
  "meta_take_bytes limit c =
     try_bind (map_err (\<lambda>_. PathInvalidFrame) (cur_take 2 c)) (\<lambda>(v, c).
       let n = unat (u16_from_be v) in
       if n = 0 \<or> n > limit then Inl PathInvalidFrame
       else map_err (\<lambda>_. PathInvalidFrame) (cur_take n c))"

section \<open>The metadata\<close>

record path_metadata =
  path_handshake_version :: u32
  network_data_protocol_version :: u32
  pm_e2ee_policy :: path_policy
  pm_path_kind :: path_kind
  path_binding :: "byte list"
  connection_profile :: "byte list"

definition validate_path_bytes :: "byte list \<Rightarrow> nat \<Rightarrow> path_handshake_error + unit" where
  "validate_path_bytes bytes limit =
     (if bytes = [] \<or> length bytes > limit then Inl PathInvalidFrame else Inr ())"

definition path_metadata_new ::
  "path_policy \<Rightarrow> path_kind \<Rightarrow> byte list \<Rightarrow> byte list \<Rightarrow> path_handshake_error + path_metadata" where
  "path_metadata_new policy kind binding profile =
     try_bind (validate_path_bytes binding MAX_PATH_BINDING_BYTES) (\<lambda>_.
     try_bind (validate_path_bytes profile MAX_CONNECTION_PROFILE_BYTES) (\<lambda>_.
       if kind = PathRelay \<and> policy = PolicyDisabled then Inl RelayRequiresE2ee
       else Inr \<lparr>path_handshake_version = PATH_HANDSHAKE_VERSION,
                 network_data_protocol_version = NETWORK_DATA_PROTOCOL_VERSION,
                 pm_e2ee_policy = policy, pm_path_kind = kind, path_binding = binding,
                 connection_profile = profile\<rparr>))"

definition path_append_bytes ::
  "byte list \<Rightarrow> byte list \<Rightarrow> nat \<Rightarrow> path_handshake_error + byte list" where
  "path_append_bytes output value limit =
     (if value = [] \<or> length value > limit \<or> length value > unat (- 1 :: u16)
      then Inl PathInvalidFrame
      else Inr (output @ u16_be (of_nat (length value)) @ value))"

definition path_append_string ::
  "byte list \<Rightarrow> string \<Rightarrow> nat \<Rightarrow> path_handshake_error + byte list" where
  "path_append_string output value limit = path_append_bytes output (str_bytes value) limit"

definition path_encode :: "byte list \<Rightarrow> path_metadata \<Rightarrow> path_handshake_error + byte list" where
  "path_encode output m =
     (if path_handshake_version m \<noteq> PATH_HANDSHAKE_VERSION
        \<or> network_data_protocol_version m \<noteq> NETWORK_DATA_PROTOCOL_VERSION
      then Inl PeerProtocolMismatch
      else
        let output = output @ u32_be (path_handshake_version m);
            output = output @ u32_be (network_data_protocol_version m);
            output = output @ [policy_code (pm_e2ee_policy m)];
            output = output @ [kind_code (pm_path_kind m)]
        in try_bind (path_append_bytes output (path_binding m) MAX_PATH_BINDING_BYTES) (\<lambda>output.
           path_append_bytes output (connection_profile m) MAX_CONNECTION_PROFILE_BYTES))"

definition security_for :: "path_policy \<Rightarrow> path_metadata \<Rightarrow> path_handshake_error + path_security" where
  "security_for local_policy m = negotiate_security (pm_path_kind m) local_policy (pm_e2ee_policy m)"

definition path_decode :: "cursor \<Rightarrow> path_handshake_error + path_metadata \<times> cursor" where
  "path_decode c =
     try_bind (meta_take_u32 c) (\<lambda>(hv, c).
     if hv < PATH_HANDSHAKE_VERSION then Inl DowngradeRejected
     else if hv \<noteq> PATH_HANDSHAKE_VERSION then Inl PeerProtocolMismatch else
     try_bind (meta_take_u32 c) (\<lambda>(dv, c).
     if dv < NETWORK_DATA_PROTOCOL_VERSION then Inl DowngradeRejected
     else if dv \<noteq> NETWORK_DATA_PROTOCOL_VERSION then Inl PeerProtocolMismatch else
     try_bind (meta_take_byte c) (\<lambda>(b, c).
     try_bind (policy_from_code b) (\<lambda>policy.
     try_bind (meta_take_byte c) (\<lambda>(b, c).
     try_bind (kind_from_code b) (\<lambda>kind.
     try_bind (meta_take_bytes MAX_PATH_BINDING_BYTES c) (\<lambda>(binding, c).
     try_bind (meta_take_bytes MAX_CONNECTION_PROFILE_BYTES c) (\<lambda>(profile, c).
       let m = \<lparr>path_handshake_version = hv, network_data_protocol_version = dv,
                pm_e2ee_policy = policy, pm_path_kind = kind, path_binding = binding,
                connection_profile = profile\<rparr>
       in if pm_path_kind m = PathRelay \<and> pm_e2ee_policy m = PolicyDisabled
          then Inl RelayRequiresE2ee
          else Inr (m, c)))))))))"

definition validate_path_peer_id :: "string \<Rightarrow> path_handshake_error + unit" where
  "validate_path_peer_id peer_id =
     (if peer_id = [] \<or> length peer_id > MAX_PATH_PEER_ID_BYTES then Inl IdentityRequired else Inr ())"

definition validate_identity_key :: "byte list \<Rightarrow> path_handshake_error + unit" where
  "validate_identity_key key =
     (if list_all (\<lambda>byte. byte = 0) key then Inl IdentityRequired else Inr ())"

definition transcript_bytes ::
  "string \<Rightarrow> byte list \<Rightarrow> string \<Rightarrow> byte list \<Rightarrow> path_policy \<Rightarrow> path_metadata
     \<Rightarrow> path_handshake_error + byte list" where
  "transcript_bytes initiator_id initiator_key responder_id responder_key responder_policy m =
     try_bind (validate_path_peer_id initiator_id) (\<lambda>_.
     try_bind (validate_path_peer_id responder_id) (\<lambda>_.
     try_bind (validate_identity_key initiator_key) (\<lambda>_.
     try_bind (validate_identity_key responder_key) (\<lambda>_.
     if pm_path_kind m = PathRelay
        \<and> (pm_e2ee_policy m = PolicyDisabled \<or> responder_policy = PolicyDisabled)
     then Inl RelayRequiresE2ee
     else if pm_e2ee_policy m \<noteq> responder_policy then Inl SecurityPolicyMismatch else
     try_bind (path_encode TRANSCRIPT_DOMAIN m) (\<lambda>output.
       let output = output @ [policy_code responder_policy] in
       try_bind (path_append_string output initiator_id MAX_PATH_PEER_ID_BYTES) (\<lambda>output.
         let output = output @ initiator_key in
         try_bind (path_append_string output responder_id MAX_PATH_PEER_ID_BYTES) (\<lambda>output.
           Inr (output @ responder_key))))))))"

definition transcript_hash ::
  "(byte list \<Rightarrow> byte list) \<Rightarrow> string \<Rightarrow> byte list \<Rightarrow> string \<Rightarrow> byte list \<Rightarrow> path_policy \<Rightarrow> path_metadata
     \<Rightarrow> path_handshake_error + byte list" where
  "transcript_hash sha256 initiator_id initiator_key responder_id responder_key responder_policy m =
     try_bind (transcript_bytes initiator_id initiator_key responder_id responder_key responder_policy m)
       (\<lambda>bytes. Inr (sha256 bytes))"

section \<open>Fields of a payload\<close>

text \<open>\<open>cur_at c xs\<close>: the bytes in front of the cursor are \<open>xs\<close>.\<close>

definition cur_at :: "cursor \<Rightarrow> byte list \<Rightarrow> bool" where
  "cur_at c xs \<longleftrightarrow> cur_offset c \<le> length (cur_bytes c) \<and> drop (cur_offset c) (cur_bytes c) = xs"

definition advance :: "nat \<Rightarrow> cursor \<Rightarrow> cursor" where
  "advance n c = c\<lparr>cur_offset := cur_offset c + n\<rparr>"

lemma cur_at_new [simp]: "cur_at (cursor_new bs) xs \<longleftrightarrow> xs = bs"
  by (auto simp: cur_at_def cursor_new_def)

lemma cur_at_advance:
  assumes "cur_at c (v @ w)"
  shows "cur_at (advance (length v) c) w"
proof -
  let ?o = "cur_offset c" and ?bs = "cur_bytes c"
  have d: "drop ?o ?bs = v @ w" and o: "?o \<le> length ?bs"
    using assms by (simp_all add: cur_at_def)
  have "drop (?o + length v) ?bs = drop (length v) (drop ?o ?bs)"
    by (simp add: add.commute)
  moreover have "length ?bs - ?o = length v + length w"
    using arg_cong [OF d, of length] by simp
  ultimately show ?thesis
    using d o by (simp add: cur_at_def advance_def)
qed

lemma advance_advance [simp]: "advance m (advance n c) = advance (n + m) c"
  by (simp add: advance_def)

lemma cur_done_at: "cur_at c xs \<Longrightarrow> cur_done c \<longleftrightarrow> xs = []"
  by (auto simp: cur_at_def cur_done_def)

lemma cur_remaining_at: "cur_at c xs \<Longrightarrow> cur_remaining c = length xs"
  by (auto simp: cur_at_def cur_remaining_def)

locale field_parser =
  fixes parse :: "cursor \<Rightarrow> 'e + 'a \<times> cursor"
    and enc :: "'a \<Rightarrow> byte list"
    and valid :: "'a \<Rightarrow> bool"
  assumes parse_iff: "cur_at c xs \<Longrightarrow>
    parse c = Inr (v, d) \<longleftrightarrow> valid v \<and> (\<exists>w. xs = enc v @ w) \<and> d = advance (length (enc v)) c"
begin

lemma bind_iff:
  assumes "cur_at c xs"
  shows "try_bind (parse c) f = Inr r \<longleftrightarrow>
    (\<exists>v w. xs = enc v @ w \<and> valid v \<and> cur_at (advance (length (enc v)) c) w
       \<and> f (v, advance (length (enc v)) c) = Inr r)"
  using parse_iff [OF assms] cur_at_advance assms by (fastforce simp: try_bind_Inr)

lemma map_err_parser: "field_parser (\<lambda>c. map_err g (parse c)) enc valid"
  by unfold_locales (simp add: parse_iff)

end

definition u16_field :: "byte list \<Rightarrow> byte list" where
  "u16_field v = u16_be (of_nat (length v)) @ v"

lemma length_u16_field [simp]: "length (u16_field v) = 2 + length v"
  by (simp add: u16_field_def)

interpretation fixed: field_parser "cur_take n" "\<lambda>v. v" "\<lambda>v. length v = n" for n
proof
  fix c xs v d
  assume "cur_at c xs"
  then show "cur_take n c = Inr (v, d)
    \<longleftrightarrow> length v = n \<and> (\<exists>w. xs = v @ w) \<and> d = advance (length v) c"
    by (auto simp: cur_take_def cur_at_def advance_def Let_def le_diff_conv2)
       (metis append_take_drop_id, metis length_append length_drop le_add1 le_diff_conv2 add.commute)
qed

text \<open>A length-prefixed field is a fixed field of two bytes and one of the length it gives.\<close>

lemma u16_length:
  assumes "length h = 2"
  shows "n = unat (u16_from_be h) \<longleftrightarrow> n < 2 ^ 16 \<and> h = u16_be (of_nat n)"
proof
  assume "n = unat (u16_from_be h)"
  then show "n < 2 ^ 16 \<and> h = u16_be (of_nat n)"
    using unat_bound [of "u16_from_be h"] u16_from_be_inverse [OF assms] by simp
next
  assume "n < 2 ^ 16 \<and> h = u16_be (of_nat n)"
  then show "n = unat (u16_from_be h)"
    by (simp add: unat_of_nat take_bit_nat_eq_self)
qed

lemma unat_u16 [simp]: "n < 65536 \<Longrightarrow> unat (of_nat n :: u16) = n"
  by (simp add: unat_of_nat take_bit_nat_eq_self)

lemma u16_prefix:
  assumes "cur_at c xs"
  shows "(\<exists>h b. cur_take 2 c = Inr (h, b) \<and> \<not> P (unat (u16_from_be h))
      \<and> cur_take (unat (u16_from_be h)) b = Inr (v, d))
    \<longleftrightarrow> \<not> P (length v) \<and> length v < 65536 \<and> (\<exists>w. xs = u16_field v @ w)
      \<and> d = advance (length (u16_field v)) c"
    (is "?L \<longleftrightarrow> ?R")
proof
  assume ?L
  then obtain h b where h: "cur_take 2 c = Inr (h, b)" "\<not> P (unat (u16_from_be h))"
    "cur_take (unat (u16_from_be h)) b = Inr (v, d)" by blast
  then obtain w where w: "length h = 2" "xs = h @ w" "b = advance 2 c"
    using fixed.parse_iff [OF assms, of 2 h b] by auto
  then have "cur_at b w" using cur_at_advance [of c h w] assms by simp
  with h(3) show ?R
    using fixed.parse_iff [of b w] u16_length [OF w(1), of "length v"] h(2) w
    by (auto simp: u16_field_def)
next
  assume R: ?R
  then obtain w where w: "xs = u16_be (of_nat (length v)) @ v @ w" by (auto simp: u16_field_def)
  then have "cur_at (advance 2 c) (v @ w)"
    using cur_at_advance [of c "u16_be (of_nat (length v))" "v @ w"] assms by simp
  then show ?L
    using R w fixed.parse_iff [OF assms, of 2] fixed.parse_iff [of "advance 2 c" "v @ w" "length v"]
    by (intro exI [of _ "u16_be (of_nat (length v))"] exI [of _ "advance 2 c"]) auto
qed

interpretation byte_field: field_parser cur_take_byte "\<lambda>b. [b]" "\<lambda>b. True"
proof
  fix c xs v d
  assume at: "cur_at c xs"
  show "cur_take_byte c = Inr (v, d) \<longleftrightarrow> True \<and> (\<exists>w. xs = [v] @ w) \<and> d = advance (length [v]) c"
    by (auto simp: cur_take_byte_def try_bind_Inr fixed.parse_iff [OF at] length_Suc_conv)
qed

interpretation u32_field: field_parser cur_take_u32 u32_be "\<lambda>w. True"
proof
  fix c xs v d
  assume at: "cur_at c xs"
  show "cur_take_u32 c = Inr (v, d) \<longleftrightarrow> True \<and> (\<exists>w. xs = u32_be v @ w) \<and> d = advance (length (u32_be v)) c"
    by (auto simp: cur_take_u32_def try_bind_Inr fixed.parse_iff [OF at] u32_from_be_inverse
        intro: exI [of _ "u32_be v"])
qed

interpretation bytes_field: field_parser "cur_take_bytes limit" u16_field
  "\<lambda>v. length v \<le> limit \<and> length v < 65536" for limit
proof
  fix c xs v d
  assume "cur_at c xs"
  from u16_prefix [OF this, of "\<lambda>n. limit < n" v d]
  show "cur_take_bytes limit c = Inr (v, d)
    \<longleftrightarrow> (length v \<le> limit \<and> length v < 65536) \<and> (\<exists>w. xs = u16_field v @ w)
      \<and> d = advance (length (u16_field v)) c"
    by (simp add: cur_take_bytes_def Let_def try_bind_Inr if_Inl_Inr not_less)
qed

interpretation meta_bytes_field: field_parser "meta_take_bytes limit" u16_field
  "\<lambda>v. v \<noteq> [] \<and> length v \<le> limit \<and> length v < 65536" for limit
proof
  fix c xs v d
  assume "cur_at c xs"
  from u16_prefix [OF this, of "\<lambda>n. n = 0 \<or> limit < n" v d]
  show "meta_take_bytes limit c = Inr (v, d)
    \<longleftrightarrow> (v \<noteq> [] \<and> length v \<le> limit \<and> length v < 65536) \<and> (\<exists>w. xs = u16_field v @ w)
      \<and> d = advance (length (u16_field v)) c"
    by (simp add: meta_take_bytes_def Let_def try_bind_Inr if_Inl_Inr not_less)
qed

lemma utf8_result:
  "(case from_utf8 v of None \<Rightarrow> Inl e | Some s \<Rightarrow> Inr (s, c)) = Inr (t, d)
    \<longleftrightarrow> is_str t \<and> v = str_bytes t \<and> c = d"
  by (auto simp: from_utf8_iff split: option.splits) (metis from_utf8_str_bytes option.distinct(1))

interpretation text_field: field_parser "cur_take_string limit" "\<lambda>s. u16_field (str_bytes s)"
  "\<lambda>s. is_str s \<and> s \<noteq> [] \<and> length s \<le> limit \<and> length s < 65536" for limit
proof
  fix c xs s d
  assume "cur_at c xs"
  from u16_prefix [OF this, of "\<lambda>n. n = 0 \<or> limit < n" "str_bytes s" d]
  show "cur_take_string limit c = Inr (s, d)
    \<longleftrightarrow> (is_str s \<and> s \<noteq> [] \<and> length s \<le> limit \<and> length s < 65536)
      \<and> (\<exists>w. xs = u16_field (str_bytes s) @ w) \<and> d = advance (length (u16_field (str_bytes s))) c"
    by (auto simp: cur_take_string_def Let_def try_bind_Inr if_Inl_Inr not_less utf8_result)
qed

section \<open>The metadata on the wire\<close>

definition metadata_bytes :: "path_metadata \<Rightarrow> byte list" where
  "metadata_bytes m = u32_be (path_handshake_version m) @ u32_be (network_data_protocol_version m)
     @ [policy_code (pm_e2ee_policy m)] @ [kind_code (pm_path_kind m)]
     @ u16_field (path_binding m) @ u16_field (connection_profile m)"

definition valid_metadata :: "path_metadata \<Rightarrow> bool" where
  "valid_metadata m \<longleftrightarrow> path_handshake_version m = PATH_HANDSHAKE_VERSION
     \<and> network_data_protocol_version m = NETWORK_DATA_PROTOCOL_VERSION
     \<and> path_binding m \<noteq> [] \<and> length (path_binding m) \<le> MAX_PATH_BINDING_BYTES
     \<and> connection_profile m \<noteq> [] \<and> length (connection_profile m) \<le> MAX_CONNECTION_PROFILE_BYTES
     \<and> \<not> (pm_path_kind m = PathRelay \<and> pm_e2ee_policy m = PolicyDisabled)"

lemma path_metadata_new_valid: "path_metadata_new policy kind binding profile = Inr m \<Longrightarrow> valid_metadata m"
  by (auto simp: path_metadata_new_def validate_path_bytes_def try_bind_Inr if_Inl_Inr
      valid_metadata_def)

lemma path_encode_valid: "valid_metadata m \<Longrightarrow> path_encode output m = Inr (output @ metadata_bytes m)"
  by (simp add: valid_metadata_def path_encode_def path_append_bytes_def metadata_bytes_def
      u16_field_def path_limits unat_max_word)

lemma policy_from_code_iff: "policy_from_code b = Inr p \<longleftrightarrow> b = policy_code p"
  by (cases p) (auto simp: policy_from_code_def)

lemma kind_from_code_iff: "kind_from_code b = Inr k \<longleftrightarrow> b = kind_code k"
  by (cases k) (auto simp: kind_from_code_def)

interpretation meta_byte_field: field_parser meta_take_byte "\<lambda>b. [b]" "\<lambda>b. True"
  unfolding meta_take_byte_def by (rule byte_field.map_err_parser)

interpretation meta_u32_field: field_parser meta_take_u32 u32_be "\<lambda>w. True"
  unfolding meta_take_u32_def by (rule u32_field.map_err_parser)

lemma cur_at_drop:
  assumes "cur_at c xs" "n \<le> length xs"
  shows "cur_at (advance n c) ys \<longleftrightarrow> ys = drop n xs"
proof -
  have "cur_at (advance n c) (drop n xs)"
    using cur_at_advance [of c "take n xs" "drop n xs"] assms by (simp add: min_def split: if_splits)
  then show ?thesis by (auto simp: cur_at_def)
qed

lemma cursor_new_advance:
  "cur_at (advance n (cursor_new bs)) ys \<longleftrightarrow> n \<le> length bs \<and> ys = drop n bs"
  "cur_done (advance n (cursor_new bs)) \<longleftrightarrow> n = length bs"
  "cur_remaining (advance n (cursor_new bs)) = length bs - n"
  by (auto simp: cur_at_def cur_done_def cur_remaining_def advance_def cursor_new_def)

lemmas meta_fields = meta_u32_field.bind_iff meta_byte_field.bind_iff meta_bytes_field.bind_iff
  policy_from_code_iff kind_from_code_iff try_bind_Inr [of "policy_from_code _"]
  try_bind_Inr [of "kind_from_code _"]

interpretation metadata: field_parser path_decode metadata_bytes valid_metadata
proof
  fix c xs and m :: path_metadata and d
  assume at: "cur_at c xs"
  note parse = path_decode_def meta_u32_field.bind_iff [OF at] meta_fields if_Inl_Inr Let_def
  show "path_decode c = Inr (m, d) \<longleftrightarrow> valid_metadata m \<and> (\<exists>w. xs = metadata_bytes m @ w)
    \<and> d = advance (length (metadata_bytes m)) c" (is "?L \<longleftrightarrow> ?R")
  proof
    assume ?L
    then show ?R
      by (auto simp: parse valid_metadata_def metadata_bytes_def cong: conj_cong)
  next
    assume ?R
    then show ?L
      using at
      by (cases m) (clarsimp simp: parse valid_metadata_def metadata_bytes_def path_limits
          cong: conj_cong, intro exI conjI,
        (rule refl | (simp add: cur_at_drop [OF at] drop_Cons')[1])+)
  qed
qed

lemma u16_field_inject:
  assumes "length v < 65536" "length v' < 65536"
  shows "u16_field v @ w = u16_field v' @ w' \<longleftrightarrow> v = v' \<and> w = w'"
proof
  assume eq: "u16_field v @ w = u16_field v' @ w'"
  then have "u16_be (of_nat (length v)) = u16_be (of_nat (length v'))"
    by (simp add: u16_field_def append_eq_append_conv)
  then have "unat (of_nat (length v) :: u16) = unat (of_nat (length v') :: u16)" by simp
  then have "length v = length v'" using assms by simp
  then show "v = v' \<and> w = w'" using eq by (simp add: u16_field_def)
qed simp

lemma metadata_bytes_inject:
  assumes "valid_metadata m" "valid_metadata m'" "metadata_bytes m @ w = metadata_bytes m' @ w'"
  shows "m = m' \<and> w = w'"
  using assms
  by (cases m; cases m')
     (auto simp: metadata_bytes_def valid_metadata_def path_limits u16_field_inject
      elim!: policy_code.elims kind_code.elims)

text \<open>
  A transcript determines everything it binds: two paths with the same transcript bytes have
  the same metadata, policies, device ids and identity keys.
\<close>

lemma transcript_bytes_Inr:
  "transcript_bytes i ik r rk p m = Inr t \<Longrightarrow>
     valid_metadata m \<and> pm_e2ee_policy m = p \<and> length i \<le> 128 \<and> length r \<le> 128
     \<and> t = TRANSCRIPT_DOMAIN @ metadata_bytes m @ [policy_code p] @ u16_field (str_bytes i) @ ik
           @ u16_field (str_bytes r) @ rk"
  by (auto simp: transcript_bytes_def validate_path_peer_id_def path_append_string_def
      path_append_bytes_def path_encode_def valid_metadata_def metadata_bytes_def u16_field_def
      try_bind_Inr if_Inl_Inr Let_def path_limits split: if_splits)

lemma transcript_binds_everything:
  assumes "transcript_bytes i ik r rk p m = Inr t" "transcript_bytes i' ik' r' rk' p' m' = Inr t"
    and "length ik = 32" "length ik' = 32"
  shows "i = i' \<and> ik = ik' \<and> r = r' \<and> rk = rk' \<and> p = p' \<and> m = m'"
  using transcript_bytes_Inr [OF assms(1)] transcript_bytes_Inr [OF assms(2)] assms(3,4)
  by (auto dest!: metadata_bytes_inject [rotated 2] simp: u16_field_inject)

end
