(* ===== verification/Handshake_Payload.thy ===== *)
theory Handshake_Payload
  imports Handshake_Metadata Crypto_Context
begin

text \<open>
  The payloads of the application handshake: \<^verbatim>\<open>crypto_handshake/payload_root.rs\<close>,
  \<^verbatim>\<open>crypto_handshake/payload_hello.rs\<close> and the device identity of \<^verbatim>\<open>network-identity\<close>.
  HKDF, Ed25519 and the Noise implementation (\<^verbatim>\<open>snow\<close>) are the fields of \<open>hs_lib\<close>, an argument
  of the definitions.  The payloads are read and written by exact inverses, and a proof that is
  accepted is a signature over exactly one device, key, role, session and path.
\<close>

definition NOISE_PATTERN :: string where "NOISE_PATTERN = ''Noise_XX_25519_AESGCM_SHA256''"
definition HANDSHAKE_DOMAIN :: "byte list" where
  "HANDSHAKE_DOMAIN = str_bytes ''ssh-mobile/session-e2ee/noise-xx/v1''"
definition HANDSHAKE_HELLO_MAGIC :: "byte list" where "HANDSHAKE_HELLO_MAGIC = str_bytes ''SMEH''"
definition HANDSHAKE_PROOF_MAGIC :: "byte list" where "HANDSHAKE_PROOF_MAGIC = str_bytes ''SMEP''"
definition HANDSHAKE_CAPABILITY :: "byte list" where
  "HANDSHAKE_CAPABILITY = str_bytes ''e2ee/noise-xx-aes256gcm-v3''"
definition ROOT_EXCHANGE_MAGIC :: "byte list" where "ROOT_EXCHANGE_MAGIC = str_bytes ''SMKR''"
definition ROOT_EXCHANGE_VERSION :: byte where "ROOT_EXCHANGE_VERSION = 3"
definition ROOT_EXCHANGE_ROOT_SEED :: byte where "ROOT_EXCHANGE_ROOT_SEED = 1"
definition ROOT_EXCHANGE_ROOT_CONFIRM :: byte where "ROOT_EXCHANGE_ROOT_CONFIRM = 2"
definition ROOT_EXCHANGE_ACCEPT :: byte where "ROOT_EXCHANGE_ACCEPT = 3"
definition IDENTITY_ONLY_BINDING :: byte where "IDENTITY_ONLY_BINDING = 4"
definition IDENTITY_ONLY_CONFIRM :: byte where "IDENTITY_ONLY_CONFIRM = 5"
definition IDENTITY_ONLY_ACCEPT :: byte where "IDENTITY_ONLY_ACCEPT = 6"
definition APPLICATION_ROOT_DOMAIN :: "byte list" where
  "APPLICATION_ROOT_DOMAIN = str_bytes ''ssh-mobile/session/application/root/v3''"
definition ROOT_CONFIRM_DOMAIN :: "byte list" where
  "ROOT_CONFIRM_DOMAIN = str_bytes ''ssh-mobile/session/application/root-confirm/v3''"
definition MAX_DEVICE_ID_BYTES :: nat where "MAX_DEVICE_ID_BYTES = 128"
definition MAX_SESSION_BINDING_BYTES :: nat where "MAX_SESSION_BINDING_BYTES = 128"
definition MAX_HANDSHAKE_PAYLOAD_BYTES :: nat where "MAX_HANDSHAKE_PAYLOAD_BYTES = 4 * 1024"
definition MAX_HANDSHAKE_FRAME_BYTES :: nat where "MAX_HANDSHAKE_FRAME_BYTES = 64 * 1024"
definition NOISE_PUBLIC_KEY_BYTES :: nat where "NOISE_PUBLIC_KEY_BYTES = 32"
definition IDENTITY_PUBLIC_KEY_BYTES :: nat where "IDENTITY_PUBLIC_KEY_BYTES = 32"
definition SIGNATURE_BYTES :: nat where "SIGNATURE_BYTES = 64"
definition ROOT_SEED_BYTES :: nat where "ROOT_SEED_BYTES = 32"
definition ROOT_CONFIRM_BYTES :: nat where "ROOT_CONFIRM_BYTES = 32"
definition NOISE_TRANSPORT_TAG_BYTES :: nat where "NOISE_TRANSPORT_TAG_BYTES = 16"

lemmas handshake_limits = MAX_DEVICE_ID_BYTES_def MAX_SESSION_BINDING_BYTES_def
  MAX_HANDSHAKE_PAYLOAD_BYTES_def MAX_HANDSHAKE_FRAME_BYTES_def NOISE_PUBLIC_KEY_BYTES_def
  IDENTITY_PUBLIC_KEY_BYTES_def SIGNATURE_BYTES_def ROOT_SEED_BYTES_def ROOT_CONFIRM_BYTES_def
  NOISE_TRANSPORT_TAG_BYTES_def

lemmas exchange_types = ROOT_EXCHANGE_ROOT_SEED_def ROOT_EXCHANGE_ROOT_CONFIRM_def
  ROOT_EXCHANGE_ACCEPT_def IDENTITY_ONLY_BINDING_def IDENTITY_ONLY_CONFIRM_def
  IDENTITY_ONLY_ACCEPT_def

section \<open>The libraries\<close>

text \<open>
  \<open>'k\<close> is an Ed25519 signing key, \<open>'n\<close> a Noise handshake state and \<open>'t\<close> a Noise transport
  state.  Writing and reading take the message and the size of the output buffer; a result
  \<open>None\<close> is an error of the library.
\<close>

record ('k, 'n, 't) hs_lib =
  hl_crypto :: crypto_lib
  ed_public :: "'k \<Rightarrow> byte list"
  ed_sign :: "'k \<Rightarrow> byte list \<Rightarrow> byte list"
  ed_key_ok :: "byte list \<Rightarrow> bool"
  ed_verify :: "byte list \<Rightarrow> byte list \<Rightarrow> byte list \<Rightarrow> bool"
  noise_parse :: "string \<Rightarrow> bool"
  noise_build :: "bool \<Rightarrow> byte list \<Rightarrow> byte list \<Rightarrow> 'n option"
  noise_write :: "byte list \<Rightarrow> nat \<Rightarrow> 'n \<Rightarrow> byte list option \<times> 'n"
  noise_read :: "byte list \<Rightarrow> nat \<Rightarrow> 'n \<Rightarrow> byte list option \<times> 'n"
  noise_finished :: "'n \<Rightarrow> bool"
  noise_hash :: "'n \<Rightarrow> byte list"
  noise_remote_static :: "'n \<Rightarrow> byte list option"
  noise_transport :: "'n \<Rightarrow> 't option"
  transport_write :: "byte list \<Rightarrow> nat \<Rightarrow> 't \<Rightarrow> byte list option \<times> 't"
  transport_read :: "byte list \<Rightarrow> nat \<Rightarrow> 't \<Rightarrow> byte list option \<times> 't"

record 'k device_identity =
  device_id :: string
  identity_key :: 'k
  e2e_key :: "byte list"

definition public_identity_key :: "('k, 'n, 't) hs_lib \<Rightarrow> 'k device_identity \<Rightarrow> byte list" where
  "public_identity_key L identity = ed_public L (identity_key identity)"

definition sign_proof :: "('k, 'n, 't) hs_lib \<Rightarrow> 'k device_identity \<Rightarrow> byte list \<Rightarrow> byte list" where
  "sign_proof L identity nonce = ed_sign L (identity_key identity) nonce"

definition verify_peer_proof ::
  "('k, 'n, 't) hs_lib \<Rightarrow> byte list \<Rightarrow> byte list \<Rightarrow> byte list \<Rightarrow> bool" where
  "verify_peer_proof L peer_key nonce signature_bytes \<longleftrightarrow>
     (if length signature_bytes \<noteq> 64 then False else ed_verify L peer_key nonce signature_bytes)"

record ('k, 'n) noise_handshake =
  nh_state :: 'n
  nh_identity :: "'k device_identity"
  nh_local_static_public :: "byte list"
  nh_identity_public :: "byte list"
  nh_initiator :: bool

section \<open>Root payloads\<close>

definition derive_application_root ::
  "('k, 'n, 't) hs_lib \<Rightarrow> byte list \<Rightarrow> byte list \<Rightarrow> string \<Rightarrow> crypto_handshake_error + byte list" where
  "derive_application_root L root_seed handshake_hash session_binding =
     (case hkdf (hl_crypto L) handshake_hash root_seed
             (APPLICATION_ROOT_DOMAIN @ str_bytes session_binding) of
        None \<Rightarrow> Inl HsFailed | Some root \<Rightarrow> Inr root)"

definition derive_root_confirm ::
  "('k, 'n, 't) hs_lib \<Rightarrow> byte list \<Rightarrow> byte list \<Rightarrow> string \<Rightarrow> crypto_handshake_error + byte list" where
  "derive_root_confirm L root handshake_hash session_binding =
     (case hkdf (hl_crypto L) handshake_hash root
             (ROOT_CONFIRM_DOMAIN @ str_bytes session_binding) of
        None \<Rightarrow> Inl HsFailed | Some confirm \<Rightarrow> Inr confirm)"

definition is_ascii_hexdigit :: "byte \<Rightarrow> bool" where
  "is_ascii_hexdigit b \<longleftrightarrow>
     0x30 \<le> b \<and> b \<le> 0x39 \<or> 0x41 \<le> b \<and> b \<le> 0x46 \<or> 0x61 \<le> b \<and> b \<le> 0x66"

definition validate_binding :: "string \<Rightarrow> crypto_handshake_error + unit" where
  "validate_binding binding =
     (if binding = [] \<or> length binding > MAX_SESSION_BINDING_BYTES
        \<or> \<not> list_all is_ascii_hexdigit (str_bytes binding)
      then Inl InvalidBinding else Inr ())"

definition append_bytes_unchecked :: "byte list \<Rightarrow> byte list \<Rightarrow> byte list" where
  "append_bytes_unchecked output value = output @ u16_be (of_nat (length value)) @ value"

definition append_string_unchecked :: "byte list \<Rightarrow> string \<Rightarrow> byte list" where
  "append_string_unchecked output value =
     output @ u16_be (of_nat (length value)) @ str_bytes value"

definition append_bytes :: "byte list \<Rightarrow> byte list \<Rightarrow> crypto_handshake_error + byte list" where
  "append_bytes output value =
     (if length value > unat (- 1 :: u16) then Inl HsInvalid
      else Inr (append_bytes_unchecked output value))"

definition append_string :: "byte list \<Rightarrow> string \<Rightarrow> crypto_handshake_error + byte list" where
  "append_string output value =
     (if length value > unat (- 1 :: u16) then Inl HsInvalid
      else Inr (append_string_unchecked output value))"

definition root_exchange_payload ::
  "byte \<Rightarrow> string \<Rightarrow> byte list \<Rightarrow> crypto_handshake_error + byte list" where
  "root_exchange_payload message_type session_binding body =
     (if message_type \<notin> {ROOT_EXCHANGE_ROOT_SEED, ROOT_EXCHANGE_ROOT_CONFIRM, ROOT_EXCHANGE_ACCEPT,
           IDENTITY_ONLY_BINDING, IDENTITY_ONLY_CONFIRM, IDENTITY_ONLY_ACCEPT}
         \<or> length body > MAX_HANDSHAKE_PAYLOAD_BYTES
      then Inl HsInvalid else
      try_bind (validate_binding session_binding) (\<lambda>_.
        let output = ROOT_EXCHANGE_MAGIC;
            output = output @ [ROOT_EXCHANGE_VERSION];
            output = output @ [message_type];
            output = output @ u32_be NETWORK_PROTOCOL_VERSION
        in try_bind (append_string output session_binding) (\<lambda>output.
           append_bytes output body)))"

definition root_seed_payload :: "byte list \<Rightarrow> string \<Rightarrow> crypto_handshake_error + byte list" where
  "root_seed_payload root_seed local_session_binding =
     try_bind (validate_binding local_session_binding) (\<lambda>_.
       append_string root_seed local_session_binding)"

definition root_confirm_payload :: "byte list \<Rightarrow> string \<Rightarrow> crypto_handshake_error + byte list" where
  "root_confirm_payload confirm local_session_binding =
     try_bind (validate_binding local_session_binding) (\<lambda>_.
       append_string confirm local_session_binding)"

definition identity_only_binding_payload :: "string \<Rightarrow> crypto_handshake_error + byte list" where
  "identity_only_binding_payload local_session_binding =
     try_bind (validate_binding local_session_binding) (\<lambda>_.
       append_string [] local_session_binding)"

definition parse_identity_only_binding_payload ::
  "byte list \<Rightarrow> crypto_handshake_error + string" where
  "parse_identity_only_binding_payload body =
     try_bind (cur_take_string MAX_SESSION_BINDING_BYTES (cursor_new body)) (\<lambda>(binding, c).
       if \<not> cur_done c then Inl HsInvalid
       else try_bind (validate_binding binding) (\<lambda>_. Inr binding))"

definition parse_root_exchange_payload ::
  "byte list \<Rightarrow> byte \<Rightarrow> string \<Rightarrow> crypto_handshake_error + byte list" where
  "parse_root_exchange_payload message expected_type session_binding =
     try_bind (cur_take 4 (cursor_new message)) (\<lambda>(magic, c).
     if magic \<noteq> ROOT_EXCHANGE_MAGIC then Inl HsInvalid else
     try_bind (cur_take_byte c) (\<lambda>(version, c).
     if version \<noteq> ROOT_EXCHANGE_VERSION then Inl HsInvalid else
     try_bind (cur_take_byte c) (\<lambda>(message_type, c).
     if message_type \<noteq> expected_type then Inl HsInvalid else
     try_bind (cur_take_u32 c) (\<lambda>(protocol, c).
     if protocol \<noteq> NETWORK_PROTOCOL_VERSION then Inl HsInvalid else
     try_bind (cur_take_string MAX_SESSION_BINDING_BYTES c) (\<lambda>(binding, c).
     if binding \<noteq> session_binding then Inl HsInvalid else
     try_bind (cur_take_bytes MAX_HANDSHAKE_PAYLOAD_BYTES c) (\<lambda>(body, c).
     if \<not> cur_done c then Inl HsInvalid else Inr body))))))"

definition parse_fixed_root_exchange_payload ::
  "nat \<Rightarrow> byte list \<Rightarrow> byte \<Rightarrow> string \<Rightarrow> crypto_handshake_error + byte list" where
  "parse_fixed_root_exchange_payload n message expected_type session_binding =
     try_bind (parse_root_exchange_payload message expected_type session_binding) (\<lambda>body.
       if length body = n then Inr body else Inl HsInvalid)"

definition proof_unsigned_length_with_path ::
  "string \<Rightarrow> string \<Rightarrow> string \<Rightarrow> path_metadata \<Rightarrow> nat" where
  "proof_unsigned_length_with_path peer_id session_binding local_session_binding metadata =
     4 + 1 + 4 + 2 + length peer_id + IDENTITY_PUBLIC_KEY_BYTES + NOISE_PUBLIC_KEY_BYTES
     + 2 + length session_binding + 2 + length local_session_binding + 4 + 4 + 1 + 1
     + 2 + length (path_binding metadata) + 2 + length (connection_profile metadata)
     + 2 + length HANDSHAKE_CAPABILITY"

section \<open>Hello and proof payloads\<close>

definition direct_path_metadata ::
  "string \<Rightarrow> byte list \<Rightarrow> path_policy \<Rightarrow> crypto_handshake_error + path_metadata" where
  "direct_path_metadata session_binding profile policy =
     try_bind (validate_binding session_binding) (\<lambda>_.
       map_err HsPath (path_metadata_new policy PathDirect (str_bytes session_binding) profile))"

definition relay_path_metadata :: "string \<Rightarrow> path_policy \<Rightarrow> crypto_handshake_error + path_metadata" where
  "relay_path_metadata session_binding policy =
     try_bind (validate_binding session_binding) (\<lambda>_.
       map_err HsPath (path_metadata_new policy PathRelay (str_bytes session_binding)
         (str_bytes ''relay-data/v2'')))"

definition validate_direct_path_metadata ::
  "path_metadata \<Rightarrow> byte list \<Rightarrow> path_policy \<Rightarrow> crypto_handshake_error + path_security" where
  "validate_direct_path_metadata metadata profile policy =
     (if pm_path_kind metadata \<noteq> PathDirect then Inl (HsPath PathBindingMismatch)
      else if connection_profile metadata \<noteq> profile then Inl (HsPath ConnectionProfileMismatch)
      else map_err HsPath (security_for policy metadata))"

definition validate_relay_path_metadata ::
  "path_metadata \<Rightarrow> path_policy \<Rightarrow> crypto_handshake_error + path_security" where
  "validate_relay_path_metadata metadata policy =
     (if pm_path_kind metadata \<noteq> PathRelay
         \<or> connection_profile metadata \<noteq> str_bytes ''relay-data/v2''
      then Inl (HsPath PathBindingMismatch)
      else map_err HsPath (security_for policy metadata))"

definition hello_payload_with_path ::
  "string \<Rightarrow> path_metadata \<Rightarrow> crypto_handshake_error + byte list" where
  "hello_payload_with_path session_binding metadata =
     try_bind (validate_binding session_binding) (\<lambda>_.
       let body = HANDSHAKE_HELLO_MAGIC @ u32_be NETWORK_PROTOCOL_VERSION in
       try_bind (append_string body session_binding) (\<lambda>body.
       try_bind (map_err HsPath (path_encode body metadata)) (\<lambda>body.
         append_bytes body HANDSHAKE_CAPABILITY)))"

definition parse_hello_with_path ::
  "byte list \<Rightarrow> crypto_handshake_error + string \<times> path_metadata" where
  "parse_hello_with_path body =
     try_bind (cur_take 4 (cursor_new body)) (\<lambda>(magic, c).
     if magic \<noteq> HANDSHAKE_HELLO_MAGIC then Inl HsInvalid else
     try_bind (cur_take_u32 c) (\<lambda>(version, c).
     if version \<noteq> NETWORK_PROTOCOL_VERSION then Inl HsInvalid else
     try_bind (cur_take_string MAX_SESSION_BINDING_BYTES c) (\<lambda>(binding, c).
     try_bind (validate_binding binding) (\<lambda>_.
     try_bind (map_err HsPath (path_decode c)) (\<lambda>(metadata, c).
     try_bind (cur_take_bytes MAX_HANDSHAKE_PAYLOAD_BYTES c) (\<lambda>(capability, c).
     if capability \<noteq> HANDSHAKE_CAPABILITY \<or> \<not> cur_done c then Inl HsUnsupported
     else Inr (binding, metadata)))))))"

text \<open>
  \<open>None\<close> is the panic of \<^verbatim>\<open>expect\<close> on metadata that cannot be encoded.
\<close>

definition proof_payload_with_path ::
  "byte \<Rightarrow> string \<Rightarrow> byte list \<Rightarrow> byte list \<Rightarrow> string \<Rightarrow> string \<Rightarrow> path_metadata \<Rightarrow> byte list option" where
  "proof_payload_with_path role device identity_public noise_static_public session_binding
       local_session_binding metadata =
     (let output = HANDSHAKE_PROOF_MAGIC;
          output = output @ [role];
          output = output @ u32_be NETWORK_PROTOCOL_VERSION;
          output = append_string_unchecked output device;
          output = output @ identity_public;
          output = output @ noise_static_public;
          output = append_string_unchecked output session_binding;
          output = append_string_unchecked output local_session_binding
      in case path_encode output metadata of
           Inl _ \<Rightarrow> None
         | Inr output \<Rightarrow> Some (append_bytes_unchecked output HANDSHAKE_CAPABILITY))"

definition proof_payload_with_signature_with_path ::
  "('k, 'n, 't) hs_lib \<Rightarrow> ('k, 'n) noise_handshake \<Rightarrow> byte \<Rightarrow> string \<Rightarrow> string \<Rightarrow> path_metadata
     \<Rightarrow> crypto_handshake_error + byte list" where
  "proof_payload_with_signature_with_path L handshake role session_binding local_session_binding
       metadata =
     try_bind (validate_binding session_binding) (\<lambda>_.
     try_bind (validate_binding local_session_binding) (\<lambda>_.
       case proof_payload_with_path role (device_id (nh_identity handshake))
              (nh_identity_public handshake) (nh_local_static_public handshake)
              session_binding local_session_binding metadata of
         None \<Rightarrow> Inl HsPanicked
       | Some plain \<Rightarrow>
           let signature = sign_proof L (nh_identity handshake) plain in
           if length signature \<noteq> SIGNATURE_BYTES then Inl HsInvalid
           else Inr (plain @ signature)))"

definition remote_noise_static ::
  "('k, 'n, 't) hs_lib \<Rightarrow> ('k, 'n) noise_handshake \<Rightarrow> crypto_handshake_error + byte list" where
  "remote_noise_static L handshake =
     (case noise_remote_static L (nh_state handshake) of
        None \<Rightarrow> Inl UntrustedIdentity | Some key \<Rightarrow> Inr key)"

definition verify_signature ::
  "('k, 'n, 't) hs_lib \<Rightarrow> byte list \<Rightarrow> byte list \<Rightarrow> byte list \<Rightarrow> crypto_handshake_error + unit" where
  "verify_signature L public_key body signature =
     (if \<not> ed_key_ok L public_key then Inl HsInvalid
      else if verify_peer_proof L public_key body signature then Inr ()
      else Inl UntrustedIdentity)"

definition parse_proof_identity_with_path ::
  "('k, 'n, 't) hs_lib \<Rightarrow> byte list \<Rightarrow> byte \<Rightarrow> ('k, 'n) noise_handshake \<Rightarrow> string \<Rightarrow> path_metadata
     \<Rightarrow> crypto_handshake_error + string \<times> byte list \<times> string" where
  "parse_proof_identity_with_path L body role handshake session_binding metadata =
     try_bind (cur_take 4 (cursor_new body)) (\<lambda>(magic, c).
     if magic \<noteq> HANDSHAKE_PROOF_MAGIC then Inl HsInvalid else
     try_bind (cur_take_byte c) (\<lambda>(r, c).
     if r \<noteq> role then Inl HsInvalid else
     try_bind (cur_take_u32 c) (\<lambda>(version, c).
     if version \<noteq> NETWORK_PROTOCOL_VERSION then Inl HsInvalid else
     try_bind (cur_take_string MAX_DEVICE_ID_BYTES c) (\<lambda>(peer_id, c).
     try_bind (cur_take IDENTITY_PUBLIC_KEY_BYTES c) (\<lambda>(peer_key, c).
     try_bind (cur_take NOISE_PUBLIC_KEY_BYTES c) (\<lambda>(noise_static, c).
     try_bind (remote_noise_static L handshake) (\<lambda>remote_static.
     if noise_static \<noteq> remote_static then Inl UntrustedIdentity else
     try_bind (cur_take_string MAX_SESSION_BINDING_BYTES c) (\<lambda>(claimed_session_binding, c).
     try_bind (cur_take_string MAX_SESSION_BINDING_BYTES c) (\<lambda>(local_session_binding, c).
     try_bind (map_err HsPath (path_decode c)) (\<lambda>(peer_metadata, c).
     if pm_e2ee_policy peer_metadata \<noteq> pm_e2ee_policy metadata
     then Inl (HsPath SecurityPolicyMismatch)
     else if pm_path_kind peer_metadata \<noteq> pm_path_kind metadata
          \<or> path_binding peer_metadata \<noteq> path_binding metadata
     then Inl (HsPath PathBindingMismatch)
     else if connection_profile peer_metadata \<noteq> connection_profile metadata
     then Inl (HsPath ConnectionProfileMismatch)
     else if claimed_session_binding \<noteq> session_binding then Inl HsInvalid
     else if validate_binding local_session_binding \<noteq> Inr () then Inl HsInvalid else
     try_bind (cur_take_bytes MAX_HANDSHAKE_PAYLOAD_BYTES c) (\<lambda>(capability, c).
     if capability \<noteq> HANDSHAKE_CAPABILITY then Inl HsInvalid
     else if cur_remaining c \<noteq> SIGNATURE_BYTES then Inl HsInvalid
     else Inr (peer_id, peer_key, local_session_binding))))))))))))"

definition verify_proof_signature_with_path ::
  "('k, 'n, 't) hs_lib \<Rightarrow> byte list \<Rightarrow> string \<Rightarrow> string \<Rightarrow> string \<Rightarrow> byte list \<Rightarrow> path_metadata
     \<Rightarrow> crypto_handshake_error + unit" where
  "verify_proof_signature_with_path L body peer_id session_binding local_session_binding peer_key
       metadata =
     (let signature_offset =
        proof_unsigned_length_with_path peer_id session_binding local_session_binding metadata in
      if length body \<noteq> signature_offset + SIGNATURE_BYTES then Inl HsInvalid
      else verify_signature L peer_key (take signature_offset body) (drop signature_offset body))"

definition validate_proof_with_path ::
  "('k, 'n, 't) hs_lib \<Rightarrow> byte list \<Rightarrow> byte \<Rightarrow> string \<Rightarrow> byte list \<Rightarrow> ('k, 'n) noise_handshake \<Rightarrow> string
     \<Rightarrow> path_metadata \<Rightarrow> crypto_handshake_error + string" where
  "validate_proof_with_path L body role expected_peer_id expected_peer_key handshake
       session_binding metadata =
     try_bind (parse_proof_identity_with_path L body role handshake session_binding metadata)
       (\<lambda>(peer_id, peer_key, local_session_binding).
     if peer_id \<noteq> expected_peer_id \<or> peer_key \<noteq> expected_peer_key then Inl UntrustedIdentity else
     try_bind (verify_proof_signature_with_path L body peer_id session_binding
       local_session_binding peer_key metadata) (\<lambda>_.
     Inr local_session_binding))"

section \<open>The payloads read back\<close>

definition valid_binding :: "string \<Rightarrow> bool" where
  "valid_binding b \<longleftrightarrow> b \<noteq> [] \<and> length b \<le> 128 \<and> list_all is_ascii_hexdigit (str_bytes b)"

lemma validate_binding_Inr: "validate_binding b = Inr u \<longleftrightarrow> valid_binding b"
  by (auto simp: validate_binding_def valid_binding_def handshake_limits)

lemma validate_valid [simp]: "valid_binding b \<Longrightarrow> validate_binding b = Inr ()"
  by (simp add: validate_binding_Inr)

lemma hexdigit_ascii: "is_ascii_hexdigit b \<Longrightarrow> b \<le> 0x7F"
  by (auto simp: is_ascii_hexdigit_def intro: order_trans)

lemma hexdigits_utf8: "list_all is_ascii_hexdigit bs \<Longrightarrow> utf8_valid bs"
  by (induction bs) (auto simp: hexdigit_ascii)

lemma valid_binding_str: "valid_binding b \<Longrightarrow> is_str b"
  by (simp add: valid_binding_def hexdigits_utf8)

lemma append_fields:
  "append_bytes_unchecked out v = out @ u16_field v"
  "append_string_unchecked out s = out @ u16_field (str_bytes s)"
  "length v < 65536 \<Longrightarrow> append_bytes out v = Inr (out @ u16_field v)"
  "length s < 65536 \<Longrightarrow> append_string out s = Inr (out @ u16_field (str_bytes s))"
  by (simp_all add: append_bytes_unchecked_def append_string_unchecked_def append_bytes_def
      append_string_def u16_field_def unat_max_word)

lemma valid_binding_append: "valid_binding b \<Longrightarrow> append_string out b = Inr (out @ u16_field (str_bytes b))"
  by (simp add: append_fields valid_binding_def)

lemma length_magics [simp]:
  "length ROOT_EXCHANGE_MAGIC = 4" "length HANDSHAKE_HELLO_MAGIC = 4"
  "length HANDSHAKE_PROOF_MAGIC = 4" "length HANDSHAKE_CAPABILITY = 26"
  by (simp_all add: ROOT_EXCHANGE_MAGIC_def HANDSHAKE_HELLO_MAGIC_def HANDSHAKE_PROOF_MAGIC_def
      HANDSHAKE_CAPABILITY_def)

lemmas payload_fields = fixed.bind_iff byte_field.bind_iff u32_field.bind_iff text_field.bind_iff
  bytes_field.bind_iff

definition exchange_bytes :: "byte \<Rightarrow> string \<Rightarrow> byte list \<Rightarrow> byte list" where
  "exchange_bytes t b p = ROOT_EXCHANGE_MAGIC @ [ROOT_EXCHANGE_VERSION] @ [t]
     @ u32_be NETWORK_PROTOCOL_VERSION @ u16_field (str_bytes b) @ u16_field p"

lemma root_exchange_payload_Inr:
  "root_exchange_payload t b p = Inr out \<longleftrightarrow>
     t \<in> {ROOT_EXCHANGE_ROOT_SEED, ROOT_EXCHANGE_ROOT_CONFIRM, ROOT_EXCHANGE_ACCEPT,
          IDENTITY_ONLY_BINDING, IDENTITY_ONLY_CONFIRM, IDENTITY_ONLY_ACCEPT}
     \<and> length p \<le> 4096 \<and> valid_binding b \<and> out = exchange_bytes t b p"
  by (auto simp: root_exchange_payload_def if_Inl_Inr try_bind_Inr validate_binding_Inr
      valid_binding_append append_fields exchange_bytes_def handshake_limits Let_def)

lemma parse_root_exchange_iff:
  assumes "valid_binding b"
  shows "parse_root_exchange_payload msg t b = Inr p \<longleftrightarrow> length p \<le> 4096 \<and> msg = exchange_bytes t b p"
    (is "?L \<longleftrightarrow> ?R")
proof -
  have at: "cur_at (cursor_new msg) msg" by simp
  note parse = parse_root_exchange_payload_def fixed.bind_iff [OF at] payload_fields if_Inl_Inr
  show ?thesis
  proof
    assume ?L
    then show ?R
      by (auto simp: parse exchange_bytes_def cur_done_at handshake_limits cong: conj_cong)
  next
    assume ?R
    then show ?L
      using assms valid_binding_str [OF assms]
      by (clarsimp simp: parse exchange_bytes_def valid_binding_def handshake_limits
          cong: conj_cong)
        (intro exI conjI, (rule refl | (simp add: cursor_new_advance drop_Cons')[1])+)
  qed
qed

definition hello_bytes :: "string \<Rightarrow> path_metadata \<Rightarrow> byte list" where
  "hello_bytes b m = HANDSHAKE_HELLO_MAGIC @ u32_be NETWORK_PROTOCOL_VERSION
     @ u16_field (str_bytes b) @ metadata_bytes m @ u16_field HANDSHAKE_CAPABILITY"

lemma hello_payload_Inr:
  "valid_metadata m \<Longrightarrow>
     hello_payload_with_path b m = Inr out \<longleftrightarrow> valid_binding b \<and> out = hello_bytes b m"
  by (auto simp: hello_payload_with_path_def try_bind_Inr validate_binding_Inr valid_binding_append
      path_encode_valid append_fields hello_bytes_def Let_def)

interpretation metadata_field: field_parser "\<lambda>c. map_err HsPath (path_decode c)" metadata_bytes
  valid_metadata
  by (rule metadata.map_err_parser)

lemma length_metadata_bytes:
  "length (metadata_bytes m) = 14 + length (path_binding m) + length (connection_profile m)"
  by (simp add: metadata_bytes_def)

lemma parse_hello_iff:
  "parse_hello_with_path body = Inr (b, m) \<longleftrightarrow> valid_binding b \<and> valid_metadata m \<and> body = hello_bytes b m"
    (is "?L \<longleftrightarrow> ?R")
proof -
  have at: "cur_at (cursor_new body) body" by simp
  note parse = parse_hello_with_path_def fixed.bind_iff [OF at] payload_fields if_Inl_Inr
    metadata_field.bind_iff try_bind_Inr [of "validate_binding _"] validate_binding_Inr
  show ?thesis
  proof
    assume ?L
    then show ?R
      by (auto simp: parse hello_bytes_def cur_done_at handshake_limits cong: conj_cong)
  next
    assume ?R
    then show ?L
      by (clarsimp simp: parse hello_bytes_def valid_binding_str valid_binding_def
          handshake_limits cong: conj_cong)
        (intro exI conjI, (rule refl | (simp add: cursor_new_advance drop_Cons'
            valid_binding_def hexdigits_utf8)[1])+)
  qed
qed

interpretation hello_codec: wire_codec "\<lambda>(b, m). hello_payload_with_path b m" parse_hello_with_path
  "\<lambda>(b, m). valid_metadata m"
  by unfold_locales (auto simp: hello_payload_Inr parse_hello_iff)

definition proof_bytes ::
  "byte \<Rightarrow> string \<Rightarrow> byte list \<Rightarrow> byte list \<Rightarrow> string \<Rightarrow> string \<Rightarrow> path_metadata \<Rightarrow> byte list" where
  "proof_bytes role device key static session local m =
     HANDSHAKE_PROOF_MAGIC @ [role] @ u32_be NETWORK_PROTOCOL_VERSION @ u16_field (str_bytes device)
     @ key @ static @ u16_field (str_bytes session) @ u16_field (str_bytes local)
     @ metadata_bytes m @ u16_field HANDSHAKE_CAPABILITY"

lemma proof_payload_Some:
  "valid_metadata m \<Longrightarrow>
     proof_payload_with_path role device key static session local m
       = Some (proof_bytes role device key static session local m)"
  by (simp add: proof_payload_with_path_def path_encode_valid append_fields proof_bytes_def Let_def)

lemma length_proof_bytes:
  "length key = 32 \<Longrightarrow> length static = 32 \<Longrightarrow>
     length (proof_bytes role device key static session local m)
       = proof_unsigned_length_with_path device session local m"
  by (simp add: proof_bytes_def proof_unsigned_length_with_path_def length_metadata_bytes
      handshake_limits)

text \<open>The device ids that a proof may carry.\<close>

definition valid_device_id :: "string \<Rightarrow> bool" where
  "valid_device_id d \<longleftrightarrow> is_str d \<and> d \<noteq> [] \<and> length d \<le> 128"

lemma same_metadata:
  "valid_metadata m \<Longrightarrow> valid_metadata m' \<Longrightarrow> pm_e2ee_policy m' = pm_e2ee_policy m \<Longrightarrow>
   pm_path_kind m' = pm_path_kind m \<Longrightarrow> path_binding m' = path_binding m \<Longrightarrow>
   connection_profile m' = connection_profile m \<Longrightarrow> m' = m"
  by (cases m; cases m') (simp add: valid_metadata_def)

lemma remote_noise_static_Inr:
  "remote_noise_static L h = Inr k \<longleftrightarrow> noise_remote_static L (nh_state h) = Some k"
  by (simp add: remote_noise_static_def split: option.splits)

lemma parse_proof_iff:
  assumes m: "valid_metadata m" and s: "valid_binding session"
  shows "parse_proof_identity_with_path L body role h session m = Inr (device, key, local) \<longleftrightarrow>
    (\<exists>static sig. noise_remote_static L (nh_state h) = Some static \<and> valid_device_id device
       \<and> length key = 32 \<and> length static = 32 \<and> valid_binding local \<and> length sig = 64
       \<and> body = proof_bytes role device key static session local m @ sig)"
    (is "?L \<longleftrightarrow> ?R")
proof -
  have at: "cur_at (cursor_new body) body" by simp
  note parse = parse_proof_identity_with_path_def fixed.bind_iff [OF at] payload_fields if_Inl_Inr
    metadata_field.bind_iff try_bind_Inr [of "remote_noise_static _ _"] remote_noise_static_Inr
    validate_binding_Inr
  show ?thesis
  proof
    assume ?L
    then obtain static m' sig where r: "noise_remote_static L (nh_state h) = Some static"
      "valid_device_id device" "length key = 32" "length static = 32" "valid_binding local"
      "length sig = 64" "body = proof_bytes role device key static session local m' @ sig"
      and m': "valid_metadata m'" "pm_e2ee_policy m' = pm_e2ee_policy m"
      "pm_path_kind m' = pm_path_kind m" "path_binding m' = path_binding m"
      "connection_profile m' = connection_profile m"
      by (auto simp: parse proof_bytes_def cur_remaining_at handshake_limits valid_device_id_def
          cong: conj_cong)
    then show ?R using same_metadata [OF m m'] by blast
  next
    assume ?R
    then obtain static sig where r: "noise_remote_static L (nh_state h) = Some static"
      "valid_device_id device" "length key = 32" "length static = 32" "valid_binding local"
      "length sig = 64" and b: "body = proof_bytes role device key static session local m @ sig"
      by blast
    note b' = b [unfolded proof_bytes_def append_assoc append_Cons append_Nil]
    let ?c = "advance (79 + (length device + (length session + length local))
      + length (metadata_bytes m)) (cursor_new body)"
    have "cur_at ?c (u16_field HANDSHAKE_CAPABILITY @ sig)"
      using r by (simp add: b proof_bytes_def cursor_new_advance drop_Cons')
    then have "cur_take_bytes 4096 ?c = Inr (HANDSHAKE_CAPABILITY, advance 28 ?c)"
      by (simp add: bytes_field.parse_iff)
    then have last: "try_bind (cur_take_bytes 4096 ?c) (\<lambda>(capability, c).
         if capability \<noteq> HANDSHAKE_CAPABILITY then Inl HsInvalid
         else if cur_remaining c \<noteq> SIGNATURE_BYTES then Inl HsInvalid
         else Inr (device, key, local)) = Inr (device, key, local)"
      using r by (simp add: b proof_bytes_def cursor_new_advance handshake_limits)
    show ?L
      using r m s valid_binding_str [OF s] valid_binding_str [OF r(5)] last [unfolded b']
      by (simp add: parse handshake_limits valid_device_id_def cong: conj_cong)
        (intro exI conjI, (rule b' refl | (simp add: cursor_new_advance b' drop_Cons'
            valid_binding_def)[1])+)
  qed
qed

lemma proof_bytes_inject:
  assumes "proof_bytes role d k st s l m @ sig = proof_bytes role' d' k' st' s' l' m' @ sig'"
    and "valid_metadata m" "valid_metadata m'" "length k = 32" "length k' = 32"
    "length st = 32" "length st' = 32" "length d < 65536" "length d' < 65536"
    "length s < 65536" "length s' < 65536" "length l < 65536" "length l' < 65536"
  shows "role = role' \<and> d = d' \<and> k = k' \<and> st = st' \<and> s = s' \<and> l = l' \<and> m = m' \<and> sig = sig'"
  using assms metadata_bytes_inject [OF assms(2,3)]
  by (auto simp: proof_bytes_def u16_field_inject)

end
