(* ===== verification/Handshake_Noise.thy ===== *)
theory Handshake_Noise
  imports Handshake_Payload Containers
begin

text \<open>
  The Noise session of the application handshake (\<^verbatim>\<open>crypto_handshake/noise.rs\<close>) and the root
  and identity-only exchanges that follow it (\<^verbatim>\<open>crypto_handshake/exchange.rs\<close>).  Keys and seeds
  drawn from the operating system are arguments.  An operation on \<^verbatim>\<open>&mut self\<close> returns its result
  with the state it leaves; an operation that consumes \<^verbatim>\<open>self\<close> returns only its result.
\<close>

text \<open>On success, the state joins the result; on an error the local state is dropped.\<close>

definition keep :: "('e + 'a) \<times> 's \<Rightarrow> 'e + 'a \<times> 's" where
  "keep x = (case x of (Inl e, s) \<Rightarrow> Inl e | (Inr a, s) \<Rightarrow> Inr (a, s))"

lemma keep_simps [simp]: "keep (Inl e, s) = Inl e" "keep (Inr a, s) = Inr (a, s)"
  by (simp_all add: keep_def)

section \<open>The Noise session\<close>

definition noise_new ::
  "('k, 'n, 't) hs_lib \<Rightarrow> (byte list \<times> byte list) option \<Rightarrow> 'k device_identity \<Rightarrow> bool
     \<Rightarrow> crypto_handshake_error + ('k, 'n) noise_handshake" where
  "noise_new L keypair identity initiator =
     (if \<not> noise_parse L NOISE_PATTERN then Inl HsFailed else
      case keypair of
        None \<Rightarrow> Inl HsFailed
      | Some (private, public) \<Rightarrow>
          if length public \<noteq> NOISE_PUBLIC_KEY_BYTES then Inl HsFailed else
          case noise_build L initiator private HANDSHAKE_DOMAIN of
            None \<Rightarrow> Inl HsFailed
          | Some state \<Rightarrow>
              Inr \<lparr>nh_state = state, nh_identity = identity, nh_local_static_public = public,
                   nh_identity_public = public_identity_key L identity, nh_initiator = initiator\<rparr>)"

definition nh_write ::
  "('k, 'n, 't) hs_lib \<Rightarrow> byte list \<Rightarrow> ('k, 'n) noise_handshake
     \<Rightarrow> (crypto_handshake_error + byte list) \<times> ('k, 'n) noise_handshake" where
  "nh_write L body h =
     (case noise_write L body MAX_HANDSHAKE_FRAME_BYTES (nh_state h) of
        (None, s) \<Rightarrow> (Inl HsFailed, h\<lparr>nh_state := s\<rparr>)
      | (Some message, s) \<Rightarrow> (Inr message, h\<lparr>nh_state := s\<rparr>))"

definition nh_read ::
  "('k, 'n, 't) hs_lib \<Rightarrow> byte list \<Rightarrow> ('k, 'n) noise_handshake
     \<Rightarrow> (crypto_handshake_error + byte list) \<times> ('k, 'n) noise_handshake" where
  "nh_read L message h =
     (if message = [] \<or> length message > MAX_HANDSHAKE_FRAME_BYTES then (Inl HsInvalid, h) else
      case noise_read L message MAX_HANDSHAKE_PAYLOAD_BYTES (nh_state h) of
        (None, s) \<Rightarrow> (Inl HsFailed, h\<lparr>nh_state := s\<rparr>)
      | (Some body, s) \<Rightarrow> (Inr body, h\<lparr>nh_state := s\<rparr>))"

record session_crypto_material =
  sm_root_key :: "byte list"
  sm_local_session_binding :: string
  sm_remote_session_binding :: string
  sm_initiator :: bool
  sm_e2ee_policy :: path_policy
  sm_path_security :: path_security

definition has_application_e2ee :: "session_crypto_material \<Rightarrow> bool" where
  "has_application_e2ee m = security_has_e2ee (sm_path_security m)"

definition material_identity_only :: "string \<Rightarrow> string \<Rightarrow> bool \<Rightarrow> session_crypto_material" where
  "material_identity_only local_binding remote_binding initiator =
     \<lparr>sm_root_key = replicate 32 0, sm_local_session_binding = local_binding,
      sm_remote_session_binding = remote_binding, sm_initiator = initiator,
      sm_e2ee_policy = PolicyDisabled, sm_path_security = PathIdentityOnly\<rparr>"

record 't established_noise =
  en_transport :: 't
  en_handshake_hash :: "byte list"
  en_session_binding :: string
  en_initiator :: bool
  en_path_security :: path_security

definition into_established_with_security ::
  "('k, 'n, 't) hs_lib \<Rightarrow> string \<Rightarrow> path_security \<Rightarrow> ('k, 'n) noise_handshake
     \<Rightarrow> crypto_handshake_error + 't established_noise" where
  "into_established_with_security L session_binding security h =
     (if \<not> noise_finished L (nh_state h) then Inl HsFailed else
      try_bind (validate_binding session_binding) (\<lambda>_.
        if length (noise_hash L (nh_state h)) \<noteq> 32 then Inl HsFailed else
        case noise_transport L (nh_state h) of
          None \<Rightarrow> Inl HsFailed
        | Some transport \<Rightarrow>
            Inr \<lparr>en_transport = transport, en_handshake_hash = noise_hash L (nh_state h),
                 en_session_binding = session_binding, en_initiator = nh_initiator h,
                 en_path_security = security\<rparr>))"

definition encrypt_exchange ::
  "('k, 'n, 't) hs_lib \<Rightarrow> byte \<Rightarrow> byte list \<Rightarrow> 't established_noise
     \<Rightarrow> (crypto_handshake_error + byte list) \<times> 't established_noise" where
  "encrypt_exchange L message_type body en =
     and_then (root_exchange_payload message_type (en_session_binding en) body, en) (\<lambda>plaintext en.
       case transport_write L plaintext (length plaintext + NOISE_TRANSPORT_TAG_BYTES)
              (en_transport en) of
         (None, t) \<Rightarrow> (Inl HsFailed, en\<lparr>en_transport := t\<rparr>)
       | (Some ciphertext, t) \<Rightarrow> (Inr ciphertext, en\<lparr>en_transport := t\<rparr>))"

text \<open>The part that all the decrypting operations share: the bounds and the transport.\<close>

definition read_exchange ::
  "('k, 'n, 't) hs_lib \<Rightarrow> byte list \<Rightarrow> 't established_noise
     \<Rightarrow> (crypto_handshake_error + byte list) \<times> 't established_noise" where
  "read_exchange L ciphertext en =
     (if ciphertext = [] \<or> length ciphertext > MAX_HANDSHAKE_FRAME_BYTES then (Inl HsInvalid, en) else
      case transport_read L ciphertext MAX_HANDSHAKE_PAYLOAD_BYTES (en_transport en) of
        (None, t) \<Rightarrow> (Inl HsFailed, en\<lparr>en_transport := t\<rparr>)
      | (Some plaintext, t) \<Rightarrow> (Inr plaintext, en\<lparr>en_transport := t\<rparr>))"

definition decrypt_fixed_exchange ::
  "('k, 'n, 't) hs_lib \<Rightarrow> nat \<Rightarrow> byte \<Rightarrow> byte list \<Rightarrow> 't established_noise
     \<Rightarrow> (crypto_handshake_error + byte list) \<times> 't established_noise" where
  "decrypt_fixed_exchange L n expected_type ciphertext en =
     and_then (read_exchange L ciphertext en) (\<lambda>plaintext en.
       (parse_fixed_root_exchange_payload n plaintext expected_type (en_session_binding en), en))"

text \<open>A root payload: 32 bytes and the binding of the sender.\<close>

definition parse_root_value :: "nat \<Rightarrow> byte list \<Rightarrow> crypto_handshake_error + byte list \<times> string" where
  "parse_root_value n body =
     (if length body < n + 2 then Inl HsInvalid else
      try_bind (cur_take_string MAX_SESSION_BINDING_BYTES (cursor_new (drop n body)))
        (\<lambda>(remote_session_binding, c).
           if \<not> cur_done c then Inl HsInvalid
           else try_bind (validate_binding remote_session_binding) (\<lambda>_.
             Inr (take n body, remote_session_binding))))"

definition decrypt_root_seed_exchange ::
  "('k, 'n, 't) hs_lib \<Rightarrow> byte list \<Rightarrow> 't established_noise
     \<Rightarrow> (crypto_handshake_error + byte list \<times> string) \<times> 't established_noise" where
  "decrypt_root_seed_exchange L ciphertext en =
     and_then (read_exchange L ciphertext en) (\<lambda>plaintext en.
     and_then (parse_root_exchange_payload plaintext ROOT_EXCHANGE_ROOT_SEED (en_session_binding en), en)
       (\<lambda>body en. (parse_root_value ROOT_SEED_BYTES body, en)))"

definition decrypt_root_confirm_exchange ::
  "('k, 'n, 't) hs_lib \<Rightarrow> byte list \<Rightarrow> 't established_noise
     \<Rightarrow> (crypto_handshake_error + byte list \<times> string) \<times> 't established_noise" where
  "decrypt_root_confirm_exchange L ciphertext en =
     and_then (read_exchange L ciphertext en) (\<lambda>plaintext en.
     and_then (parse_root_exchange_payload plaintext ROOT_EXCHANGE_ROOT_CONFIRM (en_session_binding en), en)
       (\<lambda>body en. (parse_root_value ROOT_CONFIRM_BYTES body, en)))"

definition decrypt_identity_only_binding ::
  "('k, 'n, 't) hs_lib \<Rightarrow> byte list \<Rightarrow> 't established_noise
     \<Rightarrow> (crypto_handshake_error + string) \<times> 't established_noise" where
  "decrypt_identity_only_binding L ciphertext en =
     and_then (read_exchange L ciphertext en) (\<lambda>plaintext en.
     and_then (parse_root_exchange_payload plaintext IDENTITY_ONLY_BINDING (en_session_binding en), en)
       (\<lambda>body en. (parse_identity_only_binding_payload body, en)))"

definition decrypt_identity_only_confirm ::
  "('k, 'n, 't) hs_lib \<Rightarrow> byte list \<Rightarrow> 't established_noise
     \<Rightarrow> (crypto_handshake_error + string) \<times> 't established_noise" where
  "decrypt_identity_only_confirm L ciphertext en =
     and_then (read_exchange L ciphertext en) (\<lambda>plaintext en.
     and_then (parse_root_exchange_payload plaintext IDENTITY_ONLY_CONFIRM (en_session_binding en), en)
       (\<lambda>body en. (parse_identity_only_binding_payload body, en)))"

definition into_material ::
  "byte list \<Rightarrow> string \<Rightarrow> string \<Rightarrow> 't established_noise \<Rightarrow> session_crypto_material" where
  "into_material root local_binding remote_binding en =
     \<lparr>sm_root_key = root, sm_local_session_binding = local_binding,
      sm_remote_session_binding = remote_binding, sm_initiator = en_initiator en,
      sm_e2ee_policy = security_policy (en_path_security en),
      sm_path_security = en_path_security en\<rparr>"

section \<open>The exchanges\<close>

record 't initiator_root_exchange =
  ir_noise :: "'t established_noise"
  ir_root_key :: "byte list"
  ir_expected_confirm :: "byte list"
  ir_remote_session_binding :: string
  ir_local_session_binding :: string

record 't responder_root_exchange =
  rr_noise :: "'t established_noise"
  rr_root_key :: "byte list"
  rr_expected_confirm :: "byte list"
  rr_local_session_binding :: string

record 't initiator_identity_exchange =
  ii_noise :: "'t established_noise"
  ii_remote_session_binding :: string
  ii_local_session_binding :: string

record 't responder_identity_exchange =
  ri_noise :: "'t established_noise"
  ri_local_session_binding :: string

definition begin_responder ::
  "('k, 'n, 't) hs_lib \<Rightarrow> byte list \<Rightarrow> string \<Rightarrow> 't established_noise
     \<Rightarrow> crypto_handshake_error + 't responder_root_exchange \<times> byte list" where
  "begin_responder L root_seed local_session_binding en =
     (if en_initiator en \<or> \<not> security_has_e2ee (en_path_security en) then Inl HsFailed else
      try_bind (validate_binding local_session_binding) (\<lambda>_.
      try_bind (derive_application_root L root_seed (en_handshake_hash en) (en_session_binding en))
        (\<lambda>root.
      try_bind (derive_root_confirm L root (en_handshake_hash en) (en_session_binding en))
        (\<lambda>confirm.
      try_bind (root_seed_payload root_seed local_session_binding) (\<lambda>body.
      try_bind (keep (encrypt_exchange L ROOT_EXCHANGE_ROOT_SEED body en)) (\<lambda>(encrypted_seed, en).
        Inr (\<lparr>rr_noise = en, rr_root_key = root, rr_expected_confirm = confirm,
              rr_local_session_binding = local_session_binding\<rparr>, encrypted_seed)))))))"

definition begin_identity_only ::
  "('k, 'n, 't) hs_lib \<Rightarrow> string \<Rightarrow> 't established_noise
     \<Rightarrow> crypto_handshake_error + 't responder_identity_exchange \<times> byte list" where
  "begin_identity_only L local_session_binding en =
     (if en_initiator en \<or> en_path_security en \<noteq> PathIdentityOnly then Inl HsFailed else
      try_bind (validate_binding local_session_binding) (\<lambda>_.
      try_bind (identity_only_binding_payload local_session_binding) (\<lambda>body.
      try_bind (keep (encrypt_exchange L IDENTITY_ONLY_BINDING body en)) (\<lambda>(encrypted_binding, en).
        Inr (\<lparr>ri_noise = en, ri_local_session_binding = local_session_binding\<rparr>,
             encrypted_binding)))))"

definition accept_root_seed ::
  "('k, 'n, 't) hs_lib \<Rightarrow> byte list \<Rightarrow> 't established_noise
     \<Rightarrow> crypto_handshake_error + 't initiator_root_exchange" where
  "accept_root_seed L encrypted_seed en =
     (if \<not> en_initiator en \<or> \<not> security_has_e2ee (en_path_security en) then Inl HsFailed else
      try_bind (keep (decrypt_root_seed_exchange L encrypted_seed en))
        (\<lambda>((root_seed, remote_session_binding), en).
      try_bind (derive_application_root L root_seed (en_handshake_hash en) (en_session_binding en))
        (\<lambda>root.
      try_bind (derive_root_confirm L root (en_handshake_hash en) (en_session_binding en))
        (\<lambda>confirm.
        Inr \<lparr>ir_noise = en, ir_root_key = root, ir_expected_confirm = confirm,
             ir_remote_session_binding = remote_session_binding,
             ir_local_session_binding = []\<rparr>))))"

definition accept_identity_only_binding ::
  "('k, 'n, 't) hs_lib \<Rightarrow> byte list \<Rightarrow> 't established_noise
     \<Rightarrow> crypto_handshake_error + 't initiator_identity_exchange" where
  "accept_identity_only_binding L encrypted_binding en =
     (if \<not> en_initiator en \<or> en_path_security en \<noteq> PathIdentityOnly then Inl HsFailed else
      try_bind (keep (decrypt_identity_only_binding L encrypted_binding en))
        (\<lambda>(remote_session_binding, en).
        Inr \<lparr>ii_noise = en, ii_remote_session_binding = remote_session_binding,
             ii_local_session_binding = []\<rparr>))"

definition ii_confirm ::
  "('k, 'n, 't) hs_lib \<Rightarrow> string \<Rightarrow> 't initiator_identity_exchange
     \<Rightarrow> crypto_handshake_error + 't initiator_identity_exchange \<times> byte list" where
  "ii_confirm L local_session_binding x =
     try_bind (validate_binding local_session_binding) (\<lambda>_.
     try_bind (identity_only_binding_payload local_session_binding) (\<lambda>body.
     try_bind (keep (encrypt_exchange L IDENTITY_ONLY_CONFIRM body (ii_noise x)))
       (\<lambda>(encrypted_confirm, en).
       Inr (x\<lparr>ii_noise := en, ii_local_session_binding := local_session_binding\<rparr>,
            encrypted_confirm))))"

definition ii_accept ::
  "('k, 'n, 't) hs_lib \<Rightarrow> byte list \<Rightarrow> 't initiator_identity_exchange
     \<Rightarrow> crypto_handshake_error + session_crypto_material" where
  "ii_accept L encrypted_accept x =
     try_bind (keep (decrypt_fixed_exchange L 0 IDENTITY_ONLY_ACCEPT encrypted_accept (ii_noise x)))
       (\<lambda>_. Inr (material_identity_only (ii_local_session_binding x) (ii_remote_session_binding x) True))"

definition ri_accept_confirm ::
  "('k, 'n, 't) hs_lib \<Rightarrow> byte list \<Rightarrow> 't responder_identity_exchange
     \<Rightarrow> crypto_handshake_error + byte list \<times> session_crypto_material" where
  "ri_accept_confirm L encrypted_confirm x =
     try_bind (keep (decrypt_identity_only_confirm L encrypted_confirm (ri_noise x)))
       (\<lambda>(remote_session_binding, en).
     try_bind (keep (encrypt_exchange L IDENTITY_ONLY_ACCEPT [] en)) (\<lambda>(encrypted_accept, en).
       Inr (encrypted_accept,
            material_identity_only (ri_local_session_binding x) remote_session_binding False)))"

definition ir_confirm ::
  "('k, 'n, 't) hs_lib \<Rightarrow> string \<Rightarrow> 't initiator_root_exchange
     \<Rightarrow> crypto_handshake_error + 't initiator_root_exchange \<times> byte list" where
  "ir_confirm L local_session_binding x =
     try_bind (validate_binding local_session_binding) (\<lambda>_.
     try_bind (root_confirm_payload (ir_expected_confirm x) local_session_binding) (\<lambda>body.
     try_bind (keep (encrypt_exchange L ROOT_EXCHANGE_ROOT_CONFIRM body (ir_noise x)))
       (\<lambda>(encrypted_confirm, en).
       Inr (x\<lparr>ir_noise := en, ir_local_session_binding := local_session_binding\<rparr>,
            encrypted_confirm))))"

definition ir_accept ::
  "('k, 'n, 't) hs_lib \<Rightarrow> byte list \<Rightarrow> 't initiator_root_exchange
     \<Rightarrow> crypto_handshake_error + session_crypto_material" where
  "ir_accept L encrypted_accept x =
     try_bind (keep (decrypt_fixed_exchange L 0 ROOT_EXCHANGE_ACCEPT encrypted_accept (ir_noise x)))
       (\<lambda>(_, en). Inr (into_material (ir_root_key x) (ir_local_session_binding x)
                       (ir_remote_session_binding x) en))"

definition rr_accept_confirm ::
  "('k, 'n, 't) hs_lib \<Rightarrow> byte list \<Rightarrow> 't responder_root_exchange
     \<Rightarrow> crypto_handshake_error + byte list \<times> session_crypto_material" where
  "rr_accept_confirm L encrypted_confirm x =
     try_bind (keep (decrypt_root_confirm_exchange L encrypted_confirm (rr_noise x)))
       (\<lambda>((confirm, remote_session_binding), en).
     if confirm \<noteq> rr_expected_confirm x then Inl HsFailed else
     try_bind (keep (encrypt_exchange L ROOT_EXCHANGE_ACCEPT [] en)) (\<lambda>(encrypted_accept, en).
       Inr (encrypted_accept,
            into_material (rr_root_key x) (rr_local_session_binding x) remote_session_binding en)))"

end
