(* ===== verification/Handshake_Flows.thy ===== *)
theory Handshake_Flows
  imports Handshake_Noise
begin

text \<open>
  The three ways the handshake is driven: the message objects of the relay
  (\<^verbatim>\<open>crypto_handshake/relay.rs\<close>), the framed routes (\<^verbatim>\<open>generic.rs\<close>) and QUIC streams
  (\<^verbatim>\<open>quic.rs\<close>).  The code of the last two is the same up to how a frame is sent and received,
  which are the arguments \<open>send\<close> and \<open>recv\<close> of \<open>initiator_handshake\<close> and \<open>responder_handshake\<close>.
  A connection is a record of what will arrive, of whether each write succeeds and of what was
  written; the closure that admits the authenticated peer is an argument.
\<close>

section \<open>Relay frames\<close>

definition RELAY_CRYPTO_HELLO :: byte where "RELAY_CRYPTO_HELLO = 1"
definition RELAY_CRYPTO_RESPONSE :: byte where "RELAY_CRYPTO_RESPONSE = 2"
definition RELAY_CRYPTO_FINAL :: byte where "RELAY_CRYPTO_FINAL = 3"
definition RELAY_CRYPTO_ROOT_SEED :: byte where "RELAY_CRYPTO_ROOT_SEED = 4"
definition RELAY_CRYPTO_ROOT_CONFIRM :: byte where "RELAY_CRYPTO_ROOT_CONFIRM = 5"
definition RELAY_CRYPTO_ACCEPT :: byte where "RELAY_CRYPTO_ACCEPT = 6"

definition relay_steps :: "byte list" where
  "relay_steps = [RELAY_CRYPTO_HELLO, RELAY_CRYPTO_RESPONSE, RELAY_CRYPTO_FINAL,
     RELAY_CRYPTO_ROOT_SEED, RELAY_CRYPTO_ROOT_CONFIRM, RELAY_CRYPTO_ACCEPT]"

definition encode_relay_frame :: "byte \<Rightarrow> byte list \<Rightarrow> crypto_handshake_error + byte list" where
  "encode_relay_frame step body =
     (if step \<notin> set relay_steps \<or> body = [] \<or> length body > MAX_HANDSHAKE_FRAME_BYTES
      then Inl HsInvalid else Inr (step # body))"

definition decode_relay_frame :: "byte list \<Rightarrow> crypto_handshake_error + byte \<times> byte list" where
  "decode_relay_frame frame =
     (case frame of
        [] \<Rightarrow> Inl HsInvalid
      | step # body \<Rightarrow>
          if step \<notin> set relay_steps \<or> body = [] \<or> length body > MAX_HANDSHAKE_FRAME_BYTES
          then Inl HsInvalid else Inr (step, body))"

section \<open>The relay handshake\<close>

record ('k, 'n) relay_handshake =
  rh_handshake :: "('k, 'n) noise_handshake"
  rh_session_binding :: string
  rh_path_metadata :: path_metadata
  rh_path_security :: path_security

definition relay_start_with_policy ::
  "('k, 'n, 't) hs_lib \<Rightarrow> (byte list \<times> byte list) option \<Rightarrow> 'k device_identity \<Rightarrow> string \<Rightarrow> path_policy
     \<Rightarrow> crypto_handshake_error + ('k, 'n) relay_handshake \<times> byte list" where
  "relay_start_with_policy L keypair identity session_binding e2ee_policy =
     try_bind (validate_binding session_binding) (\<lambda>_.
     try_bind (relay_path_metadata session_binding e2ee_policy) (\<lambda>metadata.
     try_bind (validate_relay_path_metadata metadata e2ee_policy) (\<lambda>security.
     try_bind (noise_new L keypair identity True) (\<lambda>handshake.
     try_bind (hello_payload_with_path session_binding metadata) (\<lambda>hello.
     try_bind (keep (nh_write L hello handshake)) (\<lambda>(message, handshake).
       Inr (\<lparr>rh_handshake = handshake, rh_session_binding = session_binding,
             rh_path_metadata = metadata, rh_path_security = security\<rparr>, message)))))))"

definition relay_accept_response ::
  "('k, 'n, 't) hs_lib \<Rightarrow> byte list \<Rightarrow> string \<Rightarrow> byte list \<Rightarrow> ('k, 'n) relay_handshake
     \<Rightarrow> (crypto_handshake_error + byte list) \<times> ('k, 'n) relay_handshake" where
  "relay_accept_response L response expected_peer_id expected_peer_identity_key r =
     (case nh_read L response (rh_handshake r) of
        (Inl e, h) \<Rightarrow> (Inl e, r\<lparr>rh_handshake := h\<rparr>)
      | (Inr responder_body, h) \<Rightarrow>
          let r = r\<lparr>rh_handshake := h\<rparr> in
          and_then (validate_proof_with_path L responder_body 2 expected_peer_id
              expected_peer_identity_key h (rh_session_binding r) (rh_path_metadata r), r) (\<lambda>_ r.
          and_then (proof_payload_with_signature_with_path L h 1 (rh_session_binding r)
              (rh_session_binding r) (rh_path_metadata r), r) (\<lambda>initiator_proof r.
            case nh_write L initiator_proof h of (m, h) \<Rightarrow> (m, r\<lparr>rh_handshake := h\<rparr>))))"

definition relay_accept_root_seed ::
  "('k, 'n, 't) hs_lib \<Rightarrow> byte list \<Rightarrow> ('k, 'n) relay_handshake
     \<Rightarrow> crypto_handshake_error + 't initiator_root_exchange" where
  "relay_accept_root_seed L encrypted_seed r =
     try_bind (into_established_with_security L (rh_session_binding r) (rh_path_security r)
       (rh_handshake r)) (\<lambda>established.
     accept_root_seed L encrypted_seed established)"

definition relay_accept_hello_with_policy ::
  "('k, 'n, 't) hs_lib \<Rightarrow> (byte list \<times> byte list) option \<Rightarrow> 'k device_identity \<Rightarrow> byte list \<Rightarrow> path_policy
     \<Rightarrow> crypto_handshake_error + ('k, 'n) relay_handshake \<times> byte list" where
  "relay_accept_hello_with_policy L keypair identity hello e2ee_policy =
     try_bind (noise_new L keypair identity False) (\<lambda>handshake.
     try_bind (keep (nh_read L hello handshake)) (\<lambda>(body, handshake).
     try_bind (parse_hello_with_path body) (\<lambda>(session_binding, metadata).
     try_bind (validate_relay_path_metadata metadata e2ee_policy) (\<lambda>security.
     try_bind (proof_payload_with_signature_with_path L handshake 2 session_binding session_binding
       metadata) (\<lambda>responder_proof.
     try_bind (keep (nh_write L responder_proof handshake)) (\<lambda>(response, handshake).
       Inr (\<lparr>rh_handshake = handshake, rh_session_binding = session_binding,
             rh_path_metadata = metadata, rh_path_security = security\<rparr>, response)))))))"

definition relay_accept_hello ::
  "('k, 'n, 't) hs_lib \<Rightarrow> (byte list \<times> byte list) option \<Rightarrow> 'k device_identity \<Rightarrow> byte list
     \<Rightarrow> crypto_handshake_error + ('k, 'n) relay_handshake \<times> byte list" where
  "relay_accept_hello L keypair identity hello =
     relay_accept_hello_with_policy L keypair identity hello PolicyRequired"

text \<open>
  The checks on the initiator's proof that every responder makes: the identity and bindings of
  the proof, the trusted key, and the signature.
\<close>

definition authenticate_initiator ::
  "('k, 'n, 't) hs_lib \<Rightarrow> (string, byte list) hmap \<Rightarrow> byte list \<Rightarrow> ('k, 'n) noise_handshake \<Rightarrow> string
     \<Rightarrow> path_metadata \<Rightarrow> crypto_handshake_error + string" where
  "authenticate_initiator L trusted_peer_keys initiator_body handshake session_binding metadata =
     try_bind (parse_proof_identity_with_path L initiator_body 1 handshake session_binding metadata)
       (\<lambda>(peer_id, peer_key, peer_session_binding).
     if peer_session_binding \<noteq> session_binding then Inl InvalidBinding else
     case hm_get trusted_peer_keys peer_id of
       None \<Rightarrow> Inl UntrustedIdentity
     | Some expected \<Rightarrow>
         if expected \<noteq> peer_key then Inl UntrustedIdentity else
         try_bind (verify_proof_signature_with_path L initiator_body peer_id session_binding
           peer_session_binding peer_key metadata) (\<lambda>_. Inr peer_id))"

record ('t, 'a) relay_responder_confirmation =
  rc_peer_id :: string
  rc_exchange :: "'t responder_root_exchange"
  rc_admission :: 'a

definition relay_accept_final ::
  "('k, 'n, 't) hs_lib \<Rightarrow> byte list \<Rightarrow> byte list \<Rightarrow> (string, byte list) hmap
     \<Rightarrow> (string \<Rightarrow> string \<Rightarrow> crypto_handshake_error + string \<times> 'a) \<Rightarrow> ('k, 'n) relay_handshake
     \<Rightarrow> crypto_handshake_error + string \<times> ('t, 'a) relay_responder_confirmation \<times> byte list" where
  "relay_accept_final L root_seed final_message trusted_peer_keys resolve r =
     try_bind (keep (nh_read L final_message (rh_handshake r))) (\<lambda>(initiator_body, handshake).
     try_bind (authenticate_initiator L trusted_peer_keys initiator_body handshake
       (rh_session_binding r) (rh_path_metadata r)) (\<lambda>peer_id.
     try_bind (resolve peer_id (rh_session_binding r)) (\<lambda>(local_session_binding, admission).
     try_bind (into_established_with_security L (rh_session_binding r) (rh_path_security r) handshake)
       (\<lambda>established.
     try_bind (begin_responder L root_seed local_session_binding established)
       (\<lambda>(exchange, encrypted_seed).
       Inr (peer_id, \<lparr>rc_peer_id = peer_id, rc_exchange = exchange, rc_admission = admission\<rparr>,
            encrypted_seed))))))"

definition relay_accept_root_confirm ::
  "('k, 'n, 't) hs_lib \<Rightarrow> byte list \<Rightarrow> ('t, 'a) relay_responder_confirmation
     \<Rightarrow> crypto_handshake_error + string \<times> byte list \<times> session_crypto_material \<times> 'a" where
  "relay_accept_root_confirm L encrypted_confirm x =
     try_bind (rr_accept_confirm L encrypted_confirm (rc_exchange x))
       (\<lambda>(encrypted_accept, material).
       Inr (rc_peer_id x, encrypted_accept, material, rc_admission x))"

section \<open>The handshake over a connection\<close>

text \<open>The last messages of the initiator and of the responder, once Noise is established.\<close>

definition initiator_exchange ::
  "(byte list \<Rightarrow> 's \<Rightarrow> (crypto_handshake_error + unit) \<times> 's)
     \<Rightarrow> ('s \<Rightarrow> (crypto_handshake_error + byte list) \<times> 's)
     \<Rightarrow> ('k, 'n, 't) hs_lib \<Rightarrow> string \<Rightarrow> (string \<Rightarrow> string \<Rightarrow> crypto_handshake_error + string \<times> 'a)
     \<Rightarrow> path_security \<Rightarrow> 't established_noise \<Rightarrow> 's
     \<Rightarrow> (crypto_handshake_error + session_crypto_material \<times> 'a) \<times> 's" where
  "initiator_exchange send recv L peer_id resolve security established c =
     (case security of
        PathE2ee \<Rightarrow>
          and_then (recv c) (\<lambda>encrypted_seed c.
          and_then (accept_root_seed L encrypted_seed established, c) (\<lambda>initiator c.
          and_then (resolve peer_id (ir_remote_session_binding initiator), c)
            (\<lambda>(local_session_binding, admission) c.
          and_then (ir_confirm L local_session_binding initiator, c)
            (\<lambda>(initiator, encrypted_confirm) c.
          and_then (send encrypted_confirm c) (\<lambda>_ c.
          and_then (recv c) (\<lambda>encrypted_accept c.
          and_then (ir_accept L encrypted_accept initiator, c) (\<lambda>material c.
            (Inr (material, admission), c))))))))
      | PathIdentityOnly \<Rightarrow>
          and_then (recv c) (\<lambda>encrypted_binding c.
          and_then (accept_identity_only_binding L encrypted_binding established, c) (\<lambda>initiator c.
          and_then (resolve peer_id (ii_remote_session_binding initiator), c)
            (\<lambda>(local_session_binding, admission) c.
          and_then (ii_confirm L local_session_binding initiator, c)
            (\<lambda>(initiator, encrypted_confirm) c.
          and_then (send encrypted_confirm c) (\<lambda>_ c.
          and_then (recv c) (\<lambda>encrypted_accept c.
          and_then (ii_accept L encrypted_accept initiator, c) (\<lambda>material c.
            (Inr (material, admission), c)))))))))"

definition responder_exchange ::
  "(byte list \<Rightarrow> 's \<Rightarrow> (crypto_handshake_error + unit) \<times> 's)
     \<Rightarrow> ('s \<Rightarrow> (crypto_handshake_error + byte list) \<times> 's)
     \<Rightarrow> ('k, 'n, 't) hs_lib \<Rightarrow> byte list \<Rightarrow> string \<Rightarrow> path_security \<Rightarrow> 't established_noise \<Rightarrow> 's
     \<Rightarrow> (crypto_handshake_error + session_crypto_material) \<times> 's" where
  "responder_exchange send recv L root_seed local_session_binding security established c =
     (case security of
        PathE2ee \<Rightarrow>
          and_then (begin_responder L root_seed local_session_binding established, c)
            (\<lambda>(responder, encrypted_seed) c.
          and_then (send encrypted_seed c) (\<lambda>_ c.
          and_then (recv c) (\<lambda>encrypted_confirm c.
          and_then (rr_accept_confirm L encrypted_confirm responder, c)
            (\<lambda>(encrypted_accept, material) c.
          and_then (send encrypted_accept c) (\<lambda>_ c. (Inr material, c))))))
      | PathIdentityOnly \<Rightarrow>
          and_then (begin_identity_only L local_session_binding established, c)
            (\<lambda>(responder, encrypted_binding) c.
          and_then (send encrypted_binding c) (\<lambda>_ c.
          and_then (recv c) (\<lambda>encrypted_confirm c.
          and_then (ri_accept_confirm L encrypted_confirm responder, c)
            (\<lambda>(encrypted_accept, material) c.
          and_then (send encrypted_accept c) (\<lambda>_ c. (Inr material, c)))))))"

definition initiator_handshake ::
  "(byte list \<Rightarrow> 's \<Rightarrow> (crypto_handshake_error + unit) \<times> 's)
     \<Rightarrow> ('s \<Rightarrow> (crypto_handshake_error + byte list) \<times> 's)
     \<Rightarrow> ('k, 'n, 't) hs_lib \<Rightarrow> (byte list \<times> byte list) option \<Rightarrow> 'k device_identity \<Rightarrow> string \<Rightarrow> byte list
     \<Rightarrow> string \<Rightarrow> crypto_handshake_error + byte list \<Rightarrow> path_policy
     \<Rightarrow> (string \<Rightarrow> string \<Rightarrow> crypto_handshake_error + string \<times> 'a) \<Rightarrow> 's
     \<Rightarrow> (crypto_handshake_error + session_crypto_material \<times> 'a) \<times> 's" where
  "initiator_handshake send recv L keypair identity expected_peer_id expected_peer_identity_key
       session_binding profile e2ee_policy resolve c =
     and_then (profile, c) (\<lambda>profile c.
     and_then (direct_path_metadata session_binding profile e2ee_policy, c) (\<lambda>metadata c.
     and_then (map_err HsPath (security_for e2ee_policy metadata), c) (\<lambda>security c.
     and_then (noise_new L keypair identity True, c) (\<lambda>handshake c.
     and_then (hello_payload_with_path session_binding metadata, c) (\<lambda>hello c.
     and_then (keep (nh_write L hello handshake), c) (\<lambda>(message, handshake) c.
     and_then (send message c) (\<lambda>_ c.
     and_then (recv c) (\<lambda>response c.
     and_then (keep (nh_read L response handshake), c) (\<lambda>(responder_body, handshake) c.
     and_then (validate_proof_with_path L responder_body 2 expected_peer_id
       expected_peer_identity_key handshake session_binding metadata, c) (\<lambda>_ c.
     and_then (proof_payload_with_signature_with_path L handshake 1 session_binding session_binding
       metadata, c) (\<lambda>initiator_proof c.
     and_then (keep (nh_write L initiator_proof handshake), c) (\<lambda>(message, handshake) c.
     and_then (send message c) (\<lambda>_ c.
     and_then (into_established_with_security L session_binding security handshake, c)
       (\<lambda>established c.
     initiator_exchange send recv L expected_peer_id resolve security established c))))))))))))))"

definition responder_handshake ::
  "(byte list \<Rightarrow> 's \<Rightarrow> (crypto_handshake_error + unit) \<times> 's)
     \<Rightarrow> ('s \<Rightarrow> (crypto_handshake_error + byte list) \<times> 's)
     \<Rightarrow> ('k, 'n, 't) hs_lib \<Rightarrow> (byte list \<times> byte list) option \<Rightarrow> byte list \<Rightarrow> 'k device_identity
     \<Rightarrow> (string, byte list) hmap \<Rightarrow> crypto_handshake_error + byte list \<Rightarrow> path_policy option
     \<Rightarrow> (string \<Rightarrow> string \<Rightarrow> crypto_handshake_error + string \<times> 'a) \<Rightarrow> 's
     \<Rightarrow> (crypto_handshake_error + string \<times> session_crypto_material \<times> 'a) \<times> 's" where
  "responder_handshake send recv L keypair root_seed identity trusted_peer_keys profile e2ee_policy
       resolve c =
     and_then (noise_new L keypair identity False, c) (\<lambda>handshake c.
     and_then (recv c) (\<lambda>message c.
     and_then (keep (nh_read L message handshake), c) (\<lambda>(hello, handshake) c.
     and_then (parse_hello_with_path hello, c) (\<lambda>(session_binding, metadata) c.
     and_then (profile, c) (\<lambda>profile c.
     and_then (validate_direct_path_metadata metadata profile
       (case e2ee_policy of Some policy \<Rightarrow> policy | None \<Rightarrow> pm_e2ee_policy metadata), c) (\<lambda>security c.
     and_then (proof_payload_with_signature_with_path L handshake 2 session_binding session_binding
       metadata, c) (\<lambda>responder_proof c.
     and_then (keep (nh_write L responder_proof handshake), c) (\<lambda>(message, handshake) c.
     and_then (send message c) (\<lambda>_ c.
     and_then (recv c) (\<lambda>message c.
     and_then (keep (nh_read L message handshake), c) (\<lambda>(initiator_body, handshake) c.
     and_then (authenticate_initiator L trusted_peer_keys initiator_body handshake session_binding
       metadata, c) (\<lambda>peer_id c.
     and_then (resolve peer_id session_binding, c) (\<lambda>(local_session_binding, admission) c.
     and_then (into_established_with_security L session_binding security handshake, c)
       (\<lambda>established c.
     and_then (responder_exchange send recv L root_seed local_session_binding security established c)
       (\<lambda>material c. (Inr (peer_id, material, admission), c))))))))))))))))"

section \<open>Framed routes\<close>

datatype route_transport = RouteQuic | RouteTcp | RouteUdp | RouteWebSocket

record hs_conn =
  hc_transport :: route_transport
  hc_incoming :: "byte list option list"
  hc_send_ok :: "bool list"
  hc_sent :: "byte list list"

definition conn_send :: "byte list \<Rightarrow> hs_conn \<Rightarrow> (crypto_handshake_error + unit) \<times> hs_conn" where
  "conn_send message c =
     (case hc_send_ok c of
        True # oks \<Rightarrow> (Inr (), c\<lparr>hc_send_ok := oks, hc_sent := hc_sent c @ [message]\<rparr>)
      | False # oks \<Rightarrow> (Inl HsFailed, c\<lparr>hc_send_ok := oks\<rparr>)
      | [] \<Rightarrow> (Inl HsFailed, c))"

definition conn_recv :: "hs_conn \<Rightarrow> (crypto_handshake_error + byte list) \<times> hs_conn" where
  "conn_recv c =
     (case hc_incoming c of
        Some message # rest \<Rightarrow> (Inr message, c\<lparr>hc_incoming := rest\<rparr>)
      | None # rest \<Rightarrow> (Inl HsFailed, c\<lparr>hc_incoming := rest\<rparr>)
      | [] \<Rightarrow> (Inl HsFailed, c))"

definition generic_profile :: "route_transport \<Rightarrow> crypto_handshake_error + byte list" where
  "generic_profile transport =
     (case transport of
        RouteTcp \<Rightarrow> Inr (str_bytes ''direct/tcp/v2'')
      | RouteWebSocket \<Rightarrow> Inr (str_bytes ''direct/websocket/v2'')
      | _ \<Rightarrow> Inl HsFailed)"

definition initiate_generic_with_policy ::
  "('k, 'n, 't) hs_lib \<Rightarrow> (byte list \<times> byte list) option \<Rightarrow> 'k device_identity \<Rightarrow> string \<Rightarrow> byte list
     \<Rightarrow> string \<Rightarrow> path_policy \<Rightarrow> (string \<Rightarrow> string \<Rightarrow> crypto_handshake_error + string \<times> 'a) \<Rightarrow> hs_conn
     \<Rightarrow> (crypto_handshake_error + session_crypto_material \<times> 'a) \<times> hs_conn" where
  "initiate_generic_with_policy L keypair identity expected_peer_id expected_peer_identity_key
       session_binding e2ee_policy resolve c =
     initiator_handshake conn_send conn_recv L keypair identity expected_peer_id
       expected_peer_identity_key session_binding (generic_profile (hc_transport c)) e2ee_policy
       resolve c"

definition respond_generic_internal ::
  "('k, 'n, 't) hs_lib \<Rightarrow> (byte list \<times> byte list) option \<Rightarrow> byte list \<Rightarrow> 'k device_identity
     \<Rightarrow> (string, byte list) hmap \<Rightarrow> path_policy option
     \<Rightarrow> (string \<Rightarrow> string \<Rightarrow> crypto_handshake_error + string \<times> 'a) \<Rightarrow> hs_conn
     \<Rightarrow> (crypto_handshake_error + string \<times> session_crypto_material \<times> 'a) \<times> hs_conn" where
  "respond_generic_internal L keypair root_seed identity trusted_peer_keys e2ee_policy resolve c =
     responder_handshake conn_send conn_recv L keypair root_seed identity trusted_peer_keys
       (generic_profile (hc_transport c)) e2ee_policy resolve c"

definition respond_generic_auto_policy ::
  "('k, 'n, 't) hs_lib \<Rightarrow> (byte list \<times> byte list) option \<Rightarrow> byte list \<Rightarrow> 'k device_identity
     \<Rightarrow> (string, byte list) hmap \<Rightarrow> (string \<Rightarrow> string \<Rightarrow> crypto_handshake_error + string \<times> 'a) \<Rightarrow> hs_conn
     \<Rightarrow> (crypto_handshake_error + string \<times> session_crypto_material \<times> 'a) \<times> hs_conn" where
  "respond_generic_auto_policy L keypair root_seed identity trusted_peer_keys resolve c =
     respond_generic_internal L keypair root_seed identity trusted_peer_keys None resolve c"

section \<open>QUIC streams\<close>

text \<open>
  The bytes that arrive on the receive stream before it ends, the outcome of each write and the
  bytes written.
\<close>

record quic_stream =
  qs_in :: "byte list"
  qs_send_ok :: "bool list"
  qs_out :: "byte list"

definition quic_write :: "byte list \<Rightarrow> quic_stream \<Rightarrow> (crypto_handshake_error + unit) \<times> quic_stream" where
  "quic_write bytes q =
     (case qs_send_ok q of
        True # oks \<Rightarrow> (Inr (), q\<lparr>qs_send_ok := oks, qs_out := qs_out q @ bytes\<rparr>)
      | False # oks \<Rightarrow> (Inl HsFailed, q\<lparr>qs_send_ok := oks\<rparr>)
      | [] \<Rightarrow> (Inl HsFailed, q))"

definition quic_read :: "nat \<Rightarrow> quic_stream \<Rightarrow> (crypto_handshake_error + byte list) \<times> quic_stream" where
  "quic_read n q =
     (if length (qs_in q) < n then (Inl HsFailed, q\<lparr>qs_in := []\<rparr>)
      else (Inr (take n (qs_in q)), q\<lparr>qs_in := drop n (qs_in q)\<rparr>))"

definition write_quic_frame ::
  "byte list \<Rightarrow> quic_stream \<Rightarrow> (crypto_handshake_error + unit) \<times> quic_stream" where
  "write_quic_frame body q =
     (if body = [] \<or> length body > MAX_HANDSHAKE_FRAME_BYTES then (Inl HsInvalid, q)
      else and_then (quic_write (u32_be (of_nat (length body))) q) (\<lambda>_ q. quic_write body q))"

definition read_quic_frame :: "quic_stream \<Rightarrow> (crypto_handshake_error + byte list) \<times> quic_stream" where
  "read_quic_frame q =
     and_then (quic_read 4 q) (\<lambda>header q.
       let n = unat (u32_from_be header) in
       if n = 0 \<or> n > MAX_HANDSHAKE_FRAME_BYTES then (Inl HsInvalid, q)
       else quic_read n q)"

text \<open>\<open>opened\<close> and \<open>finished\<close> are the outcomes of opening the stream pair and of \<^verbatim>\<open>finish\<close>.\<close>

definition initiate_quic_with_policy ::
  "bool \<Rightarrow> bool \<Rightarrow> ('k, 'n, 't) hs_lib \<Rightarrow> (byte list \<times> byte list) option \<Rightarrow> 'k device_identity \<Rightarrow> string
     \<Rightarrow> byte list \<Rightarrow> string \<Rightarrow> path_policy
     \<Rightarrow> (string \<Rightarrow> string \<Rightarrow> crypto_handshake_error + string \<times> 'a) \<Rightarrow> quic_stream
     \<Rightarrow> (crypto_handshake_error + session_crypto_material \<times> 'a) \<times> quic_stream" where
  "initiate_quic_with_policy opened finished L keypair identity expected_peer_id
       expected_peer_identity_key session_binding e2ee_policy resolve q =
     (if \<not> opened then (Inl HsFailed, q) else
      and_then (initiator_handshake write_quic_frame read_quic_frame L keypair identity
          expected_peer_id expected_peer_identity_key session_binding
          (Inr (str_bytes ''direct/quic/v2'')) e2ee_policy resolve q) (\<lambda>result q.
        if finished then (Inr result, q) else (Inl HsFailed, q)))"

definition respond_quic_with_policy ::
  "bool \<Rightarrow> bool \<Rightarrow> ('k, 'n, 't) hs_lib \<Rightarrow> (byte list \<times> byte list) option \<Rightarrow> byte list \<Rightarrow> 'k device_identity
     \<Rightarrow> (string, byte list) hmap \<Rightarrow> path_policy
     \<Rightarrow> (string \<Rightarrow> string \<Rightarrow> crypto_handshake_error + string \<times> 'a) \<Rightarrow> quic_stream
     \<Rightarrow> (crypto_handshake_error + string \<times> session_crypto_material \<times> 'a) \<times> quic_stream" where
  "respond_quic_with_policy opened finished L keypair root_seed identity trusted_peer_keys e2ee_policy
       resolve q =
     (if \<not> opened then (Inl HsFailed, q) else
      and_then (responder_handshake write_quic_frame read_quic_frame L keypair root_seed identity
          trusted_peer_keys (Inr (str_bytes ''direct/quic/v2'')) (Some e2ee_policy) resolve q)
        (\<lambda>result q. if finished then (Inr result, q) else (Inl HsFailed, q)))"

end
