(* ===== verification/Handshake_Auth.thy ===== *)
theory Handshake_Auth
  imports Handshake_Flows
begin

text \<open>
  What a completed handshake shows to the side that completed it, whatever arrived on the
  connection: the signature of the expected or trusted peer on this Noise session, role, Session
  binding and path, and a security level that is the configured one.
\<close>

section \<open>What the steps keep\<close>

lemma and_then_Inr:
  "and_then x k = (Inr y, s') \<longleftrightarrow> (\<exists>a s. x = (Inr a, s) \<and> k a s = (Inr y, s'))"
  by (cases x; cases "fst x") auto

lemma keep_Inr: "keep x = Inr (a, s) \<longleftrightarrow> x = (Inr a, s)"
  by (cases x; cases "fst x") auto

definition same_session :: "'t established_noise \<Rightarrow> 't established_noise \<Rightarrow> bool" where
  "same_session en en' \<longleftrightarrow> (\<exists>t. en' = en\<lparr>en_transport := t\<rparr>)"

lemma same_session_trans: "same_session a b \<Longrightarrow> same_session b c \<Longrightarrow> same_session a c"
  by (auto simp: same_session_def)

lemma same_session_fields:
  "same_session en en' \<Longrightarrow> en_initiator en' = en_initiator en
     \<and> en_path_security en' = en_path_security en \<and> en_session_binding en' = en_session_binding en
     \<and> en_handshake_hash en' = en_handshake_hash en"
  by (auto simp: same_session_def)

lemma same_session_refl: "same_session en en"
  unfolding same_session_def by (rule exI [of _ "en_transport en"]) simp

lemma encrypt_exchange_session:
  assumes "encrypt_exchange L t b en = (Inr c, en')"
  shows "same_session en en'"
proof -
  obtain p where "(case transport_write L p (length p + NOISE_TRANSPORT_TAG_BYTES) (en_transport en) of
      (None, t) \<Rightarrow> (Inl HsFailed, en\<lparr>en_transport := t\<rparr>)
    | (Some ciphertext, t) \<Rightarrow> (Inr ciphertext, en\<lparr>en_transport := t\<rparr>)) = (Inr c, en')"
    using assms by (auto simp: encrypt_exchange_def and_then_Inr)
  then show ?thesis by (auto simp: same_session_def split: prod.splits option.splits)
qed

lemma read_exchange_session: "read_exchange L c en = (r, en') \<Longrightarrow> same_session en en'"
  using same_session_refl [of en]
  by (auto simp: read_exchange_def split: prod.split_asm option.split_asm if_split_asm)
     (auto simp: same_session_def)

lemma decrypt_session:
  "decrypt_fixed_exchange L n t c en = (Inr v, en') \<Longrightarrow> same_session en en'"
  "decrypt_root_seed_exchange L c en = (Inr w, en') \<Longrightarrow> same_session en en'"
  "decrypt_root_confirm_exchange L c en = (Inr w, en') \<Longrightarrow> same_session en en'"
  by (auto simp: decrypt_fixed_exchange_def decrypt_root_seed_exchange_def
      decrypt_root_confirm_exchange_def and_then_Inr dest!: read_exchange_session)

lemma initiator_exchange_material:
  assumes "initiator_exchange send recv L peer resolve security en c = (Inr (mat, adm), c')"
    and "en_path_security en = security"
  shows "sm_initiator mat \<and> sm_path_security mat = security
    \<and> sm_e2ee_policy mat = security_policy security
    \<and> resolve peer (sm_remote_session_binding mat) = Inr (sm_local_session_binding mat, adm)"
  using assms
  by (auto simp: initiator_exchange_def and_then_Inr accept_root_seed_def ir_confirm_def ir_accept_def
      accept_identity_only_binding_def ii_confirm_def ii_accept_def material_identity_only_def
      into_material_def try_bind_Inr if_Inl_Inr keep_Inr split: path_security.splits
      dest!: decrypt_session encrypt_exchange_session same_session_fields)

lemma responder_exchange_material:
  assumes "responder_exchange send recv L seed local security en c = (Inr mat, c')"
    and "en_path_security en = security"
  shows "\<not> sm_initiator mat \<and> sm_path_security mat = security
    \<and> sm_e2ee_policy mat = security_policy security \<and> sm_local_session_binding mat = local"
  using assms
  by (auto simp: responder_exchange_def and_then_Inr begin_responder_def rr_accept_confirm_def
      begin_identity_only_def ri_accept_confirm_def material_identity_only_def
      into_material_def try_bind_Inr if_Inl_Inr keep_Inr split: path_security.splits
      dest!: decrypt_session encrypt_exchange_session same_session_fields)


section \<open>Accepted proofs\<close>

lemma verify_proof_signature_iff:
  assumes "length key = 32" "length static = 32" "length sig = 64"
  shows "verify_proof_signature_with_path L (proof_bytes role d key static s l m @ sig) d s l key m = Inr u
    \<longleftrightarrow> ed_key_ok L key \<and> ed_verify L key (proof_bytes role d key static s l m) sig"
proof -
  have "proof_unsigned_length_with_path d s l m = length (proof_bytes role d key static s l m)"
    using length_proof_bytes assms(1,2) by metis
  then show ?thesis
    using assms(3) by (auto simp: verify_proof_signature_with_path_def Let_def handshake_limits
        verify_signature_def verify_peer_proof_def)
qed

text \<open>
  The signed statement: the peer's key verifies a signature over the proof of this role, device,
  key, Noise static key, Session binding and path.
\<close>

definition signed_proof ::
  "('k, 'n, 't) hs_lib \<Rightarrow> byte \<Rightarrow> string \<Rightarrow> byte list \<Rightarrow> byte list \<Rightarrow> string \<Rightarrow> string \<Rightarrow> path_metadata \<Rightarrow> bool" where
  "signed_proof L role device key static session local m \<longleftrightarrow>
     length key = 32 \<and> length static = 32 \<and> valid_device_id device \<and> valid_binding local
     \<and> ed_key_ok L key
     \<and> (\<exists>sig. length sig = 64 \<and> ed_verify L key (proof_bytes role device key static session local m) sig)"

lemma validate_proof_signed:
  assumes "valid_metadata m" "valid_binding session"
    and "validate_proof_with_path L body role d key h session m = Inr local"
  shows "\<exists>static. noise_remote_static L (nh_state h) = Some static
    \<and> signed_proof L role d key static session local m"
  using assms(3)
  by (auto simp: validate_proof_with_path_def try_bind_Inr if_Inl_Inr parse_proof_iff [OF assms(1,2)]
      signed_proof_def verify_proof_signature_iff)

lemma authenticate_initiator_signed:
  assumes "valid_metadata m" "valid_binding session"
    and "authenticate_initiator L trusted body h session m = Inr peer"
  shows "\<exists>key static. hm_get trusted peer = Some key \<and> noise_remote_static L (nh_state h) = Some static
    \<and> signed_proof L 1 peer key static session session m"
  using assms(3)
  by (auto simp: authenticate_initiator_def try_bind_Inr if_Inl_Inr parse_proof_iff [OF assms(1,2)]
      signed_proof_def verify_proof_signature_iff split: option.splits) blast

lemma direct_path_metadata_Inr:
  "direct_path_metadata b prof policy = Inr m \<Longrightarrow> valid_binding b \<and> valid_metadata m
     \<and> pm_e2ee_policy m = policy \<and> pm_path_kind m = PathDirect \<and> path_binding m = str_bytes b
     \<and> connection_profile m = prof"
  using path_metadata_new_valid [of policy PathDirect "str_bytes b" prof m]
  by (auto simp: direct_path_metadata_def try_bind_Inr validate_binding_Inr)
     (auto simp: path_metadata_new_def try_bind_Inr if_Inl_Inr)

lemma security_for_Inr:
  "security_for policy m = Inr sec \<longleftrightarrow>
     policy = pm_e2ee_policy m \<and> security_policy sec = policy
     \<and> (pm_path_kind m = PathRelay \<longrightarrow> policy = PolicyRequired)"
  by (cases sec; cases policy)
     (auto simp: security_for_def negotiate_security_def split: path_policy.splits)

lemma into_established_fields:
  "into_established_with_security L b sec h = Inr en \<Longrightarrow>
     en_path_security en = sec \<and> noise_finished L (nh_state h)"
  by (auto simp: into_established_with_security_def if_Inl_Inr try_bind_Inr split: option.splits)

lemma nh_write_Inr:
  "nh_write L p h = (Inr msg, h') \<Longrightarrow> \<exists>s. noise_write L p MAX_HANDSHAKE_FRAME_BYTES (nh_state h) = (Some msg, s)
     \<and> h' = h\<lparr>nh_state := s\<rparr>"
  by (auto simp: nh_write_def split: prod.splits option.splits)

lemma keep_nh_write:
  "keep (nh_write L p h) = Inr (msg, h') \<Longrightarrow> \<exists>s. noise_write L p MAX_HANDSHAKE_FRAME_BYTES (nh_state h)
     = (Some msg, s) \<and> nh_state h' = s"
  by (auto simp: keep_Inr dest: nh_write_Inr)

end
