(* ===== verification/Handshake_Agreement.thy ===== *)
theory Handshake_Agreement
  imports Handshake_Auth
begin

text \<open>
  Two honest devices over an honest channel complete the handshake and agree.  What the code
  relies on from its libraries are the hypotheses below: Noise XX delivers its payloads and
  authenticates the static keys, the transport of an established session decrypts what the other
  end encrypted, Ed25519 verifies its own signatures and HKDF returns 32 bytes.
\<close>

section \<open>The libraries\<close>

text \<open>
  \<open>noise_message L Q a b\<close>: a message written in state \<open>a\<close> into a buffer with room for it is read
  in state \<open>b\<close>, and the states reached satisfy \<open>Q\<close>.  A message of the XX pattern adds at most two
  keys and two tags, 96 bytes, to its payload.
\<close>

definition noise_message ::
  "('k, 'n, 't) hs_lib \<Rightarrow> ('n \<Rightarrow> 'n \<Rightarrow> bool) \<Rightarrow> 'n \<Rightarrow> 'n \<Rightarrow> bool" where
  "noise_message L Q a b \<longleftrightarrow>
     (\<forall>p n n'. length p + 96 \<le> n \<and> length p \<le> n' \<longrightarrow>
        (\<exists>m a' b'. noise_write L p n a = (Some m, a') \<and> m \<noteq> [] \<and> length m \<le> n
           \<and> noise_read L m n' b = (Some p, b') \<and> Q a' b'))"

text \<open>
  \<open>K\<close> relates the private and public half of a key pair, \<open>R\<close> the two ends of a transport.
\<close>

definition noise_established :: "('k, 'n, 't) hs_lib \<Rightarrow> ('t \<Rightarrow> 't \<Rightarrow> bool) \<Rightarrow> 'n \<Rightarrow> 'n \<Rightarrow> bool" where
  "noise_established L R a b \<longleftrightarrow> noise_finished L a \<and> noise_finished L b
     \<and> noise_hash L a = noise_hash L b \<and> length (noise_hash L a) = 32
     \<and> (\<exists>ta tb. noise_transport L a = Some ta \<and> noise_transport L b = Some tb \<and> R ta tb)"

definition noise_xx ::
  "('k, 'n, 't) hs_lib \<Rightarrow> (byte list \<Rightarrow> byte list \<Rightarrow> bool) \<Rightarrow> ('t \<Rightarrow> 't \<Rightarrow> bool) \<Rightarrow> bool" where
  "noise_xx L K R \<longleftrightarrow> noise_parse L NOISE_PATTERN \<and>
     (\<forall>ki pi kr pr. K ki pi \<and> K kr pr \<longrightarrow> length pi = 32 \<and> length pr = 32 \<and>
        (\<exists>a b. noise_build L True ki HANDSHAKE_DOMAIN = Some a
           \<and> noise_build L False kr HANDSHAKE_DOMAIN = Some b
           \<and> noise_message L (\<lambda>a b. noise_message L (\<lambda>b a. noise_remote_static L a = Some pr
               \<and> noise_message L (\<lambda>a b. noise_remote_static L b = Some pi
                   \<and> noise_established L R a b) a b) b a) a b))"

definition transport_ok :: "('k, 'n, 't) hs_lib \<Rightarrow> ('t \<Rightarrow> 't \<Rightarrow> bool) \<Rightarrow> bool" where
  "transport_ok L R \<longleftrightarrow>
     (\<forall>s r. R s r \<longrightarrow> R r s \<and> (\<forall>p n n'. length p + 16 \<le> n \<and> length p \<le> n' \<longrightarrow>
        (\<exists>c s' r'. transport_write L p n s = (Some c, s') \<and> c \<noteq> [] \<and> length c \<le> n
           \<and> transport_read L c n' r = (Some p, r') \<and> R s' r')))"

definition ed25519_ok :: "('k, 'n, 't) hs_lib \<Rightarrow> bool" where
  "ed25519_ok L \<longleftrightarrow> (\<forall>k m. length (ed_public L k) = 32 \<and> ed_key_ok L (ed_public L k)
     \<and> length (ed_sign L k m) = 64 \<and> ed_verify L (ed_public L k) m (ed_sign L k m))"

definition hkdf_ok :: "('k, 'n, 't) hs_lib \<Rightarrow> bool" where
  "hkdf_ok L \<longleftrightarrow> (\<forall>salt ikm info. \<exists>k. hkdf (hl_crypto L) salt ikm info = Some k \<and> length k = 32)"

definition hs_lib_ok ::
  "('k, 'n, 't) hs_lib \<Rightarrow> (byte list \<Rightarrow> byte list \<Rightarrow> bool) \<Rightarrow> ('t \<Rightarrow> 't \<Rightarrow> bool) \<Rightarrow> bool" where
  "hs_lib_ok L K R \<longleftrightarrow> noise_xx L K R \<and> transport_ok L R \<and> ed25519_ok L \<and> hkdf_ok L"

section \<open>The root and identity exchanges\<close>

definition agree :: "session_crypto_material \<Rightarrow> session_crypto_material \<Rightarrow> bool" where
  "agree mi mr \<longleftrightarrow> sm_root_key mi = sm_root_key mr \<and> length (sm_root_key mi) = 32
     \<and> sm_local_session_binding mi = sm_remote_session_binding mr
     \<and> sm_remote_session_binding mi = sm_local_session_binding mr
     \<and> sm_initiator mi \<and> \<not> sm_initiator mr
     \<and> sm_path_security mi = sm_path_security mr \<and> sm_e2ee_policy mi = sm_e2ee_policy mr"

lemma exchange_message:
  assumes "transport_ok L R" "R (en_transport s) (en_transport r)"
    and "valid_binding (en_session_binding s)"
    and "t \<in> {ROOT_EXCHANGE_ROOT_SEED, ROOT_EXCHANGE_ROOT_CONFIRM, ROOT_EXCHANGE_ACCEPT,
          IDENTITY_ONLY_BINDING, IDENTITY_ONLY_CONFIRM, IDENTITY_ONLY_ACCEPT}" "length b \<le> 256"
  obtains c s' r' where "encrypt_exchange L t b s = (Inr c, s')" "c \<noteq> []" "length c \<le> 65536"
    "read_exchange L c r = (Inr (exchange_bytes t (en_session_binding s) b), r')"
    "same_session s s'" "same_session r r'" "R (en_transport r') (en_transport s')"
proof -
  let ?p = "exchange_bytes t (en_session_binding s) b"
  have len: "length ?p \<le> 4000"
    using assms(3,5) by (simp add: exchange_bytes_def valid_binding_def)
  have p: "root_exchange_payload t (en_session_binding s) b = Inr ?p"
    using assms(3-5) by (simp add: root_exchange_payload_Inr)
  have "length ?p + 16 \<le> length ?p + 16 \<and> length ?p \<le> 4096" using len by simp
  with assms(1,2) obtain c ts tr where
    w: "transport_write L ?p (length ?p + 16) (en_transport s) = (Some c, ts)" "c \<noteq> []"
    "length c \<le> length ?p + 16" "transport_read L c 4096 (en_transport r) = (Some ?p, tr)" "R ts tr"
    unfolding transport_ok_def by blast
  have "R tr ts" using assms(1) w(5) unfolding transport_ok_def by blast
  with p w len show thesis
    by (intro that [of c "s\<lparr>en_transport := ts\<rparr>" "r\<lparr>en_transport := tr\<rparr>"])
      (auto simp: encrypt_exchange_def read_exchange_def handshake_limits same_session_def)
qed

lemma text_payload:
  assumes "valid_binding b"
  shows "cur_take_string MAX_SESSION_BINDING_BYTES (cursor_new (u16_field (str_bytes b)))
    = Inr (b, advance (2 + length b) (cursor_new (u16_field (str_bytes b))))"
  using text_field.parse_iff [of "cursor_new (u16_field (str_bytes b))" "u16_field (str_bytes b)"]
    assms valid_binding_str [OF assms] by (simp add: valid_binding_def handshake_limits)

lemma parse_root_value_encoded:
  "valid_binding b \<Longrightarrow> length v = n \<Longrightarrow> parse_root_value n (v @ u16_field (str_bytes b)) = Inr (v, b)"
  by (simp add: parse_root_value_def text_payload cursor_new_advance)

lemma parse_identity_encoded:
  "valid_binding b \<Longrightarrow> parse_identity_only_binding_payload (u16_field (str_bytes b)) = Inr b"
  by (simp add: parse_identity_only_binding_payload_def text_payload cursor_new_advance)

definition paired :: "('t \<Rightarrow> 't \<Rightarrow> bool) \<Rightarrow> 't established_noise \<Rightarrow> 't established_noise \<Rightarrow> bool" where
  "paired R ei er \<longleftrightarrow> en_initiator ei \<and> \<not> en_initiator er
     \<and> en_handshake_hash ei = en_handshake_hash er \<and> en_session_binding ei = en_session_binding er
     \<and> en_path_security ei = en_path_security er \<and> valid_binding (en_session_binding er)
     \<and> R (en_transport er) (en_transport ei)"

lemma root_payloads:
  assumes "valid_binding b"
  shows "root_seed_payload v b = Inr (v @ u16_field (str_bytes b))"
    "root_confirm_payload v b = Inr (v @ u16_field (str_bytes b))"
    "identity_only_binding_payload b = Inr (u16_field (str_bytes b))"
  using assms by (simp_all add: root_seed_payload_def root_confirm_payload_def
      identity_only_binding_payload_def valid_binding_append)

text \<open>What the receiver makes of the bytes of a message.\<close>

lemma decrypt_message:
  assumes "read_exchange L c r = (Inr (exchange_bytes t (en_session_binding r) b), r')"
    and "same_session r r'" "valid_binding (en_session_binding r)" "length b \<le> 4096"
  shows "t = ROOT_EXCHANGE_ROOT_SEED \<Longrightarrow> decrypt_root_seed_exchange L c r = (parse_root_value 32 b, r')"
    and "t = ROOT_EXCHANGE_ROOT_CONFIRM \<Longrightarrow> decrypt_root_confirm_exchange L c r = (parse_root_value 32 b, r')"
    and "t = IDENTITY_ONLY_BINDING \<Longrightarrow>
      decrypt_identity_only_binding L c r = (parse_identity_only_binding_payload b, r')"
    and "t = IDENTITY_ONLY_CONFIRM \<Longrightarrow>
      decrypt_identity_only_confirm L c r = (parse_identity_only_binding_payload b, r')"
    and "b = [] \<Longrightarrow> decrypt_fixed_exchange L 0 t c r = (Inr [], r')"
proof -
  have p: "parse_root_exchange_payload (exchange_bytes t (en_session_binding r) b) t (en_session_binding r)
      = Inr b"
    using assms(3,4) by (simp add: parse_root_exchange_iff)
  note s = same_session_fields [OF assms(2)]
  show "t = ROOT_EXCHANGE_ROOT_SEED \<Longrightarrow> decrypt_root_seed_exchange L c r = (parse_root_value 32 b, r')"
    using p by (simp add: decrypt_root_seed_exchange_def assms(1) s handshake_limits)
  show "t = ROOT_EXCHANGE_ROOT_CONFIRM \<Longrightarrow> decrypt_root_confirm_exchange L c r = (parse_root_value 32 b, r')"
    using p by (simp add: decrypt_root_confirm_exchange_def assms(1) s handshake_limits)
  show "t = IDENTITY_ONLY_BINDING \<Longrightarrow>
      decrypt_identity_only_binding L c r = (parse_identity_only_binding_payload b, r')"
    using p by (simp add: decrypt_identity_only_binding_def assms(1) s)
  show "t = IDENTITY_ONLY_CONFIRM \<Longrightarrow>
      decrypt_identity_only_confirm L c r = (parse_identity_only_binding_payload b, r')"
    using p by (simp add: decrypt_identity_only_confirm_def assms(1) s)
  show "b = [] \<Longrightarrow> decrypt_fixed_exchange L 0 t c r = (Inr [], r')"
    using p by (simp add: decrypt_fixed_exchange_def parse_fixed_root_exchange_payload_def assms(1) s)
qed

definition frame_ok :: "byte list \<Rightarrow> bool" where
  "frame_ok m \<longleftrightarrow> m \<noteq> [] \<and> length m \<le> 65536"

lemma root_exchange_agrees:
  assumes lib: "transport_ok L R" "hkdf_ok L" and pr: "paired R ei er"
    and sec: "en_path_security er = PathE2ee"
    and b: "valid_binding li" "valid_binding lr" "length seed = 32"
  shows "\<exists>x c1 y y' c2 c3 mi mr.
    begin_responder L seed lr er = Inr (x, c1) \<and> accept_root_seed L c1 ei = Inr y
    \<and> ir_remote_session_binding y = lr \<and> ir_confirm L li y = Inr (y', c2)
    \<and> rr_accept_confirm L c2 x = Inr (c3, mr) \<and> ir_accept L c3 y' = Inr mi
    \<and> frame_ok c1 \<and> frame_ok c2 \<and> frame_ok c3 \<and> has_application_e2ee mi
    \<and> agree mi mr \<and> sm_local_session_binding mi = li \<and> sm_local_session_binding mr = lr"
proof -
  let ?h = "en_handshake_hash er" and ?s = "en_session_binding er"
  note p = pr [unfolded paired_def]
  obtain root where root: "derive_application_root L seed ?h ?s = Inr root" "length root = 32"
    using lib(2) unfolding hkdf_ok_def derive_application_root_def by (metis option.simps(5))
  obtain conf where conf: "derive_root_confirm L root ?h ?s = Inr conf" "length conf = 32"
    using lib(2) unfolding hkdf_ok_def derive_root_confirm_def by (metis option.simps(5))
  have lens: "length (seed @ u16_field (str_bytes lr)) \<le> 256" "length (conf @ u16_field (str_bytes li)) \<le> 256"
    using b conf(2) by (simp_all add: valid_binding_def)
  obtain c1 er1 ei1 where m1: "encrypt_exchange L ROOT_EXCHANGE_ROOT_SEED (seed @ u16_field (str_bytes lr)) er
      = (Inr c1, er1)" "c1 \<noteq> []" "length c1 \<le> 65536"
    "read_exchange L c1 ei = (Inr (exchange_bytes ROOT_EXCHANGE_ROOT_SEED ?s (seed @ u16_field (str_bytes lr))), ei1)"
    "same_session er er1" "same_session ei ei1" "R (en_transport ei1) (en_transport er1)"
    by (rule exchange_message [OF lib(1), of er ei ROOT_EXCHANGE_ROOT_SEED]) (use p lens in auto)
  note s1 = same_session_fields [OF m1(5)] same_session_fields [OF m1(6)]
  obtain c2 ei2 er2 where m2: "encrypt_exchange L ROOT_EXCHANGE_ROOT_CONFIRM (conf @ u16_field (str_bytes li)) ei1
      = (Inr c2, ei2)" "c2 \<noteq> []" "length c2 \<le> 65536"
    "read_exchange L c2 er1 = (Inr (exchange_bytes ROOT_EXCHANGE_ROOT_CONFIRM ?s (conf @ u16_field (str_bytes li))), er2)"
    "same_session ei1 ei2" "same_session er1 er2" "R (en_transport er2) (en_transport ei2)"
    by (rule exchange_message [OF lib(1) m1(7), of ROOT_EXCHANGE_ROOT_CONFIRM]) (use p s1 lens in auto)
  note s2 = same_session_fields [OF m2(5)] same_session_fields [OF m2(6)]
  obtain c3 er3 ei3 where m3: "encrypt_exchange L ROOT_EXCHANGE_ACCEPT [] er2 = (Inr c3, er3)" "c3 \<noteq> []"
    "length c3 \<le> 65536" "read_exchange L c3 ei2 = (Inr (exchange_bytes ROOT_EXCHANGE_ACCEPT ?s []), ei3)"
    "same_session er2 er3" "same_session ei2 ei3" "R (en_transport ei3) (en_transport er3)"
    by (rule exchange_message [OF lib(1) m2(7), of ROOT_EXCHANGE_ACCEPT]) (use p s1 s2 in auto)
  note s3 = same_session_fields [OF m3(5)] same_session_fields [OF m3(6)]
  have d1: "decrypt_root_seed_exchange L c1 ei = (Inr (seed, lr), ei1)"
    using decrypt_message(1) [of L c1 ei ROOT_EXCHANGE_ROOT_SEED _ ei1] m1 p lens b
    by (simp add: parse_root_value_encoded)
  have d2: "decrypt_root_confirm_exchange L c2 er1 = (Inr (conf, li), er2)"
    using decrypt_message(2) [of L c2 er1 ROOT_EXCHANGE_ROOT_CONFIRM _ er2] m2 p s1 lens b conf
    by (simp add: parse_root_value_encoded)
  have d3: "decrypt_fixed_exchange L 0 ROOT_EXCHANGE_ACCEPT c3 ei2 = (Inr [], ei3)"
    using decrypt_message(5) [of L c3 ei2 ROOT_EXCHANGE_ACCEPT "[]" ei3] m3 p s1 s2 by simp
  let ?x = "\<lparr>rr_noise = er1, rr_root_key = root, rr_expected_confirm = conf, rr_local_session_binding = lr\<rparr>"
  let ?y = "\<lparr>ir_noise = ei1, ir_root_key = root, ir_expected_confirm = conf,
    ir_remote_session_binding = lr, ir_local_session_binding = []\<rparr>"
  have "begin_responder L seed lr er = Inr (?x, c1)"
    using p sec b root conf m1(1) by (simp add: begin_responder_def security_has_e2ee_def root_payloads)
  moreover have "accept_root_seed L c1 ei = Inr ?y"
    using p sec d1 s1 root conf by (simp add: accept_root_seed_def security_has_e2ee_def)
  moreover have "ir_confirm L li ?y = Inr (?y\<lparr>ir_noise := ei2, ir_local_session_binding := li\<rparr>, c2)"
    using b m2(1) by (simp add: ir_confirm_def root_payloads)
  moreover have "rr_accept_confirm L c2 ?x = Inr (c3, into_material root lr li er3)"
    using d2 m3(1) by (simp add: rr_accept_confirm_def)
  moreover have "ir_accept L c3 (?y\<lparr>ir_noise := ei2, ir_local_session_binding := li\<rparr>)
      = Inr (into_material root li lr ei3)"
    using d3 by (simp add: ir_accept_def)
  moreover have "agree (into_material root li lr ei3) (into_material root lr li er3)"
    "has_application_e2ee (into_material root li lr ei3)"
    using p sec s1 s2 s3 root
    by (simp_all add: agree_def into_material_def has_application_e2ee_def security_has_e2ee_def)
  ultimately show ?thesis
    using m1(2,3) m2(2,3) m3(2,3) unfolding frame_ok_def into_material_def by fastforce
qed

lemma identity_exchange_agrees:
  assumes lib: "transport_ok L R" and pr: "paired R ei er"
    and sec: "en_path_security er = PathIdentityOnly"
    and b: "valid_binding li" "valid_binding lr"
  shows "\<exists>x c1 y y' c2 c3 mi mr.
    begin_identity_only L lr er = Inr (x, c1) \<and> accept_identity_only_binding L c1 ei = Inr y
    \<and> ii_remote_session_binding y = lr \<and> ii_confirm L li y = Inr (y', c2)
    \<and> ri_accept_confirm L c2 x = Inr (c3, mr) \<and> ii_accept L c3 y' = Inr mi
    \<and> frame_ok c1 \<and> frame_ok c2 \<and> frame_ok c3
    \<and> agree mi mr \<and> sm_local_session_binding mi = li \<and> sm_local_session_binding mr = lr"
proof -
  let ?s = "en_session_binding er"
  note p = pr [unfolded paired_def]
  have lens: "length (u16_field (str_bytes lr)) \<le> 256" "length (u16_field (str_bytes li)) \<le> 256"
    using b by (simp_all add: valid_binding_def)
  obtain c1 er1 ei1 where m1: "encrypt_exchange L IDENTITY_ONLY_BINDING (u16_field (str_bytes lr)) er
      = (Inr c1, er1)" "c1 \<noteq> []" "length c1 \<le> 65536"
    "read_exchange L c1 ei = (Inr (exchange_bytes IDENTITY_ONLY_BINDING ?s (u16_field (str_bytes lr))), ei1)"
    "same_session er er1" "same_session ei ei1" "R (en_transport ei1) (en_transport er1)"
    by (rule exchange_message [OF lib, of er ei IDENTITY_ONLY_BINDING]) (use p lens in auto)
  note s1 = same_session_fields [OF m1(5)] same_session_fields [OF m1(6)]
  obtain c2 ei2 er2 where m2: "encrypt_exchange L IDENTITY_ONLY_CONFIRM (u16_field (str_bytes li)) ei1
      = (Inr c2, ei2)" "c2 \<noteq> []" "length c2 \<le> 65536"
    "read_exchange L c2 er1 = (Inr (exchange_bytes IDENTITY_ONLY_CONFIRM ?s (u16_field (str_bytes li))), er2)"
    "same_session ei1 ei2" "same_session er1 er2" "R (en_transport er2) (en_transport ei2)"
    by (rule exchange_message [OF lib m1(7), of IDENTITY_ONLY_CONFIRM]) (use p s1 lens in auto)
  note s2 = same_session_fields [OF m2(5)] same_session_fields [OF m2(6)]
  obtain c3 er3 ei3 where m3: "encrypt_exchange L IDENTITY_ONLY_ACCEPT [] er2 = (Inr c3, er3)" "c3 \<noteq> []"
    "length c3 \<le> 65536" "read_exchange L c3 ei2 = (Inr (exchange_bytes IDENTITY_ONLY_ACCEPT ?s []), ei3)"
    "same_session er2 er3" "same_session ei2 ei3" "R (en_transport ei3) (en_transport er3)"
    by (rule exchange_message [OF lib m2(7), of IDENTITY_ONLY_ACCEPT]) (use p s1 s2 in auto)
  have d1: "decrypt_identity_only_binding L c1 ei = (Inr lr, ei1)"
    using decrypt_message(3) [of L c1 ei IDENTITY_ONLY_BINDING _ ei1] m1 p lens b
    by (simp add: parse_identity_encoded)
  have d2: "decrypt_identity_only_confirm L c2 er1 = (Inr li, er2)"
    using decrypt_message(4) [of L c2 er1 IDENTITY_ONLY_CONFIRM _ er2] m2 p s1 lens b
    by (simp add: parse_identity_encoded)
  have d3: "decrypt_fixed_exchange L 0 IDENTITY_ONLY_ACCEPT c3 ei2 = (Inr [], ei3)"
    using decrypt_message(5) [of L c3 ei2 IDENTITY_ONLY_ACCEPT "[]" ei3] m3 p s1 s2 by simp
  let ?x = "\<lparr>ri_noise = er1, ri_local_session_binding = lr\<rparr>"
  let ?y = "\<lparr>ii_noise = ei1, ii_remote_session_binding = lr, ii_local_session_binding = []\<rparr>"
  have "begin_identity_only L lr er = Inr (?x, c1)"
    using p sec b m1(1) by (simp add: begin_identity_only_def root_payloads)
  moreover have "accept_identity_only_binding L c1 ei = Inr ?y"
    using p sec d1 by (simp add: accept_identity_only_binding_def)
  moreover have "ii_confirm L li ?y = Inr (?y\<lparr>ii_noise := ei2, ii_local_session_binding := li\<rparr>, c2)"
    using b m2(1) by (simp add: ii_confirm_def root_payloads)
  moreover have "ri_accept_confirm L c2 ?x = Inr (c3, material_identity_only lr li False)"
    using d2 m3(1) by (simp add: ri_accept_confirm_def)
  moreover have "ii_accept L c3 (?y\<lparr>ii_noise := ei2, ii_local_session_binding := li\<rparr>)
      = Inr (material_identity_only li lr True)"
    using d3 by (simp add: ii_accept_def)
  ultimately show ?thesis
    using m1(2,3) m2(2,3) m3(2,3) unfolding frame_ok_def agree_def material_identity_only_def by fastforce
qed

section \<open>The Noise messages\<close>

lemma proof_payload_signed:
  assumes "ed25519_ok L" "valid_metadata m" "valid_binding s" "valid_binding l"
    and "nh_identity_public h = public_identity_key L (nh_identity h)"
  obtains sig where "length sig = 64"
    "ed_verify L (nh_identity_public h) (proof_bytes role (device_id (nh_identity h))
       (nh_identity_public h) (nh_local_static_public h) s l m) sig"
    "proof_payload_with_signature_with_path L h role s l m
      = Inr (proof_bytes role (device_id (nh_identity h)) (nh_identity_public h)
               (nh_local_static_public h) s l m @ sig)"
  using assms(1) unfolding ed25519_ok_def
  by (intro that [of "ed_sign L (identity_key (nh_identity h)) (proof_bytes role
        (device_id (nh_identity h)) (nh_identity_public h) (nh_local_static_public h) s l m)"])
     (simp_all add: assms(2-5) proof_payload_with_signature_with_path_def proof_payload_Some
      sign_proof_def public_identity_key_def handshake_limits Let_def)

lemma proof_accepted:
  assumes "valid_metadata m" "valid_binding s" "valid_binding l" "valid_device_id d"
    and "noise_remote_static L (nh_state h) = Some static" "length static = 32" "length key = 32"
    and "length sig = 64" "ed_key_ok L key" "ed_verify L key (proof_bytes role d key static s l m) sig"
  shows "parse_proof_identity_with_path L (proof_bytes role d key static s l m @ sig) role h s m
      = Inr (d, key, l)"
    and "validate_proof_with_path L (proof_bytes role d key static s l m @ sig) role d key h s m = Inr l"
    and "s = l \<Longrightarrow> role = 1 \<Longrightarrow> hm_get trusted d = Some key \<Longrightarrow>
      authenticate_initiator L trusted (proof_bytes role d key static s l m @ sig) h s m = Inr d"
proof -
  show p: "parse_proof_identity_with_path L (proof_bytes role d key static s l m @ sig) role h s m
      = Inr (d, key, l)"
    using assms by (auto simp: parse_proof_iff)
  have v: "verify_proof_signature_with_path L (proof_bytes role d key static s l m @ sig) d s l key m = Inr ()"
    using assms(6-10) by (simp add: verify_proof_signature_iff)
  show "validate_proof_with_path L (proof_bytes role d key static s l m @ sig) role d key h s m = Inr l"
    by (simp add: validate_proof_with_path_def p v)
  show "s = l \<Longrightarrow> role = 1 \<Longrightarrow> hm_get trusted d = Some key \<Longrightarrow>
      authenticate_initiator L trusted (proof_bytes role d key static s l m @ sig) h s m = Inr d"
    using p v by (simp add: authenticate_initiator_def)
qed

lemma nh_message:
  assumes "noise_message L Q (nh_state h) (nh_state g)" "length p \<le> 4096"
  obtains msg a b where "nh_write L p h = (Inr msg, h\<lparr>nh_state := a\<rparr>)"
    "nh_read L msg g = (Inr p, g\<lparr>nh_state := b\<rparr>)" "frame_ok msg" "Q a b"
proof -
  have "length p + 96 \<le> 65536 \<and> length p \<le> 4096" using assms(2) by simp
  then obtain msg a b where "noise_write L p 65536 (nh_state h) = (Some msg, a)" "msg \<noteq> []"
    "length msg \<le> 65536" "noise_read L msg 4096 (nh_state g) = (Some p, b)" "Q a b"
    using assms(1) unfolding noise_message_def by blast
  then show thesis
    by (intro that) (auto simp: nh_write_def nh_read_def frame_ok_def handshake_limits)
qed

lemma payload_lengths:
  "valid_metadata m \<Longrightarrow> valid_binding s \<Longrightarrow> length (hello_bytes s m) \<le> 4096"
  "valid_metadata m \<Longrightarrow> valid_binding s \<Longrightarrow> valid_binding l \<Longrightarrow> valid_device_id d \<Longrightarrow> length key = 32 \<Longrightarrow>
     length static = 32 \<Longrightarrow> length sig = 64 \<Longrightarrow> length (proof_bytes role d key static s l m @ sig) \<le> 4096"
  by (simp_all add: hello_bytes_def proof_bytes_def length_metadata_bytes valid_metadata_def
      valid_binding_def valid_device_id_def path_limits)

lemma proof_message:
  assumes ed: "ed25519_ok L" and m: "valid_metadata m" and s: "valid_binding s"
    and h: "nh_identity h = I" "nh_identity_public h = public_identity_key L I"
    "nh_local_static_public h = static" "length static = 32" and d: "valid_device_id (device_id I)"
    and msg: "noise_message L Q (nh_state h) (nh_state g)"
  obtains p msg a b where "proof_payload_with_signature_with_path L h role s s m = Inr p"
    "nh_write L p h = (Inr msg, h\<lparr>nh_state := a\<rparr>)" "nh_read L msg g = (Inr p, g\<lparr>nh_state := b\<rparr>)"
    "frame_ok msg" "Q a b"
    "\<And>f. noise_remote_static L (nh_state f) = Some static \<Longrightarrow>
       validate_proof_with_path L p role (device_id I) (public_identity_key L I) f s m = Inr s"
    "\<And>f trusted. noise_remote_static L (nh_state f) = Some static \<Longrightarrow> role = 1 \<Longrightarrow>
       hm_get trusted (device_id I) = Some (public_identity_key L I) \<Longrightarrow>
       authenticate_initiator L trusted p f s m = Inr (device_id I)"
proof -
  have key: "length (public_identity_key L I) = 32" "ed_key_ok L (public_identity_key L I)"
    using ed by (simp_all add: ed25519_ok_def public_identity_key_def)
  obtain sig where g: "length sig = 64" "ed_verify L (public_identity_key L I)
      (proof_bytes role (device_id I) (public_identity_key L I) static s s m) sig"
    "proof_payload_with_signature_with_path L h role s s m
      = Inr (proof_bytes role (device_id I) (public_identity_key L I) static s s m @ sig)"
    using proof_payload_signed [OF ed m s s, of h role] h by auto
  let ?p = "proof_bytes role (device_id I) (public_identity_key L I) static s s m @ sig"
  have len: "length ?p \<le> 4096" by (intro payload_lengths(2)) (use m s d key h g in auto)
  obtain c a b where w: "nh_write L ?p h = (Inr c, h\<lparr>nh_state := a\<rparr>)"
    "nh_read L c g = (Inr ?p, g\<lparr>nh_state := b\<rparr>)" "frame_ok c" "Q a b"
    by (rule nh_message [OF msg len]) blast
  show thesis
    by (rule that [OF g(3) w]; intro proof_accepted(2,3)) (use m s d h key g in auto)
qed

lemma noise_phase:
  assumes lib: "hs_lib_ok L K R" and k: "K ki pi" "K kr pr"
    and ids: "valid_device_id (device_id I)" "valid_device_id (device_id J)"
    and s: "valid_binding s" and m: "valid_metadata m"
    and tr: "hm_get trusted (device_id I) = Some (public_identity_key L I)"
  shows "\<exists>hi hr m1 hi1 hr1 p2 m2 hr2 hi2 p3 m3 hi3 hr3.
    noise_new L (Some (ki, pi)) I True = Inr hi \<and> noise_new L (Some (kr, pr)) J False = Inr hr
    \<and> nh_write L (hello_bytes s m) hi = (Inr m1, hi1) \<and> nh_read L m1 hr = (Inr (hello_bytes s m), hr1)
    \<and> proof_payload_with_signature_with_path L hr1 2 s s m = Inr p2
    \<and> nh_write L p2 hr1 = (Inr m2, hr2) \<and> nh_read L m2 hi1 = (Inr p2, hi2)
    \<and> validate_proof_with_path L p2 2 (device_id J) (public_identity_key L J) hi2 s m = Inr s
    \<and> proof_payload_with_signature_with_path L hi2 1 s s m = Inr p3
    \<and> nh_write L p3 hi2 = (Inr m3, hi3) \<and> nh_read L m3 hr2 = (Inr p3, hr3)
    \<and> authenticate_initiator L trusted p3 hr3 s m = Inr (device_id I)
    \<and> frame_ok m1 \<and> frame_ok m2 \<and> frame_ok m3
    \<and> (\<forall>sec. \<exists>ei er. into_established_with_security L s sec hi3 = Inr ei
         \<and> into_established_with_security L s sec hr3 = Inr er \<and> paired R ei er
         \<and> en_path_security er = sec)"
proof -
  have ed: "ed25519_ok L" and sym: "\<And>a b. R a b \<Longrightarrow> R b a"
    using lib by (auto simp: hs_lib_ok_def transport_ok_def)
  let ?Q3 = "\<lambda>a b. noise_remote_static L b = Some pi \<and> noise_established L R a b"
  let ?Q2 = "\<lambda>b a. noise_remote_static L a = Some pr \<and> noise_message L ?Q3 a b"
  obtain a b where st: "noise_parse L NOISE_PATTERN" "length pi = 32" "length pr = 32"
    "noise_build L True ki HANDSHAKE_DOMAIN = Some a" "noise_build L False kr HANDSHAKE_DOMAIN = Some b"
    and msg: "noise_message L (\<lambda>a b. noise_message L ?Q2 b a) a b"
    using lib k unfolding hs_lib_ok_def noise_xx_def by blast
  define hi where "hi = \<lparr>nh_state = a, nh_identity = I, nh_local_static_public = pi,
    nh_identity_public = public_identity_key L I, nh_initiator = True\<rparr>"
  define hr where "hr = \<lparr>nh_state = b, nh_identity = J, nh_local_static_public = pr,
    nh_identity_public = public_identity_key L J, nh_initiator = False\<rparr>"
  have new: "noise_new L (Some (ki, pi)) I True = Inr hi" "noise_new L (Some (kr, pr)) J False = Inr hr"
    using st by (simp_all add: noise_new_def hi_def hr_def handshake_limits)
  have msg': "noise_message L (\<lambda>a b. noise_message L ?Q2 b a) (nh_state hi) (nh_state hr)"
    using msg by (simp add: hi_def hr_def)
  obtain m1 a1 b1 where w1: "nh_write L (hello_bytes s m) hi = (Inr m1, hi\<lparr>nh_state := a1\<rparr>)"
    "nh_read L m1 hr = (Inr (hello_bytes s m), hr\<lparr>nh_state := b1\<rparr>)" "frame_ok m1"
    and q1: "noise_message L ?Q2 b1 a1"
    by (rule nh_message [OF msg' payload_lengths(1) [OF m s]]) blast
  let ?hi1 = "hi\<lparr>nh_state := a1\<rparr>" and ?hr1 = "hr\<lparr>nh_state := b1\<rparr>"
  obtain p2 m2 b2 a2 where w2: "proof_payload_with_signature_with_path L ?hr1 2 s s m = Inr p2"
    "nh_write L p2 ?hr1 = (Inr m2, ?hr1\<lparr>nh_state := b2\<rparr>)"
    "nh_read L m2 ?hi1 = (Inr p2, ?hi1\<lparr>nh_state := a2\<rparr>)" "frame_ok m2" "?Q2 b2 a2"
    and v2: "\<And>f. noise_remote_static L (nh_state f) = Some pr \<Longrightarrow>
      validate_proof_with_path L p2 2 (device_id J) (public_identity_key L J) f s m = Inr s"
    by (rule proof_message [OF ed m s, of ?hr1 J pr ?Q2 ?hi1 2]) (use q1 st ids in \<open>auto simp: hr_def\<close>)
  let ?hi2 = "?hi1\<lparr>nh_state := a2\<rparr>" and ?hr2 = "?hr1\<lparr>nh_state := b2\<rparr>"
  obtain p3 m3 a3 b3 where w3: "proof_payload_with_signature_with_path L ?hi2 1 s s m = Inr p3"
    "nh_write L p3 ?hi2 = (Inr m3, ?hi2\<lparr>nh_state := a3\<rparr>)"
    "nh_read L m3 ?hr2 = (Inr p3, ?hr2\<lparr>nh_state := b3\<rparr>)" "frame_ok m3" "?Q3 a3 b3"
    and v3: "\<And>f. noise_remote_static L (nh_state f) = Some pi \<Longrightarrow>
      authenticate_initiator L trusted p3 f s m = Inr (device_id I)"
    by (rule proof_message [OF ed m s, of ?hi2 I pi ?Q3 ?hr2 1]) (use w2(5) st ids tr in \<open>auto simp: hi_def\<close>)
  let ?hi3 = "?hi2\<lparr>nh_state := a3\<rparr>" and ?hr3 = "?hr2\<lparr>nh_state := b3\<rparr>"
  have v: "validate_proof_with_path L p2 2 (device_id J) (public_identity_key L J) ?hi2 s m = Inr s"
    "authenticate_initiator L trusted p3 ?hr3 s m = Inr (device_id I)"
    using v2 v3 w2(5) w3(5) by simp_all
  have est: "\<exists>ei er. into_established_with_security L s sec ?hi3 = Inr ei
       \<and> into_established_with_security L s sec ?hr3 = Inr er \<and> paired R ei er
       \<and> en_path_security er = sec" for sec
    using w3(5) s sym
    by (auto simp: noise_established_def into_established_with_security_def paired_def hi_def hr_def)
  show ?thesis
    by (intro exI conjI) (rule new w1 w2 w3 v allI [OF est])+
qed

section \<open>The handshake over a channel\<close>

text \<open>
  The contract of a channel of frames: an endpoint with the frames that will arrive, the number
  of frames it can still send and the frames it has sent.
\<close>

locale handshake_channel =
  fixes send :: "byte list \<Rightarrow> 's \<Rightarrow> (crypto_handshake_error + unit) \<times> 's"
    and recv :: "'s \<Rightarrow> (crypto_handshake_error + byte list) \<times> 's"
    and endpoint :: "byte list list \<Rightarrow> nat \<Rightarrow> byte list list \<Rightarrow> 's"
  assumes recv_endpoint: "frame_ok m \<Longrightarrow> recv (endpoint (m # ins) n out) = (Inr m, endpoint ins n out)"
    and send_endpoint: "frame_ok m \<Longrightarrow>
      send m (endpoint ins (Suc n) out) = (Inr (), endpoint ins n (out @ [m]))"
begin

lemma exchange_agrees:
  assumes lib: "transport_ok L R" "hkdf_ok L" and pr: "paired R ei er" "en_path_security er = sec"
    and b: "valid_binding li" "valid_binding lr" "length seed = 32"
    and r: "resolve peer lr = Inr (li, adm)"
  shows "\<exists>c1 c2 c3 mi mr. frame_ok c1 \<and> frame_ok c2 \<and> frame_ok c3
    \<and> initiator_exchange send recv L peer resolve sec ei (endpoint [c1, c3] (Suc 0) fi)
        = (Inr (mi, adm), endpoint [] 0 (fi @ [c2]))
    \<and> responder_exchange send recv L seed lr sec er (endpoint [c2] (Suc (Suc 0)) fr)
        = (Inr mr, endpoint [] 0 (fr @ [c1, c3]))
    \<and> agree mi mr \<and> sm_path_security mi = sec
    \<and> sm_local_session_binding mi = li \<and> sm_local_session_binding mr = lr"
proof (cases sec)
  case PathE2ee
  then obtain x c1 y y' c2 c3 mi mr where
    e: "begin_responder L seed lr er = Inr (x, c1)" "accept_root_seed L c1 ei = Inr y"
    "ir_remote_session_binding y = lr" "ir_confirm L li y = Inr (y', c2)"
    "rr_accept_confirm L c2 x = Inr (c3, mr)" "ir_accept L c3 y' = Inr mi"
    and f: "frame_ok c1" "frame_ok c2" "frame_ok c3" "agree mi mr"
    "sm_local_session_binding mi = li" "sm_local_session_binding mr = lr"
    using root_exchange_agrees [OF lib pr(1) _ b] pr(2) by blast
  have i: "initiator_exchange send recv L peer resolve sec ei (endpoint [c1, c3] (Suc 0) fi)
        = (Inr (mi, adm), endpoint [] 0 (fi @ [c2]))"
    using e f r by (simp add: initiator_exchange_def PathE2ee recv_endpoint send_endpoint)
  have "responder_exchange send recv L seed lr sec er (endpoint [c2] (Suc (Suc 0)) fr)
        = (Inr mr, endpoint [] 0 (fr @ [c1, c3]))"
    using e f by (simp add: responder_exchange_def PathE2ee recv_endpoint send_endpoint)
  with i f initiator_exchange_material [OF i] pr show ?thesis unfolding paired_def by metis
next
  case PathIdentityOnly
  then obtain x c1 y y' c2 c3 mi mr where
    e: "begin_identity_only L lr er = Inr (x, c1)" "accept_identity_only_binding L c1 ei = Inr y"
    "ii_remote_session_binding y = lr" "ii_confirm L li y = Inr (y', c2)"
    "ri_accept_confirm L c2 x = Inr (c3, mr)" "ii_accept L c3 y' = Inr mi"
    and f: "frame_ok c1" "frame_ok c2" "frame_ok c3" "agree mi mr"
    "sm_local_session_binding mi = li" "sm_local_session_binding mr = lr"
    using identity_exchange_agrees [OF lib(1) pr(1) _ b(1,2)] pr(2) by blast
  have i: "initiator_exchange send recv L peer resolve sec ei (endpoint [c1, c3] (Suc 0) fi)
        = (Inr (mi, adm), endpoint [] 0 (fi @ [c2]))"
    using e f r by (simp add: initiator_exchange_def PathIdentityOnly recv_endpoint send_endpoint)
  have "responder_exchange send recv L seed lr sec er (endpoint [c2] (Suc (Suc 0)) fr)
        = (Inr mr, endpoint [] 0 (fr @ [c1, c3]))"
    using e f by (simp add: responder_exchange_def PathIdentityOnly recv_endpoint send_endpoint)
  with i f initiator_exchange_material [OF i] pr show ?thesis unfolding paired_def by metis
qed

lemma handshake_agrees:
  assumes lib: "hs_lib_ok L K R" and k: "K ki pi" "K kr pr"
    and ids: "valid_device_id (device_id I)" "valid_device_id (device_id J)"
    and s: "valid_binding s" and prof: "prof \<noteq> []" "length prof \<le> 256"
    and pol: "rp = None \<or> rp = Some policy"
    and tr: "hm_get trusted (device_id I) = Some (public_identity_key L I)"
    and b: "valid_binding li" "valid_binding lr" "length seed = 32"
    and ri: "ri (device_id J) lr = Inr (li, ai)" and rr: "rr (device_id I) s = Inr (lr, ar)"
  shows "\<exists>fi fr mi mr.
    initiator_handshake send recv L (Some (ki, pi)) I (device_id J) (public_identity_key L J) s (Inr prof)
      policy ri (endpoint fr (Suc (Suc (Suc 0))) []) = (Inr (mi, ai), endpoint [] 0 fi)
    \<and> responder_handshake send recv L (Some (kr, pr)) seed J trusted (Inr prof) rp rr
      (endpoint fi (Suc (Suc (Suc 0))) []) = (Inr (device_id I, mr, ar), endpoint [] 0 fr)
    \<and> agree mi mr \<and> sm_e2ee_policy mi = policy
    \<and> sm_local_session_binding mi = li \<and> sm_local_session_binding mr = lr"
proof -
  obtain m where m: "direct_path_metadata s prof policy = Inr m"
    using s prof by (simp add: direct_path_metadata_def path_metadata_new_def validate_path_bytes_def
        path_limits valid_binding_def)
  note v = direct_path_metadata_Inr [OF m]
  then have vm: "valid_metadata m" by simp
  define sec where "sec = (if policy = PolicyRequired then PathE2ee else PathIdentityOnly)"
  have sec: "security_for policy m = Inr sec" "validate_direct_path_metadata m prof policy = Inr sec"
    using v by (cases policy; simp add: security_for_Inr validate_direct_path_metadata_def sec_def)+
  have "(case rp of Some p \<Rightarrow> p | None \<Rightarrow> pm_e2ee_policy m) = policy" using pol v by auto
  note sec = sec this
  have hello: "hello_payload_with_path s m = Inr (hello_bytes s m)"
    "parse_hello_with_path (hello_bytes s m) = Inr (s, m)"
    using v s by (simp_all add: hello_payload_Inr parse_hello_iff)
  obtain hi hr m1 hi1 hr1 p2 m2 hr2 hi2 p3 m3 hi3 hr3 where
    n: "noise_new L (Some (ki, pi)) I True = Inr hi" "noise_new L (Some (kr, pr)) J False = Inr hr"
    "nh_write L (hello_bytes s m) hi = (Inr m1, hi1)" "nh_read L m1 hr = (Inr (hello_bytes s m), hr1)"
    "proof_payload_with_signature_with_path L hr1 2 s s m = Inr p2"
    "nh_write L p2 hr1 = (Inr m2, hr2)" "nh_read L m2 hi1 = (Inr p2, hi2)"
    "validate_proof_with_path L p2 2 (device_id J) (public_identity_key L J) hi2 s m = Inr s"
    "proof_payload_with_signature_with_path L hi2 1 s s m = Inr p3"
    "nh_write L p3 hi2 = (Inr m3, hi3)" "nh_read L m3 hr2 = (Inr p3, hr3)"
    "authenticate_initiator L trusted p3 hr3 s m = Inr (device_id I)"
    "frame_ok m1" "frame_ok m2" "frame_ok m3"
    and est: "\<forall>sec. \<exists>ei er. into_established_with_security L s sec hi3 = Inr ei
         \<and> into_established_with_security L s sec hr3 = Inr er \<and> paired R ei er
         \<and> en_path_security er = sec"
    using noise_phase [OF lib k ids s vm tr] by blast
  obtain ei er where e: "into_established_with_security L s sec hi3 = Inr ei"
    "into_established_with_security L s sec hr3 = Inr er" "paired R ei er" "en_path_security er = sec"
    using est by blast
  have "transport_ok L R" "hkdf_ok L" using lib by (simp_all add: hs_lib_ok_def)
  from exchange_agrees [OF this e(3,4) b, of ri "device_id J" ai "[m1, m3]" "[m2]"] ri
  obtain c1 c2 c3 mi mr where x: "frame_ok c1" "frame_ok c2" "frame_ok c3"
    "initiator_exchange send recv L (device_id J) ri sec ei (endpoint [c1, c3] (Suc 0) [m1, m3])
      = (Inr (mi, ai), endpoint [] 0 [m1, m3, c2])"
    "responder_exchange send recv L seed lr sec er (endpoint [c2] (Suc (Suc 0)) [m2])
      = (Inr mr, endpoint [] 0 [m2, c1, c3])"
    and ag: "agree mi mr" "sm_local_session_binding mi = li" "sm_local_session_binding mr = lr"
    by auto
  have "initiator_handshake send recv L (Some (ki, pi)) I (device_id J) (public_identity_key L J) s
      (Inr prof) policy ri (endpoint [m2, c1, c3] (Suc (Suc (Suc 0))) []) = (Inr (mi, ai), endpoint [] 0 [m1, m3, c2])"
    using m sec hello n e x by (simp add: initiator_handshake_def recv_endpoint send_endpoint)
  moreover from initiator_exchange_material [OF x(4)] e(3,4) have "sm_e2ee_policy mi = policy"
    by (simp add: paired_def sec_def split: if_splits) (metis path_policy.exhaust)
  moreover have "responder_handshake send recv L (Some (kr, pr)) seed J trusted (Inr prof) rp rr
      (endpoint [m1, m3, c2] (Suc (Suc (Suc 0))) []) = (Inr (device_id I, mr, ar), endpoint [] 0 [m2, c1, c3])"
    using sec hello n e x rr by (simp add: responder_handshake_def recv_endpoint send_endpoint)
  ultimately show ?thesis using ag by blast
qed

end

text \<open>The framed routes and QUIC streams are such channels.\<close>

definition generic_endpoint :: "route_transport \<Rightarrow> byte list list \<Rightarrow> nat \<Rightarrow> byte list list \<Rightarrow> hs_conn" where
  "generic_endpoint tr ins n out = \<lparr>hc_transport = tr, hc_incoming = map Some ins,
     hc_send_ok = replicate n True, hc_sent = out\<rparr>"

interpretation generic_channel: handshake_channel conn_send conn_recv "generic_endpoint tr" for tr
  by unfold_locales (simp_all add: generic_endpoint_def conn_recv_def conn_send_def)

definition quic_frame :: "byte list \<Rightarrow> byte list" where
  "quic_frame m = u32_be (of_nat (length m)) @ m"

definition quic_endpoint :: "byte list list \<Rightarrow> nat \<Rightarrow> byte list list \<Rightarrow> quic_stream" where
  "quic_endpoint ins n out = \<lparr>qs_in = concat (map quic_frame ins), qs_send_ok = replicate (2 * n) True,
     qs_out = concat (map quic_frame out)\<rparr>"

interpretation quic_channel: handshake_channel write_quic_frame read_quic_frame quic_endpoint
proof
  fix m ins n out
  assume "frame_ok m"
  then have m: "m \<noteq> []" "length m \<le> 65536" "unat (of_nat (length m) :: u32) = length m"
    by (auto simp: frame_ok_def unat_of_nat take_bit_nat_eq_self)
  then show "read_quic_frame (quic_endpoint (m # ins) n out) = (Inr m, quic_endpoint ins n out)"
    "write_quic_frame m (quic_endpoint ins (Suc n) out) = (Inr (), quic_endpoint ins n (out @ [m]))"
    by (simp_all add: read_quic_frame_def quic_read_def quic_endpoint_def quic_frame_def
        write_quic_frame_def quic_write_def handshake_limits Let_def)
qed

section \<open>The handshake through a relay\<close>

text \<open>
  A payload travels in a relay frame of its step.  \<open>relay_run\<close> is the order in which the six
  payloads are exchanged.
\<close>

definition relay_hop :: "byte \<Rightarrow> byte list \<Rightarrow> crypto_handshake_error + byte list" where
  "relay_hop step m =
     try_bind (encode_relay_frame step m) (\<lambda>frame.
     try_bind (decode_relay_frame frame) (\<lambda>(s, body). if s = step then Inr body else Inl HsInvalid))"

definition relay_run where
  "relay_run L kpi I kpr J seed trusted policy ri rr session =
     try_bind (relay_start_with_policy L kpi I session policy) (\<lambda>(i, hello).
     try_bind (relay_hop RELAY_CRYPTO_HELLO hello) (\<lambda>hello.
     try_bind (relay_accept_hello_with_policy L kpr J hello policy) (\<lambda>(r, response).
     try_bind (relay_hop RELAY_CRYPTO_RESPONSE response) (\<lambda>response.
     try_bind (keep (relay_accept_response L response (device_id J) (public_identity_key L J) i))
       (\<lambda>(final, i).
     try_bind (relay_hop RELAY_CRYPTO_FINAL final) (\<lambda>final.
     try_bind (relay_accept_final L seed final trusted rr r) (\<lambda>(peer, x, encrypted_seed).
     try_bind (relay_hop RELAY_CRYPTO_ROOT_SEED encrypted_seed) (\<lambda>encrypted_seed.
     try_bind (relay_accept_root_seed L encrypted_seed i) (\<lambda>y.
     try_bind (ri (device_id J) (ir_remote_session_binding y)) (\<lambda>(local, ai).
     try_bind (ir_confirm L local y) (\<lambda>(y, encrypted_confirm).
     try_bind (relay_hop RELAY_CRYPTO_ROOT_CONFIRM encrypted_confirm) (\<lambda>encrypted_confirm.
     try_bind (relay_accept_root_confirm L encrypted_confirm x) (\<lambda>(peer, encrypted_accept, mr, ar).
     try_bind (relay_hop RELAY_CRYPTO_ACCEPT encrypted_accept) (\<lambda>encrypted_accept.
     try_bind (ir_accept L encrypted_accept y) (\<lambda>mi. Inr (mi, ai, peer, mr, ar))))))))))))))))"

lemma relay_hop_ok: "step \<in> set relay_steps \<Longrightarrow> frame_ok m \<Longrightarrow> relay_hop step m = Inr m"
  by (simp add: relay_hop_def encode_relay_frame_def decode_relay_frame_def frame_ok_def handshake_limits)

text \<open>A relay path never runs without application encryption.\<close>

lemma relay_refuses_disabled:
  assumes "valid_binding session"
  shows "relay_start_with_policy L kp I session PolicyDisabled = Inl (HsPath RelayRequiresE2ee)"
  using assms by (simp add: relay_start_with_policy_def relay_path_metadata_def path_metadata_new_def
      validate_path_bytes_def path_limits valid_binding_def)

lemma relay_run_agrees:
  assumes lib: "hs_lib_ok L K R" and k: "K ki pi" "K kr pr"
    and ids: "valid_device_id (device_id I)" "valid_device_id (device_id J)" and s: "valid_binding s"
    and tr: "hm_get trusted (device_id I) = Some (public_identity_key L I)"
    and b: "valid_binding li" "valid_binding lr" "length seed = 32"
    and ri: "ri (device_id J) lr = Inr (li, ai)" and rr: "rr (device_id I) s = Inr (lr, ar)"
  shows "\<exists>mi mr. relay_run L (Some (ki, pi)) I (Some (kr, pr)) J seed trusted PolicyRequired ri rr s
      = Inr (mi, ai, device_id I, mr, ar) \<and> agree mi mr \<and> has_application_e2ee mi
    \<and> sm_local_session_binding mi = li \<and> sm_local_session_binding mr = lr"
proof -
  obtain m where m: "relay_path_metadata s PolicyRequired = Inr m"
    using s by (simp add: relay_path_metadata_def path_metadata_new_def validate_path_bytes_def
        path_limits valid_binding_def)
  have v: "valid_metadata m" "validate_relay_path_metadata m PolicyRequired = Inr PathE2ee"
    using m path_metadata_new_valid [of PolicyRequired PathRelay "str_bytes s" "str_bytes ''relay-data/v2''" m]
    by (auto simp: relay_path_metadata_def try_bind_Inr path_metadata_new_def if_Inl_Inr
        validate_relay_path_metadata_def security_for_Inr)
  have hello: "hello_payload_with_path s m = Inr (hello_bytes s m)"
    "parse_hello_with_path (hello_bytes s m) = Inr (s, m)"
    using v s by (simp_all add: hello_payload_Inr parse_hello_iff)
  obtain hi hr m1 hi1 hr1 p2 m2 hr2 hi2 p3 m3 hi3 hr3 where
    n: "noise_new L (Some (ki, pi)) I True = Inr hi" "noise_new L (Some (kr, pr)) J False = Inr hr"
    "nh_write L (hello_bytes s m) hi = (Inr m1, hi1)" "nh_read L m1 hr = (Inr (hello_bytes s m), hr1)"
    "proof_payload_with_signature_with_path L hr1 2 s s m = Inr p2"
    "nh_write L p2 hr1 = (Inr m2, hr2)" "nh_read L m2 hi1 = (Inr p2, hi2)"
    "validate_proof_with_path L p2 2 (device_id J) (public_identity_key L J) hi2 s m = Inr s"
    "proof_payload_with_signature_with_path L hi2 1 s s m = Inr p3"
    "nh_write L p3 hi2 = (Inr m3, hi3)" "nh_read L m3 hr2 = (Inr p3, hr3)"
    "authenticate_initiator L trusted p3 hr3 s m = Inr (device_id I)"
    "frame_ok m1" "frame_ok m2" "frame_ok m3"
    and est: "\<forall>sec. \<exists>ei er. into_established_with_security L s sec hi3 = Inr ei
         \<and> into_established_with_security L s sec hr3 = Inr er \<and> paired R ei er
         \<and> en_path_security er = sec"
    using noise_phase [OF lib k ids s v(1) tr] by blast
  obtain ei er where e: "into_established_with_security L s PathE2ee hi3 = Inr ei"
    "into_established_with_security L s PathE2ee hr3 = Inr er" "paired R ei er" "en_path_security er = PathE2ee"
    using est by blast
  have "transport_ok L R" "hkdf_ok L" using lib by (simp_all add: hs_lib_ok_def)
  from root_exchange_agrees [OF this e(3,4) b] obtain x c1 y y' c2 c3 mi mr where
    x: "begin_responder L seed lr er = Inr (x, c1)" "accept_root_seed L c1 ei = Inr y"
    "ir_remote_session_binding y = lr" "ir_confirm L li y = Inr (y', c2)"
    "rr_accept_confirm L c2 x = Inr (c3, mr)" "ir_accept L c3 y' = Inr mi"
    "frame_ok c1" "frame_ok c2" "frame_ok c3"
    and ag: "has_application_e2ee mi" "agree mi mr" "sm_local_session_binding mi = li"
    "sm_local_session_binding mr = lr" by blast
  have "relay_run L (Some (ki, pi)) I (Some (kr, pr)) J seed trusted PolicyRequired ri rr s
      = Inr (mi, ai, device_id I, mr, ar)"
    using s m v hello n e x ri rr
    by (simp add: relay_run_def relay_start_with_policy_def relay_hop_ok relay_steps_def
        relay_accept_hello_with_policy_def relay_accept_response_def relay_accept_final_def
        relay_accept_root_seed_def relay_accept_root_confirm_def Let_def)
  then show ?thesis using ag by blast
qed

end
