(* ===== verification/Handshake_Security.thy ===== *)
theory Handshake_Security
  imports Handshake_Agreement
begin

text \<open>
  The properties of the handshake as a whole, with a small library on which their hypotheses hold.
\<close>

section \<open>A library\<close>

text \<open>
  A Noise state is the role, the number of messages so far, the own static key and the static key
  of the peer; the second and third message carry the static key in front of their payload.
\<close>

type_synonym toy_noise = "bool \<times> nat \<times> byte list \<times> byte list option"

fun toy_write :: "byte list \<Rightarrow> nat \<Rightarrow> toy_noise \<Rightarrow> byte list option \<times> toy_noise" where
  "toy_write p n (i, k, s, r) =
     (let m = (if k = 0 then 0 # p else s @ p) in
      if length m \<le> n then (Some m, (i, Suc k, s, r)) else (None, (i, k, s, r)))"

fun toy_read :: "byte list \<Rightarrow> nat \<Rightarrow> toy_noise \<Rightarrow> byte list option \<times> toy_noise" where
  "toy_read m n (i, k, s, r) =
     (let p = (if k = 0 then tl m else drop 32 m) in
      if length p \<le> n then (Some p, (i, Suc k, s, if k = 0 then r else Some (take 32 m)))
      else (None, (i, k, s, r)))"

definition toy_lib :: "(byte, toy_noise, unit) hs_lib" where
  "toy_lib = \<lparr>hl_crypto = sum_lib, ed_public = replicate 32,
     ed_sign = (\<lambda>k m. replicate 63 k @ [sum_list m]), ed_key_ok = (\<lambda>k. length k = 32),
     ed_verify = (\<lambda>k m s. s = replicate 63 (hd k) @ [sum_list m]),
     noise_parse = (\<lambda>_. True), noise_build = (\<lambda>i k _. Some (i, 0, k, None)),
     noise_write = toy_write, noise_read = toy_read, noise_finished = (\<lambda>(_, k, _). k = 3),
     noise_hash = (\<lambda>_. replicate 32 7), noise_remote_static = (\<lambda>(_, _, _, r). r),
     noise_transport = (\<lambda>_. Some ()), transport_write = (\<lambda>p n t. (Some (replicate 16 0 @ p), t)),
     transport_read = (\<lambda>c n t. (Some (drop 16 c), t))\<rparr>"

lemma toy_lib_ok: "hs_lib_ok toy_lib (\<lambda>k p. p = k \<and> length k = 32) (\<lambda>_ _. True)"
  by (auto simp: hs_lib_ok_def noise_xx_def transport_ok_def ed25519_ok_def hkdf_ok_def toy_lib_def
      sum_lib_def noise_message_def noise_established_def Let_def)

section \<open>Agreement\<close>

lemma agree_linked:
  assumes "agree mi mr"
  shows "linked (from_session_root (sm_root_key mi) (sm_initiator mi))
      (from_session_root (sm_root_key mr) (sm_initiator mr))"
    and "linked (from_session_root (sm_root_key mr) (sm_initiator mr))
      (from_session_root (sm_root_key mi) (sm_initiator mi))"
  using assms linked_from_session_root [of "sm_root_key mr" True]
    linked_from_session_root [of "sm_root_key mr" False] by (simp_all add: agree_def)


definition alice :: "byte device_identity" where
  "alice = \<lparr>device_id = ''alice'', identity_key = 1, e2e_key = []\<rparr>"

definition bob :: "byte device_identity" where
  "bob = \<lparr>device_id = ''bob'', identity_key = 2, e2e_key = []\<rparr>"

definition admit :: "string \<Rightarrow> string \<Rightarrow> string \<Rightarrow> crypto_handshake_error + string \<times> unit" where
  "admit local peer remote = Inr (local, ())"

lemma sample_setup:
  "valid_device_id (device_id alice)" "valid_device_id (device_id bob)"
  "valid_binding ''a1''" "valid_binding ''b2''" "valid_binding ''c3''"
  "hm_get [(''alice'', replicate 32 1)] (device_id alice) = Some (public_identity_key toy_lib alice)"
  by (code_simp, code_simp, code_simp, code_simp, code_simp,
      simp add: alice_def public_identity_key_def toy_lib_def)




section \<open>Authentication\<close>

text \<open>
  C2.  Whatever arrives on the connection, an initiator that completes the handshake has verified
  a signature of the expected peer's key over the responder role, that peer's identity, the static
  key of the very Noise session it finishes, its own Session binding and the path it offered.  The
  material has exactly the security that was configured: neither a peer nor the network can
  lower it.
\<close>

theorem initiator_authenticates:
  assumes "initiator_handshake send recv L keypair identity peer key binding profile policy resolve c
    = (Inr (mat, adm), c')"
  shows "\<exists>prof m static local before after p msg.
    profile = Inr prof \<and> direct_path_metadata binding prof policy = Inr m
    \<and> noise_remote_static L before = Some static
    \<and> signed_proof L 2 peer key static binding local m
    \<and> noise_write L p MAX_HANDSHAKE_FRAME_BYTES before = (Some msg, after) \<and> noise_finished L after
    \<and> sm_initiator mat \<and> sm_e2ee_policy mat = policy \<and> (has_application_e2ee mat \<longleftrightarrow> policy = PolicyRequired)
    \<and> resolve peer (sm_remote_session_binding mat) = Inr (sm_local_session_binding mat, adm)"
proof -
  obtain prof m sec h h' body local proof' msg en c1 where
    r: "profile = Inr prof" "direct_path_metadata binding prof policy = Inr m"
    "security_for policy m = Inr sec"
    "validate_proof_with_path L body 2 peer key h binding m = Inr local"
    "keep (nh_write L proof' h) = Inr (msg, h')"
    "into_established_with_security L binding sec h' = Inr en"
    "initiator_exchange send recv L peer resolve sec en c1 = (Inr (mat, adm), c')"
    using assms unfolding initiator_handshake_def and_then_Inr
    by (auto simp: and_then_Inr split_beta)
  have m: "valid_binding binding" "valid_metadata m" "pm_e2ee_policy m = policy"
    using direct_path_metadata_Inr [OF r(2)] by simp_all
  have sec: "security_policy sec = policy" using r(3) by (simp add: security_for_Inr)
  obtain static where "noise_remote_static L (nh_state h) = Some static"
    "signed_proof L 2 peer key static binding local m"
    using validate_proof_signed [OF m(2,1) r(4)] by blast
  moreover obtain "en_path_security en = sec" "noise_finished L (nh_state h')"
    using into_established_fields [OF r(6)] by simp
  moreover obtain "noise_write L proof' MAX_HANDSHAKE_FRAME_BYTES (nh_state h) = (Some msg, nh_state h')"
    using keep_nh_write [OF r(5)] by auto
  moreover have "security_has_e2ee sec \<longleftrightarrow> policy = PolicyRequired"
    using sec by (cases sec) (auto simp: security_has_e2ee_def)
  ultimately show ?thesis
    using r(1,2) sec initiator_exchange_material [OF r(7)] unfolding has_application_e2ee_def by metis
qed

text \<open>
  C6.  Whatever arrives on the connection, a responder that completes the handshake hands out
  material only for a peer whose trusted key has signed the initiator role, that peer's identity,
  the static key of the very Noise session and the direct path of this transport, and admits it
  under the Session binding signed.  With a configured policy the material has that policy; without
  one it has the policy that the peer signed.
\<close>

theorem responder_authenticates:
  assumes "responder_handshake send recv L keypair seed identity trusted profile policy resolve c
    = (Inr (peer, mat, adm), c')"
  shows "\<exists>prof m binding key static s.
    profile = Inr prof \<and> valid_metadata m \<and> pm_path_kind m = PathDirect \<and> connection_profile m = prof
    \<and> hm_get trusted peer = Some key
    \<and> noise_remote_static L s = Some static \<and> noise_finished L s
    \<and> signed_proof L 1 peer key static binding binding m
    \<and> \<not> sm_initiator mat \<and> sm_e2ee_policy mat = pm_e2ee_policy m
    \<and> (\<forall>p. policy = Some p \<longrightarrow> sm_e2ee_policy mat = p)
    \<and> (has_application_e2ee mat \<longleftrightarrow> sm_e2ee_policy mat = PolicyRequired)
    \<and> resolve peer binding = Inr (sm_local_session_binding mat, adm)"
proof -
  let ?p = "\<lambda>m. case policy of Some p \<Rightarrow> p | None \<Rightarrow> pm_e2ee_policy m"
  obtain hello binding prof m sec h body en local c1 where
    r: "profile = Inr prof" "parse_hello_with_path hello = Inr (binding, m)"
    "validate_direct_path_metadata m prof (?p m) = Inr sec"
    "authenticate_initiator L trusted body h binding m = Inr peer"
    "resolve peer binding = Inr (local, adm)"
    "into_established_with_security L binding sec h = Inr en"
    "responder_exchange send recv L seed local sec en c1 = (Inr mat, c')"
    using assms unfolding responder_handshake_def and_then_Inr
    by (cases policy) (auto simp: and_then_Inr split_beta)
  have m: "valid_binding binding" "valid_metadata m" using r(2) by (simp_all add: parse_hello_iff)
  have v: "pm_path_kind m = PathDirect" "connection_profile m = prof" "security_for (?p m) m = Inr sec"
    using r(3) by (auto simp: validate_direct_path_metadata_def if_Inl_Inr)
  then have sec: "security_policy sec = pm_e2ee_policy m" "\<forall>p. policy = Some p \<longrightarrow> p = pm_e2ee_policy m"
    by (auto simp: security_for_Inr)
  obtain key static where "hm_get trusted peer = Some key" "noise_remote_static L (nh_state h) = Some static"
    "signed_proof L 1 peer key static binding binding m"
    using authenticate_initiator_signed [OF m(2,1) r(4)] by blast
  moreover obtain e: "en_path_security en = sec" "noise_finished L (nh_state h)"
    using into_established_fields [OF r(6)] by simp
  moreover have "security_has_e2ee sec \<longleftrightarrow> pm_e2ee_policy m = PolicyRequired"
    using sec by (cases sec) (auto simp: security_has_e2ee_def)
  ultimately show ?thesis
    using r(1,5) m(2) v(1,2) sec responder_exchange_material [OF r(7) e(1)]
    unfolding has_application_e2ee_def by metis
qed

lemma sample_run:
  obtains fr fi mi mr where
    "initiator_handshake conn_send conn_recv toy_lib (Some (replicate 32 5, replicate 32 5)) alice ''bob''
      (replicate 32 2) ''a1'' (Inr (str_bytes ''direct/tcp/v2'')) PolicyRequired (admit ''b2'')
      (generic_endpoint RouteTcp fr 3 []) = (Inr (mi, ()), generic_endpoint RouteTcp [] 0 fi)"
    "responder_handshake conn_send conn_recv toy_lib (Some (replicate 32 6, replicate 32 6)) (replicate 32 9) bob
      [(''alice'', replicate 32 1)] (Inr (str_bytes ''direct/tcp/v2'')) None (admit ''c3'')
      (generic_endpoint RouteTcp fi 3 []) = (Inr (''alice'', mr, ()), generic_endpoint RouteTcp [] 0 fr)"
proof -
  have k: "replicate 32 k = replicate 32 k \<and> length (replicate 32 (k :: byte)) = 32" for k by simp
  have l: "length (replicate 32 (9 :: byte)) = 32" "(None :: path_policy option) = None \<or> None = Some PolicyRequired"
    "str_bytes ''direct/tcp/v2'' \<noteq> []" "length (str_bytes ''direct/tcp/v2'') \<le> 256" by simp_all
  have a: "admit ''b2'' (device_id bob) ''c3'' = Inr (''b2'', ())"
    "admit ''c3'' (device_id alice) ''a1'' = Inr (''c3'', ())" "device_id bob = ''bob''"
    "device_id alice = ''alice''" "public_identity_key toy_lib bob = replicate 32 2"
    by (simp_all add: admit_def bob_def alice_def public_identity_key_def toy_lib_def)
  show thesis
    using generic_channel.handshake_agrees [where ri = "admit ''b2''" and rr = "admit ''c3''"
        and policy = PolicyRequired and tr = RouteTcp,
        OF toy_lib_ok k [of 5] k [of 6] sample_setup(1-3) l(3,4,2) sample_setup(6,4,5) l(1) a(1,2)] that
    unfolding a(3-5) numeral_3_eq_3 by blast
qed

theorem initiator_authenticates_witness:
  "\<exists>c mat c' prof m static local.
     initiator_handshake conn_send conn_recv toy_lib (Some (replicate 32 5, replicate 32 5)) alice ''bob''
       (replicate 32 2) ''a1'' (Inr prof) PolicyRequired (admit ''b2'') c = (Inr (mat, ()), c')
     \<and> direct_path_metadata ''a1'' prof PolicyRequired = Inr m
     \<and> signed_proof toy_lib 2 ''bob'' (replicate 32 2) static ''a1'' local m
     \<and> has_application_e2ee mat"
proof -
  obtain fr fi mi where r: "initiator_handshake conn_send conn_recv toy_lib
      (Some (replicate 32 5, replicate 32 5)) alice ''bob'' (replicate 32 2) ''a1''
      (Inr (str_bytes ''direct/tcp/v2'')) PolicyRequired (admit ''b2'') (generic_endpoint RouteTcp fr 3 [])
    = (Inr (mi, ()), generic_endpoint RouteTcp [] 0 fi)" using sample_run by blast
  show ?thesis using initiator_authenticates [OF r] r by blast
qed

theorem responder_authenticates_witness:
  "\<exists>c mat c' prof m binding static.
     responder_handshake conn_send conn_recv toy_lib (Some (replicate 32 6, replicate 32 6)) (replicate 32 9)
       bob [(''alice'', replicate 32 1)] (Inr prof) None (admit ''c3'') c = (Inr (''alice'', mat, ()), c')
     \<and> signed_proof toy_lib 1 ''alice'' (replicate 32 1) static binding binding m
     \<and> sm_e2ee_policy mat = pm_e2ee_policy m"
proof -
  obtain fr fi mr where r: "responder_handshake conn_send conn_recv toy_lib
      (Some (replicate 32 6, replicate 32 6)) (replicate 32 9) bob [(''alice'', replicate 32 1)]
      (Inr (str_bytes ''direct/tcp/v2'')) None (admit ''c3'') (generic_endpoint RouteTcp fi 3 [])
    = (Inr (''alice'', mr, ()), generic_endpoint RouteTcp [] 0 fr)" using sample_run by blast
  show ?thesis using responder_authenticates [OF r] r by fastforce
qed

end
