(* ===== verification/Spec2Isabelle.thy ===== *)
theory Spec2Isabelle
  imports Session_Admission Crypto_Session Stream_Manager Delivery_End_To_End Command_Worker Candidate_Policy Webrtc_Delivery Webrtc_Driver Handshake_Security
begin

text \<open>
  Verification of the native network core of ssh_mobile.
\<close>

end
